(* ===== verification/Prelude.thy ===== *)
theory Prelude
  imports Main "HOL-Library.Word" "HOL-Library.AList"
begin

text \<open>
  Shared material of the development: the error codes of
  \<^verbatim>\<open>core/coretypes/include/coretypes/errors.h\<close> and the macros that test and propagate them,
  insertion-ordered maps (the \<^verbatim>\<open>tsl::ordered_map\<close> and \<^verbatim>\<open>std::map\<close> members of the classes
  become association lists with distinct keys, because their iteration order is observable),
  the interface locales that the components implement, and generic facts on lists.
\<close>

unbundle bit_operations_syntax

named_theorems err_simps \<open>facts that decide whether an error code is a failure\<close>
named_theorems omap_simps \<open>facts on insertion-ordered maps\<close>

type_synonym SizeT = "64 word"

section \<open>Error codes\<close>

definition OPENDAQ_ERRTYPE_GENERIC :: "32 word" where
  "OPENDAQ_ERRTYPE_GENERIC = 0"

definition OPENDAQ_ERRTYPE_COMPONENT :: "32 word" where
  "OPENDAQ_ERRTYPE_COMPONENT = 0x0E"

definition OPENDAQ_ERRTYPE_SIGNAL :: "32 word" where
  "OPENDAQ_ERRTYPE_SIGNAL = 0x0A"

definition OPENDAQ_ERROR_CODE :: "32 word \<Rightarrow> 32 word \<Rightarrow> 32 word" where
  "OPENDAQ_ERROR_CODE type_id error_code = 0x80000000 OR push_bit 16 type_id OR error_code"

definition OPENDAQ_FAILED_word :: "32 word \<Rightarrow> bool" where
  "OPENDAQ_FAILED_word x \<longleftrightarrow> x AND 0x80000000 \<noteq> 0"

text \<open>
  Every code of \<^verbatim>\<open>errors.h\<close>, and those used of \<^verbatim>\<open>component_errors.h\<close> and \<^verbatim>\<open>signal_errors.h\<close>, is a constructor; \<open>err_word\<close> gives its 32-bit value.
\<close>

datatype (plugins only: code) ErrCode =
    OPENDAQ_SUCCESS
  | OPENDAQ_LOWER
  | OPENDAQ_EQUAL
  | OPENDAQ_GREATER
  | OPENDAQ_NO_MORE_ITEMS
  | OPENDAQ_IGNORED
  | OPENDAQ_NOTFOUND
  | OPENDAQ_PARTIAL_SUCCESS
  | OPENDAQ_ERR_NOMEMORY
  | OPENDAQ_ERR_INVALIDPARAMETER
  | OPENDAQ_ERR_NOINTERFACE
  | OPENDAQ_ERR_SIZETOOSMALL
  | OPENDAQ_ERR_CONVERSIONFAILED
  | OPENDAQ_ERR_OUTOFRANGE
  | OPENDAQ_ERR_NOTFOUND
  | OPENDAQ_ERR_ALREADYEXISTS
  | OPENDAQ_ERR_NOTASSIGNED
  | OPENDAQ_ERR_CALLFAILED
  | OPENDAQ_ERR_PARSEFAILED
  | OPENDAQ_ERR_INVALIDVALUE
  | OPENDAQ_ERR_RESOLVEFAILED
  | OPENDAQ_ERR_INVALIDTYPE
  | OPENDAQ_ERR_ACCESSDENIED
  | OPENDAQ_ERR_NOTENABLED
  | OPENDAQ_ERR_GENERALERROR
  | OPENDAQ_ERR_CALCFAILED
  | OPENDAQ_ERR_NOTIMPLEMENTED
  | OPENDAQ_ERR_FROZEN
  | OPENDAQ_ERR_NOT_SERIALIZABLE
  | OPENDAQ_ERR_FACTORY_NOT_REGISTERED
  | OPENDAQ_ERR_DESERIALIZE_PARSE_ERROR
  | OPENDAQ_ERR_DESERIALIZE_UNKNOWN_TYPE
  | OPENDAQ_ERR_DESERIALIZE_NO_TYPE
  | OPENDAQ_ERR_INVALIDPROPERTY
  | OPENDAQ_ERR_DUPLICATEITEM
  | OPENDAQ_ERR_ARGUMENT_NULL
  | OPENDAQ_ERR_INVALID_OPERATION
  | OPENDAQ_ERR_UNINITIALIZED
  | OPENDAQ_ERR_INVALIDSTATE
  | OPENDAQ_ERR_VALIDATE_FAILED
  | OPENDAQ_ERR_NOT_UPDATABLE
  | OPENDAQ_ERR_NO_COMPATIBLE_VERSION
  | OPENDAQ_ERR_LOCKED
  | OPENDAQ_ERR_SIZETOOLARGE
  | OPENDAQ_ERR_BUFFERFULL
  | OPENDAQ_ERR_CREATE_FAILED
  | OPENDAQ_ERR_EMPTY_SCALING_TABLE
  | OPENDAQ_ERR_EMPTY_RANGE
  | OPENDAQ_ERR_DISCOVERY_FAILED
  | OPENDAQ_ERR_COERCE_FAILED
  | OPENDAQ_ERR_NOT_SUPPORTED
  | OPENDAQ_ERR_LIST_NOT_HOMOGENEOUS
  | OPENDAQ_ERR_NOT_FROZEN
  | OPENDAQ_ERR_NO_TYPE_MANAGER
  | OPENDAQ_ERR_NO_DATA
  | OPENDAQ_ERR_INVALID_ARGUMENT
  | OPENDAQ_ERR_DEVICE_LOCKED
  | OPENDAQ_ERR_RESERVED_TYPE_NAME
  | OPENDAQ_ERR_COMPONENT_REMOVED
  | OPENDAQ_ERR_INVALID_SAMPLE_TYPE

primrec err_word :: "ErrCode \<Rightarrow> 32 word" where
  "err_word OPENDAQ_SUCCESS = 0"
| "err_word OPENDAQ_LOWER = 2"
| "err_word OPENDAQ_EQUAL = 3"
| "err_word OPENDAQ_GREATER = 4"
| "err_word OPENDAQ_NO_MORE_ITEMS = 5"
| "err_word OPENDAQ_IGNORED = 6"
| "err_word OPENDAQ_NOTFOUND = 7"
| "err_word OPENDAQ_PARTIAL_SUCCESS = 8"
| "err_word OPENDAQ_ERR_NOMEMORY = OPENDAQ_ERROR_CODE OPENDAQ_ERRTYPE_GENERIC 0"
| "err_word OPENDAQ_ERR_INVALIDPARAMETER = OPENDAQ_ERROR_CODE OPENDAQ_ERRTYPE_GENERIC 1"
| "err_word OPENDAQ_ERR_NOINTERFACE = OPENDAQ_ERROR_CODE OPENDAQ_ERRTYPE_GENERIC 16386"
| "err_word OPENDAQ_ERR_SIZETOOSMALL = OPENDAQ_ERROR_CODE OPENDAQ_ERRTYPE_GENERIC 3"
| "err_word OPENDAQ_ERR_CONVERSIONFAILED = OPENDAQ_ERROR_CODE OPENDAQ_ERRTYPE_GENERIC 4"
| "err_word OPENDAQ_ERR_OUTOFRANGE = OPENDAQ_ERROR_CODE OPENDAQ_ERRTYPE_GENERIC 5"
| "err_word OPENDAQ_ERR_NOTFOUND = OPENDAQ_ERROR_CODE OPENDAQ_ERRTYPE_GENERIC 6"
| "err_word OPENDAQ_ERR_ALREADYEXISTS = OPENDAQ_ERROR_CODE OPENDAQ_ERRTYPE_GENERIC 10"
| "err_word OPENDAQ_ERR_NOTASSIGNED = OPENDAQ_ERROR_CODE OPENDAQ_ERRTYPE_GENERIC 11"
| "err_word OPENDAQ_ERR_CALLFAILED = OPENDAQ_ERROR_CODE OPENDAQ_ERRTYPE_GENERIC 12"
| "err_word OPENDAQ_ERR_PARSEFAILED = OPENDAQ_ERROR_CODE OPENDAQ_ERRTYPE_GENERIC 13"
| "err_word OPENDAQ_ERR_INVALIDVALUE = OPENDAQ_ERROR_CODE OPENDAQ_ERRTYPE_GENERIC 14"
| "err_word OPENDAQ_ERR_RESOLVEFAILED = OPENDAQ_ERROR_CODE OPENDAQ_ERRTYPE_GENERIC 16"
| "err_word OPENDAQ_ERR_INVALIDTYPE = OPENDAQ_ERROR_CODE OPENDAQ_ERRTYPE_GENERIC 17"
| "err_word OPENDAQ_ERR_ACCESSDENIED = OPENDAQ_ERROR_CODE OPENDAQ_ERRTYPE_GENERIC 18"
| "err_word OPENDAQ_ERR_NOTENABLED = OPENDAQ_ERROR_CODE OPENDAQ_ERRTYPE_GENERIC 19"
| "err_word OPENDAQ_ERR_GENERALERROR = OPENDAQ_ERROR_CODE OPENDAQ_ERRTYPE_GENERIC 20"
| "err_word OPENDAQ_ERR_CALCFAILED = OPENDAQ_ERROR_CODE OPENDAQ_ERRTYPE_GENERIC 21"
| "err_word OPENDAQ_ERR_NOTIMPLEMENTED = OPENDAQ_ERROR_CODE OPENDAQ_ERRTYPE_GENERIC 22"
| "err_word OPENDAQ_ERR_FROZEN = OPENDAQ_ERROR_CODE OPENDAQ_ERRTYPE_GENERIC 23"
| "err_word OPENDAQ_ERR_NOT_SERIALIZABLE = OPENDAQ_ERROR_CODE OPENDAQ_ERRTYPE_GENERIC 24"
| "err_word OPENDAQ_ERR_FACTORY_NOT_REGISTERED = OPENDAQ_ERROR_CODE OPENDAQ_ERRTYPE_GENERIC 32"
| "err_word OPENDAQ_ERR_DESERIALIZE_PARSE_ERROR = OPENDAQ_ERROR_CODE OPENDAQ_ERRTYPE_GENERIC 33"
| "err_word OPENDAQ_ERR_DESERIALIZE_UNKNOWN_TYPE = OPENDAQ_ERROR_CODE OPENDAQ_ERRTYPE_GENERIC 34"
| "err_word OPENDAQ_ERR_DESERIALIZE_NO_TYPE = OPENDAQ_ERROR_CODE OPENDAQ_ERRTYPE_GENERIC 35"
| "err_word OPENDAQ_ERR_INVALIDPROPERTY = OPENDAQ_ERROR_CODE OPENDAQ_ERRTYPE_GENERIC 36"
| "err_word OPENDAQ_ERR_DUPLICATEITEM = OPENDAQ_ERROR_CODE OPENDAQ_ERRTYPE_GENERIC 37"
| "err_word OPENDAQ_ERR_ARGUMENT_NULL = OPENDAQ_ERROR_CODE OPENDAQ_ERRTYPE_GENERIC 38"
| "err_word OPENDAQ_ERR_INVALID_OPERATION = OPENDAQ_ERROR_CODE OPENDAQ_ERRTYPE_GENERIC 39"
| "err_word OPENDAQ_ERR_UNINITIALIZED = OPENDAQ_ERROR_CODE OPENDAQ_ERRTYPE_GENERIC 40"
| "err_word OPENDAQ_ERR_INVALIDSTATE = OPENDAQ_ERROR_CODE OPENDAQ_ERRTYPE_GENERIC 41"
| "err_word OPENDAQ_ERR_VALIDATE_FAILED = OPENDAQ_ERROR_CODE OPENDAQ_ERRTYPE_GENERIC 48"
| "err_word OPENDAQ_ERR_NOT_UPDATABLE = OPENDAQ_ERROR_CODE OPENDAQ_ERRTYPE_GENERIC 49"
| "err_word OPENDAQ_ERR_NO_COMPATIBLE_VERSION = OPENDAQ_ERROR_CODE OPENDAQ_ERRTYPE_GENERIC 50"
| "err_word OPENDAQ_ERR_LOCKED = OPENDAQ_ERROR_CODE OPENDAQ_ERRTYPE_GENERIC 51"
| "err_word OPENDAQ_ERR_SIZETOOLARGE = OPENDAQ_ERROR_CODE OPENDAQ_ERRTYPE_GENERIC 52"
| "err_word OPENDAQ_ERR_BUFFERFULL = OPENDAQ_ERROR_CODE OPENDAQ_ERRTYPE_GENERIC 53"
| "err_word OPENDAQ_ERR_CREATE_FAILED = OPENDAQ_ERROR_CODE OPENDAQ_ERRTYPE_GENERIC 54"
| "err_word OPENDAQ_ERR_EMPTY_SCALING_TABLE = OPENDAQ_ERROR_CODE OPENDAQ_ERRTYPE_GENERIC 55"
| "err_word OPENDAQ_ERR_EMPTY_RANGE = OPENDAQ_ERROR_CODE OPENDAQ_ERRTYPE_GENERIC 56"
| "err_word OPENDAQ_ERR_DISCOVERY_FAILED = OPENDAQ_ERROR_CODE OPENDAQ_ERRTYPE_GENERIC 57"
| "err_word OPENDAQ_ERR_COERCE_FAILED = OPENDAQ_ERROR_CODE OPENDAQ_ERRTYPE_GENERIC 64"
| "err_word OPENDAQ_ERR_NOT_SUPPORTED = OPENDAQ_ERROR_CODE OPENDAQ_ERRTYPE_GENERIC 65"
| "err_word OPENDAQ_ERR_LIST_NOT_HOMOGENEOUS = OPENDAQ_ERROR_CODE OPENDAQ_ERRTYPE_GENERIC 66"
| "err_word OPENDAQ_ERR_NOT_FROZEN = OPENDAQ_ERROR_CODE OPENDAQ_ERRTYPE_GENERIC 67"
| "err_word OPENDAQ_ERR_NO_TYPE_MANAGER = OPENDAQ_ERROR_CODE OPENDAQ_ERRTYPE_GENERIC 68"
| "err_word OPENDAQ_ERR_NO_DATA = OPENDAQ_ERROR_CODE OPENDAQ_ERRTYPE_GENERIC 80"
| "err_word OPENDAQ_ERR_INVALID_ARGUMENT = OPENDAQ_ERROR_CODE OPENDAQ_ERRTYPE_GENERIC 81"
| "err_word OPENDAQ_ERR_DEVICE_LOCKED = OPENDAQ_ERROR_CODE OPENDAQ_ERRTYPE_GENERIC 82"
| "err_word OPENDAQ_ERR_RESERVED_TYPE_NAME = OPENDAQ_ERROR_CODE OPENDAQ_ERRTYPE_GENERIC 83"
| "err_word OPENDAQ_ERR_COMPONENT_REMOVED = OPENDAQ_ERROR_CODE OPENDAQ_ERRTYPE_COMPONENT 0"
| "err_word OPENDAQ_ERR_INVALID_SAMPLE_TYPE = OPENDAQ_ERROR_CODE OPENDAQ_ERRTYPE_SIGNAL 8"

text \<open>
  The model works on the constructors; \<open>OPENDAQ_FAILED\<close> is the test of the top bit on them.
\<close>

definition OPENDAQ_FAILED :: "ErrCode \<Rightarrow> bool" where
  "OPENDAQ_FAILED e \<longleftrightarrow> e \<notin> {OPENDAQ_SUCCESS, OPENDAQ_LOWER, OPENDAQ_EQUAL, OPENDAQ_GREATER,
     OPENDAQ_NO_MORE_ITEMS, OPENDAQ_IGNORED, OPENDAQ_NOTFOUND, OPENDAQ_PARTIAL_SUCCESS}"

lemma OPENDAQ_FAILED_top_bit: "OPENDAQ_FAILED e \<longleftrightarrow> OPENDAQ_FAILED_word (err_word e)"
  by (cases e)
     (simp_all add: OPENDAQ_FAILED_def OPENDAQ_FAILED_word_def OPENDAQ_ERROR_CODE_def
       OPENDAQ_ERRTYPE_GENERIC_def OPENDAQ_ERRTYPE_COMPONENT_def OPENDAQ_ERRTYPE_SIGNAL_def)

definition OPENDAQ_SUCCEEDED :: "ErrCode \<Rightarrow> bool" where
  "OPENDAQ_SUCCEEDED e \<longleftrightarrow> \<not> OPENDAQ_FAILED e"

lemma failed_simps [simp, err_simps]:
  "\<not> OPENDAQ_FAILED OPENDAQ_SUCCESS"
  "\<not> OPENDAQ_FAILED OPENDAQ_NO_MORE_ITEMS"
  "\<not> OPENDAQ_FAILED OPENDAQ_IGNORED"
  "\<not> OPENDAQ_FAILED OPENDAQ_PARTIAL_SUCCESS"
  "OPENDAQ_FAILED OPENDAQ_ERR_INVALIDPARAMETER"
  "OPENDAQ_FAILED OPENDAQ_ERR_ARGUMENT_NULL"
  "OPENDAQ_FAILED OPENDAQ_ERR_NOTFOUND"
  "OPENDAQ_FAILED OPENDAQ_ERR_ALREADYEXISTS"
  "OPENDAQ_FAILED OPENDAQ_ERR_FROZEN"
  "OPENDAQ_FAILED OPENDAQ_ERR_ACCESSDENIED"
  "OPENDAQ_FAILED OPENDAQ_ERR_INVALIDSTATE"
  "OPENDAQ_FAILED OPENDAQ_ERR_INVALID_OPERATION"
  "OPENDAQ_FAILED OPENDAQ_ERR_INVALIDTYPE"
  "OPENDAQ_FAILED OPENDAQ_ERR_INVALIDVALUE"
  "OPENDAQ_FAILED OPENDAQ_ERR_OUTOFRANGE"
  "OPENDAQ_FAILED OPENDAQ_ERR_BUFFERFULL"
  "OPENDAQ_FAILED OPENDAQ_ERR_DUPLICATEITEM"
  "OPENDAQ_FAILED OPENDAQ_ERR_GENERALERROR"
  "OPENDAQ_FAILED OPENDAQ_ERR_CONVERSIONFAILED"
  "OPENDAQ_FAILED OPENDAQ_ERR_INVALIDPROPERTY"
  "OPENDAQ_FAILED OPENDAQ_ERR_COMPONENT_REMOVED"
  "OPENDAQ_FAILED OPENDAQ_ERR_INVALID_SAMPLE_TYPE"
  by (simp_all add: OPENDAQ_FAILED_def)

text \<open>
  A pure computation that throws a \<^verbatim>\<open>DaqException\<close> (or returns early with an error code) is a
  sum: \<open>Inl\<close> the error code, \<open>Inr\<close> the result.
\<close>

type_synonym 'a result = "ErrCode + 'a"

definition res_bind :: "'a result \<Rightarrow> ('a \<Rightarrow> 'b result) \<Rightarrow> 'b result" where
  "res_bind r f = (case r of Inl e \<Rightarrow> Inl e | Inr x \<Rightarrow> f x)"

lemma res_bind_simps [simp]:
  "res_bind (Inl e) f = Inl e"
  "res_bind (Inr x) f = f x"
  by (simp_all add: res_bind_def)

lemma res_bind_eq_Inr [simp]: "res_bind r f = Inr y \<longleftrightarrow> (\<exists>x. r = Inr x \<and> f x = Inr y)"
  by (cases r) simp_all

lemma res_bind_eq_Inl:
  "res_bind r f = Inl e \<longleftrightarrow> r = Inl e \<or> (\<exists>x. r = Inr x \<and> f x = Inl e)"
  by (cases r) auto

section \<open>Insertion-ordered maps\<close>

text \<open>
  \<open>om_insert\<close> is \<^verbatim>\<open>insert\<close>/\<^verbatim>\<open>emplace\<close>/\<^verbatim>\<open>try_emplace\<close> (an existing key keeps its value),
  \<open>om_assign\<close> is \<^verbatim>\<open>insert_or_assign\<close> (the position of an existing key is kept),
  \<open>om_erase\<close> is \<^verbatim>\<open>erase\<close>, which keeps the order of the rest.
\<close>

type_synonym ('k, 'v) omap = "('k \<times> 'v) list"

definition om_ok :: "('k, 'v) omap \<Rightarrow> bool" where
  "om_ok m \<longleftrightarrow> distinct (map fst m)"

definition om_has :: "('k, 'v) omap \<Rightarrow> 'k \<Rightarrow> bool" where
  "om_has m k \<longleftrightarrow> map_of m k \<noteq> None"

definition om_insert :: "'k \<Rightarrow> 'v \<Rightarrow> ('k, 'v) omap \<Rightarrow> ('k, 'v) omap" where
  "om_insert k v m = (if om_has m k then m else m @ [(k, v)])"

definition om_assign :: "'k \<Rightarrow> 'v \<Rightarrow> ('k, 'v) omap \<Rightarrow> ('k, 'v) omap" where
  "om_assign k v m = AList.update k v m"

definition om_erase :: "'k \<Rightarrow> ('k, 'v) omap \<Rightarrow> ('k, 'v) omap" where
  "om_erase k m = AList.delete k m"

lemma om_has_iff: "om_has m k \<longleftrightarrow> k \<in> fst ` set m"
  by (simp add: om_has_def map_of_eq_None_iff)

lemma om_ok_Nil [simp]: "om_ok []"
  by (simp add: om_ok_def)

lemma om_ok_insert [simp]: "om_ok m \<Longrightarrow> om_ok (om_insert k v m)"
  by (auto simp: om_ok_def om_insert_def om_has_iff)

lemma om_ok_assign [simp]: "om_ok m \<Longrightarrow> om_ok (om_assign k v m)"
  by (simp add: om_ok_def om_assign_def distinct_update)

lemma om_ok_erase [simp]: "om_ok m \<Longrightarrow> om_ok (om_erase k m)"
  by (simp add: om_ok_def om_erase_def distinct_delete)

lemma map_of_om_insert [omap_simps]:
  "map_of (om_insert k v m) = (if om_has m k then map_of m else (map_of m)(k \<mapsto> v))"
  by (auto simp: om_insert_def om_has_def fun_eq_iff map_add_def split: option.splits)

lemma map_of_om_assign [omap_simps]: "map_of (om_assign k v m) = (map_of m)(k \<mapsto> v)"
  by (simp add: om_assign_def update_conv')

lemma map_of_om_erase [omap_simps]: "map_of (om_erase k m) = (map_of m)(k := None)"
  by (simp add: om_erase_def delete_conv')

lemma keys_om_insert [omap_simps]:
  "map fst (om_insert k v m) = (if om_has m k then map fst m else map fst m @ [k])"
  by (simp add: om_insert_def)

lemma keys_om_assign [omap_simps]:
  "map fst (om_assign k v m) = (if om_has m k then map fst m else map fst m @ [k])"
  by (auto simp: om_assign_def om_has_iff update_keys)

lemma keys_om_erase [omap_simps]: "map fst (om_erase k m) = filter (\<lambda>x. x \<noteq> k) (map fst m)"
  by (induction m) (auto simp: om_erase_def AList.delete_eq)

lemma om_erase_absent: "\<not> om_has m k \<Longrightarrow> om_erase k m = m"
  by (simp add: om_erase_def delete_idem om_has_iff)

text \<open>The contract of a keyed member, on which the owning classes rely.\<close>

locale keyed_store =
  fixes lookup :: "'m \<Rightarrow> 'k \<Rightarrow> 'v option"
    and ins :: "'k \<Rightarrow> 'v \<Rightarrow> 'm \<Rightarrow> 'm"
    and assign :: "'k \<Rightarrow> 'v \<Rightarrow> 'm \<Rightarrow> 'm"
    and erase :: "'k \<Rightarrow> 'm \<Rightarrow> 'm"
    and ok :: "'m \<Rightarrow> bool"
  assumes lookup_ins: "ok m \<Longrightarrow> lookup (ins k v m) =
            (if lookup m k = None then (lookup m)(k \<mapsto> v) else lookup m)"
    and lookup_assign: "ok m \<Longrightarrow> lookup (assign k v m) = (lookup m)(k \<mapsto> v)"
    and lookup_erase: "ok m \<Longrightarrow> lookup (erase k m) = (lookup m)(k := None)"
    and ok_ins: "ok m \<Longrightarrow> ok (ins k v m)"
    and ok_assign: "ok m \<Longrightarrow> ok (assign k v m)"
    and ok_erase: "ok m \<Longrightarrow> ok (erase k m)"
begin

lemma ins_erase_same: "ok m \<Longrightarrow> lookup (ins k v (erase k m)) k = Some v"
  by (simp add: lookup_ins lookup_erase ok_erase)

lemma ins_keeps: "ok m \<Longrightarrow> lookup m k' = Some w \<Longrightarrow> lookup (ins k v m) k' = Some w"
  by (auto simp: lookup_ins)

lemma fold_assign_other:
  "ok m \<Longrightarrow> k \<notin> fst ` set kvs \<Longrightarrow>
   lookup (fold (\<lambda>(a, b). assign a b) kvs m) k = lookup m k"
proof (induction kvs arbitrary: m)
  case (Cons ab kvs)
  then show ?case
    by (cases ab) (auto simp: lookup_assign ok_assign)
qed simp

end

interpretation om: keyed_store map_of om_insert om_assign om_erase om_ok
  by unfold_locales (auto simp: omap_simps om_has_def)

section \<open>Queues\<close>

text \<open>
  A first-in first-out component: \<open>put\<close> appends the items \<open>emitted x q\<close> (possibly more than
  the one handed in) and \<open>take\<close> removes the oldest. The order in which items come out is proved
  here once, for any interleaving of the two operations.
\<close>

datatype 'x fifo_op = Put 'x | Take

fun fifo_run :: "('x \<Rightarrow> 'q \<Rightarrow> 'q) \<Rightarrow> ('q \<Rightarrow> 'y option \<times> 'q) \<Rightarrow> ('x \<Rightarrow> 'q \<Rightarrow> 'y list)
    \<Rightarrow> 'x fifo_op list \<Rightarrow> 'q \<Rightarrow> 'y list \<times> 'y list \<times> 'q" where
  "fifo_run put tk em [] q = ([], [], q)"
| "fifo_run put tk em (Put x # ops) q =
     (let (ins, outs, q') = fifo_run put tk em ops (put x q) in (em x q @ ins, outs, q'))"
| "fifo_run put tk em (Take # ops) q =
     (case tk q of
        (None, q1) \<Rightarrow> fifo_run put tk em ops q1
      | (Some y, q1) \<Rightarrow>
          (let (ins, outs, q') = fifo_run put tk em ops q1 in (ins, y # outs, q')))"

locale fifo =
  fixes put :: "'x \<Rightarrow> 'q \<Rightarrow> 'q"
    and take_one :: "'q \<Rightarrow> 'y option \<times> 'q"
    and emitted :: "'x \<Rightarrow> 'q \<Rightarrow> 'y list"
    and contents :: "'q \<Rightarrow> 'y list"
  assumes contents_put: "contents (put x q) = contents q @ emitted x q"
    and take_empty: "contents q = [] \<Longrightarrow> fst (take_one q) = None \<and> contents (snd (take_one q)) = []"
    and take_nonempty: "contents q = y # ys \<Longrightarrow>
          fst (take_one q) = Some y \<and> contents (snd (take_one q)) = ys"
begin

lemma run_order:
  "fifo_run put take_one emitted ops q = (ins, outs, q') \<Longrightarrow> outs @ contents q' = contents q @ ins"
proof (induction ops arbitrary: q ins outs q')
  case Nil
  then show ?case by simp
next
  case (Cons op ops)
  show ?case
  proof (cases op)
    case (Put x)
    with Cons show ?thesis
      by (auto simp: contents_put split: prod.splits)
  next
    case Take
    show ?thesis
    proof (cases "contents q")
      case Nil
      with take_empty[of q] Cons Take show ?thesis
        by (auto split: prod.splits option.splits)
    next
      case (Cons y ys)
      with take_nonempty[of q y ys] Cons.IH Cons.prems Take show ?thesis
        by (auto split: prod.splits option.splits)
    qed
  qed
qed

end

section \<open>Words and lists\<close>

lemma of_nat64_eq_0: "n < 2 ^ 64 \<Longrightarrow> (of_nat n :: 64 word) = 0 \<longleftrightarrow> n = 0"
  by (auto simp: word_of_nat_eq_0_iff nat_dvd_not_less)

lemma sum_list_filter_split:
  fixes f :: "'a \<Rightarrow> 'b::comm_monoid_add"
  shows "sum_list (map f xs) =
    sum_list (map f (filter P xs)) + sum_list (map f (filter (\<lambda>x. \<not> P x) xs))"
  by (induction xs) (simp_all add: add_ac)

text \<open>Fuel for finitely many calls: the largest of their needs.\<close>

lemma finite_fuel:
  assumes "\<And>c. c \<in> set cs \<Longrightarrow> \<exists>n. \<forall>k \<ge> n. P (k :: nat) c"
  shows "\<exists>n. \<forall>k \<ge> n. \<forall>c \<in> set cs. P k c"
  using assms
proof (induction cs)
  case (Cons c cs)
  obtain a b where "\<forall>k \<ge> a. P k c" "\<forall>k \<ge> b. \<forall>c \<in> set cs. P k c"
    using Cons.prems[of c] Cons.IH[OF Cons.prems] by auto
  then show ?case by (intro exI[of _ "max a b"]) auto
qed simp

text \<open>Insertion into a \<^verbatim>\<open>std::unordered_set\<close>, kept as a list without duplicates.\<close>

definition set_insert :: "string \<Rightarrow> string list \<Rightarrow> string list" where
  "set_insert x xs = (if x \<in> set xs then xs else xs @ [x])"

lemma fold_set_insert: "distinct ys \<Longrightarrow> distinct (fold set_insert xs ys) \<and> set (fold set_insert xs ys) = set xs \<union> set ys"
  by (induction xs arbitrary: ys) (auto simp: set_insert_def)

end
