(* ===== verification/Packet.thy ===== *)
theory Packet
  imports Prelude
begin

text \<open>
  Packets and descriptors, the data that moves along the signal path
  (\<^verbatim>\<open>core/opendaq/signal\<close>): sample types, numbers, data rules, data descriptors, data packets and
  event packets. IEEE double arithmetic is the parameter \<open>float_ops\<close>: the type \<open>'f\<close> stands for
  \<^verbatim>\<open>double\<close> and the record holds the operations the code applies to it. \<^verbatim>\<open>Int\<close> and \<^verbatim>\<open>SizeT\<close>
  are 64-bit words, so their arithmetic wraps.
\<close>

datatype (plugins only: code) SampleType =
    SampleType_Undefined | SampleType_Float32 | SampleType_Float64 | SampleType_UInt8
  | SampleType_Int8 | SampleType_UInt16 | SampleType_Int16 | SampleType_UInt32
  | SampleType_Int32 | SampleType_UInt64 | SampleType_Int64 | SampleType_RangeInt64
  | SampleType_ComplexFloat32 | SampleType_ComplexFloat64 | SampleType_Binary
  | SampleType_String | SampleType_Struct | SampleType_Null

datatype PacketType = PacketType_None | PacketType_Data | PacketType_Event

type_synonym Int64 = "64 word"

datatype 'f number = IntNumber Int64 | FloatNumber 'f

record 'f float_ops =
  f_add :: "'f \<Rightarrow> 'f \<Rightarrow> 'f"
  f_sub :: "'f \<Rightarrow> 'f \<Rightarrow> 'f"
  f_mul :: "'f \<Rightarrow> 'f \<Rightarrow> 'f"
  f_div :: "'f \<Rightarrow> 'f \<Rightarrow> 'f"
  f_abs :: "'f \<Rightarrow> 'f"
  f_less :: "'f \<Rightarrow> 'f \<Rightarrow> bool"
  f_of_size :: "SizeT \<Rightarrow> 'f"
  f_of_int :: "Int64 \<Rightarrow> 'f"
  f_to_int :: "'f \<Rightarrow> Int64"

fun number_to_int :: "'f float_ops \<Rightarrow> 'f number \<Rightarrow> Int64" where
  "number_to_int fo (IntNumber i) = i"
| "number_to_int fo (FloatNumber x) = f_to_int fo x"

fun number_to_float :: "'f float_ops \<Rightarrow> 'f number \<Rightarrow> 'f" where
  "number_to_float fo (IntNumber i) = f_of_int fo i"
| "number_to_float fo (FloatNumber x) = x"

text \<open>A concrete instance of the double operations, on whole numbers, for the worked examples.\<close>

definition whole_ops :: "int float_ops" where
  "whole_ops = \<lparr>f_add = (+), f_sub = (-), f_mul = (*), f_div = (div), f_abs = abs, f_less = (<),
     f_of_size = uint, f_of_int = sint, f_to_int = of_int\<rparr>"

text \<open>The kinds of data rule with the parameters that their verification requires.\<close>

datatype 'f data_rule =
    OtherRule
  | LinearRule (rule_delta: "'f number") (rule_start: "'f number")
  | ConstantRule
  | ExplicitRule

record 'f data_descriptor =
  dd_name :: string
  dd_sampleType :: SampleType
  dd_rule :: "'f data_rule option"
  dd_sampleSize :: SizeT
  dd_rawSampleSize :: SizeT

definition NullDataDescriptor :: "'f data_descriptor" where
  "NullDataDescriptor = \<lparr>dd_name = '''', dd_sampleType = SampleType_Null, dd_rule = Some ExplicitRule,
     dd_sampleSize = 0, dd_rawSampleSize = 0\<rparr>"

record 'f domain_packet =
  dp_offset :: "'f number"
  dp_sampleCount :: SizeT

record 'f event_packet =
  ep_eventId :: string
  ep_dataDescriptor :: "'f data_descriptor option"
  ep_domainDataDescriptor :: "'f data_descriptor option"
  ep_gapDiff :: "'f number option"

datatype ('f, 'a) packet =
    DataPacket 'a SizeT "'f domain_packet option"
  | EventPacket "'f event_packet"
  | OtherPacket 'a

fun packet_getType :: "('f, 'a) packet \<Rightarrow> PacketType" where
  "packet_getType (DataPacket a n d) = PacketType_Data"
| "packet_getType (EventPacket e) = PacketType_Event"
| "packet_getType (OtherPacket a) = PacketType_None"

definition DATA_DESCRIPTOR_CHANGED :: string where
  "DATA_DESCRIPTOR_CHANGED = ''DATA_DESCRIPTOR_CHANGED''"

definition IMPLICIT_DOMAIN_GAP_DETECTED :: string where
  "IMPLICIT_DOMAIN_GAP_DETECTED = ''IMPLICIT_DOMAIN_GAP_DETECTED''"

lemma event_ids_distinct [simp]:
  "DATA_DESCRIPTOR_CHANGED \<noteq> IMPLICIT_DOMAIN_GAP_DETECTED"
  "IMPLICIT_DOMAIN_GAP_DETECTED \<noteq> DATA_DESCRIPTOR_CHANGED"
  by (simp_all add: DATA_DESCRIPTOR_CHANGED_def IMPLICIT_DOMAIN_GAP_DETECTED_def)

definition DataDescriptorChangedEventPacket ::
  "'f data_descriptor option \<Rightarrow> 'f data_descriptor option \<Rightarrow> ('f, 'a) packet" where
  "DataDescriptorChangedEventPacket v d = EventPacket \<lparr>ep_eventId = DATA_DESCRIPTOR_CHANGED,
     ep_dataDescriptor = v, ep_domainDataDescriptor = d, ep_gapDiff = None\<rparr>"

definition ImplicitDomainGapDetectedEventPacket :: "'f number \<Rightarrow> ('f, 'a) packet" where
  "ImplicitDomainGapDetectedEventPacket diff = EventPacket \<lparr>ep_eventId = IMPLICIT_DOMAIN_GAP_DETECTED,
     ep_dataDescriptor = None, ep_domainDataDescriptor = None, ep_gapDiff = Some diff\<rparr>"

text \<open>
  \<open>parseDataDescriptorEventPacket\<close> tells "changed to null" (the stub descriptor) from "not
  changed" (no parameter).
\<close>

definition parseDataDescriptorEventPacket :: "'f event_packet \<Rightarrow>
    (bool \<times> bool \<times> 'f data_descriptor option \<times> 'f data_descriptor option) result" where
  "parseDataDescriptorEventPacket e =
     (if ep_eventId e \<noteq> DATA_DESCRIPTOR_CHANGED then Inl OPENDAQ_ERR_INVALIDPARAMETER
      else let v = ep_dataDescriptor e; d = ep_domainDataDescriptor e in
        Inr (v \<noteq> None, d \<noteq> None,
             (if v \<noteq> Some NullDataDescriptor then v else None),
             (if d \<noteq> Some NullDataDescriptor then d else None)))"

definition descriptorToEventPacketParam :: "'f data_descriptor option \<Rightarrow> 'f data_descriptor option" where
  "descriptorToEventPacketParam d = (case d of None \<Rightarrow> Some NullDataDescriptor | Some x \<Rightarrow> Some x)"

text \<open>A descriptor survives the event packet, whether or not it is assigned.\<close>

lemma parse_descriptor_roundtrip:
  assumes "v \<noteq> Some NullDataDescriptor" and "d \<noteq> Some NullDataDescriptor"
  shows "(case DataDescriptorChangedEventPacket (descriptorToEventPacketParam v)
             (descriptorToEventPacketParam d) :: ('f, 'a) packet of
           EventPacket e \<Rightarrow> parseDataDescriptorEventPacket e | _ \<Rightarrow> Inl OPENDAQ_ERR_INVALIDTYPE) =
         Inr (True, True, v, d)"
  using assms
  by (cases v; cases d)
     (simp_all add: DataDescriptorChangedEventPacket_def parseDataDescriptorEventPacket_def
       descriptorToEventPacketParam_def)

end
