(* ===== verification/Connection.thy ===== *)
theory Connection
  imports Packet
begin

text \<open>
  The packet queue between a signal and an input port:
  \<^verbatim>\<open>core/opendaq/signal/src/connection_impl.cpp\<close>. The state is the class's members, every
  operation is a function of the state. A call on the input port is an output of the operation: the
  answer of \<^verbatim>\<open>port.getActive()\<close> is an argument, and the notification that the operation sends to
  the port is returned. Every operation runs under the connection's mutex, so the operations of
  several threads are some sequence of the functions below.
\<close>

section \<open>State\<close>

datatype GapCheckState =
  GapCheck_disabled | GapCheck_uninitialized | GapCheck_not_available | GapCheck_initialized
| GapCheck_running

text \<open>The union \<^verbatim>\<open>DomainValue\<close>: the constructor says which member was written last.\<close>

datatype 'f DomainValue = DV_int Int64 | DV_double 'f

fun valueInt64_t :: "'f DomainValue \<Rightarrow> Int64" where
  "valueInt64_t (DV_int i) = i"
| "valueInt64_t (DV_double x) = 0"

fun valueDouble :: "'f float_ops \<Rightarrow> 'f DomainValue \<Rightarrow> 'f" where
  "valueDouble fo (DV_double x) = x"
| "valueDouble fo (DV_int i) = f_of_int fo 0"

record ('f, 'a) connection =
  queueEmpty :: bool
  gapCheckState :: GapCheckState
  nextExpectedPacketOffset :: "'f DomainValue"
  delta :: "'f DomainValue"
  domainSampleType :: SampleType
  valueDataDescriptor :: "'f data_descriptor option"
  domainDataDescriptor :: "'f data_descriptor option"
  samplesCnt :: SizeT
  eventPacketsCnt :: SizeT
  gapPacketsCnt :: SizeT
  packets :: "('f, 'a) packet list"

datatype port_notification =
  notifyPacketEnqueued bool | notifyPacketEnqueuedOnThisThread | notifyPacketEnqueuedWithScheduler

definition connection_init :: "bool \<Rightarrow> ('f, 'a) connection" where
  "connection_init gapCheckingEnabled =
     \<lparr>queueEmpty = True,
      gapCheckState = (if gapCheckingEnabled then GapCheck_uninitialized else GapCheck_disabled),
      nextExpectedPacketOffset = DV_int 0, delta = DV_int 0,
      domainSampleType = SampleType_Undefined,
      valueDataDescriptor = None, domainDataDescriptor = None,
      samplesCnt = 0, eventPacketsCnt = 0, gapPacketsCnt = 0, packets = []\<rparr>"

section \<open>Gap checking\<close>

definition numberToDomainValue ::
  "'f float_ops \<Rightarrow> SampleType \<Rightarrow> 'f number \<Rightarrow> 'f DomainValue result" where
  "numberToDomainValue fo st n =
     (if st = SampleType_Int64 \<or> st = SampleType_UInt64 then Inr (DV_int (number_to_int fo n))
      else if st = SampleType_Float64 then Inr (DV_double (number_to_float fo n))
      else Inl OPENDAQ_ERR_INVALIDPARAMETER)"

definition beginGapCheck ::
  "'f float_ops \<Rightarrow> 'f domain_packet \<Rightarrow> ('f, 'a) connection \<Rightarrow> ('f, 'a) connection result" where
  "beginGapCheck fo dp c =
     res_bind (numberToDomainValue fo (domainSampleType c) (dp_offset dp)) (\<lambda>off.
       let next = (if domainSampleType c = SampleType_Float64
          then DV_double (f_add fo (valueDouble fo off)
                 (f_mul fo (f_of_size fo (dp_sampleCount dp)) (valueDouble fo (delta c))))
          else DV_int (valueInt64_t off + dp_sampleCount dp * valueInt64_t (delta c)))
       in Inr (c\<lparr>nextExpectedPacketOffset := next, gapCheckState := GapCheck_running\<rparr>))"

definition doGapCheck ::
  "'f float_ops \<Rightarrow> 'f domain_packet \<Rightarrow> ('f, 'a) connection \<Rightarrow>
   (bool \<times> 'f DomainValue \<times> ('f, 'a) connection) result" where
  "doGapCheck fo dp c =
     res_bind (numberToDomainValue fo (domainSampleType c) (dp_offset dp)) (\<lambda>curr.
       if domainSampleType c = SampleType_Float64 then
         let diff = f_sub fo (valueDouble fo curr) (valueDouble fo (nextExpectedPacketOffset c));
             gap = f_less fo (f_div fo (valueDouble fo (delta c)) (f_of_size fo 10)) (f_abs fo diff);
             next = f_add fo (valueDouble fo curr)
                      (f_mul fo (f_of_size fo (dp_sampleCount dp)) (valueDouble fo (delta c)))
         in Inr (gap, DV_double diff, c\<lparr>nextExpectedPacketOffset := DV_double next\<rparr>)
       else
         let diff = valueInt64_t curr - valueInt64_t (nextExpectedPacketOffset c);
             next = valueInt64_t curr + dp_sampleCount dp * valueInt64_t (delta c)
         in Inr (diff \<noteq> 0, DV_int diff, c\<lparr>nextExpectedPacketOffset := DV_int next\<rparr>))"

definition gapPacketFor :: "'f float_ops \<Rightarrow> SampleType \<Rightarrow> 'f DomainValue \<Rightarrow> ('f, 'a) packet" where
  "gapPacketFor fo st diff = ImplicitDomainGapDetectedEventPacket
     (if st = SampleType_Float64 then FloatNumber (valueDouble fo diff)
      else IntNumber (valueInt64_t diff))"

definition enqueueGapPacket ::
  "'f float_ops \<Rightarrow> 'f DomainValue \<Rightarrow> ('f, 'a) connection \<Rightarrow> ('f, 'a) connection" where
  "enqueueGapPacket fo diff c =
     c\<lparr>gapPacketsCnt := gapPacketsCnt c + 1,
       packets := packets c @ [gapPacketFor fo (domainSampleType c) diff]\<rparr>"

definition initGapCheck ::
  "'f float_ops \<Rightarrow> 'f event_packet \<Rightarrow> ('f, 'a) connection \<Rightarrow> ('f, 'a) connection result" where
  "initGapCheck fo e c =
     (if ep_eventId e = DATA_DESCRIPTOR_CHANGED then
        res_bind (parseDataDescriptorEventPacket e) (\<lambda>(_, domainDescriptorChanged, _, newDomainDescriptor).
          if \<not> domainDescriptorChanged then
            (if gapCheckState c = GapCheck_uninitialized
             then Inr (c\<lparr>gapCheckState := GapCheck_not_available\<rparr>) else Inr c)
          else case newDomainDescriptor of
            None \<Rightarrow> Inr (c\<lparr>gapCheckState := GapCheck_not_available\<rparr>)
          | Some dd \<Rightarrow>
             (case dd_rule dd of
                None \<Rightarrow> Inl OPENDAQ_ERR_INVALIDPARAMETER
              | Some (LinearRule dlt start) \<Rightarrow>
                 (let st = dd_sampleType dd in
                  if st = SampleType_Float64
                  then Inr (c\<lparr>domainSampleType := st, delta := DV_double (number_to_float fo dlt),
                              gapCheckState := GapCheck_initialized\<rparr>)
                  else if st = SampleType_Int64 \<or> st = SampleType_UInt64
                  then Inr (c\<lparr>domainSampleType := st, delta := DV_int (number_to_int fo dlt),
                              gapCheckState := GapCheck_initialized\<rparr>)
                  else Inr (c\<lparr>domainSampleType := st, gapCheckState := GapCheck_not_available\<rparr>))
              | Some _ \<Rightarrow> Inr (c\<lparr>gapCheckState := GapCheck_not_available\<rparr>)))
      else if ep_eventId e = IMPLICIT_DOMAIN_GAP_DETECTED then Inl OPENDAQ_ERR_INVALID_OPERATION
      else Inr c)"

text \<open>
  A null domain packet makes the smart pointer throw \<^verbatim>\<open>InvalidParameterException\<close> when its
  offset is read (the \<^verbatim>\<open>assert\<close> before it is compiled out of release builds).
\<close>

fun checkForGaps ::
  "'f float_ops \<Rightarrow> ('f, 'a) packet \<Rightarrow> ('f, 'a) connection \<Rightarrow> ('f, 'a) connection result" where
  "checkForGaps fo (DataPacket a n dp_opt) c =
     (if gapCheckState c = GapCheck_uninitialized then Inl OPENDAQ_ERR_INVALIDSTATE
      else if gapCheckState c \<noteq> GapCheck_not_available then
        (case dp_opt of
           None \<Rightarrow> Inl OPENDAQ_ERR_INVALIDPARAMETER
         | Some dp \<Rightarrow>
            if gapCheckState c = GapCheck_initialized then beginGapCheck fo dp c
            else res_bind (doGapCheck fo dp c) (\<lambda>(gap, diff, c').
              if gap then Inr (enqueueGapPacket fo diff c') else Inr c'))
      else Inr c)"
| "checkForGaps fo (EventPacket e) c = initGapCheck fo e c"
| "checkForGaps fo (OtherPacket a) c = Inr c"

section \<open>Enqueueing\<close>

fun onPacketEnqueued :: "('f, 'a) packet \<Rightarrow> ('f, 'a) connection \<Rightarrow> ('f, 'a) connection" where
  "onPacketEnqueued (DataPacket a n dp_opt) c = c\<lparr>samplesCnt := samplesCnt c + n\<rparr>"
| "onPacketEnqueued (EventPacket e) c =
     (let c1 = c\<lparr>eventPacketsCnt := eventPacketsCnt c + 1\<rparr> in
      if ep_eventId e \<noteq> DATA_DESCRIPTOR_CHANGED then c1
      else
        let c2 = (if ep_dataDescriptor e \<noteq> None
                  then c1\<lparr>valueDataDescriptor := ep_dataDescriptor e\<rparr> else c1)
        in if ep_domainDataDescriptor e \<noteq> None
           then c2\<lparr>domainDataDescriptor := ep_domainDataDescriptor e\<rparr> else c2)"
| "onPacketEnqueued (OtherPacket a) c = c"

definition enqueueInternal ::
  "'f float_ops \<Rightarrow> bool \<Rightarrow> (bool \<Rightarrow> port_notification) \<Rightarrow> ('f, 'a) packet \<Rightarrow> ('f, 'a) connection \<Rightarrow>
   ErrCode \<times> port_notification list \<times> ('f, 'a) connection" where
  "enqueueInternal fo active f p c =
     (if \<not> active \<and> packet_getType p \<noteq> PacketType_Event then (OPENDAQ_IGNORED, [], c)
      else
        let queueWasEmpty = queueEmpty c in
        case (if gapCheckState c \<noteq> GapCheck_disabled then checkForGaps fo p c else Inr c) of
          Inl e \<Rightarrow> (e, [], c)
        | Inr c1 \<Rightarrow>
            let c2 = onPacketEnqueued p c1 in
            (OPENDAQ_SUCCESS, [f queueWasEmpty],
             c2\<lparr>packets := packets c2 @ [p], queueEmpty := False\<rparr>))"

text \<open>A null packet pointer is \<open>None\<close>.\<close>

definition enqueue where
  "enqueue fo active pp c = (case pp of None \<Rightarrow> (OPENDAQ_ERR_ARGUMENT_NULL, [], c)
     | Some p \<Rightarrow> enqueueInternal fo active notifyPacketEnqueued p c)"

definition enqueueOnThisThread where
  "enqueueOnThisThread fo active pp c = (case pp of None \<Rightarrow> (OPENDAQ_ERR_ARGUMENT_NULL, [], c)
     | Some p \<Rightarrow> enqueueInternal fo active (\<lambda>_. notifyPacketEnqueuedOnThisThread) p c)"

definition enqueueWithScheduler where
  "enqueueWithScheduler fo active pp c = (case pp of None \<Rightarrow> (OPENDAQ_ERR_ARGUMENT_NULL, [], c)
     | Some p \<Rightarrow> enqueueInternal fo active (\<lambda>_. notifyPacketEnqueuedWithScheduler) p c)"

definition enqueueAndStealRef where
  "enqueueAndStealRef fo active pp c = (case pp of None \<Rightarrow> (OPENDAQ_ERR_ARGUMENT_NULL, [], c)
     | Some p \<Rightarrow> enqueueInternal fo active notifyPacketEnqueued p c)"

definition enqueueOne :: "('f, 'a) packet \<Rightarrow> ('f, 'a) connection \<Rightarrow> ('f, 'a) connection" where
  "enqueueOne p c = (let c1 = onPacketEnqueued p c in c1\<lparr>packets := packets c1 @ [p]\<rparr>)"

definition enqueueMultipleInternal ::
  "bool \<Rightarrow> ('f, 'a) packet list \<Rightarrow> ('f, 'a) connection \<Rightarrow>
   ErrCode \<times> port_notification list \<times> ('f, 'a) connection" where
  "enqueueMultipleInternal active ps c =
     (if \<not> active then (OPENDAQ_IGNORED, [], c)
      else (OPENDAQ_SUCCESS, [notifyPacketEnqueued (queueEmpty c)],
            (fold enqueueOne ps c)\<lparr>queueEmpty := False\<rparr>))"

text \<open>
  The overload for a moved list takes the packets with \<^verbatim>\<open>popBack\<close>, from the last to the first:
  each round appends the last remaining element.
\<close>

function popBackLoop ::
  "('f, 'a) packet list \<Rightarrow> ('f, 'a) connection \<Rightarrow> ('f, 'a) connection" where
  "popBackLoop ps c =
     (if ps = [] then c else popBackLoop (butlast ps) (enqueueOne (last ps) c))"
  by pat_completeness auto
termination
  by (relation "measure (\<lambda>(ps, c). length ps)") auto

declare popBackLoop.simps [simp del]

definition enqueueMultipleInternalMoved ::
  "bool \<Rightarrow> ('f, 'a) packet list \<Rightarrow> ('f, 'a) connection \<Rightarrow>
   ErrCode \<times> port_notification list \<times> ('f, 'a) connection" where
  "enqueueMultipleInternalMoved active ps c =
     (if \<not> active then (OPENDAQ_IGNORED, [], c)
      else (OPENDAQ_SUCCESS, [notifyPacketEnqueued (queueEmpty c)],
            (popBackLoop ps c)\<lparr>queueEmpty := False\<rparr>))"

definition enqueueMultiple where
  "enqueueMultiple active pps c = (case pps of None \<Rightarrow> (OPENDAQ_ERR_ARGUMENT_NULL, [], c)
     | Some ps \<Rightarrow> enqueueMultipleInternal active ps c)"

definition enqueueMultipleAndStealRef where
  "enqueueMultipleAndStealRef active pps c = (case pps of None \<Rightarrow> (OPENDAQ_ERR_ARGUMENT_NULL, [], c)
     | Some ps \<Rightarrow> enqueueMultipleInternalMoved active ps c)"

definition enqueueLastDescriptor :: "('f, 'a) connection \<Rightarrow> ErrCode \<times> ('f, 'a) connection" where
  "enqueueLastDescriptor c =
     (OPENDAQ_SUCCESS,
      if valueDataDescriptor c \<noteq> None \<or> domainDataDescriptor c \<noteq> None
      then c\<lparr>eventPacketsCnt := eventPacketsCnt c + 1,
             packets := DataDescriptorChangedEventPacket (valueDataDescriptor c)
                          (domainDataDescriptor c) # packets c\<rparr>
      else c)"

section \<open>Dequeueing\<close>

fun onPacketDequeued :: "('f, 'a) packet \<Rightarrow> ('f, 'a) connection \<Rightarrow> ('f, 'a) connection" where
  "onPacketDequeued (DataPacket a n dp_opt) c = c\<lparr>samplesCnt := samplesCnt c - n\<rparr>"
| "onPacketDequeued (EventPacket e) c =
     (if ep_eventId e = DATA_DESCRIPTOR_CHANGED
      then c\<lparr>eventPacketsCnt := eventPacketsCnt c - 1\<rparr>
      else if ep_eventId e = IMPLICIT_DOMAIN_GAP_DETECTED
      then c\<lparr>gapPacketsCnt := gapPacketsCnt c - 1\<rparr>
      else c)"
| "onPacketDequeued (OtherPacket a) c = c"

definition dequeue ::
  "('f, 'a) connection \<Rightarrow> ErrCode \<times> ('f, 'a) packet option \<times> ('f, 'a) connection" where
  "dequeue c = (case packets c of
       [] \<Rightarrow> (OPENDAQ_NO_MORE_ITEMS, None, c\<lparr>queueEmpty := True\<rparr>)
     | p # ps \<Rightarrow> (OPENDAQ_SUCCESS, Some p, onPacketDequeued p (c\<lparr>packets := ps\<rparr>)))"

definition dequeueAll ::
  "('f, 'a) connection \<Rightarrow> ErrCode \<times> ('f, 'a) packet list \<times> ('f, 'a) connection" where
  "dequeueAll c = (OPENDAQ_NO_MORE_ITEMS, packets c,
     c\<lparr>samplesCnt := 0, eventPacketsCnt := 0, packets := []\<rparr>)"

definition peek :: "('f, 'a) connection \<Rightarrow> ErrCode \<times> ('f, 'a) packet option" where
  "peek c = (case packets c of [] \<Rightarrow> (OPENDAQ_NO_MORE_ITEMS, None) | p # _ \<Rightarrow> (OPENDAQ_SUCCESS, Some p))"

definition countPackets_step ::
  "('f, 'a) packet \<Rightarrow> ('f, 'a) connection \<Rightarrow> ('f, 'a) connection" where
  "countPackets_step p c = (case p of
       DataPacket a n dp_opt \<Rightarrow> c\<lparr>samplesCnt := samplesCnt c + n\<rparr>
     | EventPacket e \<Rightarrow> c\<lparr>eventPacketsCnt := eventPacketsCnt c + 1\<rparr>
     | OtherPacket a \<Rightarrow> c)"

definition countPackets :: "('f, 'a) connection \<Rightarrow> ('f, 'a) connection" where
  "countPackets c = fold countPackets_step (packets c) (c\<lparr>eventPacketsCnt := 0, samplesCnt := 0\<rparr>)"

definition dequeueUpTo ::
  "SizeT \<Rightarrow> ('f, 'a) connection \<Rightarrow> ErrCode \<times> ('f, 'a) packet list \<times> ('f, 'a) connection" where
  "dequeueUpTo count c =
     (let k = min (unat count) (length (packets c)) in
      (OPENDAQ_SUCCESS, take k (packets c), countPackets (c\<lparr>packets := drop k (packets c)\<rparr>)))"

section \<open>Queries\<close>

definition getPacketCount :: "('f, 'a) connection \<Rightarrow> SizeT" where
  "getPacketCount c = of_nat (length (packets c))"

definition getAvailableSamples :: "('f, 'a) connection \<Rightarrow> SizeT" where
  "getAvailableSamples c = samplesCnt c"

fun samplesUntil :: "('f event_packet \<Rightarrow> bool) \<Rightarrow> ('f, 'a) packet list \<Rightarrow> SizeT \<Rightarrow> SizeT" where
  "samplesUntil stop [] acc = acc"
| "samplesUntil stop (DataPacket a n dp_opt # ps) acc = samplesUntil stop ps (acc + n)"
| "samplesUntil stop (EventPacket e # ps) acc = (if stop e then acc else samplesUntil stop ps acc)"
| "samplesUntil stop (OtherPacket a # ps) acc = samplesUntil stop ps acc"

definition getSamplesUntilNextEventPacket :: "('f, 'a) connection \<Rightarrow> SizeT" where
  "getSamplesUntilNextEventPacket c =
     (if eventPacketsCnt c = 0 \<and> gapPacketsCnt c = 0 then samplesCnt c
      else samplesUntil (\<lambda>_. True) (packets c) 0)"

definition getSamplesUntilNextDescriptor :: "('f, 'a) connection \<Rightarrow> SizeT" where
  "getSamplesUntilNextDescriptor c =
     (if eventPacketsCnt c = 0 then samplesCnt c
      else samplesUntil (\<lambda>e. ep_eventId e = DATA_DESCRIPTOR_CHANGED) (packets c) 0)"

definition getSamplesUntilNextGapPacket :: "('f, 'a) connection \<Rightarrow> SizeT" where
  "getSamplesUntilNextGapPacket c =
     (if gapPacketsCnt c = 0 then samplesCnt c
      else samplesUntil (\<lambda>e. ep_eventId e = IMPLICIT_DOMAIN_GAP_DETECTED) (packets c) 0)"

definition hasEventPacket :: "('f, 'a) connection \<Rightarrow> bool" where
  "hasEventPacket c \<longleftrightarrow> eventPacketsCnt c \<noteq> 0 \<or> gapPacketsCnt c \<noteq> 0"

definition hasGapPacket :: "('f, 'a) connection \<Rightarrow> bool" where
  "hasGapPacket c \<longleftrightarrow> gapPacketsCnt c \<noteq> 0"

section \<open>Which packets an enqueue adds\<close>

fun sample_count :: "('f, 'a) packet \<Rightarrow> SizeT" where
  "sample_count (DataPacket a n dp_opt) = n"
| "sample_count _ = 0"

definition samples :: "('f, 'a) packet list \<Rightarrow> SizeT" where
  "samples ps = sum_list (map sample_count ps)"

definition has_id :: "string \<Rightarrow> ('f, 'a) packet \<Rightarrow> bool" where
  "has_id i p \<longleftrightarrow> (case p of EventPacket e \<Rightarrow> ep_eventId e = i | _ \<Rightarrow> False)"

definition is_event :: "('f, 'a) packet \<Rightarrow> bool" where
  "is_event p \<longleftrightarrow> packet_getType p = PacketType_Event"

definition count_id :: "string \<Rightarrow> ('f, 'a) packet list \<Rightarrow> SizeT" where
  "count_id i ps = of_nat (length (filter (has_id i) ps))"

lemma samples_simps [simp]:
  "samples [] = 0" "samples (p # ps) = sample_count p + samples ps"
  "samples (ps @ qs) = samples ps + samples qs"
  by (simp_all add: samples_def)

lemma count_id_simps [simp]:
  "count_id i [] = 0"
  "count_id i (p # ps) = (if has_id i p then 1 else 0) + count_id i ps"
  "count_id i (ps @ qs) = count_id i ps + count_id i qs"
  by (simp_all add: count_id_def)

lemma has_id_simps [simp]:
  "has_id i (EventPacket e) \<longleftrightarrow> ep_eventId e = i"
  "\<not> has_id i (DataPacket a n d)" "\<not> has_id i (OtherPacket b)"
  "has_id i (DataDescriptorChangedEventPacket v dd) \<longleftrightarrow> i = DATA_DESCRIPTOR_CHANGED"
  "has_id i (ImplicitDomainGapDetectedEventPacket x) \<longleftrightarrow> i = IMPLICIT_DOMAIN_GAP_DETECTED"
  by (auto simp: has_id_def DataDescriptorChangedEventPacket_def
      ImplicitDomainGapDetectedEventPacket_def)

lemma is_event_simps [simp]:
  "is_event (EventPacket e)" "\<not> is_event (DataPacket a n d)" "\<not> is_event (OtherPacket b)"
  "is_event (DataDescriptorChangedEventPacket v dd)"
  "is_event (ImplicitDomainGapDetectedEventPacket x)"
  by (simp_all add: is_event_def DataDescriptorChangedEventPacket_def
      ImplicitDomainGapDetectedEventPacket_def)

lemma sample_count_events [simp]:
  "sample_count (DataDescriptorChangedEventPacket v d) = 0"
  "sample_count (ImplicitDomainGapDetectedEventPacket x) = 0"
  by (simp_all add: DataDescriptorChangedEventPacket_def ImplicitDomainGapDetectedEventPacket_def)

lemma gapPacketFor_simps [simp]:
  "sample_count (gapPacketFor fo st diff) = 0"
  "has_id i (gapPacketFor fo st diff) \<longleftrightarrow> i = IMPLICIT_DOMAIN_GAP_DETECTED"
  "is_event (gapPacketFor fo st diff)"
  by (simp_all add: gapPacketFor_def)

text \<open>
  The gap packets that checking a packet puts in front of it, read off the state alone: the
  specification against which the code's mutation of the queue is proved.
\<close>

definition gap_before ::
  "'f float_ops \<Rightarrow> ('f, 'a) packet \<Rightarrow> ('f, 'a) connection \<Rightarrow> ('f, 'a) packet list" where
  "gap_before fo p c = (case p of
     DataPacket a n (Some dp) \<Rightarrow>
       (if gapCheckState c = GapCheck_running then
          (case doGapCheck fo dp c of
             Inr (True, diff, _) \<Rightarrow> [gapPacketFor fo (domainSampleType c) diff]
           | _ \<Rightarrow> [])
        else [])
   | _ \<Rightarrow> [])"

text \<open>What an enqueue adds to the queue: nothing when the packet is dropped or refused.\<close>

definition added_by ::
  "'f float_ops \<Rightarrow> bool \<Rightarrow> ('f, 'a) packet \<Rightarrow> ('f, 'a) connection \<Rightarrow> ('f, 'a) packet list" where
  "added_by fo active p c =
     (if \<not> active \<and> \<not> is_event p then []
      else if gapCheckState c = GapCheck_disabled then [p]
      else case checkForGaps fo p c of Inl e \<Rightarrow> [] | Inr c' \<Rightarrow> gap_before fo p c @ [p])"

lemma onPacketEnqueued_frame [simp]:
  "packets (onPacketEnqueued p c) = packets c"
  "queueEmpty (onPacketEnqueued p c) = queueEmpty c"
  "gapCheckState (onPacketEnqueued p c) = gapCheckState c"
  "gapPacketsCnt (onPacketEnqueued p c) = gapPacketsCnt c"
  "delta (onPacketEnqueued p c) = delta c"
  "domainSampleType (onPacketEnqueued p c) = domainSampleType c"
  "nextExpectedPacketOffset (onPacketEnqueued p c) = nextExpectedPacketOffset c"
  by (cases p; simp add: Let_def)+

lemma onPacketEnqueued_counts [simp]:
  "samplesCnt (onPacketEnqueued p c) = samplesCnt c + sample_count p"
  "eventPacketsCnt (onPacketEnqueued p c) = eventPacketsCnt c + (if is_event p then 1 else 0)"
  by (cases p; simp add: Let_def)+

text \<open>The members that gap checking leaves alone.\<close>

definition same_queue :: "('f, 'a) connection \<Rightarrow> ('f, 'a) connection \<Rightarrow> bool" where
  "same_queue c c' \<longleftrightarrow> packets c' = packets c \<and> queueEmpty c' = queueEmpty c
     \<and> samplesCnt c' = samplesCnt c \<and> eventPacketsCnt c' = eventPacketsCnt c
     \<and> gapPacketsCnt c' = gapPacketsCnt c
     \<and> valueDataDescriptor c' = valueDataDescriptor c
     \<and> domainDataDescriptor c' = domainDataDescriptor c"

lemma doGapCheck_frame:
  "doGapCheck fo dp c = Inr (gap, diff, c') \<Longrightarrow>
   same_queue c c' \<and> gapCheckState c' = gapCheckState c \<and> delta c' = delta c
     \<and> domainSampleType c' = domainSampleType c"
  by (auto simp: doGapCheck_def same_queue_def Let_def split: if_splits)

lemma beginGapCheck_frame:
  "beginGapCheck fo dp c = Inr c' \<Longrightarrow>
   same_queue c c' \<and> gapCheckState c' = GapCheck_running \<and> delta c' = delta c
     \<and> domainSampleType c' = domainSampleType c"
  by (auto simp: beginGapCheck_def same_queue_def Let_def)

lemma initGapCheck_frame: "initGapCheck fo e c = Inr c' \<Longrightarrow> same_queue c c'"
  by (auto simp: initGapCheck_def same_queue_def Let_def
      split: if_splits option.splits data_rule.splits)

lemma initGapCheck_id:
  "initGapCheck fo e c = Inr c' \<Longrightarrow> ep_eventId e \<noteq> IMPLICIT_DOMAIN_GAP_DETECTED"
  by (auto simp: initGapCheck_def)

lemma checkForGaps_packets:
  assumes "checkForGaps fo p c = Inr c'" and "gapCheckState c \<noteq> GapCheck_disabled"
  shows "packets c' = packets c @ gap_before fo p c"
    and "samplesCnt c' = samplesCnt c" and "eventPacketsCnt c' = eventPacketsCnt c"
    and "gapPacketsCnt c' = gapPacketsCnt c + of_nat (length (gap_before fo p c))"
    and "queueEmpty c' = queueEmpty c"
proof -
  have "packets c' = packets c @ gap_before fo p c \<and> samplesCnt c' = samplesCnt c
    \<and> eventPacketsCnt c' = eventPacketsCnt c
    \<and> gapPacketsCnt c' = gapPacketsCnt c + of_nat (length (gap_before fo p c))
    \<and> queueEmpty c' = queueEmpty c"
  proof (cases p)
    case (DataPacket a n dp_opt)
    show ?thesis
    proof (cases "gapCheckState c = GapCheck_running")
      case True
      with assms DataPacket obtain dp gap diff c1 where
        dp: "dp_opt = Some dp" and chk: "doGapCheck fo dp c = Inr (gap, diff, c1)"
        and c': "c' = (if gap then enqueueGapPacket fo diff c1 else c1)"
        by (auto split: option.splits if_splits)
      from doGapCheck_frame[OF chk] c' True DataPacket dp chk show ?thesis
        by (cases gap) (simp_all add: gap_before_def enqueueGapPacket_def same_queue_def)
    next
      case False
      with assms DataPacket show ?thesis
        by (cases "gapCheckState c"; cases dp_opt)
           (auto simp: gap_before_def same_queue_def dest!: beginGapCheck_frame)
    qed
  next
    case (EventPacket e)
    with assms show ?thesis
      by (auto simp: gap_before_def same_queue_def dest!: initGapCheck_frame)
  next
    case (OtherPacket a)
    with assms show ?thesis
      by (simp add: gap_before_def)
  qed
  then show "packets c' = packets c @ gap_before fo p c"
    and "samplesCnt c' = samplesCnt c" and "eventPacketsCnt c' = eventPacketsCnt c"
    and "gapPacketsCnt c' = gapPacketsCnt c + of_nat (length (gap_before fo p c))"
    and "queueEmpty c' = queueEmpty c" by simp_all
qed

lemma enqueueInternal_packets:
  "packets (snd (snd (enqueueInternal fo active f p c))) = packets c @ added_by fo active p c"
  using checkForGaps_packets(1)[of fo p c]
  by (auto simp: enqueueInternal_def added_by_def is_event_def Let_def split: sum.splits)

section \<open>First in, first out\<close>

definition conn_put :: "'f float_ops \<Rightarrow> bool \<times> ('f, 'a) packet \<Rightarrow> ('f, 'a) connection \<Rightarrow> ('f, 'a) connection" where
  "conn_put fo ap c = snd (snd (enqueue fo (fst ap) (Some (snd ap)) c))"

definition conn_take :: "('f, 'a) connection \<Rightarrow> ('f, 'a) packet option \<times> ('f, 'a) connection" where
  "conn_take c = snd (dequeue c)"

definition conn_added :: "'f float_ops \<Rightarrow> bool \<times> ('f, 'a) packet \<Rightarrow> ('f, 'a) connection \<Rightarrow> ('f, 'a) packet list" where
  "conn_added fo ap c = added_by fo (fst ap) (snd ap) c"

lemma onPacketDequeued_frame [simp]:
  "packets (onPacketDequeued p c) = packets c"
  "queueEmpty (onPacketDequeued p c) = queueEmpty c"
  "gapCheckState (onPacketDequeued p c) = gapCheckState c"
  "delta (onPacketDequeued p c) = delta c"
  "domainSampleType (onPacketDequeued p c) = domainSampleType c"
  "nextExpectedPacketOffset (onPacketDequeued p c) = nextExpectedPacketOffset c"
  by (cases p; (simp; fail))+

lemma onPacketDequeued_counts [simp]:
  "samplesCnt (onPacketDequeued p c) = samplesCnt c - sample_count p"
  "eventPacketsCnt (onPacketDequeued p c) =
     eventPacketsCnt c - (if has_id DATA_DESCRIPTOR_CHANGED p then 1 else 0)"
  "gapPacketsCnt (onPacketDequeued p c) =
     gapPacketsCnt c - (if has_id IMPLICIT_DOMAIN_GAP_DETECTED p then 1 else 0)"
  by (cases p; (auto; fail))+

interpretation connq: fifo "conn_put fo" conn_take "conn_added fo" packets
  by unfold_locales
     (simp_all add: conn_put_def conn_added_def conn_take_def enqueue_def dequeue_def
       enqueueInternal_packets)

section \<open>The invariant of the counters and of the gap check\<close>

definition domain_value_fits :: "SampleType \<Rightarrow> 'f DomainValue \<Rightarrow> bool" where
  "domain_value_fits st v \<longleftrightarrow> (case v of
     DV_double x \<Rightarrow> st = SampleType_Float64
   | DV_int i \<Rightarrow> st = SampleType_Int64 \<or> st = SampleType_UInt64)"

definition gap_state_ok :: "('f, 'a) connection \<Rightarrow> bool" where
  "gap_state_ok c \<longleftrightarrow>
     (gapCheckState c \<in> {GapCheck_initialized, GapCheck_running} \<longrightarrow>
        domain_value_fits (domainSampleType c) (delta c)) \<and>
     (gapCheckState c = GapCheck_running \<longrightarrow>
        domain_value_fits (domainSampleType c) (nextExpectedPacketOffset c))"

definition known_event :: "('f, 'a) packet \<Rightarrow> bool" where
  "known_event p \<longleftrightarrow> (is_event p \<longrightarrow>
     has_id DATA_DESCRIPTOR_CHANGED p \<or> has_id IMPLICIT_DOMAIN_GAP_DETECTED p)"

definition conn_ok :: "('f, 'a) connection \<Rightarrow> bool" where
  "conn_ok c \<longleftrightarrow>
     samplesCnt c = samples (packets c) \<and>
     eventPacketsCnt c = count_id DATA_DESCRIPTOR_CHANGED (packets c) \<and>
     gapPacketsCnt c = count_id IMPLICIT_DOMAIN_GAP_DETECTED (packets c) \<and>
     list_all known_event (packets c) \<and>
     gap_state_ok c"

text \<open>A packet a producer may hand in: its only events are descriptor changes.\<close>

definition from_signal :: "('f, 'a) packet \<Rightarrow> bool" where
  "from_signal p \<longleftrightarrow> (is_event p \<longrightarrow> has_id DATA_DESCRIPTOR_CHANGED p)"

lemma conn_ok_init: "conn_ok (connection_init g)"
  by (simp add: conn_ok_def connection_init_def gap_state_ok_def)

lemma numberToDomainValue_fits:
  "numberToDomainValue fo st n = Inr v \<Longrightarrow> domain_value_fits st v"
  by (auto simp: numberToDomainValue_def domain_value_fits_def split: if_splits)

lemma fits_cases:
  "domain_value_fits st v \<Longrightarrow> st = SampleType_Float64 \<or> st = SampleType_Int64 \<or> st = SampleType_UInt64"
  by (auto simp: domain_value_fits_def split: DomainValue.splits)

lemma gap_state_ok_checkForGaps:
  assumes "gap_state_ok c" "checkForGaps fo p c = Inr c'" "gapCheckState c \<noteq> GapCheck_disabled"
  shows "gap_state_ok c'"
proof (cases p)
  case (DataPacket a n dp_opt)
  show ?thesis
  proof (cases "gapCheckState c = GapCheck_running")
    case True
    with assms DataPacket obtain dp gap diff c1 where
      chk: "doGapCheck fo dp c = Inr (gap, diff, c1)"
      and c': "c' = (if gap then enqueueGapPacket fo diff c1 else c1)"
      by (auto split: option.splits if_splits)
    have "domain_value_fits (domainSampleType c1) (nextExpectedPacketOffset c1)"
      using chk by (auto simp: doGapCheck_def Let_def domain_value_fits_def numberToDomainValue_def
          split: if_splits)
    with doGapCheck_frame[OF chk] c' True assms(1) show ?thesis
      by (simp add: gap_state_ok_def enqueueGapPacket_def)
  next
    case False
    with assms DataPacket show ?thesis
      by (cases "gapCheckState c"; cases dp_opt)
         (auto simp: gap_state_ok_def beginGapCheck_def Let_def domain_value_fits_def
           numberToDomainValue_def split: if_splits DomainValue.splits)
  qed
next
  case (EventPacket e)
  with assms show ?thesis
    by (auto simp: gap_state_ok_def initGapCheck_def Let_def domain_value_fits_def
        split: if_splits option.splits data_rule.splits)
next
  case (OtherPacket a)
  with assms show ?thesis by simp
qed

lemma gap_before_ids:
  "samples (gap_before fo p c) = 0"
  "count_id DATA_DESCRIPTOR_CHANGED (gap_before fo p c) = 0"
  "count_id IMPLICIT_DOMAIN_GAP_DETECTED (gap_before fo p c) = of_nat (length (gap_before fo p c))"
  "list_all known_event (gap_before fo p c)"
  by (auto simp: gap_before_def known_event_def
      split: packet.splits option.splits sum.splits prod.splits bool.splits)

lemma from_signal_counts:
  assumes "from_signal p"
  shows "(if is_event p then 1 else 0) = (count_id DATA_DESCRIPTOR_CHANGED [p] :: SizeT)"
    and "\<not> has_id IMPLICIT_DOMAIN_GAP_DETECTED p" and "known_event p"
  using assms by (cases p; auto simp: from_signal_def known_event_def)+

lemma conn_ok_enqueueInternal:
  assumes ok: "conn_ok c" and sig: "from_signal p"
  shows "conn_ok (snd (snd (enqueueInternal fo active f p c)))"
proof -
  have step: "conn_ok (onPacketEnqueued p c1
      \<lparr>packets := packets (onPacketEnqueued p c1) @ [p], queueEmpty := False\<rparr>)"
    if "conn_ok c1" for c1 :: "('a, 'b) connection"
    using that from_signal_counts[OF sig]
    by (simp add: conn_ok_def gap_state_ok_def)
  have "conn_ok c1" if "checkForGaps fo p c = Inr c1" "gapCheckState c \<noteq> GapCheck_disabled" for c1
    using ok gap_state_ok_checkForGaps[OF _ that] checkForGaps_packets[OF that]
      gap_before_ids[of fo p c]
    by (simp add: conn_ok_def)
  with ok step show ?thesis
    by (auto simp: enqueueInternal_def Let_def split: sum.splits)
qed

lemma conn_ok_enqueueOne: "conn_ok c \<Longrightarrow> from_signal p \<Longrightarrow> conn_ok (enqueueOne p c)"
  using from_signal_counts[of p]
  by (simp add: enqueueOne_def Let_def conn_ok_def gap_state_ok_def)

lemma conn_ok_fold_enqueueOne:
  "conn_ok c \<Longrightarrow> list_all from_signal ps \<Longrightarrow> conn_ok (fold enqueueOne ps c)"
  by (induction ps arbitrary: c) (simp_all add: conn_ok_enqueueOne)

lemma popBackLoop_fold: "popBackLoop ps c = fold enqueueOne (rev ps) c"
proof (induction ps c rule: popBackLoop.induct)
  case (1 ps c)
  show ?case
  proof (cases "ps = []")
    case True
    then show ?thesis by (simp add: popBackLoop.simps)
  next
    case False
    then obtain qs q where "ps = qs @ [q]" by (cases ps rule: rev_cases) auto
    with 1 show ?thesis by (simp add: popBackLoop.simps[of "qs @ [q]" c])
  qed
qed

lemma packets_fold_enqueueOne: "packets (fold enqueueOne ps c) = packets c @ ps"
  by (induction ps arbitrary: c) (simp_all add: enqueueOne_def Let_def)

lemma conn_ok_queueEmpty: "conn_ok (c\<lparr>queueEmpty := b\<rparr>) = conn_ok c"
  by (simp add: conn_ok_def gap_state_ok_def)

lemma conn_ok_dequeue: "conn_ok c \<Longrightarrow> conn_ok (snd (snd (dequeue c)))"
  by (auto simp: dequeue_def conn_ok_def gap_state_ok_def split: list.splits)

lemma countPackets_fold:
  "fold countPackets_step ps c =
     c\<lparr>samplesCnt := samplesCnt c + samples ps,
       eventPacketsCnt := eventPacketsCnt c + of_nat (length (filter is_event ps))\<rparr>"
  by (induction ps arbitrary: c) (simp_all add: countPackets_step_def split: packet.splits)

lemma count_id_zero: "list_all (\<lambda>p. \<not> has_id i p) ps \<Longrightarrow> count_id i ps = 0"
  by (induction ps) simp_all

lemma count_events_no_gap:
  "list_all known_event ps \<Longrightarrow> list_all (\<lambda>p. \<not> has_id IMPLICIT_DOMAIN_GAP_DETECTED p) ps \<Longrightarrow>
   of_nat (length (filter is_event ps)) = count_id DATA_DESCRIPTOR_CHANGED ps"
proof (induction ps)
  case (Cons p ps)
  then show ?case by (cases p) (auto simp: known_event_def)
qed simp

lemma conn_ok_enqueueLastDescriptor: "conn_ok c \<Longrightarrow> conn_ok (snd (enqueueLastDescriptor c))"
  by (simp add: enqueueLastDescriptor_def conn_ok_def gap_state_ok_def known_event_def)

text \<open>
  The uses of a connection under which its counters stay exact. The bulk reads
  \<open>dequeueAll\<close> and \<open>dequeueUpTo\<close> do not recompute the number of gap packets, so they appear with
  the guard that no gap packet is queued; \<open>dequeueAll_stale_gap_count\<close> shows the guard is
  needed.
\<close>

definition no_gap_queued :: "('f, 'a) connection \<Rightarrow> bool" where
  "no_gap_queued c \<longleftrightarrow> list_all (\<lambda>p. \<not> has_id IMPLICIT_DOMAIN_GAP_DETECTED p) (packets c)"

inductive conn_step :: "'f float_ops \<Rightarrow> ('f, 'a) connection \<Rightarrow> ('f, 'a) connection \<Rightarrow> bool"
  for fo :: "'f float_ops" where
  step_enqueue: "from_signal p \<Longrightarrow> conn_step fo c (snd (snd (enqueue fo active (Some p) c)))"
| step_enqueueOnThisThread:
    "from_signal p \<Longrightarrow> conn_step fo c (snd (snd (enqueueOnThisThread fo active (Some p) c)))"
| step_enqueueWithScheduler:
    "from_signal p \<Longrightarrow> conn_step fo c (snd (snd (enqueueWithScheduler fo active (Some p) c)))"
| step_enqueueMultiple:
    "list_all from_signal ps \<Longrightarrow> conn_step fo c (snd (snd (enqueueMultiple active (Some ps) c)))"
| step_enqueueMultipleAndStealRef: "list_all from_signal ps \<Longrightarrow>
    conn_step fo c (snd (snd (enqueueMultipleAndStealRef active (Some ps) c)))"
| step_enqueueLastDescriptor: "conn_step fo c (snd (enqueueLastDescriptor c))"
| step_dequeue: "conn_step fo c (snd (snd (dequeue c)))"
| step_dequeueAll: "no_gap_queued c \<Longrightarrow> conn_step fo c (snd (snd (dequeueAll c)))"
| step_dequeueUpTo: "no_gap_queued c \<Longrightarrow> conn_step fo c (snd (snd (dequeueUpTo n c)))"

inductive conn_reachable :: "'f float_ops \<Rightarrow> ('f, 'a) connection \<Rightarrow> bool"
  for fo :: "'f float_ops" where
  conn_start: "conn_reachable fo (connection_init g)"
| conn_next: "conn_reachable fo c \<Longrightarrow> conn_step fo c c' \<Longrightarrow> conn_reachable fo c'"

lemma conn_ok_dequeueAll: "conn_ok c \<Longrightarrow> no_gap_queued c \<Longrightarrow> conn_ok (snd (snd (dequeueAll c)))"
  by (simp add: dequeueAll_def conn_ok_def gap_state_ok_def no_gap_queued_def count_id_zero)

lemma list_all_dropI: "list_all P xs \<Longrightarrow> list_all P (drop n xs)"
  by (meson in_set_dropD list_all_iff)

lemma conn_ok_dequeueUpTo:
  assumes "conn_ok c" "no_gap_queued c"
  shows "conn_ok (snd (snd (dequeueUpTo n c)))"
  using assms list_all_dropI[of known_event "packets c"]
    list_all_dropI[of "\<lambda>p. \<not> has_id IMPLICIT_DOMAIN_GAP_DETECTED p" "packets c"]
  by (simp add: dequeueUpTo_def Let_def countPackets_def countPackets_fold conn_ok_def
      gap_state_ok_def no_gap_queued_def count_id_zero count_events_no_gap)

lemma conn_ok_step: "conn_step fo c c' \<Longrightarrow> conn_ok c \<Longrightarrow> conn_ok c'"
  by (induction rule: conn_step.induct)
     (auto simp: enqueue_def enqueueOnThisThread_def enqueueWithScheduler_def
       enqueueMultiple_def enqueueMultipleAndStealRef_def enqueueMultipleInternal_def
       enqueueMultipleInternalMoved_def popBackLoop_fold conn_ok_queueEmpty
       intro: conn_ok_enqueueInternal conn_ok_fold_enqueueOne conn_ok_dequeue conn_ok_dequeueAll
         conn_ok_dequeueUpTo conn_ok_enqueueLastDescriptor)

inductive_simps conn_reachable_simps: "conn_reachable fo c"

lemma conn_ok_reachable: "conn_reachable fo c \<Longrightarrow> conn_ok c"
  by (induction rule: conn_reachable.induct) (auto intro: conn_ok_init conn_ok_step)

lemma samplesUntil_spec:
  "samplesUntil stop ps acc =
     acc + samples (takeWhile (\<lambda>p. \<forall>e. p = EventPacket e \<longrightarrow> \<not> stop e) ps)"
  by (induction stop ps acc rule: samplesUntil.induct) (auto simp: add_ac)

lemma count_id_eq_0:
  assumes "length ps < 2 ^ 64"
  shows "count_id i ps = 0 \<longleftrightarrow> list_all (\<lambda>p. \<not> has_id i p) ps"
proof -
  have "length (filter (has_id i) ps) < 2 ^ 64"
    using assms le_less_trans length_filter_le by blast
  then have "count_id i ps = 0 \<longleftrightarrow> length (filter (has_id i) ps) = 0"
    unfolding count_id_def by (rule of_nat64_eq_0)
  then show ?thesis by (simp add: filter_empty_conv list_all_iff)
qed

lemma takeWhile_all: "list_all P xs \<Longrightarrow> takeWhile P xs = xs"
  by (simp add: takeWhile_eq_all_conv list_all_iff)

lemma list_ex_conv_all: "list_ex P xs \<longleftrightarrow> \<not> list_all (\<lambda>x. \<not> P x) xs"
  by (simp add: list_ex_iff list_all_iff)

lemma not_event_iff: "(\<forall>e. p \<noteq> EventPacket e) \<longleftrightarrow> \<not> is_event p"
  by (cases p) simp_all

lemma not_id_iff: "(\<forall>e. p = EventPacket e \<longrightarrow> ep_eventId e \<noteq> i) \<longleftrightarrow> \<not> has_id i p"
  by (cases p) auto

text \<open>The integer gap check, as arithmetic on 64-bit ticks.\<close>

definition int_domain :: "('f, 'a) connection \<Rightarrow> Int64 \<Rightarrow> Int64 \<Rightarrow> bool" where
  "int_domain c d nxt \<longleftrightarrow> gapCheckState c = GapCheck_running
     \<and> domainSampleType c \<in> {SampleType_Int64, SampleType_UInt64}
     \<and> delta c = DV_int d \<and> nextExpectedPacketOffset c = DV_int nxt"

definition tick_packet :: "'a \<Rightarrow> SizeT \<Rightarrow> Int64 \<Rightarrow> ('f, 'a) packet" where
  "tick_packet a n off =
     DataPacket a n (Some \<lparr>dp_offset = IntNumber off, dp_sampleCount = n\<rparr>)"

text \<open>
  The queue a consumer is meant to see for a stream of packets \<open>(payload, sample count, offset)\<close>:
  each packet, preceded by a gap packet when its offset is not where the previous one ended.
\<close>

fun with_gaps :: "Int64 \<Rightarrow> Int64 \<Rightarrow> ('a \<times> SizeT \<times> Int64) list \<Rightarrow> ('f, 'a) packet list" where
  "with_gaps d nxt [] = []"
| "with_gaps d nxt ((a, n, off) # xs) =
     (if off = nxt then [] else [ImplicitDomainGapDetectedEventPacket (IntNumber (off - nxt))])
     @ [tick_packet a n off] @ with_gaps d (off + n * d) xs"

fun contiguous :: "Int64 \<Rightarrow> Int64 \<Rightarrow> ('a \<times> SizeT \<times> Int64) list \<Rightarrow> bool" where
  "contiguous d nxt [] = True"
| "contiguous d nxt ((a, n, off) # xs) = (off = nxt \<and> contiguous d (off + n * d) xs)"

lemma enqueue_tick_packet:
  assumes "int_domain c d nxt"
  shows "int_domain (conn_put fo (True, tick_packet a n off) c) d (off + n * d)"
    and "packets (conn_put fo (True, tick_packet a n off) c) =
       packets c @ (if off = nxt then [] else [ImplicitDomainGapDetectedEventPacket (IntNumber (off - nxt))])
         @ [tick_packet a n off]"
  using assms
  by (auto simp: int_domain_def conn_put_def enqueue_def enqueueInternal_def tick_packet_def Let_def
      doGapCheck_def numberToDomainValue_def enqueueGapPacket_def gapPacketFor_def)

lemma with_gaps_contiguous:
  "contiguous d nxt xs \<Longrightarrow> with_gaps d nxt xs = map (\<lambda>(a, n, off). tick_packet a n off) xs"
  by (induction d nxt xs rule: contiguous.induct) simp_all

section \<open>Properties\<close>

text \<open>C1: Packets leave a connection in the order in which they entered it. For every interleaving of
  \<open>enqueue\<close> and \<open>dequeue\<close> calls, with the port active or not and gap checking in any state, the
  packets handed out followed by the packets still queued are the packets queued before followed by
  what the enqueues added (each accepted packet, with the gap packet put in front of it where
  one is due).
\<close>

theorem connection_fifo_order:
  "case fifo_run (conn_put fo) conn_take (conn_added fo) ops c of
     (ins, outs, c') \<Rightarrow> outs @ packets c' = packets c @ ins"
  using connq.run_order[of fo ops c] by (auto split: prod.splits)


text \<open>C3: Gap detection on an integer domain is exact. Once the check runs, a stream of data packets
  is queued with a gap packet in front of precisely those packets whose offset differs from
  the end of the packet before, and each gap packet carries that difference; a contiguous stream
  gets no gap packet at all.
\<close>

theorem connection_gap_detection:
  assumes "int_domain c d nxt"
  shows "packets (fold (\<lambda>(a, n, off). conn_put fo (True, tick_packet a n off)) xs c) =
           packets c @ with_gaps d nxt xs \<and>
         (contiguous d nxt xs \<longrightarrow>
            packets (fold (\<lambda>(a, n, off). conn_put fo (True, tick_packet a n off)) xs c) =
              packets c @ map (\<lambda>(a, n, off). tick_packet a n off) xs)"
proof -
  have "packets (fold (\<lambda>(a, n, off). conn_put fo (True, tick_packet a n off)) xs c) =
      packets c @ with_gaps d nxt xs"
    using assms
  proof (induction d nxt xs arbitrary: c rule: with_gaps.induct)
    case (2 d nxt a n off xs)
    from "2.IH"[OF enqueue_tick_packet(1)[OF "2.prems"]] show ?case
      by (simp add: enqueue_tick_packet(2)[OF "2.prems"])
  qed simp
  then show ?thesis by (simp add: with_gaps_contiguous)
qed

text \<open>A port that is not active loses data packets and nothing else: \<open>enqueue\<close> answers
  \<^verbatim>\<open>OPENDAQ_IGNORED\<close> and leaves the connection alone for a data packet, and treats an event packet
  as on an active port. The bulk \<open>enqueueMultiple\<close> has no such exception: it drops
  descriptor changes with the data.
\<close>

theorem connection_inactive_port:
  "enqueue fo False (Some p) c =
     (if is_event p then enqueue fo True (Some p) c else (OPENDAQ_IGNORED, [], c)) \<and>
   enqueueMultiple False (Some ps) c = (OPENDAQ_IGNORED, [], c)"
  by (simp add: enqueue_def enqueueInternal_def is_event_def enqueueMultiple_def
      enqueueMultipleInternal_def)

text \<open>The two bulk enqueues differ in order: \<open>enqueueMultiple\<close> appends the list as it is given,
  \<open>enqueueMultipleAndStealRef\<close>, which takes the packets off the back of the list, appends it
  reversed.
\<close>

theorem connection_steal_ref_reverses:
  "packets (snd (snd (enqueueMultiple True (Some ps) c))) = packets c @ ps \<and>
   packets (snd (snd (enqueueMultipleAndStealRef True (Some ps) c))) = packets c @ rev ps"
  by (simp add: enqueueMultiple_def enqueueMultipleAndStealRef_def enqueueMultipleInternal_def
      enqueueMultipleInternalMoved_def popBackLoop_fold packets_fold_enqueueOne)

text \<open>\<open>dequeueAll\<close> empties the queue but not the count of gap packets: from any reachable state
  with a gap packet queued, the connection is left empty while \<open>hasGapPacket\<close> and
  \<open>hasEventPacket\<close> still answer true.
\<close>

theorem dequeueAll_stale_gap_count:
  assumes "conn_reachable fo c" and "\<not> no_gap_queued c" and "length (packets c) < 2 ^ 64"
  shows "packets (snd (snd (dequeueAll c))) = [] \<and>
    hasGapPacket (snd (snd (dequeueAll c))) \<and> hasEventPacket (snd (snd (dequeueAll c)))"
  using conn_ok_reachable[OF assms(1)] count_id_eq_0[OF assms(3), of IMPLICIT_DOMAIN_GAP_DETECTED] assms(2)
  by (simp add: dequeueAll_def hasGapPacket_def hasEventPacket_def conn_ok_def no_gap_queued_def)

text \<open>
  A worked state for the examples: a tick domain with step 10, two packets of four samples and a
  third one whose offset jumps from 80 to 100.
\<close>

definition tick_descriptor :: "int data_descriptor" where
  "tick_descriptor = \<lparr>dd_name = ''time'', dd_sampleType = SampleType_Int64,
     dd_rule = Some (LinearRule (IntNumber 10) (IntNumber 0)), dd_sampleSize = 8, dd_rawSampleSize = 0\<rparr>"

definition tick_feed :: "(bool \<times> (int, nat) packet) list" where
  "tick_feed = [(True, DataDescriptorChangedEventPacket None (Some tick_descriptor)),
     (True, tick_packet 1 4 0), (True, tick_packet 2 4 40)]"

definition tick_conn :: "(int, nat) connection" where
  "tick_conn = fold (conn_put whole_ops) tick_feed (connection_init True)"

definition gap_conn :: "(int, nat) connection" where
  "gap_conn = conn_put whole_ops (True, tick_packet 3 4 100) tick_conn"

lemma conn_reachable_put:
  "conn_reachable fo c \<Longrightarrow> from_signal (snd ap) \<Longrightarrow> conn_reachable fo (conn_put fo ap c)"
  unfolding conn_put_def by (rule conn_next[OF _ step_enqueue])

lemma conn_reachable_feed:
  "conn_reachable fo c \<Longrightarrow> list_all (from_signal \<circ> snd) aps \<Longrightarrow>
   conn_reachable fo (fold (conn_put fo) aps c)"
  by (induction aps arbitrary: c) (simp_all add: conn_reachable_put)

lemmas tick_eval = tick_conn_def gap_conn_def tick_feed_def tick_descriptor_def connection_init_def
  conn_put_def enqueue_def enqueueInternal_def Let_def initGapCheck_def
  DataDescriptorChangedEventPacket_def parseDataDescriptorEventPacket_def NullDataDescriptor_def
  tick_packet_def beginGapCheck_def numberToDomainValue_def doGapCheck_def enqueueGapPacket_def

lemma tick_conn_reachable: "conn_reachable whole_ops tick_conn"
  unfolding tick_conn_def
  by (rule conn_reachable_feed[OF conn_start])
     (simp add: tick_feed_def from_signal_def tick_packet_def)

lemma gap_conn_reachable: "conn_reachable whole_ops gap_conn"
  unfolding gap_conn_def
  by (rule conn_reachable_put[OF tick_conn_reachable]) (simp add: from_signal_def tick_packet_def)

lemma tick_conn_domain: "int_domain tick_conn 10 80" "packets tick_conn = map snd tick_feed"
  by (simp_all add: tick_eval int_domain_def)

lemma gap_conn_packets:
  "packets gap_conn = map snd tick_feed @
     [ImplicitDomainGapDetectedEventPacket (IntNumber 20), tick_packet 3 4 100]"
  using enqueue_tick_packet(2)[OF tick_conn_domain(1), of whole_ops 3 4 100]
  by (simp add: gap_conn_def tick_conn_domain(2))


theorem connection_gap_detection_witness:
  "packets (fold (\<lambda>(a, n, off). conn_put whole_ops (True, tick_packet a n off)) [(3, 4, 80)] tick_conn) =
     packets tick_conn @ [tick_packet 3 4 80]"
  using connection_gap_detection[OF tick_conn_domain(1), of whole_ops "[(3, 4, 80)]"] by simp

theorem dequeueAll_stale_gap_count_witness:
  "packets (snd (snd (dequeueAll gap_conn))) = [] \<and> hasGapPacket (snd (snd (dequeueAll gap_conn)))"
  using dequeueAll_stale_gap_count[OF gap_conn_reachable] gap_conn_packets
  by (simp add: no_gap_queued_def tick_feed_def)

end
