(* ===== verification/SignalPath.thy ===== *)
theory SignalPath
  imports Connection
begin

text \<open>
  Signals and input ports (\<^verbatim>\<open>signal_impl.h\<close>, \<^verbatim>\<open>input_port_impl.h\<close>): how ports are connected to
  signals, how packets and descriptor changes reach the connections, and what a signal and its
  ports know of each other. The queue of a connection is that of the theory \<open>Connection\<close>.

  Signals, ports and connections are objects, addressed by numbers. A connection is owned by the
  lists of its signal (and by a call that is creating it); a port has a weak reference to it. The
  listener of a port is a callback that may change the world, for instance take packets off
  queues; a packet notification that goes through the scheduler is noted in \<open>scheduledWork\<close>. Core
  events are noted in \<open>coreEvents\<close>. An exception that leaves a call is the error code it carries.
\<close>

section \<open>State\<close>

type_synonym sid = nat
type_synonym pid = nat
type_synonym lid = nat

datatype PacketReadyNotification =
    Notify_None | Notify_SameThread | Notify_Scheduler | Notify_SchedulerQueueWasEmpty | Notify_Unspecified

record ('f, 'v) signal =
  sg_active :: bool
  sg_frozen :: bool
  sg_removed :: bool
  sg_coreEventMuted :: bool
  sg_lockedAttributes :: "string list"
  sg_dataDescriptor :: "'f data_descriptor option"
  sg_isPublic :: bool
  sg_relatedSignals :: "sid list"
  sg_domainSignal :: "sid option"
  sg_connections :: "lid list"
  sg_remoteConnections :: "lid list"
  sg_domainSignalReferences :: "sid list"
  sg_keepLastPacket :: bool
  sg_keepLastValue :: bool
  sg_lastDataValue :: "'v option"
  sg_lastRawDataValue :: "8 word list"
  sg_lastDataDescriptor :: "'f data_descriptor option"

text \<open>\<open>po_listener\<close>: whether a listener was set, and whether it is still alive.\<close>

record port =
  po_active :: bool
  po_removed :: bool
  po_coreEventMuted :: bool
  po_requiresSignal :: bool
  po_gapCheckingEnabled :: bool
  po_customData :: "nat option"
  po_notifyMethod :: PacketReadyNotification
  po_listener :: "bool option"
  po_connectionRef :: "lid option"
  po_hasScheduler :: bool

record ('f, 'a) link =
  ln_port :: pid
  ln_signal :: sid
  ln_remote :: bool
  ln_queue :: "('f, 'a) connection"

datatype 'f path_event =
    PublicChanged sid bool
  | DataDescriptorChanged sid "'f data_descriptor option"
  | DomainSignalChanged sid "sid option"
  | RelatedSignalsChanged sid "sid list"
  | SignalConnected pid sid
  | SignalDisconnected pid
  | CustomDataRemoved nat

text \<open>\<open>crashed\<close>: a null pointer was dereferenced.\<close>

record ('f, 'a, 'v) path_world =
  signals :: "sid \<Rightarrow> ('f, 'v) signal"
  ports :: "pid \<Rightarrow> port"
  links :: "lid \<Rightarrow> ('f, 'a) link"
  nextLink :: lid
  held :: "lid list"
  scheduledWork :: "pid list"
  schedulerStopped :: bool
  coreEvents :: "'f path_event list"
  crashed :: bool

text \<open>
  What is not part of this model: floating point arithmetic, the payload of data packets, building
  a value from raw data, and the listeners of ports. \<^verbatim>\<open>createConnection\<close> is virtual: the ports
  of a client make connections to a remote signal, \<open>createsRemote\<close>.
\<close>

record ('f, 'a, 'v) path_ext =
  floatOps :: "'f float_ops"
  packetDescriptor :: "'a \<Rightarrow> 'f data_descriptor"
  lastValueSize :: "'a \<Rightarrow> nat"
  rawLastValue :: "'a \<Rightarrow> 8 word list option"
  buildObject :: "8 word list \<Rightarrow> 'f data_descriptor \<Rightarrow> 'v result"
  createsRemote :: "pid \<Rightarrow> bool"
  onAccepts :: "pid \<Rightarrow> sid \<Rightarrow> ErrCode \<times> bool"
  onConnected :: "pid \<Rightarrow> ('f, 'a, 'v) path_world \<Rightarrow> ErrCode \<times> ('f, 'a, 'v) path_world"
  onDisconnected :: "pid \<Rightarrow> ('f, 'a, 'v) path_world \<Rightarrow> ('f, 'a, 'v) path_world"
  onReceived :: "pid \<Rightarrow> ('f, 'a, 'v) path_world \<Rightarrow> ('f, 'a, 'v) path_world"

definition modSignal :: "sid \<Rightarrow> (('f, 'v) signal \<Rightarrow> ('f, 'v) signal) \<Rightarrow> ('f, 'a, 'v) path_world \<Rightarrow> ('f, 'a, 'v) path_world" where
  "modSignal s f w = w\<lparr>signals := (signals w)(s := f (signals w s))\<rparr>"

definition modPort :: "pid \<Rightarrow> (port \<Rightarrow> port) \<Rightarrow> ('f, 'a, 'v) path_world \<Rightarrow> ('f, 'a, 'v) path_world" where
  "modPort p f w = w\<lparr>ports := (ports w)(p := f (ports w p))\<rparr>"

definition setQueue :: "lid \<Rightarrow> ('f, 'a) connection \<Rightarrow> ('f, 'a, 'v) path_world \<Rightarrow> ('f, 'a, 'v) path_world" where
  "setQueue l c w = w\<lparr>links := (links w)(l := (links w l)\<lparr>ln_queue := c\<rparr>)\<rparr>"

definition fireSignal :: "sid \<Rightarrow> 'f path_event \<Rightarrow> ('f, 'a, 'v) path_world \<Rightarrow> ('f, 'a, 'v) path_world" where
  "fireSignal s ev w = (if sg_coreEventMuted (signals w s) then w else w\<lparr>coreEvents := coreEvents w @ [ev]\<rparr>)"

definition firePort :: "pid \<Rightarrow> 'f path_event \<Rightarrow> ('f, 'a, 'v) path_world \<Rightarrow> ('f, 'a, 'v) path_world" where
  "firePort p ev w = (if po_coreEventMuted (ports w p) then w else w\<lparr>coreEvents := coreEvents w @ [ev]\<rparr>)"

section \<open>The last value of a signal\<close>

text \<open>
  \<open>lastValueSize\<close> is the size of the last sample of a packet, \<open>rawLastValue\<close> what
  \<^verbatim>\<open>getRawLastValue\<close> writes into a buffer of that size, when it succeeds.
\<close>

definition resize :: "nat \<Rightarrow> 8 word list \<Rightarrow> 8 word list" where
  "resize n xs = take n xs @ replicate (n - length xs) 0"

definition setLastValueFromPacket :: "('f, 'a, 'v) path_ext \<Rightarrow> 'a option \<Rightarrow> ('f, 'v) signal \<Rightarrow> ('f, 'v) signal" where
  "setLastValueFromPacket X packet g =
     (case packet of
        None \<Rightarrow> g\<lparr>sg_lastDataValue := None, sg_lastDataDescriptor := None\<rparr>
      | Some a \<Rightarrow>
          (let buffer = resize (lastValueSize X a) (sg_lastRawDataValue g) in
           case rawLastValue X a of
             None \<Rightarrow> g\<lparr>sg_lastDataValue := None, sg_lastDataDescriptor := None, sg_lastRawDataValue := buffer\<rparr>
           | Some raw \<Rightarrow> g\<lparr>sg_lastDataValue := None, sg_lastDataDescriptor := Some (packetDescriptor X a), sg_lastRawDataValue := raw\<rparr>))"

definition setKeepLastPacket :: "('f, 'a, 'v) path_ext \<Rightarrow> ('f, 'v) signal \<Rightarrow> ('f, 'v) signal" where
  "setKeepLastPacket X g =
     (let g1 = g\<lparr>sg_keepLastPacket := sg_keepLastValue g \<and> sg_isPublic g\<rparr> in
      if sg_keepLastPacket g1 then g1 else setLastValueFromPacket X None g1)"

definition visibleChanged :: "('f, 'a, 'v) path_ext \<Rightarrow> ('f, 'v) signal \<Rightarrow> ('f, 'v) signal" where
  "visibleChanged X g = setKeepLastPacket X g"

definition enableKeepLastValue :: "('f, 'a, 'v) path_ext \<Rightarrow> sid \<Rightarrow> bool \<Rightarrow> ('f, 'a, 'v) path_world \<Rightarrow> ErrCode \<times> ('f, 'a, 'v) path_world" where
  "enableKeepLastValue X s enabled w =
     (OPENDAQ_SUCCESS, modSignal s (\<lambda>g. setKeepLastPacket X (g\<lparr>sg_keepLastValue := enabled\<rparr>)) w)"

definition getKeepLastValue :: "sid \<Rightarrow> ('f, 'a, 'v) path_world \<Rightarrow> bool" where
  "getKeepLastValue s w = sg_keepLastValue (signals w s)"

definition setLastValue :: "('f, 'a, 'v) path_ext \<Rightarrow> sid \<Rightarrow> 'v option \<Rightarrow> ('f, 'a, 'v) path_world \<Rightarrow> ErrCode \<times> ('f, 'a, 'v) path_world" where
  "setLastValue X s v w =
     (OPENDAQ_SUCCESS, modSignal s (\<lambda>g. (setLastValueFromPacket X None g)\<lparr>sg_lastDataValue := v\<rparr>) w)"

definition getLastValue :: "('f, 'a, 'v) path_ext \<Rightarrow> sid \<Rightarrow> ('f, 'a, 'v) path_world \<Rightarrow> (ErrCode \<times> 'v option) \<times> ('f, 'a, 'v) path_world" where
  "getLastValue X s w =
     (let g = signals w s in
      case sg_lastDataValue g of
        Some v \<Rightarrow> ((OPENDAQ_SUCCESS, Some v), w)
      | None \<Rightarrow>
          (case sg_lastDataDescriptor g of
             None \<Rightarrow> ((OPENDAQ_IGNORED, None), w)
           | Some d \<Rightarrow>
               (case buildObject X (sg_lastRawDataValue g) d of
                  Inl e \<Rightarrow> ((e, None), w)
                | Inr v \<Rightarrow> ((OPENDAQ_SUCCESS, Some v), modSignal s (\<lambda>g. g\<lparr>sg_lastDataValue := Some v\<rparr>) w))))"

definition checkKeepLastPacket :: "('f, 'a, 'v) path_ext \<Rightarrow> ('f, 'a) packet \<Rightarrow> ('f, 'v) signal \<Rightarrow> ('f, 'v) signal" where
  "checkKeepLastPacket X packet g =
     (case packet of
        DataPacket a n d \<Rightarrow> if sg_keepLastPacket g \<and> n > 0 then setLastValueFromPacket X (Some a) g else g
      | _ \<Rightarrow> g)"

section \<open>Construction\<close>

text \<open>Registering a struct descriptor with the type manager (\<^verbatim>\<open>addToTypeManagerRecursively\<close>) is the argument \<open>addType\<close>.\<close>

definition Signal_init :: "('f, 'a, 'v) path_ext \<Rightarrow> ('f data_descriptor \<Rightarrow> ErrCode) \<Rightarrow> 'f data_descriptor option \<Rightarrow> ErrCode + ('f, 'v) signal" where
  "Signal_init X addType descriptor =
     (let g = setKeepLastPacket X \<lparr>sg_active = True, sg_frozen = False, sg_removed = False, sg_coreEventMuted = True, sg_lockedAttributes = [],
           sg_dataDescriptor = descriptor, sg_isPublic = True, sg_relatedSignals = [], sg_domainSignal = None, sg_connections = [],
           sg_remoteConnections = [], sg_domainSignalReferences = [], sg_keepLastPacket = False, sg_keepLastValue = True,
           sg_lastDataValue = None, sg_lastRawDataValue = [], sg_lastDataDescriptor = None\<rparr> in
      case descriptor of
        None \<Rightarrow> Inr g
      | Some d \<Rightarrow>
          if dd_sampleType d = SampleType_Null then Inl OPENDAQ_ERR_INVALID_SAMPLE_TYPE
          else if dd_sampleType d = SampleType_Struct \<and> OPENDAQ_FAILED (addType d) then Inl (addType d)
          else Inr g)"

definition InputPort_init :: "bool \<Rightarrow> bool \<Rightarrow> port" where
  "InputPort_init hasScheduler gapCheckingEnabled =
     \<lparr>po_active = True, po_removed = False, po_coreEventMuted = True, po_requiresSignal = True,
      po_gapCheckingEnabled = gapCheckingEnabled, po_customData = None, po_notifyMethod = Notify_None,
      po_listener = None, po_connectionRef = None, po_hasScheduler = hasScheduler\<rparr>"

section \<open>Notifications\<close>

definition setNotificationMethod :: "pid \<Rightarrow> PacketReadyNotification \<Rightarrow> ('f, 'a, 'v) path_world \<Rightarrow> ErrCode \<times> ('f, 'a, 'v) path_world" where
  "setNotificationMethod p method w =
     (OPENDAQ_SUCCESS,
      modPort p (\<lambda>q. q\<lparr>po_notifyMethod :=
        (if method \<in> {Notify_Scheduler, Notify_SchedulerQueueWasEmpty} \<and> \<not> po_hasScheduler q then Notify_SameThread else method)\<rparr>) w)"

definition notifyPacketEnqueuedSameThread :: "('f, 'a, 'v) path_ext \<Rightarrow> pid \<Rightarrow> ('f, 'a, 'v) path_world \<Rightarrow> ('f, 'a, 'v) path_world" where
  "notifyPacketEnqueuedSameThread X p w = (if po_listener (ports w p) = Some True then onReceived X p w else w)"

text \<open>\<^verbatim>\<open>scheduleWork\<close> refuses a null work object; a stopped scheduler is tolerated.\<close>

definition notifyPacketEnqueuedScheduler :: "pid \<Rightarrow> ('f, 'a, 'v) path_world \<Rightarrow> ErrCode \<times> ('f, 'a, 'v) path_world" where
  "notifyPacketEnqueuedScheduler p w =
     (if \<not> po_hasScheduler (ports w p) then (OPENDAQ_SUCCESS, w\<lparr>crashed := True\<rparr>)
      else if po_listener (ports w p) = None then (OPENDAQ_ERR_ARGUMENT_NULL, w)
      else if schedulerStopped w then (OPENDAQ_SUCCESS, w)
      else (OPENDAQ_SUCCESS, w\<lparr>scheduledWork := scheduledWork w @ [p]\<rparr>))"

fun port_notify :: "('f, 'a, 'v) path_ext \<Rightarrow> port_notification \<Rightarrow> pid \<Rightarrow> ('f, 'a, 'v) path_world \<Rightarrow> ErrCode \<times> ('f, 'a, 'v) path_world" where
  "port_notify X (notifyPacketEnqueued queueWasEmpty) p w =
     (case po_notifyMethod (ports w p) of
        Notify_SameThread \<Rightarrow> (OPENDAQ_SUCCESS, notifyPacketEnqueuedSameThread X p w)
      | Notify_Scheduler \<Rightarrow> notifyPacketEnqueuedScheduler p w
      | Notify_SchedulerQueueWasEmpty \<Rightarrow> if queueWasEmpty then notifyPacketEnqueuedScheduler p w else (OPENDAQ_SUCCESS, w)
      | Notify_None \<Rightarrow> (OPENDAQ_SUCCESS, w)
      | Notify_Unspecified \<Rightarrow> (OPENDAQ_SUCCESS, w))"
| "port_notify X notifyPacketEnqueuedOnThisThread p w =
     (if po_notifyMethod (ports w p) \<in> {Notify_SameThread, Notify_Scheduler, Notify_SchedulerQueueWasEmpty}
      then (OPENDAQ_SUCCESS, notifyPacketEnqueuedSameThread X p w) else (OPENDAQ_SUCCESS, w))"
| "port_notify X notifyPacketEnqueuedWithScheduler p w =
     (if po_notifyMethod (ports w p) \<in> {Notify_SameThread, Notify_Scheduler, Notify_SchedulerQueueWasEmpty}
      then notifyPacketEnqueuedScheduler p w else (OPENDAQ_SUCCESS, w))"

text \<open>
  A call on a connection: its queue changes, then the port is notified. A failed notification makes
  the call fail after the packet was queued.
\<close>

type_synonym ('f, 'a) queue_call = "bool \<Rightarrow> ('f, 'a) connection \<Rightarrow> ErrCode \<times> port_notification list \<times> ('f, 'a) connection"

fun notifyAll :: "('f, 'a, 'v) path_ext \<Rightarrow> pid \<Rightarrow> port_notification list \<Rightarrow> ('f, 'a, 'v) path_world \<Rightarrow> ErrCode \<times> ('f, 'a, 'v) path_world" where
  "notifyAll X p [] w = (OPENDAQ_SUCCESS, w)"
| "notifyAll X p (n # ns) w =
     (case port_notify X n p w of (e, w1) \<Rightarrow> if OPENDAQ_FAILED e then (e, w1) else notifyAll X p ns w1)"

definition linkCall :: "('f, 'a, 'v) path_ext \<Rightarrow> ('f, 'a) queue_call \<Rightarrow> lid \<Rightarrow> ('f, 'a, 'v) path_world \<Rightarrow> ErrCode \<times> ('f, 'a, 'v) path_world" where
  "linkCall X f l w =
     (let p = ln_port (links w l) in
      case f (po_active (ports w p)) (ln_queue (links w l)) of
        (e, ns, c) \<Rightarrow>
          (case notifyAll X p ns (setQueue l c w) of (e1, w1) \<Rightarrow> (if OPENDAQ_FAILED e1 then e1 else e, w1)))"

section \<open>Sending packets\<close>

text \<open>The loops over connections; a failed call throws and ends the loop.\<close>

fun linkCalls :: "('f, 'a, 'v) path_ext \<Rightarrow> (lid \<times> ('f, 'a) queue_call) list \<Rightarrow> ('f, 'a, 'v) path_world \<Rightarrow> ErrCode \<times> ('f, 'a, 'v) path_world" where
  "linkCalls X [] w = (OPENDAQ_SUCCESS, w)"
| "linkCalls X ((l, f) # cs) w =
     (case linkCall X f l w of (e, w1) \<Rightarrow> if OPENDAQ_FAILED e then (e, w1) else linkCalls X cs w1)"

definition buildTempConnections :: "('f, 'v) signal \<Rightarrow> lid list" where
  "buildTempConnections g = sg_connections g"

definition enqueuePacketToConnections :: "('f, 'a, 'v) path_ext \<Rightarrow> ('f, 'a) packet \<Rightarrow> lid list \<Rightarrow> ('f, 'a, 'v) path_world \<Rightarrow> ErrCode \<times> ('f, 'a, 'v) path_world" where
  "enqueuePacketToConnections X packet ls =
     linkCalls X (map (\<lambda>l. (l, \<lambda>active. enqueue (floatOps X) active (Some packet))) ls)"

text \<open>The overloads for a moved argument give it to the last connection.\<close>

definition enqueueMovedToConnections :: "('f, 'a, 'v) path_ext \<Rightarrow> ('f, 'a) packet \<Rightarrow> lid list \<Rightarrow> ('f, 'a, 'v) path_world \<Rightarrow> ErrCode \<times> ('f, 'a, 'v) path_world" where
  "enqueueMovedToConnections X packet ls w =
     (if ls = [] then (OPENDAQ_SUCCESS, w)
      else linkCalls X (map (\<lambda>l. (l, \<lambda>active. enqueue (floatOps X) active (Some packet))) (butlast ls) @
             [(last ls, \<lambda>active. enqueueAndStealRef (floatOps X) active (Some packet))]) w)"

definition enqueuePacketsToConnections :: "('f, 'a, 'v) path_ext \<Rightarrow> ('f, 'a) packet list \<Rightarrow> lid list \<Rightarrow> ('f, 'a, 'v) path_world \<Rightarrow> ErrCode \<times> ('f, 'a, 'v) path_world" where
  "enqueuePacketsToConnections X ps ls = linkCalls X (map (\<lambda>l. (l, \<lambda>active. enqueueMultiple active (Some ps))) ls)"

text \<open>Here the error code of the last call is not looked at.\<close>

definition enqueueMovedPacketsToConnections :: "('f, 'a, 'v) path_ext \<Rightarrow> ('f, 'a) packet list \<Rightarrow> lid list \<Rightarrow> ('f, 'a, 'v) path_world \<Rightarrow> ErrCode \<times> ('f, 'a, 'v) path_world" where
  "enqueueMovedPacketsToConnections X ps ls w =
     (if ls = [] then (OPENDAQ_SUCCESS, w)
      else case linkCalls X (map (\<lambda>l. (l, \<lambda>active. enqueueMultiple active (Some ps))) (butlast ls)) w of
             (e, w1) \<Rightarrow> if OPENDAQ_FAILED e then (e, w1)
                        else (OPENDAQ_SUCCESS, snd (linkCall X (\<lambda>active. enqueueMultipleAndStealRef active (Some ps)) (last ls) w1)))"

definition keepLastPacketAndEnqueue :: "('f, 'a, 'v) path_ext \<Rightarrow> bool \<Rightarrow> sid \<Rightarrow> ('f, 'a) packet \<Rightarrow> ('f, 'a, 'v) path_world \<Rightarrow> ErrCode \<times> ('f, 'a, 'v) path_world" where
  "keepLastPacketAndEnqueue X moved s packet w =
     (if \<not> sg_active (signals w s) then (OPENDAQ_IGNORED, w)
      else let w1 = modSignal s (checkKeepLastPacket X packet) w; ls = buildTempConnections (signals w1 s) in
        if moved then enqueueMovedToConnections X packet ls w1 else enqueuePacketToConnections X packet ls w1)"

definition keepLastPacketAndEnqueueMultiple :: "('f, 'a, 'v) path_ext \<Rightarrow> bool \<Rightarrow> sid \<Rightarrow> ('f, 'a) packet list \<Rightarrow> ('f, 'a, 'v) path_world \<Rightarrow> ErrCode \<times> ('f, 'a, 'v) path_world" where
  "keepLastPacketAndEnqueueMultiple X moved s ps w =
     (if \<not> sg_active (signals w s) \<or> ps = [] then (OPENDAQ_IGNORED, w)
      else let w1 = modSignal s (checkKeepLastPacket X (last ps)) w; ls = buildTempConnections (signals w1 s) in
        if moved then enqueueMovedPacketsToConnections X ps ls w1 else enqueuePacketsToConnections X ps ls w1)"

text \<open>The two kinds of lock that can be taken make no difference here.\<close>

definition sendPacketInner :: "('f, 'a, 'v) path_ext \<Rightarrow> sid \<Rightarrow> ('f, 'a) packet option \<Rightarrow> ('f, 'a, 'v) path_world \<Rightarrow> ErrCode \<times> ('f, 'a, 'v) path_world" where
  "sendPacketInner X s packet w =
     (case packet of None \<Rightarrow> (OPENDAQ_ERR_ARGUMENT_NULL, w) | Some p \<Rightarrow> keepLastPacketAndEnqueue X False s p w)"

definition signal_sendPacket where
  "signal_sendPacket X s packet w = sendPacketInner X s packet w"

definition sendPacketRecursiveLock where
  "sendPacketRecursiveLock X s packet w = sendPacketInner X s packet w"

definition sendPacketAndStealRef :: "('f, 'a, 'v) path_ext \<Rightarrow> sid \<Rightarrow> ('f, 'a) packet option \<Rightarrow> ('f, 'a, 'v) path_world \<Rightarrow> ErrCode \<times> ('f, 'a, 'v) path_world" where
  "sendPacketAndStealRef X s packet w =
     (case packet of None \<Rightarrow> (OPENDAQ_ERR_ARGUMENT_NULL, w) | Some p \<Rightarrow> keepLastPacketAndEnqueue X True s p w)"

definition sendPackets :: "('f, 'a, 'v) path_ext \<Rightarrow> sid \<Rightarrow> ('f, 'a) packet list option \<Rightarrow> ('f, 'a, 'v) path_world \<Rightarrow> ErrCode \<times> ('f, 'a, 'v) path_world" where
  "sendPackets X s pps w =
     (case pps of None \<Rightarrow> (OPENDAQ_ERR_ARGUMENT_NULL, w) | Some ps \<Rightarrow> keepLastPacketAndEnqueueMultiple X False s ps w)"

definition sendPacketsAndStealRef :: "('f, 'a, 'v) path_ext \<Rightarrow> sid \<Rightarrow> ('f, 'a) packet list option \<Rightarrow> ('f, 'a, 'v) path_world \<Rightarrow> ErrCode \<times> ('f, 'a, 'v) path_world" where
  "sendPacketsAndStealRef X s pps w =
     (case pps of None \<Rightarrow> (OPENDAQ_ERR_ARGUMENT_NULL, w) | Some ps \<Rightarrow> keepLastPacketAndEnqueueMultiple X True s ps w)"

definition sendPacketInternal :: "('f, 'a, 'v) path_ext \<Rightarrow> sid \<Rightarrow> ('f, 'a) packet \<Rightarrow> bool \<Rightarrow> ('f, 'a, 'v) path_world \<Rightarrow> ErrCode \<times> ('f, 'a, 'v) path_world" where
  "sendPacketInternal X s packet ignoreActive w =
     (if \<not> ignoreActive \<and> \<not> sg_active (signals w s) then (OPENDAQ_IGNORED, w)
      else enqueuePacketToConnections X packet (sg_connections (signals w s)) w)"


section \<open>Attributes of a signal\<close>

definition setPublic :: "('f, 'a, 'v) path_ext \<Rightarrow> sid \<Rightarrow> bool \<Rightarrow> ('f, 'a, 'v) path_world \<Rightarrow> ErrCode \<times> ('f, 'a, 'v) path_world" where
  "setPublic X s v w =
     (if sg_frozen (signals w s) then (OPENDAQ_ERR_FROZEN, w)
      else if ''Public'' \<in> set (sg_lockedAttributes (signals w s)) then (OPENDAQ_IGNORED, w)
      else (OPENDAQ_SUCCESS, fireSignal s (PublicChanged s v) (modSignal s (\<lambda>g. setKeepLastPacket X (g\<lparr>sg_isPublic := v\<rparr>)) w)))"

text \<open>The member \<^verbatim>\<open>public\<close> of a stored configuration, where it has one, is assigned as it is.\<close>

definition signal_updateObject :: "sid \<Rightarrow> bool option \<Rightarrow> ('f, 'a, 'v) path_world \<Rightarrow> ('f, 'a, 'v) path_world" where
  "signal_updateObject s stored w =
     (case stored of None \<Rightarrow> w | Some v \<Rightarrow> modSignal s (\<lambda>g. g\<lparr>sg_isPublic := v\<rparr>) w)"

fun notifyReferences :: "('f, 'a, 'v) path_ext \<Rightarrow> sid list \<Rightarrow> ('f, 'a) packet \<Rightarrow> bool \<Rightarrow> ('f, 'a, 'v) path_world \<Rightarrow> bool \<times> ('f, 'a, 'v) path_world" where
  "notifyReferences X [] packet success w = (success, w)"
| "notifyReferences X (v # vs) packet success w =
     (case sendPacketRecursiveLock X v (Some packet) w of (e, w1) \<Rightarrow>
        notifyReferences X vs packet (success \<and> e = OPENDAQ_SUCCESS) w1)"

text \<open>
  The event for the signal's own connections is sent with the signal locked, those for the signals
  it is the domain of afterwards. An exception of the first loop leaves \<^verbatim>\<open>setDescriptor\<close>; adding the
  descriptor's struct type to the type manager has no effect on this state and its exceptions are caught.
\<close>

definition signal_setDescriptor :: "('f, 'a, 'v) path_ext \<Rightarrow> sid \<Rightarrow> 'f data_descriptor option \<Rightarrow> ('f, 'a, 'v) path_world \<Rightarrow> ErrCode \<times> ('f, 'a, 'v) path_world" where
  "signal_setDescriptor X s d w =
     (if (case d of None \<Rightarrow> False | Some x \<Rightarrow> dd_sampleType x = SampleType_Null) then (OPENDAQ_ERR_INVALID_SAMPLE_TYPE, w)
      else
        case sendPacketInternal X s (DataDescriptorChangedEventPacket (descriptorToEventPacketParam d) None) True
               (modSignal s (\<lambda>g. g\<lparr>sg_dataDescriptor := d\<rparr>) w) of
          (e, w1) \<Rightarrow>
            if OPENDAQ_FAILED e then (e, w1)
            else
              case notifyReferences X (sg_domainSignalReferences (signals w1 s))
                     (DataDescriptorChangedEventPacket None (descriptorToEventPacketParam (sg_dataDescriptor (signals w1 s)))) True w1 of
                (success, w2) \<Rightarrow>
                  (if success then OPENDAQ_SUCCESS else OPENDAQ_IGNORED,
                   fireSignal s (DataDescriptorChanged s (sg_dataDescriptor (signals w2 s))) w2))"

definition domainSignalReferenceSet :: "sid \<Rightarrow> sid \<Rightarrow> ('f, 'a, 'v) path_world \<Rightarrow> ErrCode \<times> ('f, 'a, 'v) path_world" where
  "domainSignalReferenceSet d s w =
     (if s \<in> set (sg_domainSignalReferences (signals w d)) then (OPENDAQ_ERR_DUPLICATEITEM, w)
      else (OPENDAQ_SUCCESS, modSignal d (\<lambda>g. g\<lparr>sg_domainSignalReferences := sg_domainSignalReferences g @ [s]\<rparr>) w))"

definition domainSignalReferenceRemoved :: "sid \<Rightarrow> sid \<Rightarrow> ('f, 'a, 'v) path_world \<Rightarrow> ErrCode \<times> ('f, 'a, 'v) path_world" where
  "domainSignalReferenceRemoved d s w =
     (OPENDAQ_SUCCESS, modSignal d (\<lambda>g. g\<lparr>sg_domainSignalReferences := remove1 s (sg_domainSignalReferences g)\<rparr>) w)"

definition setDomainSignal :: "sid \<Rightarrow> sid option \<Rightarrow> ('f, 'a, 'v) path_world \<Rightarrow> ErrCode \<times> ('f, 'a, 'v) path_world" where
  "setDomainSignal s d w =
     (if ''DomainSignal'' \<in> set (sg_lockedAttributes (signals w s)) then (OPENDAQ_IGNORED, w)
      else if d = sg_domainSignal (signals w s) then (OPENDAQ_IGNORED, w)
      else
        let w1 = (case sg_domainSignal (signals w s) of None \<Rightarrow> w | Some old \<Rightarrow> snd (domainSignalReferenceRemoved old s w));
            w2 = modSignal s (\<lambda>g. g\<lparr>sg_domainSignal := d\<rparr>) w1
        in case (case d of None \<Rightarrow> (OPENDAQ_SUCCESS, w2) | Some x \<Rightarrow> domainSignalReferenceSet x s w2) of
             (e, w3) \<Rightarrow> if OPENDAQ_FAILED e then (e, w3) else (OPENDAQ_SUCCESS, fireSignal s (DomainSignalChanged s d) w3))"

definition clearDomainSignalWithoutNotification :: "sid \<Rightarrow> ('f, 'a, 'v) path_world \<Rightarrow> ('f, 'a, 'v) path_world" where
  "clearDomainSignalWithoutNotification s w = modSignal s (\<lambda>g. g\<lparr>sg_domainSignal := None\<rparr>) w"

definition triggerRelatedSignalsChanged :: "sid \<Rightarrow> ('f, 'a, 'v) path_world \<Rightarrow> ('f, 'a, 'v) path_world" where
  "triggerRelatedSignalsChanged s w = fireSignal s (RelatedSignalsChanged s (sg_relatedSignals (signals w s))) w"

definition relatedLocked :: "sid \<Rightarrow> ('f, 'a, 'v) path_world \<Rightarrow> bool" where
  "relatedLocked s w \<longleftrightarrow> ''RelatedSignals'' \<in> set (sg_lockedAttributes (signals w s))"

definition setRelatedSignals :: "sid \<Rightarrow> sid list option \<Rightarrow> ('f, 'a, 'v) path_world \<Rightarrow> ErrCode \<times> ('f, 'a, 'v) path_world" where
  "setRelatedSignals s rs w =
     (case rs of
        None \<Rightarrow> (OPENDAQ_ERR_ARGUMENT_NULL, w)
      | Some xs \<Rightarrow>
          if relatedLocked s w then (OPENDAQ_IGNORED, w)
          else (OPENDAQ_SUCCESS, triggerRelatedSignalsChanged s (modSignal s (\<lambda>g. g\<lparr>sg_relatedSignals := xs\<rparr>) w)))"

definition addRelatedSignal :: "sid \<Rightarrow> sid option \<Rightarrow> ('f, 'a, 'v) path_world \<Rightarrow> ErrCode \<times> ('f, 'a, 'v) path_world" where
  "addRelatedSignal s r w =
     (case r of
        None \<Rightarrow> (OPENDAQ_ERR_ARGUMENT_NULL, w)
      | Some x \<Rightarrow>
          if relatedLocked s w then (OPENDAQ_IGNORED, w)
          else if x \<in> set (sg_relatedSignals (signals w s)) then (OPENDAQ_ERR_DUPLICATEITEM, w)
          else (OPENDAQ_SUCCESS, triggerRelatedSignalsChanged s (modSignal s (\<lambda>g. g\<lparr>sg_relatedSignals := sg_relatedSignals g @ [x]\<rparr>) w)))"

definition removeRelatedSignal :: "sid \<Rightarrow> sid option \<Rightarrow> ('f, 'a, 'v) path_world \<Rightarrow> ErrCode \<times> ('f, 'a, 'v) path_world" where
  "removeRelatedSignal s r w =
     (case r of
        None \<Rightarrow> (OPENDAQ_ERR_ARGUMENT_NULL, w)
      | Some x \<Rightarrow>
          if relatedLocked s w then (OPENDAQ_IGNORED, w)
          else if x \<notin> set (sg_relatedSignals (signals w s)) then (OPENDAQ_ERR_NOTFOUND, w)
          else (OPENDAQ_SUCCESS, triggerRelatedSignalsChanged s (modSignal s (\<lambda>g. g\<lparr>sg_relatedSignals := remove1 x (sg_relatedSignals g)\<rparr>) w)))"

definition clearRelatedSignals :: "sid \<Rightarrow> ('f, 'a, 'v) path_world \<Rightarrow> ErrCode \<times> ('f, 'a, 'v) path_world" where
  "clearRelatedSignals s w =
     (OPENDAQ_SUCCESS, triggerRelatedSignalsChanged s (modSignal s (\<lambda>g. g\<lparr>sg_relatedSignals := []\<rparr>) w))"

section \<open>A signal and its connections\<close>

definition createDataDescriptorChangedEventPacket :: "sid \<Rightarrow> ('f, 'a, 'v) path_world \<Rightarrow> ('f, 'a) packet" where
  "createDataDescriptorChangedEventPacket s w =
     DataDescriptorChangedEventPacket (descriptorToEventPacketParam (sg_dataDescriptor (signals w s)))
       (descriptorToEventPacketParam
          (case sg_domainSignal (signals w s) of None \<Rightarrow> None | Some d \<Rightarrow> sg_dataDescriptor (signals w d)))"

definition getConnections :: "sid \<Rightarrow> ('f, 'a, 'v) path_world \<Rightarrow> lid list" where
  "getConnections s w = sg_connections (signals w s) @ sg_remoteConnections (signals w s)"

text \<open>\<^verbatim>\<open>onListenedStatusChanged\<close> does nothing in the base class.\<close>

definition listenerConnectedInternal :: "('f, 'a, 'v) path_ext \<Rightarrow> sid \<Rightarrow> lid \<Rightarrow> bool \<Rightarrow> ('f, 'a, 'v) path_world \<Rightarrow> ErrCode \<times> ('f, 'a, 'v) path_world" where
  "listenerConnectedInternal X s l schedule w =
     (if ln_remote (links w l) then
        if l \<in> set (sg_remoteConnections (signals w s)) then (OPENDAQ_ERR_DUPLICATEITEM, w)
        else (OPENDAQ_SUCCESS, modSignal s (\<lambda>g. g\<lparr>sg_remoteConnections := sg_remoteConnections g @ [l]\<rparr>) w)
      else if l \<in> set (sg_connections (signals w s)) then (OPENDAQ_ERR_DUPLICATEITEM, w)
      else
        let packet = createDataDescriptorChangedEventPacket s w;
            w1 = modSignal s (\<lambda>g. g\<lparr>sg_connections := sg_connections g @ [l]\<rparr>) w;
            (e, w2) = linkCall X (\<lambda>active. if schedule then enqueueWithScheduler (floatOps X) active (Some packet)
                                           else enqueueOnThisThread (floatOps X) active (Some packet)) l w1
        in if OPENDAQ_FAILED e then (e, w2) else (OPENDAQ_SUCCESS, w2))"

definition listenerDisconnected :: "sid \<Rightarrow> lid \<Rightarrow> ('f, 'a, 'v) path_world \<Rightarrow> ErrCode \<times> ('f, 'a, 'v) path_world" where
  "listenerDisconnected s l w =
     (if ln_remote (links w l) then
        if l \<in> set (sg_remoteConnections (signals w s))
        then (OPENDAQ_SUCCESS, modSignal s (\<lambda>g. g\<lparr>sg_remoteConnections := remove1 l (sg_remoteConnections g)\<rparr>) w)
        else (OPENDAQ_ERR_NOTFOUND, w)
      else if l \<in> set (sg_connections (signals w s))
      then (OPENDAQ_SUCCESS, modSignal s (\<lambda>g. g\<lparr>sg_connections := remove1 l (sg_connections g)\<rparr>) w)
      else (OPENDAQ_ERR_NOTFOUND, w))"

section \<open>An input port and its connection\<close>

text \<open>A connection lives as long as one of its signal's lists or somebody else, \<open>held\<close>, owns it.\<close>

definition alive :: "('f, 'a, 'v) path_world \<Rightarrow> lid \<Rightarrow> bool" where
  "alive w l \<longleftrightarrow> l \<in> set (held w) \<or> l \<in> set (getConnections (ln_signal (links w l)) w)"

definition getConnectionNoLock :: "pid \<Rightarrow> ('f, 'a, 'v) path_world \<Rightarrow> lid option" where
  "getConnectionNoLock p w =
     (case po_connectionRef (ports w p) of None \<Rightarrow> None | Some l \<Rightarrow> if alive w l then Some l else None)"

definition getSignalNoLock :: "pid \<Rightarrow> ('f, 'a, 'v) path_world \<Rightarrow> sid option" where
  "getSignalNoLock p w = map_option (\<lambda>l. ln_signal (links w l)) (getConnectionNoLock p w)"

definition canConnectSignal :: "sid \<Rightarrow> ('f, 'a, 'v) path_world \<Rightarrow> ErrCode" where
  "canConnectSignal s w = (if sg_removed (signals w s) then OPENDAQ_ERR_INVALIDSTATE else OPENDAQ_SUCCESS)"

definition acceptsSignal :: "('f, 'a, 'v) path_ext \<Rightarrow> pid \<Rightarrow> sid option \<Rightarrow> ('f, 'a, 'v) path_world \<Rightarrow> ErrCode \<times> bool" where
  "acceptsSignal X p sig w =
     (case sig of
        None \<Rightarrow> (OPENDAQ_ERR_ARGUMENT_NULL, False)
      | Some s \<Rightarrow>
          if OPENDAQ_FAILED (canConnectSignal s w) then (canConnectSignal s w, False)
          else if po_listener (ports w p) = Some True then onAccepts X p s
          else (OPENDAQ_SUCCESS, True))"

definition setRef :: "pid \<Rightarrow> lid option \<Rightarrow> ('f, 'a, 'v) path_world \<Rightarrow> ('f, 'a, 'v) path_world" where
  "setRef p r w = modPort p (\<lambda>q. q\<lparr>po_connectionRef := r\<rparr>) w"

definition disconnectSignalInternal ::
  "('f, 'a, 'v) path_ext \<Rightarrow> pid \<Rightarrow> lid option \<Rightarrow> bool \<Rightarrow> bool \<Rightarrow> bool \<Rightarrow> ('f, 'a, 'v) path_world \<Rightarrow> ErrCode \<times> ('f, 'a, 'v) path_world" where
  "disconnectSignalInternal X p connection notifyListener notifySignal trigger w =
     (case connection of
        None \<Rightarrow> (OPENDAQ_SUCCESS, w)
      | Some l \<Rightarrow>
          case (if notifySignal then listenerDisconnected (ln_signal (links w l)) l w else (OPENDAQ_SUCCESS, w)) of
            (e, w1) \<Rightarrow>
              if OPENDAQ_FAILED e then (e, w1)
              else
                let w2 = (if notifyListener \<and> po_listener (ports w1 p) = Some True then onDisconnected X p w1 else w1)
                in (OPENDAQ_SUCCESS, if trigger then firePort p (SignalDisconnected p) w2 else w2))"

definition disconnect :: "('f, 'a, 'v) path_ext \<Rightarrow> pid \<Rightarrow> ('f, 'a, 'v) path_world \<Rightarrow> ErrCode \<times> ('f, 'a, 'v) path_world" where
  "disconnect X p w = disconnectSignalInternal X p (getConnectionNoLock p w) True True True (setRef p None w)"

definition disconnectWithoutSignalNotification :: "('f, 'a, 'v) path_ext \<Rightarrow> pid \<Rightarrow> ('f, 'a, 'v) path_world \<Rightarrow> ErrCode \<times> ('f, 'a, 'v) path_world" where
  "disconnectWithoutSignalNotification X p w =
     disconnectSignalInternal X p (getConnectionNoLock p w) True False True (setRef p None w)"

text \<open>The running call owns the connection it creates.\<close>

definition createConnection :: "('f, 'a, 'v) path_ext \<Rightarrow> pid \<Rightarrow> sid \<Rightarrow> ('f, 'a, 'v) path_world \<Rightarrow> lid \<times> ('f, 'a, 'v) path_world" where
  "createConnection X p s w =
     (nextLink w,
      w\<lparr>links := (links w)(nextLink w := \<lparr>ln_port = p, ln_signal = s, ln_remote = createsRemote X p,
           ln_queue = connection_init (po_gapCheckingEnabled (ports w p))\<rparr>),
        nextLink := nextLink w + 1, held := nextLink w # held w\<rparr>)"

definition release :: "lid \<Rightarrow> ('f, 'a, 'v) path_world \<Rightarrow> ('f, 'a, 'v) path_world" where
  "release l w = w\<lparr>held := remove1 l (held w)\<rparr>"

definition connectInternal :: "('f, 'a, 'v) path_ext \<Rightarrow> pid \<Rightarrow> sid option \<Rightarrow> bool \<Rightarrow> ('f, 'a, 'v) path_world \<Rightarrow> ErrCode \<times> ('f, 'a, 'v) path_world" where
  "connectInternal X p sig scheduled w =
     (case sig of
        None \<Rightarrow> (OPENDAQ_ERR_ARGUMENT_NULL, w)
      | Some s \<Rightarrow>
          if OPENDAQ_FAILED (canConnectSignal s w) then (canConnectSignal s w, w)
          else
            let (l, w1) = createConnection X p s w in
            if po_removed (ports w1 p) then (OPENDAQ_ERR_INVALIDSTATE, release l w1)
            else
              let (e2, w2) = disconnectSignalInternal X p (getConnectionNoLock p w1) False True False (setRef p None w1) in
              if OPENDAQ_FAILED e2 then (e2, release l w2)
              else
                let w3 = setRef p (Some l) w2;
                    (e4, w4) = (if po_listener (ports w3 p) = Some True then onConnected X p w3 else (OPENDAQ_SUCCESS, w3))
                in if OPENDAQ_FAILED e4 then (e4, release l (setRef p None w4))
                   else
                     let (e5, w5) = listenerConnectedInternal X s l scheduled w4 in
                     if OPENDAQ_FAILED e5 then (e5, release l w5)
                     else (OPENDAQ_SUCCESS, firePort p (SignalConnected p s) (release l w5)))"

definition connect where
  "connect X p sig w = connectInternal X p sig False w"

definition connectSignalSchedulerNotification where
  "connectSignalSchedulerNotification X p sig w = connectInternal X p sig True w"

text \<open>The end of an update connects the signal that the stored configuration names, unless the port has one.\<close>

definition onUpdatableUpdateEnd :: "('f, 'a, 'v) path_ext \<Rightarrow> pid \<Rightarrow> sid option \<Rightarrow> ('f, 'a, 'v) path_world \<Rightarrow> ('f, 'a, 'v) path_world" where
  "onUpdatableUpdateEnd X p stored w =
     (if getSignalNoLock p w \<noteq> None then w
      else case stored of None \<Rightarrow> w | Some s \<Rightarrow> snd (connect X p (Some s) w))"

definition setListener :: "pid \<Rightarrow> bool option \<Rightarrow> ('f, 'a, 'v) path_world \<Rightarrow> ErrCode \<times> ('f, 'a, 'v) path_world" where
  "setListener p listener w =
     (let w1 = (case getConnectionNoLock p w of
                  None \<Rightarrow> w
                | Some l \<Rightarrow> setQueue l (snd (enqueueLastDescriptor (ln_queue (links w l)))) w)
      in (OPENDAQ_SUCCESS, modPort p (\<lambda>q. q\<lparr>po_listener := listener\<rparr>) w1))"

definition setCustomData :: "pid \<Rightarrow> nat option \<Rightarrow> ('f, 'a, 'v) path_world \<Rightarrow> ErrCode \<times> ('f, 'a, 'v) path_world" where
  "setCustomData p d w = (OPENDAQ_SUCCESS, modPort p (\<lambda>q. q\<lparr>po_customData := d\<rparr>) w)"

definition setRequiresSignal :: "pid \<Rightarrow> bool \<Rightarrow> ('f, 'a, 'v) path_world \<Rightarrow> ErrCode \<times> ('f, 'a, 'v) path_world" where
  "setRequiresSignal p b w = (OPENDAQ_SUCCESS, modPort p (\<lambda>q. q\<lparr>po_requiresSignal := b\<rparr>) w)"

section \<open>Removal\<close>

definition port_removed :: "('f, 'a, 'v) path_ext \<Rightarrow> pid \<Rightarrow> ('f, 'a, 'v) path_world \<Rightarrow> ErrCode \<times> ('f, 'a, 'v) path_world" where
  "port_removed X p w =
     (let w1 = (case po_customData (ports w p) of None \<Rightarrow> w | Some c \<Rightarrow> w\<lparr>coreEvents := coreEvents w @ [CustomDataRemoved c]\<rparr>)
      in disconnectSignalInternal X p (getConnectionNoLock p w1) False True True (setRef p None w1))"

text \<open>\<^verbatim>\<open>ComponentImpl::remove\<close> for a port.\<close>

definition port_remove :: "('f, 'a, 'v) path_ext \<Rightarrow> pid \<Rightarrow> ('f, 'a, 'v) path_world \<Rightarrow> ErrCode \<times> ('f, 'a, 'v) path_world" where
  "port_remove X p w =
     (if po_removed (ports w p) then (OPENDAQ_IGNORED, w)
      else port_removed X p (modPort p (\<lambda>q. q\<lparr>po_removed := True, po_active := False, po_coreEventMuted := True\<rparr>) w))"

definition disconnectInputPort :: "('f, 'a, 'v) path_ext \<Rightarrow> lid \<Rightarrow> ('f, 'a, 'v) path_world \<Rightarrow> ('f, 'a, 'v) path_world" where
  "disconnectInputPort X l w = snd (disconnectWithoutSignalNotification X (ln_port (links w l)) w)"

definition clearConnections :: "('f, 'a, 'v) path_ext \<Rightarrow> sid \<Rightarrow> ('f, 'a, 'v) path_world \<Rightarrow> ('f, 'a, 'v) path_world" where
  "clearConnections X s w =
     modSignal s (\<lambda>g. g\<lparr>sg_connections := []\<rparr>) (fold (disconnectInputPort X) (sg_connections (signals w s)) w)"

definition clearRemoteConnections :: "('f, 'a, 'v) path_ext \<Rightarrow> sid \<Rightarrow> ('f, 'a, 'v) path_world \<Rightarrow> ('f, 'a, 'v) path_world" where
  "clearRemoteConnections X s w =
     modSignal s (\<lambda>g. g\<lparr>sg_remoteConnections := []\<rparr>) (fold (disconnectInputPort X) (sg_remoteConnections (signals w s)) w)"

definition signal_removed :: "('f, 'a, 'v) path_ext \<Rightarrow> sid \<Rightarrow> ('f, 'a, 'v) path_world \<Rightarrow> ('f, 'a, 'v) path_world" where
  "signal_removed X s w =
     (let w1 = clearRemoteConnections X s (clearConnections X s w);
          w2 = fold clearDomainSignalWithoutNotification (sg_domainSignalReferences (signals w1 s)) w1
      in modSignal s (\<lambda>g. g\<lparr>sg_domainSignalReferences := [], sg_relatedSignals := []\<rparr>) w2)"

definition signal_remove :: "('f, 'a, 'v) path_ext \<Rightarrow> sid \<Rightarrow> ('f, 'a, 'v) path_world \<Rightarrow> ErrCode \<times> ('f, 'a, 'v) path_world" where
  "signal_remove X s w =
     (if sg_removed (signals w s) then (OPENDAQ_IGNORED, w)
      else (OPENDAQ_SUCCESS,
            signal_removed X s (modSignal s (\<lambda>g. g\<lparr>sg_removed := True, sg_active := False, sg_coreEventMuted := True\<rparr>) w)))"


section \<open>Sequences of calls\<close>

text \<open>
  The calls that a program makes on signals, ports and connections. \<open>SetSignalActive\<close> and
  \<open>SetPortActive\<close> are what \<^verbatim>\<open>setActive\<close> of a component does to the member that is read here.
\<close>

datatype ('f, 'a, 'v) path_op =
    Connect pid "sid option" bool | Disconnect pid | UpdateEnd pid "sid option" | SetListener pid "bool option"
  | SetNotificationMethod pid PacketReadyNotification | SetCustomData pid "nat option" | SetRequiresSignal pid bool
  | SetPortActive pid bool | RemovePort pid
  | SetDescriptor sid "'f data_descriptor option" | SetDomainSignal sid "sid option" | SetPublic sid bool
  | UpdateSignal sid "bool option" | SetRelatedSignals sid "sid list option" | AddRelatedSignal sid "sid option"
  | RemoveRelatedSignal sid "sid option" | ClearRelatedSignals sid | SetSignalActive sid bool | RemoveSignal sid
  | SendPacket sid bool "('f, 'a) packet option" | SendPackets sid bool "('f, 'a) packet list option"
  | EnableKeepLastValue sid bool | SetLastValue sid "'v option" | GetLastValue sid
  | Dequeue lid | DequeueAll lid | DequeueUpTo lid SizeT

definition takeFrom :: "lid \<Rightarrow> (('f, 'a) connection \<Rightarrow> ErrCode \<times> 'b \<times> ('f, 'a) connection) \<Rightarrow> ('f, 'a, 'v) path_world \<Rightarrow> ErrCode \<times> ('f, 'a, 'v) path_world" where
  "takeFrom l f w = (case f (ln_queue (links w l)) of (e, x, c) \<Rightarrow> (e, setQueue l c w))"

fun path_exec :: "('f, 'a, 'v) path_ext \<Rightarrow> ('f, 'a, 'v) path_op \<Rightarrow> ('f, 'a, 'v) path_world \<Rightarrow> ErrCode \<times> ('f, 'a, 'v) path_world" where
  "path_exec X (Connect p s sched) w = (if sched then connectSignalSchedulerNotification X p s w else connect X p s w)"
| "path_exec X (Disconnect p) w = disconnect X p w"
| "path_exec X (UpdateEnd p s) w = (OPENDAQ_SUCCESS, onUpdatableUpdateEnd X p s w)"
| "path_exec X (SetListener p li) w = setListener p li w"
| "path_exec X (SetNotificationMethod p m) w = setNotificationMethod p m w"
| "path_exec X (SetCustomData p d) w = setCustomData p d w"
| "path_exec X (SetRequiresSignal p b) w = setRequiresSignal p b w"
| "path_exec X (SetPortActive p b) w = (OPENDAQ_SUCCESS, modPort p (\<lambda>q. q\<lparr>po_active := b\<rparr>) w)"
| "path_exec X (RemovePort p) w = port_remove X p w"
| "path_exec X (SetDescriptor s d) w = signal_setDescriptor X s d w"
| "path_exec X (SetDomainSignal s d) w = setDomainSignal s d w"
| "path_exec X (SetPublic s b) w = setPublic X s b w"
| "path_exec X (UpdateSignal s b) w = (OPENDAQ_SUCCESS, signal_updateObject s b w)"
| "path_exec X (SetRelatedSignals s rs) w = setRelatedSignals s rs w"
| "path_exec X (AddRelatedSignal s r) w = addRelatedSignal s r w"
| "path_exec X (RemoveRelatedSignal s r) w = removeRelatedSignal s r w"
| "path_exec X (ClearRelatedSignals s) w = clearRelatedSignals s w"
| "path_exec X (SetSignalActive s b) w = (OPENDAQ_SUCCESS, modSignal s (\<lambda>g. g\<lparr>sg_active := b\<rparr>) w)"
| "path_exec X (RemoveSignal s) w = signal_remove X s w"
| "path_exec X (SendPacket s moved pp) w = (if moved then sendPacketAndStealRef X s pp w else signal_sendPacket X s pp w)"
| "path_exec X (SendPackets s moved pps) w = (if moved then sendPacketsAndStealRef X s pps w else sendPackets X s pps w)"
| "path_exec X (EnableKeepLastValue s b) w = enableKeepLastValue X s b w"
| "path_exec X (SetLastValue s v) w = setLastValue X s v w"
| "path_exec X (GetLastValue s) w = (case getLastValue X s w of (r, w1) \<Rightarrow> (fst r, w1))"
| "path_exec X (Dequeue l) w = takeFrom l dequeue w"
| "path_exec X (DequeueAll l) w = takeFrom l dequeueAll w"
| "path_exec X (DequeueUpTo l n) w = takeFrom l (dequeueUpTo n) w"

text \<open>Before the first call nothing is connected.\<close>

definition unconnected :: "('f, 'a, 'v) path_world \<Rightarrow> bool" where
  "unconnected w \<longleftrightarrow>
     (\<forall>s. sg_connections (signals w s) = [] \<and> sg_remoteConnections (signals w s) = [] \<and>
          sg_domainSignal (signals w s) = None \<and> sg_domainSignalReferences (signals w s) = []) \<and>
     (\<forall>p. po_connectionRef (ports w p) = None)"

inductive path_reach :: "('f, 'a, 'v) path_ext \<Rightarrow> ('f, 'a, 'v) path_world \<Rightarrow> bool" for X where
  path_start: "unconnected w \<Longrightarrow> path_reach X w"
| path_next: "path_reach X w \<Longrightarrow> path_reach X (snd (path_exec X op w))"

section \<open>What listeners leave alone\<close>

text \<open>
  A view of the world that does not show the scheduler's work, the core events and the crash mark.
  When the listeners of the ports keep a view, a call on a connection changes it by the queue only.
\<close>

definition listeners_keep :: "(('f, 'a, 'v) path_world \<Rightarrow> 'b) \<Rightarrow> ('f, 'a, 'v) path_ext \<Rightarrow> bool" where
  "listeners_keep view X \<longleftrightarrow>
     (\<forall>p w. view (onReceived X p w) = view w \<and> view (snd (onConnected X p w)) = view w \<and> view (onDisconnected X p w) = view w)"

locale path_view =
  fixes view :: "('f, 'a, 'v) path_world \<Rightarrow> 'b"
  assumes view_work: "view (w\<lparr>scheduledWork := x\<rparr>) = view w"
    and view_crash: "view (w\<lparr>crashed := b\<rparr>) = view w"
    and view_events: "view (w\<lparr>coreEvents := es\<rparr>) = view w"
begin

lemma fire_keeps: "view (fireSignal s ev w) = view w" "view (firePort p ev w) = view w"
  by (simp_all add: fireSignal_def firePort_def view_events)

lemma port_notify_keeps: "listeners_keep view X \<Longrightarrow> view (snd (port_notify X n p w)) = view w"
  by (cases n)
     (simp_all add: listeners_keep_def notifyPacketEnqueuedSameThread_def notifyPacketEnqueuedScheduler_def
       view_work view_crash split: PacketReadyNotification.splits)

lemma notifyAll_keeps: "listeners_keep view X \<Longrightarrow> view (snd (notifyAll X p ns w)) = view w"
proof (induction ns arbitrary: w)
  case (Cons n ns)
  then show ?case
    using port_notify_keeps[OF Cons.prems, of n p w] by (auto split: prod.splits)
qed simp

lemma linkCall_view:
  assumes "listeners_keep view X"
  shows "view (snd (linkCall X f l w)) =
     view (setQueue l (snd (snd (f (po_active (ports w (ln_port (links w l)))) (ln_queue (links w l))))) w)"
  using notifyAll_keeps[OF assms] by (simp add: linkCall_def Let_def split: prod.split) (metis snd_conv)

end

end
