(* ===== verification/SignalWiring.thy ===== *)
theory SignalWiring
  imports SignalPath
begin

text \<open>
  What signals and input ports know of each other: the wiring is an abstraction of the world, every
  call acts on it as a small abstract operation, and an invariant of the wiring holds after any
  sequence of calls. Then: which connections a packet reaches, and which descriptors a connection
  has been told of.
\<close>

section \<open>The wiring of a world\<close>

record wiring =
  wr_local :: "sid \<Rightarrow> lid list"
  wr_remote :: "sid \<Rightarrow> lid list"
  wr_refs :: "sid \<Rightarrow> sid list"
  wr_domain :: "sid \<Rightarrow> sid option"
  wr_gone :: "sid \<Rightarrow> bool"
  wr_ref :: "pid \<Rightarrow> lid option"
  wr_portGone :: "pid \<Rightarrow> bool"
  wr_port :: "lid \<Rightarrow> pid"
  wr_signal :: "lid \<Rightarrow> sid"
  wr_far :: "lid \<Rightarrow> bool"
  wr_next :: lid

definition wiring_of :: "('f, 'a, 'v) path_world \<Rightarrow> wiring" where
  "wiring_of w = \<lparr>wr_local = (\<lambda>s. sg_connections (signals w s)), wr_remote = (\<lambda>s. sg_remoteConnections (signals w s)),
     wr_refs = (\<lambda>s. sg_domainSignalReferences (signals w s)), wr_domain = (\<lambda>s. sg_domainSignal (signals w s)),
     wr_gone = (\<lambda>s. sg_removed (signals w s)), wr_ref = (\<lambda>p. po_connectionRef (ports w p)),
     wr_portGone = (\<lambda>p. po_removed (ports w p)), wr_port = (\<lambda>l. ln_port (links w l)),
     wr_signal = (\<lambda>l. ln_signal (links w l)), wr_far = (\<lambda>l. ln_remote (links w l)), wr_next = nextLink w\<rparr>"

lemma wiring_of_sel [simp]:
  "wr_local (wiring_of w) s = sg_connections (signals w s)"
  "wr_remote (wiring_of w) s = sg_remoteConnections (signals w s)"
  "wr_refs (wiring_of w) s = sg_domainSignalReferences (signals w s)"
  "wr_domain (wiring_of w) s = sg_domainSignal (signals w s)"
  "wr_gone (wiring_of w) s = sg_removed (signals w s)"
  "wr_ref (wiring_of w) p = po_connectionRef (ports w p)"
  "wr_portGone (wiring_of w) p = po_removed (ports w p)"
  "wr_port (wiring_of w) l = ln_port (links w l)"
  "wr_signal (wiring_of w) l = ln_signal (links w l)"
  "wr_far (wiring_of w) l = ln_remote (links w l)"
  "wr_next (wiring_of w) = nextLink w"
  by (simp_all add: wiring_of_def)

interpretation wires: path_view "wiring_of :: ('f, 'a, 'v) path_world \<Rightarrow> wiring"
  by unfold_locales (simp_all add: wiring_of_def)

text \<open>What is linked: the list of the signal that a connection belongs in.\<close>

definition wr_list :: "wiring \<Rightarrow> bool \<Rightarrow> sid \<Rightarrow> lid list" where
  "wr_list W far = (if far then wr_remote W else wr_local W)"

definition wired :: "wiring \<Rightarrow> bool" where
  "wired W \<longleftrightarrow>
     (\<forall>far s. distinct (wr_list W far s)) \<and>
     (\<forall>far s l. l \<in> set (wr_list W far s) \<longrightarrow>
        l < wr_next W \<and> wr_signal W l = s \<and> wr_far W l = far \<and> wr_ref W (wr_port W l) = Some l) \<and>
     (\<forall>p l. wr_ref W p = Some l \<longrightarrow> l < wr_next W \<and> wr_port W l = p \<and> l \<in> set (wr_list W (wr_far W l) (wr_signal W l))) \<and>
     (\<forall>s far. wr_gone W s \<longrightarrow> wr_list W far s = []) \<and>
     (\<forall>p. wr_portGone W p \<longrightarrow> wr_ref W p = None) \<and>
     (\<forall>d. distinct (wr_refs W d)) \<and>
     (\<forall>s d. wr_domain W s = Some d \<longleftrightarrow> s \<in> set (wr_refs W d))"

lemma wiredI:
  assumes "\<And>far s. distinct (wr_list W far s)"
    and "\<And>far s l. l \<in> set (wr_list W far s) \<Longrightarrow> l < wr_next W \<and> wr_signal W l = s \<and> wr_far W l = far \<and> wr_ref W (wr_port W l) = Some l"
    and "\<And>p l. wr_ref W p = Some l \<Longrightarrow> l < wr_next W \<and> wr_port W l = p \<and> l \<in> set (wr_list W (wr_far W l) (wr_signal W l))"
    and "\<And>s far. wr_gone W s \<Longrightarrow> wr_list W far s = []" and "\<And>p. wr_portGone W p \<Longrightarrow> wr_ref W p = None"
    and "\<And>d. distinct (wr_refs W d)" and "\<And>s d. wr_domain W s = Some d \<longleftrightarrow> s \<in> set (wr_refs W d)"
  shows "wired W"
  using assms unfolding wired_def by blast

lemma wiredD:
  assumes "wired W"
  shows "distinct (wr_list W far s)"
    and "l \<in> set (wr_list W far s) \<Longrightarrow> l < wr_next W \<and> wr_signal W l = s \<and> wr_far W l = far \<and> wr_ref W (wr_port W l) = Some l"
    and "wr_ref W p = Some l \<Longrightarrow> l < wr_next W \<and> wr_port W l = p \<and> l \<in> set (wr_list W (wr_far W l) (wr_signal W l))"
    and "wr_gone W s \<Longrightarrow> wr_list W far s = []" and "wr_portGone W p \<Longrightarrow> wr_ref W p = None"
    and "distinct (wr_refs W d)" and "wr_domain W s = Some d \<longleftrightarrow> s \<in> set (wr_refs W d)"
  using assms unfolding wired_def by blast+

definition wr_linked :: "wiring \<Rightarrow> bool" where
  "wr_linked W \<longleftrightarrow> (\<forall>p l. wr_ref W p = Some l \<longrightarrow> l \<in> set (wr_list W (wr_far W l) (wr_signal W l)))"

lemma wired_linked: "wired W \<Longrightarrow> wr_linked W"
  by (simp add: wr_linked_def wiredD(3))

section \<open>Abstract operations\<close>

definition setList :: "bool \<Rightarrow> sid \<Rightarrow> (lid list \<Rightarrow> lid list) \<Rightarrow> wiring \<Rightarrow> wiring" where
  "setList far s f W =
     (if far then W\<lparr>wr_remote := (wr_remote W)(s := f (wr_remote W s))\<rparr>
      else W\<lparr>wr_local := (wr_local W)(s := f (wr_local W s))\<rparr>)"

definition setWrRef :: "pid \<Rightarrow> lid option \<Rightarrow> wiring \<Rightarrow> wiring" where
  "setWrRef p r W = W\<lparr>wr_ref := (wr_ref W)(p := r)\<rparr>"

definition unplug :: "pid \<Rightarrow> wiring \<Rightarrow> wiring" where
  "unplug p W =
     (case wr_ref W p of None \<Rightarrow> W | Some l \<Rightarrow> setList (wr_far W l) (wr_signal W l) (remove1 l) (setWrRef p None W))"

definition alloc :: "pid \<Rightarrow> sid \<Rightarrow> bool \<Rightarrow> wiring \<Rightarrow> wiring" where
  "alloc p s far W = W\<lparr>wr_port := (wr_port W)(wr_next W := p), wr_signal := (wr_signal W)(wr_next W := s),
     wr_far := (wr_far W)(wr_next W := far), wr_next := wr_next W + 1\<rparr>"

definition plug :: "pid \<Rightarrow> lid \<Rightarrow> wiring \<Rightarrow> wiring" where
  "plug p l W = setList (wr_far W l) (wr_signal W l) (\<lambda>ls. ls @ [l]) (setWrRef p (Some l) W)"

lemma setList_sel [simp]:
  "wr_list (setList far s f W) far' s' = (if far' = far \<and> s' = s then f (wr_list W far s) else wr_list W far' s')"
  "wr_refs (setList far s f W) = wr_refs W" "wr_domain (setList far s f W) = wr_domain W"
  "wr_gone (setList far s f W) = wr_gone W" "wr_ref (setList far s f W) = wr_ref W"
  "wr_portGone (setList far s f W) = wr_portGone W" "wr_port (setList far s f W) = wr_port W"
  "wr_signal (setList far s f W) = wr_signal W" "wr_far (setList far s f W) = wr_far W"
  "wr_next (setList far s f W) = wr_next W"
  by (auto simp: setList_def wr_list_def)

lemma setWrRef_sel [simp]:
  "wr_list (setWrRef p r W) = wr_list W"
  "wr_refs (setWrRef p r W) = wr_refs W" "wr_domain (setWrRef p r W) = wr_domain W"
  "wr_gone (setWrRef p r W) = wr_gone W" "wr_ref (setWrRef p r W) = (wr_ref W)(p := r)"
  "wr_portGone (setWrRef p r W) = wr_portGone W" "wr_port (setWrRef p r W) = wr_port W"
  "wr_signal (setWrRef p r W) = wr_signal W" "wr_far (setWrRef p r W) = wr_far W"
  "wr_next (setWrRef p r W) = wr_next W"
  by (auto simp: setWrRef_def wr_list_def)

lemma alloc_sel [simp]:
  "wr_list (alloc p s far W) = wr_list W"
  "wr_refs (alloc p s far W) = wr_refs W" "wr_domain (alloc p s far W) = wr_domain W"
  "wr_gone (alloc p s far W) = wr_gone W" "wr_ref (alloc p s far W) = wr_ref W"
  "wr_portGone (alloc p s far W) = wr_portGone W" "wr_port (alloc p s far W) = (wr_port W)(wr_next W := p)"
  "wr_signal (alloc p s far W) = (wr_signal W)(wr_next W := s)" "wr_far (alloc p s far W) = (wr_far W)(wr_next W := far)"
  "wr_next (alloc p s far W) = Suc (wr_next W)"
  by (auto simp: alloc_def wr_list_def)

lemma wired_alloc: "wired W \<Longrightarrow> wired (alloc p s far W)"
  by (rule wiredI) (auto dest: wiredD simp: less_Suc_eq)

lemma wired_unplug:
  assumes "wired W"
  shows "wired (unplug p W)"
proof (cases "wr_ref W p")
  case None
  with assms show ?thesis by (simp add: unplug_def)
next
  case (Some l)
  note l = wiredD(3)[OF assms Some]
  show ?thesis
  proof (rule wiredI)
    fix far s m
    assume "m \<in> set (wr_list (unplug p W) far s)"
    moreover have "l \<notin> set (remove1 l (wr_list W far s))" for far s
      using wiredD(1)[OF assms] by simp
    ultimately have m: "m \<in> set (wr_list W far s)" "m \<noteq> l"
      using wiredD(2)[OF assms, of l far s] Some l by (auto simp: unplug_def split: if_splits dest: set_remove1_subset[THEN subsetD])
    have "wr_port W m \<noteq> p" using wiredD(2)[OF assms m(1)] m(2) Some by auto
    with wiredD(2)[OF assms m(1)] Some show "m < wr_next (unplug p W) \<and> wr_signal (unplug p W) m = s \<and>
      wr_far (unplug p W) m = far \<and> wr_ref (unplug p W) (wr_port (unplug p W) m) = Some m"
      by (simp add: unplug_def)
  next
    fix q m
    assume "wr_ref (unplug p W) q = Some m"
    then have q: "wr_ref W q = Some m" "q \<noteq> p" using Some by (auto simp: unplug_def split: if_splits)
    then have "m \<noteq> l" using wiredD(3)[OF assms q(1)] l by auto
    with wiredD(3)[OF assms q(1)] Some show "m < wr_next (unplug p W) \<and> wr_port (unplug p W) m = q \<and>
      m \<in> set (wr_list (unplug p W) (wr_far (unplug p W) m) (wr_signal (unplug p W) m))"
      by (cases "wr_far W m = wr_far W l \<and> wr_signal W m = wr_signal W l") (auto simp: unplug_def)
  qed (use Some in \<open>auto simp: unplug_def wiredD[OF assms]\<close>)
qed

lemma wired_plug:
  assumes "wired W" "wr_ref W p = None" "\<not> wr_gone W (wr_signal W l)" "\<not> wr_portGone W p" "wr_port W l = p" "l < wr_next W"
  shows "wired (plug p l W)"
proof (rule wiredI)
  have new: "l \<notin> set (wr_list W far s)" for far s
    using wiredD(2)[OF assms(1), of l far s] assms(2,5) by auto
  fix far s
  show "distinct (wr_list (plug p l W) far s)"
    using new wiredD(1)[OF assms(1)] by (simp add: plug_def)
  fix m
  show "m < wr_next (plug p l W) \<and> wr_signal (plug p l W) m = s \<and> wr_far (plug p l W) m = far \<and>
      wr_ref (plug p l W) (wr_port (plug p l W) m) = Some m" if "m \<in> set (wr_list (plug p l W) far s)"
    using that assms(2,5,6) wiredD(2)[OF assms(1), of m far s] by (auto simp: plug_def split: if_splits)
next
  fix q m
  assume q: "wr_ref (plug p l W) q = Some m"
  show "m < wr_next (plug p l W) \<and> wr_port (plug p l W) m = q \<and>
      m \<in> set (wr_list (plug p l W) (wr_far (plug p l W) m) (wr_signal (plug p l W) m))"
  proof (cases "q = p")
    case True
    with q assms(5,6) show ?thesis by (simp add: plug_def)
  next
    case False
    with q have m: "wr_ref W q = Some m" by (simp add: plug_def)
    have "m \<in> set (wr_list (plug p l W) (wr_far W m) (wr_signal W m))"
      using wiredD(3)[OF assms(1) m] by (cases "wr_far W m = wr_far W l \<and> wr_signal W m = wr_signal W l") (auto simp: plug_def)
    with wiredD(3)[OF assms(1) m] show ?thesis by (simp add: plug_def)
  qed
qed (use assms(3,4) wiredD(4-7)[OF assms(1)] in \<open>auto simp: plug_def\<close>)

section \<open>The calls as abstract operations\<close>

definition bare :: "('f, 'v) signal \<Rightarrow> lid list \<times> lid list \<times> sid list \<times> sid option \<times> bool" where
  "bare g = (sg_connections g, sg_remoteConnections g, sg_domainSignalReferences g, sg_domainSignal g, sg_removed g)"

lemma bare_keep [simp]:
  "bare (setLastValueFromPacket X a g) = bare g"
  "bare (setKeepLastPacket X g) = bare g"
  "bare (checkKeepLastPacket X q g) = bare g"
  "bare (g\<lparr>sg_lastDataValue := v\<rparr>) = bare g" "bare (g\<lparr>sg_keepLastValue := b\<rparr>) = bare g" "bare (g\<lparr>sg_isPublic := b\<rparr>) = bare g"
  "bare (g\<lparr>sg_dataDescriptor := d\<rparr>) = bare g" "bare (g\<lparr>sg_relatedSignals := rs\<rparr>) = bare g" "bare (g\<lparr>sg_active := b\<rparr>) = bare g"
  by (simp_all add: bare_def setKeepLastPacket_def checkKeepLastPacket_def setLastValueFromPacket_def Let_def
      split: packet.splits option.splits)

lemma wiring_modSignal [simp]: "bare (f (signals w s)) = bare (signals w s) \<Longrightarrow> wiring_of (modSignal s f w) = wiring_of w"
  by (auto simp: wiring_of_def modSignal_def bare_def fun_eq_iff)

lemma wiring_modPort [simp]:
  "po_connectionRef (f (ports w p)) = po_connectionRef (ports w p) \<Longrightarrow> po_removed (f (ports w p)) = po_removed (ports w p) \<Longrightarrow>
   wiring_of (modPort p f w) = wiring_of w"
  by (auto simp: wiring_of_def modPort_def fun_eq_iff)

lemma wiring_simps [simp]:
  "wiring_of (setQueue l c w) = wiring_of w"
  "wiring_of (setRef p r w) = setWrRef p r (wiring_of w)"
  "wiring_of (release l w) = wiring_of w"
  "wiring_of (snd (createConnection X p s w)) = alloc p s (createsRemote X p) (wiring_of w)"
  by (auto simp: wiring_of_def setQueue_def setRef_def setWrRef_def modPort_def release_def createConnection_def alloc_def fun_eq_iff)

declare wires.fire_keeps [simp]

text \<open>Sending packets leaves the wiring alone.\<close>

lemma linkCall_wiring: "listeners_keep wiring_of X \<Longrightarrow> wiring_of (snd (linkCall X f l w)) = wiring_of w"
  by (simp add: wires.linkCall_view)

lemma linkCalls_wiring: "listeners_keep wiring_of X \<Longrightarrow> wiring_of (snd (linkCalls X cs w)) = wiring_of w"
proof (induction X cs w rule: linkCalls.induct)
  case (2 X l f cs w)
  then show ?case using linkCall_wiring[OF "2.prems", of f l w] by (auto split: prod.splits)
qed simp

lemmas send_defs = enqueuePacketToConnections_def enqueueMovedToConnections_def enqueuePacketsToConnections_def
  keepLastPacketAndEnqueue_def keepLastPacketAndEnqueueMultiple_def sendPacketInner_def
  signal_sendPacket_def sendPacketRecursiveLock_def sendPacketAndStealRef_def sendPackets_def sendPacketsAndStealRef_def

lemma enqueueMovedPackets_wiring:
  assumes "listeners_keep wiring_of X"
  shows "wiring_of (snd (enqueueMovedPacketsToConnections X ps ls w)) = wiring_of w"
proof -
  obtain e w1 where c: "linkCalls X (map (\<lambda>l. (l, \<lambda>active. enqueueMultiple active (Some ps))) (butlast ls)) w = (e, w1)" by force
  with linkCalls_wiring[OF assms, of "map (\<lambda>l. (l, \<lambda>active. enqueueMultiple active (Some ps))) (butlast ls)" w]
  show ?thesis by (simp add: enqueueMovedPacketsToConnections_def linkCall_wiring[OF assms])
qed

lemma send_wiring:
  assumes "listeners_keep wiring_of X"
  shows "wiring_of (snd (signal_sendPacket X s pp w)) = wiring_of w"
    and "wiring_of (snd (sendPacketRecursiveLock X s pp w)) = wiring_of w"
    and "wiring_of (snd (sendPacketAndStealRef X s pp w)) = wiring_of w"
    and "wiring_of (snd (sendPackets X s pps w)) = wiring_of w"
    and "wiring_of (snd (sendPacketsAndStealRef X s pps w)) = wiring_of w"
    and "wiring_of (snd (sendPacketInternal X s q b w)) = wiring_of w"
  by (simp_all add: send_defs sendPacketInternal_def Let_def linkCalls_wiring[OF assms] enqueueMovedPackets_wiring[OF assms]
      split: option.split)


lemma notifyReferences_wiring:
  "listeners_keep wiring_of X \<Longrightarrow> wiring_of (snd (notifyReferences X vs q b w)) = wiring_of w"
proof (induction X vs q b w rule: notifyReferences.induct)
  case (2 X v vs q b w)
  then show ?case using send_wiring(2)[OF "2.prems", of v "Some q" w] by (auto split: prod.splits)
qed simp

lemma setDescriptor_wiring:
  assumes "listeners_keep wiring_of X"
  shows "wiring_of (snd (signal_setDescriptor X s d w)) = wiring_of w"
proof -
  let ?p = "DataDescriptorChangedEventPacket (descriptorToEventPacketParam d) None :: ('a, 'b) packet"
  obtain e w1 where 1: "sendPacketInternal X s ?p True (modSignal s (\<lambda>g. g\<lparr>sg_dataDescriptor := d\<rparr>) w) = (e, w1)" by force
  let ?q = "DataDescriptorChangedEventPacket None (descriptorToEventPacketParam (sg_dataDescriptor (signals w1 s))) :: ('a, 'b) packet"
  obtain b w2 where 2: "notifyReferences X (sg_domainSignalReferences (signals w1 s)) ?q True w1 = (b, w2)" by force
  have "wiring_of w1 = wiring_of w" "wiring_of w2 = wiring_of w1"
    using send_wiring(6)[OF assms, of s ?p True "modSignal s (\<lambda>g. g\<lparr>sg_dataDescriptor := d\<rparr>) w"] 1
      notifyReferences_wiring[OF assms, of "sg_domainSignalReferences (signals w1 s)" ?q True w1] 2 by simp_all
  with 1 2 show ?thesis by (simp add: signal_setDescriptor_def)
qed

text \<open>Connecting and disconnecting.\<close>

lemma wr_list_of [simp]:
  "wr_list (wiring_of w) True s = sg_remoteConnections (signals w s)" "wr_list (wiring_of w) False s = sg_connections (signals w s)"
  by (simp_all add: wr_list_def)

lemma listenerDisconnected_wiring:
  assumes "l \<in> set (wr_list (wiring_of w) (ln_remote (links w l)) s)"
  shows "fst (listenerDisconnected s l w) = OPENDAQ_SUCCESS"
    and "wiring_of (snd (listenerDisconnected s l w)) = setList (ln_remote (links w l)) s (remove1 l) (wiring_of w)"
  using assms
  by (auto simp: listenerDisconnected_def setList_def wiring_of_def modSignal_def fun_eq_iff wr_list_def split: if_splits)

definition connectCall :: "('f, 'a, 'v) path_ext \<Rightarrow> bool \<Rightarrow> ('f, 'a) packet \<Rightarrow> ('f, 'a) queue_call" where
  "connectCall X schedule q active =
     (if schedule then enqueueWithScheduler (floatOps X) active (Some q) else enqueueOnThisThread (floatOps X) active (Some q))"

definition addLocal :: "sid \<Rightarrow> lid \<Rightarrow> ('f, 'a, 'v) path_world \<Rightarrow> ('f, 'a, 'v) path_world" where
  "addLocal s l w = modSignal s (\<lambda>g. g\<lparr>sg_connections := sg_connections g @ [l]\<rparr>) w"

lemma listenerConnected_local:
  assumes "\<not> ln_remote (links w l)" "l \<notin> set (sg_connections (signals w s))"
  shows "snd (listenerConnectedInternal X s l b w) = snd (linkCall X (connectCall X b (createDataDescriptorChangedEventPacket s w)) l (addLocal s l w))"
    and "OPENDAQ_FAILED (fst (listenerConnectedInternal X s l b w)) \<longleftrightarrow>
      OPENDAQ_FAILED (fst (linkCall X (connectCall X b (createDataDescriptorChangedEventPacket s w)) l (addLocal s l w)))"
  using assms
  by (simp_all add: listenerConnectedInternal_def Let_def addLocal_def connectCall_def[abs_def] split: prod.split)

lemma addLocal_wiring: "wiring_of (addLocal s l w) = setList False s (\<lambda>ls. ls @ [l]) (wiring_of w)"
  by (simp add: addLocal_def setList_def wiring_of_def modSignal_def fun_eq_iff)

lemma listenerConnected_wiring:
  assumes "listeners_keep wiring_of X" "l \<notin> set (wr_list (wiring_of w) (ln_remote (links w l)) s)"
  shows "wiring_of (snd (listenerConnectedInternal X s l b w)) = setList (ln_remote (links w l)) s (\<lambda>ls. ls @ [l]) (wiring_of w)"
proof (cases "ln_remote (links w l)")
  case True
  with assms show ?thesis
    by (simp add: listenerConnectedInternal_def) (simp add: setList_def wiring_of_def modSignal_def fun_eq_iff)
next
  case False
  with assms show ?thesis by (simp add: listenerConnected_local(1) linkCall_wiring addLocal_wiring)
qed

lemma connection_of_linked:
  assumes "wr_linked (wiring_of w)"
  shows "getConnectionNoLock p w = po_connectionRef (ports w p)"
proof (cases "po_connectionRef (ports w p)")
  case (Some l)
  then have "l \<in> set (getConnections (ln_signal (links w l)) w)"
    using assms[unfolded wr_linked_def, rule_format, of p l]
    by (cases "ln_remote (links w l)") (auto simp: getConnections_def)
  with Some show ?thesis by (simp add: getConnectionNoLock_def alive_def)
qed (simp add: getConnectionNoLock_def)

text \<open>In a wired world a disconnection always succeeds: the signal knows the connection.\<close>

lemma disconnectSignalInternal_wired:
  assumes keep: "listeners_keep wiring_of X" and ok: "wr_linked (wiring_of w)"
  shows "fst (disconnectSignalInternal X p (getConnectionNoLock p w) nl True ev (setRef p None w)) = OPENDAQ_SUCCESS \<and>
    wiring_of (snd (disconnectSignalInternal X p (getConnectionNoLock p w) nl True ev (setRef p None w))) = unplug p (wiring_of w)"
proof (cases "po_connectionRef (ports w p)")
  case None
  then show ?thesis
    by (auto simp: connection_of_linked[OF ok] disconnectSignalInternal_def unplug_def setWrRef_def)
       (auto simp: wiring_of_def fun_eq_iff)
next
  case (Some l)
  let ?w = "setRef p None w"
  have links: "links ?w = links w" by (simp add: setRef_def modPort_def)
  have "l \<in> set (wr_list (wiring_of ?w) (ln_remote (links ?w l)) (ln_signal (links ?w l)))"
    using ok[unfolded wr_linked_def] Some by (auto simp: links)
  note disc = listenerDisconnected_wiring[OF this]
  obtain e w1 where r: "listenerDisconnected (ln_signal (links ?w l)) l ?w = (e, w1)" by force
  with disc have "e = OPENDAQ_SUCCESS" "wiring_of w1 = unplug p (wiring_of w)"
    using Some by (simp_all add: unplug_def links)
  with r Some keep show ?thesis
    by (simp add: connection_of_linked[OF ok] disconnectSignalInternal_def Let_def listeners_keep_def)
qed

lemma disconnectWithout_wiring:
  assumes "listeners_keep wiring_of X"
  shows "wiring_of (snd (disconnectWithoutSignalNotification X p w)) = setWrRef p None (wiring_of w)"
  using assms
  by (simp add: disconnectWithoutSignalNotification_def disconnectSignalInternal_def Let_def listeners_keep_def split: option.split)


text \<open>The stages of a connect that is not refused at once: the port is unplugged, refers to the new connection, and its listener is asked.\<close>

definition connectPlugged :: "('f, 'a, 'v) path_ext \<Rightarrow> pid \<Rightarrow> sid \<Rightarrow> ('f, 'a, 'v) path_world \<Rightarrow> ('f, 'a, 'v) path_world" where
  "connectPlugged X p s w =
     (let w1 = snd (createConnection X p s w)
      in setRef p (Some (nextLink w)) (snd (disconnectSignalInternal X p (getConnectionNoLock p w1) False True False (setRef p None w1))))"

definition connectHeard :: "('f, 'a, 'v) path_ext \<Rightarrow> pid \<Rightarrow> sid \<Rightarrow> ('f, 'a, 'v) path_world \<Rightarrow> ErrCode \<times> ('f, 'a, 'v) path_world" where
  "connectHeard X p s w =
     (let w3 = connectPlugged X p s w
      in if po_listener (ports w3 p) = Some True then onConnected X p w3 else (OPENDAQ_SUCCESS, w3))"

lemma createConnection_sel [simp]:
  "fst (createConnection X p s w) = nextLink w" "ports (snd (createConnection X p s w)) = ports w"
  "signals (snd (createConnection X p s w)) = signals w"
  by (simp_all add: createConnection_def)

lemma connectInternal_stages:
  assumes keep: "listeners_keep wiring_of X" and ok: "wired (wiring_of w)"
    and live: "\<not> sg_removed (signals w s)" "\<not> po_removed (ports w p)"
  shows "connectInternal X p (Some s) b w =
    (let h = connectHeard X p s w; c = listenerConnectedInternal X s (nextLink w) b (snd h) in
     if OPENDAQ_FAILED (fst h) then (fst h, release (nextLink w) (setRef p None (snd h)))
     else if OPENDAQ_FAILED (fst c) then (fst c, release (nextLink w) (snd c))
     else (OPENDAQ_SUCCESS, firePort p (SignalConnected p s) (release (nextLink w) (snd c))))"
proof -
  obtain w1 where c: "createConnection X p s w = (nextLink w, w1)" by (simp add: createConnection_def)
  then have w1: "snd (createConnection X p s w) = w1" "ports w1 = ports w"
    using createConnection_sel(2)[of X p s w] by simp_all
  have "wr_linked (wiring_of w1)" using wired_linked[OF wired_alloc[OF ok]] w1(1) wiring_simps(4)[of X p s w] by simp
  note d = disconnectSignalInternal_wired[OF keep this, of p False False]
  obtain w2 where r: "disconnectSignalInternal X p (getConnectionNoLock p w1) False True False (setRef p None w1) = (OPENDAQ_SUCCESS, w2)"
    using d by (metis prod.collapse)
  show ?thesis
    using live
    by (simp add: connectInternal_def canConnectSignal_def c w1 r connectHeard_def connectPlugged_def Let_def case_prod_beta)
qed

lemma connectPlugged_wiring:
  assumes "listeners_keep wiring_of X" "wired (wiring_of w)"
  shows "wiring_of (connectPlugged X p s w) =
    setWrRef p (Some (nextLink w)) (unplug p (alloc p s (createsRemote X p) (wiring_of w)))"
proof -
  have "wr_linked (wiring_of (snd (createConnection X p s w)))" using wired_linked[OF wired_alloc[OF assms(2)]] by simp
  from disconnectSignalInternal_wired[OF assms(1) this, of p False False] show ?thesis
    by (simp add: connectPlugged_def Let_def)
qed

lemma connectHeard_wiring:
  assumes "listeners_keep wiring_of X" "wired (wiring_of w)"
  shows "wiring_of (snd (connectHeard X p s w)) =
    setWrRef p (Some (nextLink w)) (unplug p (alloc p s (createsRemote X p) (wiring_of w)))"
  using assms by (simp add: connectHeard_def Let_def connectPlugged_wiring listeners_keep_def)

lemma unplug_sel [simp]:
  "wr_gone (unplug p W) = wr_gone W" "wr_portGone (unplug p W) = wr_portGone W" "wr_port (unplug p W) = wr_port W"
  "wr_signal (unplug p W) = wr_signal W" "wr_far (unplug p W) = wr_far W" "wr_next (unplug p W) = wr_next W"
  "wr_ref (unplug p W) p = None" "wr_domain (unplug p W) = wr_domain W" "wr_refs (unplug p W) = wr_refs W"
  by (simp_all add: unplug_def split: option.split)

lemma setWrRef_setWrRef [simp]: "setWrRef p r (setWrRef p q W) = setWrRef p r W"
  by (simp add: setWrRef_def)

lemma setWrRef_same [simp]: "wr_ref W p = r \<Longrightarrow> setWrRef p r W = W"
  by (auto simp: setWrRef_def)

lemma unplug_fresh: "wired W \<Longrightarrow> l \<in> set (wr_list (unplug p W) far s) \<Longrightarrow> l < wr_next W"
  using wiredD(2)[OF wired_unplug, of W l p far s] by simp

lemma connectHeard_link:
  assumes keep: "listeners_keep wiring_of X" and ok: "wired (wiring_of w)" and w4_def: "w4 = snd (connectHeard X p s w)"
  shows "ln_port (links w4 (nextLink w)) = p" "ln_signal (links w4 (nextLink w)) = s"
    "ln_remote (links w4 (nextLink w)) = createsRemote X p" "nextLink w \<notin> set (wr_list (wiring_of w4) far s')"
proof -
  let ?W = "alloc p s (createsRemote X p) (wiring_of w)"
  have W: "wiring_of w4 = setWrRef p (Some (nextLink w)) (unplug p ?W)"
    unfolding w4_def by (rule connectHeard_wiring[OF keep ok])
  from arg_cong[OF W, of "\<lambda>W. wr_port W (nextLink w)"] show "ln_port (links w4 (nextLink w)) = p" by simp
  from arg_cong[OF W, of "\<lambda>W. wr_signal W (nextLink w)"] show "ln_signal (links w4 (nextLink w)) = s" by simp
  from arg_cong[OF W, of "\<lambda>W. wr_far W (nextLink w)"] show "ln_remote (links w4 (nextLink w)) = createsRemote X p" by simp
  have "nextLink w \<notin> set (wr_list ?W far' s'')" for far' s''
    using wiredD(2)[OF ok, of "nextLink w" far' s''] by auto
  then have "nextLink w \<notin> set (wr_list (unplug p ?W) far s')"
    by (auto simp: unplug_def split: option.splits if_splits dest!: set_remove1_subset[THEN subsetD])
  then show "nextLink w \<notin> set (wr_list (wiring_of w4) far s')" by (simp add: W)
qed

lemma connect_wired:
  assumes keep: "listeners_keep wiring_of X" and ok: "wired (wiring_of w)"
  shows "wired (wiring_of (snd (connectInternal X p sig b w)))"
proof (cases "\<exists>s. sig = Some s \<and> \<not> sg_removed (signals w s) \<and> \<not> po_removed (ports w p)")
  case False
  then show ?thesis
    using ok wired_alloc[OF ok]
    by (auto simp: connectInternal_def canConnectSignal_def case_prod_beta Let_def split: option.split)
next
  case True
  then obtain s where s: "sig = Some s" "\<not> sg_removed (signals w s)" "\<not> po_removed (ports w p)" by blast
  let ?W = "unplug p (alloc p s (createsRemote X p) (wiring_of w))" and ?h = "connectHeard X p s w" and ?l = "nextLink w"
  let ?c = "listenerConnectedInternal X s ?l b (snd ?h)"
  have W: "wired ?W" by (intro wired_unplug wired_alloc ok)
  have "wiring_of (snd ?c) = setList (createsRemote X p) s (\<lambda>ls. ls @ [?l]) (setWrRef p (Some ?l) ?W)"
    using listenerConnected_wiring[OF keep, of ?l "snd ?h" s b] connectHeard_link[OF keep ok refl, of p s]
    by (simp add: connectHeard_wiring[OF keep ok])
  then have "wiring_of (snd ?c) = plug p ?l ?W" by (simp add: plug_def)
  moreover have "wired (plug p ?l ?W)" by (rule wired_plug[OF W]) (use s in simp_all)
  moreover have "wiring_of (setRef p None (snd ?h)) = ?W" by (simp add: connectHeard_wiring[OF keep ok])
  ultimately show ?thesis
    using W s by (simp add: connectInternal_stages[OF keep ok s(2,3)] Let_def)
qed

text \<open>Removing a port.\<close>

definition markPort :: "pid \<Rightarrow> wiring \<Rightarrow> wiring" where
  "markPort p W = W\<lparr>wr_portGone := (wr_portGone W)(p := True)\<rparr>"

lemma markPort_sel [simp]:
  "wr_list (markPort p W) = wr_list W" "wr_refs (markPort p W) = wr_refs W" "wr_domain (markPort p W) = wr_domain W"
  "wr_gone (markPort p W) = wr_gone W" "wr_ref (markPort p W) = wr_ref W" "wr_portGone (markPort p W) = (wr_portGone W)(p := True)"
  "wr_port (markPort p W) = wr_port W" "wr_signal (markPort p W) = wr_signal W" "wr_far (markPort p W) = wr_far W"
  "wr_next (markPort p W) = wr_next W"
  by (simp_all add: markPort_def wr_list_def fun_eq_iff)

lemma unplug_markPort: "unplug p (markPort p W) = markPort p (unplug p W)"
  by (simp add: unplug_def markPort_def setList_def setWrRef_def split: option.split)

lemma wired_markPort: "wired W \<Longrightarrow> wr_ref W p = None \<Longrightarrow> wired (markPort p W)"
  by (rule wiredI) (auto simp: wiredD split: if_splits)

lemma linked_markPort [simp]: "wr_linked (markPort p W) = wr_linked W"
  by (simp add: wr_linked_def)

lemma port_remove_wired:
  assumes keep: "listeners_keep wiring_of X" and ok: "wired (wiring_of w)"
  shows "wired (wiring_of (snd (port_remove X p w)))" "\<not> OPENDAQ_FAILED (fst (port_remove X p w))"
    and "wiring_of (snd (port_remove X p w)) = (if po_removed (ports w p) then wiring_of w else markPort p (unplug p (wiring_of w)))"
proof -
  define w1 where "w1 = modPort p (\<lambda>q. q\<lparr>po_removed := True, po_active := False, po_coreEventMuted := True\<rparr>) w"
  define w2 where "w2 = (case po_customData (ports w1 p) of None \<Rightarrow> w1 | Some c \<Rightarrow> w1\<lparr>coreEvents := coreEvents w1 @ [CustomDataRemoved c]\<rparr>)"
  have W: "wiring_of w2 = markPort p (wiring_of w)"
    by (simp add: w2_def w1_def wires.view_events split: option.split)
       (simp add: wiring_of_def modPort_def markPort_def fun_eq_iff)
  have "wr_linked (wiring_of w2)" using wired_linked[OF ok] by (simp add: W)
  note d = disconnectSignalInternal_wired[OF keep this, of p False True]
  have "wired (markPort p (unplug p (wiring_of w)))" by (intro wired_markPort wired_unplug ok) simp
  with d ok show "wired (wiring_of (snd (port_remove X p w)))" "\<not> OPENDAQ_FAILED (fst (port_remove X p w))"
    and "wiring_of (snd (port_remove X p w)) = (if po_removed (ports w p) then wiring_of w else markPort p (unplug p (wiring_of w)))"
    by (simp_all add: port_remove_def port_removed_def Let_def W unplug_markPort flip: w1_def w2_def)
qed

text \<open>Removing a signal.\<close>

definition dropRefs :: "pid set \<Rightarrow> wiring \<Rightarrow> wiring" where
  "dropRefs P W = W\<lparr>wr_ref := (\<lambda>p. if p \<in> P then None else wr_ref W p)\<rparr>"

definition dropSignal :: "sid \<Rightarrow> wiring \<Rightarrow> wiring" where
  "dropSignal s W = W\<lparr>wr_gone := (wr_gone W)(s := True),
     wr_ref := (\<lambda>p. if p \<in> wr_port W ` (set (wr_local W s) \<union> set (wr_remote W s)) then None else wr_ref W p),
     wr_local := (wr_local W)(s := []), wr_remote := (wr_remote W)(s := []),
     wr_domain := (\<lambda>v. if v \<in> set (wr_refs W s) then None else wr_domain W v), wr_refs := (wr_refs W)(s := [])\<rparr>"

lemma dropSignal_sel [simp]:
  "wr_list (dropSignal s W) far s' = (if s' = s then [] else wr_list W far s')"
  "wr_ref (dropSignal s W) p = (if \<exists>far. p \<in> wr_port W ` set (wr_list W far s) then None else wr_ref W p)"
  "wr_gone (dropSignal s W) = (wr_gone W)(s := True)" "wr_portGone (dropSignal s W) = wr_portGone W" "wr_port (dropSignal s W) = wr_port W"
  "wr_signal (dropSignal s W) = wr_signal W" "wr_far (dropSignal s W) = wr_far W" "wr_next (dropSignal s W) = wr_next W"
  "wr_domain (dropSignal s W) v = (if v \<in> set (wr_refs W s) then None else wr_domain W v)" "wr_refs (dropSignal s W) = (wr_refs W)(s := [])"
  by (auto simp: dropSignal_def wr_list_def)

lemma wired_dropSignal:
  assumes "wired W"
  shows "wired (dropSignal s W)"
proof (rule wiredI)
  fix far s' l
  assume "l \<in> set (wr_list (dropSignal s W) far s')"
  then have l: "l \<in> set (wr_list W far s')" "s' \<noteq> s" by (auto split: if_splits)
  have "\<not> (\<exists>far'. wr_port W l \<in> wr_port W ` set (wr_list W far' s))"
    using wiredD(2)[OF assms l(1)] l(2) wiredD(2)[OF assms, of _ _ s] by (metis imageE option.inject)
  with wiredD(2)[OF assms l(1)] show "l < wr_next (dropSignal s W) \<and> wr_signal (dropSignal s W) l = s' \<and> wr_far (dropSignal s W) l = far \<and>
      wr_ref (dropSignal s W) (wr_port (dropSignal s W) l) = Some l" by simp
next
  fix p l
  assume "wr_ref (dropSignal s W) p = Some l"
  then have p: "wr_ref W p = Some l" "\<not> (\<exists>far. p \<in> wr_port W ` set (wr_list W far s))" by (auto split: if_splits)
  from wiredD(3)[OF assms p(1)] p(2) have "wr_signal W l \<noteq> s" by auto
  with wiredD(3)[OF assms p(1)] show "l < wr_next (dropSignal s W) \<and> wr_port (dropSignal s W) l = p \<and>
      l \<in> set (wr_list (dropSignal s W) (wr_far (dropSignal s W) l) (wr_signal (dropSignal s W) l))" by simp
next
  fix v d
  show "wr_domain (dropSignal s W) v = Some d \<longleftrightarrow> v \<in> set (wr_refs (dropSignal s W) d)"
    using wiredD(7)[OF assms, of v d] wiredD(7)[OF assms, of v s] by (auto split: if_splits)
qed (auto simp: wiredD[OF assms])

lemma disconnectInputPorts_wiring:
  assumes "listeners_keep wiring_of X"
  shows "wiring_of (fold (disconnectInputPort X) ls w) = dropRefs (wr_port (wiring_of w) ` set ls) (wiring_of w)"
proof (induction ls arbitrary: w)
  case Nil
  then show ?case by (simp add: dropRefs_def wiring_of_def)
next
  case (Cons l ls)
  let ?w = "disconnectInputPort X l w"
  have W: "wiring_of ?w = setWrRef (ln_port (links w l)) None (wiring_of w)"
    by (simp add: disconnectInputPort_def disconnectWithout_wiring[OF assms])
  have "wr_port (wiring_of ?w) = wr_port (wiring_of w)" by (simp only: W setWrRef_sel)
  with Cons.IH[of ?w] show ?case by (auto simp: W dropRefs_def setWrRef_def fun_eq_iff)
qed

lemma clearDomains_wiring:
  "wiring_of (fold clearDomainSignalWithoutNotification vs w) =
     (wiring_of w)\<lparr>wr_domain := (\<lambda>v. if v \<in> set vs then None else wr_domain (wiring_of w) v)\<rparr>"
proof (induction vs arbitrary: w)
  case (Cons v vs)
  have "wiring_of (clearDomainSignalWithoutNotification v w) = (wiring_of w)\<lparr>wr_domain := (wr_domain (wiring_of w))(v := None)\<rparr>"
    by (simp add: clearDomainSignalWithoutNotification_def wiring_of_def modSignal_def fun_eq_iff)
  with Cons.IH show ?case by (auto simp: fun_eq_iff simp del: wiring_of_sel)
qed (simp add: wiring_of_def)

lemma setLocal_wiring:
  "wiring_of (modSignal s (\<lambda>g. g\<lparr>sg_connections := []\<rparr>) w) = (wiring_of w)\<lparr>wr_local := (wr_local (wiring_of w))(s := [])\<rparr>"
  "wiring_of (modSignal s (\<lambda>g. g\<lparr>sg_remoteConnections := []\<rparr>) w) = (wiring_of w)\<lparr>wr_remote := (wr_remote (wiring_of w))(s := [])\<rparr>"
  "wiring_of (modSignal s (\<lambda>g. g\<lparr>sg_domainSignalReferences := [], sg_relatedSignals := []\<rparr>) w) =
     (wiring_of w)\<lparr>wr_refs := (wr_refs (wiring_of w))(s := [])\<rparr>"
  "wiring_of (modSignal s (\<lambda>g. g\<lparr>sg_removed := True, sg_active := False, sg_coreEventMuted := True\<rparr>) w) =
     (wiring_of w)\<lparr>wr_gone := (wr_gone (wiring_of w))(s := True)\<rparr>"
  by (simp_all add: wiring_of_def modSignal_def fun_eq_iff)

lemma signal_removed_wiring:
  assumes "listeners_keep wiring_of X"
  shows "wiring_of (signal_removed X s (modSignal s (\<lambda>g. g\<lparr>sg_removed := True, sg_active := False, sg_coreEventMuted := True\<rparr>) w)) =
    dropSignal s (wiring_of w)"
proof -
  define w0 where "w0 = modSignal s (\<lambda>g. g\<lparr>sg_removed := True, sg_active := False, sg_coreEventMuted := True\<rparr>) w"
  define W where "W = wiring_of w"
  have W0: "wiring_of w0 = W\<lparr>wr_gone := (wr_gone W)(s := True)\<rparr>" by (simp add: w0_def W_def setLocal_wiring del: wiring_of_sel)
  define w1 where "w1 = clearConnections X s w0"
  have W1: "wiring_of w1 = (dropRefs (wr_port W ` set (wr_local W s)) (wiring_of w0))\<lparr>wr_local := (wr_local W)(s := [])\<rparr>"
    unfolding w1_def clearConnections_def setLocal_wiring disconnectInputPorts_wiring[OF assms]
    by (simp add: W0 dropRefs_def flip: wiring_of_sel)
  define w2 where "w2 = clearRemoteConnections X s w1"
  have W2: "wiring_of w2 = (dropRefs (wr_port W ` set (wr_remote W s)) (wiring_of w1))\<lparr>wr_remote := (wr_remote W)(s := [])\<rparr>"
    unfolding w2_def clearRemoteConnections_def setLocal_wiring disconnectInputPorts_wiring[OF assms]
    by (simp add: W0 W1 dropRefs_def flip: wiring_of_sel)
  show ?thesis
    unfolding signal_removed_def Let_def w0_def[symmetric] w1_def[symmetric] w2_def[symmetric] setLocal_wiring clearDomains_wiring W_def[symmetric]
    by (simp add: W0 W1 W2 dropRefs_def dropSignal_def image_Un fun_eq_iff flip: wiring_of_sel)
qed

lemma signal_remove_wired:
  "listeners_keep wiring_of X \<Longrightarrow> wired (wiring_of w) \<Longrightarrow> wired (wiring_of (snd (signal_remove X s w)))"
  by (simp add: signal_remove_def signal_removed_wiring wired_dropSignal)

text \<open>The domain of a signal.\<close>

definition setWrDomain :: "sid \<Rightarrow> sid option \<Rightarrow> wiring \<Rightarrow> wiring" where
  "setWrDomain s d W = W\<lparr>wr_domain := (wr_domain W)(s := d),
     wr_refs := (\<lambda>x. (if wr_domain W s = Some x then remove1 s (wr_refs W x) else wr_refs W x) @ (if d = Some x then [s] else []))\<rparr>"

lemma setWrDomain_sel [simp]:
  "wr_list (setWrDomain s d W) = wr_list W" "wr_gone (setWrDomain s d W) = wr_gone W" "wr_ref (setWrDomain s d W) = wr_ref W"
  "wr_portGone (setWrDomain s d W) = wr_portGone W" "wr_port (setWrDomain s d W) = wr_port W" "wr_signal (setWrDomain s d W) = wr_signal W"
  "wr_far (setWrDomain s d W) = wr_far W" "wr_next (setWrDomain s d W) = wr_next W"
  by (auto simp: setWrDomain_def wr_list_def)

lemma wired_setWrDomain:
  assumes "wired W" "d \<noteq> wr_domain W s"
  shows "wired (setWrDomain s d W)"
proof (rule wiredI)
  fix x
  show "distinct (wr_refs (setWrDomain s d W) x)"
    using wiredD(6)[OF assms(1), of x] wiredD(7)[OF assms(1), of s x] assms(2) by (auto simp: setWrDomain_def)
  fix v
  show "wr_domain (setWrDomain s d W) v = Some x \<longleftrightarrow> v \<in> set (wr_refs (setWrDomain s d W) x)"
    using wiredD(6)[OF assms(1), of x] wiredD(7)[OF assms(1), of v x] by (auto simp: setWrDomain_def)
qed (auto simp: wiredD[OF assms(1)])

lemma setDomainSignal_wiring:
  assumes ok: "wired (wiring_of w)" and new: "\<not> (''DomainSignal'' \<in> set (sg_lockedAttributes (signals w s)))" "d \<noteq> sg_domainSignal (signals w s)"
  shows "wiring_of (snd (setDomainSignal s d w)) = setWrDomain s d (wiring_of w)" "fst (setDomainSignal s d w) = OPENDAQ_SUCCESS"
proof -
  define w1 where "w1 = (case sg_domainSignal (signals w s) of None \<Rightarrow> w | Some old \<Rightarrow> snd (domainSignalReferenceRemoved old s w))"
  define w2 where "w2 = modSignal s (\<lambda>g. g\<lparr>sg_domainSignal := d\<rparr>) w1"
  have W2: "wiring_of w2 = (wiring_of w)\<lparr>wr_domain := (wr_domain (wiring_of w))(s := d),
      wr_refs := (\<lambda>x. if wr_domain (wiring_of w) s = Some x then remove1 s (wr_refs (wiring_of w) x) else wr_refs (wiring_of w) x)\<rparr>"
    by (auto simp: w2_def w1_def domainSignalReferenceRemoved_def wiring_of_def modSignal_def fun_eq_iff split: option.split)
  have no: "s \<notin> set (sg_domainSignalReferences (signals w2 x))" if "d = Some x" for x
    using arg_cong[OF W2, of "\<lambda>W. wr_refs W x"] wiredD(7)[OF ok, of s x] new(2) that by (auto split: if_splits)
  have W3: "wiring_of (snd (domainSignalReferenceSet x s w2)) = setWrDomain s d (wiring_of w)" "fst (domainSignalReferenceSet x s w2) = OPENDAQ_SUCCESS"
    if "d = Some x" for x
  proof -
    have "wiring_of (snd (domainSignalReferenceSet x s w2)) =
        (wiring_of w2)\<lparr>wr_refs := (wr_refs (wiring_of w2))(x := wr_refs (wiring_of w2) x @ [s])\<rparr>"
      using no[OF that] by (simp add: domainSignalReferenceSet_def) (simp add: wiring_of_def modSignal_def fun_eq_iff)
    then show "wiring_of (snd (domainSignalReferenceSet x s w2)) = setWrDomain s d (wiring_of w)"
      using that by (simp add: W2 setWrDomain_def fun_eq_iff del: wiring_of_sel)
    show "fst (domainSignalReferenceSet x s w2) = OPENDAQ_SUCCESS" using no[OF that] by (simp add: domainSignalReferenceSet_def)
  qed
  have "setDomainSignal s d w =
      (case (case d of None \<Rightarrow> (OPENDAQ_SUCCESS, w2) | Some x \<Rightarrow> domainSignalReferenceSet x s w2) of
         (e, w3) \<Rightarrow> if OPENDAQ_FAILED e then (e, w3) else (OPENDAQ_SUCCESS, fireSignal s (DomainSignalChanged s d) w3))"
    using new unfolding w2_def w1_def by (simp add: setDomainSignal_def Let_def)
  moreover have "wiring_of w2 = setWrDomain s d (wiring_of w)" if "d = None"
    using that by (simp add: W2 setWrDomain_def del: wiring_of_sel)
  ultimately show "wiring_of (snd (setDomainSignal s d w)) = setWrDomain s d (wiring_of w)" "fst (setDomainSignal s d w) = OPENDAQ_SUCCESS"
    using W3 by (auto simp: case_prod_beta split: option.split)
qed

lemma setDomainSignal_wired:
  assumes "wired (wiring_of w)"
  shows "wired (wiring_of (snd (setDomainSignal s d w)))"
proof (cases "''DomainSignal'' \<in> set (sg_lockedAttributes (signals w s)) \<or> d = sg_domainSignal (signals w s)")
  case True
  with assms show ?thesis by (auto simp: setDomainSignal_def)
next
  case False
  with setDomainSignal_wiring(1)[OF assms, of s d] wired_setWrDomain[OF assms, of d s] show ?thesis by simp
qed

section \<open>The wiring after any sequence of calls\<close>

lemma disconnect_wired:
  assumes "listeners_keep wiring_of X" "wired (wiring_of w)"
  shows "wiring_of (snd (disconnect X p w)) = unplug p (wiring_of w)" "fst (disconnect X p w) = OPENDAQ_SUCCESS"
  using disconnectSignalInternal_wired[OF assms(1) wired_linked[OF assms(2)]] by (simp_all add: disconnect_def)

lemma still_wiring:
  "wiring_of (snd (setListener p li w)) = wiring_of w"
  "wiring_of (snd (setNotificationMethod p m w)) = wiring_of w"
  "wiring_of (snd (setCustomData p c w)) = wiring_of w"
  "wiring_of (snd (setRequiresSignal p b w)) = wiring_of w"
  "wiring_of (snd (setPublic X s b w)) = wiring_of w"
  "wiring_of (signal_updateObject s st w) = wiring_of w"
  "wiring_of (snd (setRelatedSignals s rs w)) = wiring_of w"
  "wiring_of (snd (addRelatedSignal s r w)) = wiring_of w"
  "wiring_of (snd (removeRelatedSignal s r w)) = wiring_of w"
  "wiring_of (snd (clearRelatedSignals s w)) = wiring_of w"
  "wiring_of (snd (enableKeepLastValue X s b w)) = wiring_of w"
  "wiring_of (snd (setLastValue X s v w)) = wiring_of w"
  "wiring_of (snd (getLastValue X s w)) = wiring_of w"
  "wiring_of (snd (takeFrom l f w)) = wiring_of w"
  by (simp_all add: setListener_def setNotificationMethod_def setCustomData_def setRequiresSignal_def setPublic_def
      signal_updateObject_def setRelatedSignals_def addRelatedSignal_def removeRelatedSignal_def clearRelatedSignals_def
      triggerRelatedSignalsChanged_def enableKeepLastValue_def setLastValue_def getLastValue_def takeFrom_def Let_def
      split: option.split sum.split prod.split)

lemma path_exec_wired:
  assumes keep: "listeners_keep wiring_of X" and ok: "wired (wiring_of w)"
  shows "wired (wiring_of (snd (path_exec X op w)))"
proof (cases op)
  case (UpdateEnd p s)
  then show ?thesis using ok by (simp add: onUpdatableUpdateEnd_def connect_def connect_wired[OF keep] split: option.split)
qed (simp_all add: ok connect_def connectSignalSchedulerNotification_def connect_wired[OF keep ok] disconnect_wired[OF keep ok]
       wired_unplug port_remove_wired(1)[OF keep ok] setDescriptor_wiring[OF keep] setDomainSignal_wired signal_remove_wired[OF keep ok]
       send_wiring[OF keep] still_wiring case_prod_beta)

lemma wired_unconnected: "unconnected w \<Longrightarrow> wired (wiring_of w)"
  by (rule wiredI) (auto simp: unconnected_def wr_list_def split: if_splits)

lemma wired_reach:
  assumes keep: "listeners_keep wiring_of X" and "path_reach X w"
  shows "wired (wiring_of w)"
  using assms(2) by induction (auto intro: wired_unconnected path_exec_wired[OF keep])

section \<open>Which connections a packet reaches\<close>

text \<open>The view of the queues: connections and the ports' active flags.\<close>

definition flow_of :: "('f, 'a, 'v) path_world \<Rightarrow> (lid \<Rightarrow> ('f, 'a) link) \<times> (pid \<Rightarrow> bool)" where
  "flow_of w = (links w, \<lambda>p. po_active (ports w p))"

interpretation flows: path_view "flow_of :: ('f, 'a, 'v) path_world \<Rightarrow> _"
  by unfold_locales (simp_all add: flow_of_def)

lemma flow_eq: "flow_of w' = flow_of w \<longleftrightarrow> links w' = links w \<and> (\<forall>p. po_active (ports w' p) = po_active (ports w p))"
  by (auto simp: flow_of_def fun_eq_iff)

definition portActive :: "('f, 'a, 'v) path_world \<Rightarrow> lid \<Rightarrow> bool" where
  "portActive w l = po_active (ports w (ln_port (links w l)))"

text \<open>The queue of a connection after a call on it.\<close>

definition called :: "('f, 'a) queue_call \<Rightarrow> lid \<Rightarrow> ('f, 'a, 'v) path_world \<Rightarrow> ('f, 'a) connection" where
  "called f l w = snd (snd (f (portActive w l) (ln_queue (links w l))))"

lemma linkCall_queues:
  assumes "listeners_keep flow_of X"
  shows "ln_queue (links (snd (linkCall X f l w)) m) = (if m = l then called f l w else ln_queue (links w m))"
    and "portActive (snd (linkCall X f l w)) m = portActive w m"
  using flows.linkCall_view[OF assms, of f l w]
  by (auto simp: flow_eq setQueue_def called_def portActive_def)

lemma linkCalls_queues:
  assumes "listeners_keep flow_of X" "distinct ls" "linkCalls X (map (\<lambda>l. (l, f)) ls) w = (e, w')"
  shows "\<exists>ys zs. ls = ys @ zs \<and> (zs \<noteq> [] \<longrightarrow> OPENDAQ_FAILED e) \<and> (\<not> OPENDAQ_FAILED e \<longrightarrow> e = OPENDAQ_SUCCESS) \<and>
    (\<forall>l. ln_queue (links w' l) = (if l \<in> set ys then called f l w else ln_queue (links w l)))"
  using assms(2,3)
proof (induction ls arbitrary: w)
  case (Cons l ls)
  obtain e1 w1 where c: "linkCall X f l w = (e1, w1)" by force
  have q: "ln_queue (links w1 m) = (if m = l then called f l w else ln_queue (links w m))" "portActive w1 m = portActive w m" for m
    using linkCall_queues[OF assms(1), of f l w] c by simp_all
  show ?case
  proof (cases "OPENDAQ_FAILED e1")
    case True
    with Cons.prems c q show ?thesis by (intro exI[of _ "[l]"] exI[of _ ls]) simp
  next
    case False
    with Cons.prems c have "linkCalls X (map (\<lambda>l. (l, f)) ls) w1 = (e, w')" by simp
    from Cons.IH[OF _ this] Cons.prems(1) obtain ys zs where ys: "ls = ys @ zs" "zs \<noteq> [] \<longrightarrow> OPENDAQ_FAILED e"
      "\<not> OPENDAQ_FAILED e \<longrightarrow> e = OPENDAQ_SUCCESS"
      "\<And>m. ln_queue (links w' m) = (if m \<in> set ys then called f m w1 else ln_queue (links w1 m))" by auto
    have "called f m w1 = called f m w" if "m \<noteq> l" for m
      using that q[of m] by (simp add: called_def)
    then have "ln_queue (links w' m) = (if m \<in> set (l # ys) then called f m w else ln_queue (links w m))" for m
      using ys(1,4) q[of m] Cons.prems(1) by (cases "m = l") auto
    with ys(1-3) show ?thesis by (intro exI[of _ "l # ys", OF exI[of _ zs]]) simp
  qed
qed auto

section \<open>Which descriptors a connection was told of\<close>

definition notes_of :: "('f, 'a, 'v) path_world \<Rightarrow>
    (sid \<Rightarrow> 'f data_descriptor option) \<times> (lid \<Rightarrow> 'f data_descriptor option \<times> 'f data_descriptor option)" where
  "notes_of w = (\<lambda>s. sg_dataDescriptor (signals w s),
     \<lambda>l. (valueDataDescriptor (ln_queue (links w l)), domainDataDescriptor (ln_queue (links w l))))"

interpretation tells: path_view "notes_of :: ('f, 'a, 'v) path_world \<Rightarrow> _"
  by unfold_locales (simp_all add: notes_of_def)

declare tells.fire_keeps [simp]

lemma notes_sel [simp]:
  "fst (notes_of w) s = sg_dataDescriptor (signals w s)"
  "snd (notes_of w) l = (valueDataDescriptor (ln_queue (links w l)), domainDataDescriptor (ln_queue (links w l)))"
  by (simp_all add: notes_of_def)

definition told_of :: "('f, 'a) connection \<Rightarrow> 'f data_descriptor option \<times> 'f data_descriptor option" where
  "told_of c = (valueDataDescriptor c, domainDataDescriptor c)"

text \<open>What a packet tells: the descriptors that its event changes.\<close>

fun hear :: "('f, 'a) packet \<Rightarrow> 'f data_descriptor option \<times> 'f data_descriptor option \<Rightarrow> 'f data_descriptor option \<times> 'f data_descriptor option" where
  "hear (EventPacket e) (v, d) =
     (if ep_eventId e = DATA_DESCRIPTOR_CHANGED
      then (if ep_dataDescriptor e \<noteq> None then ep_dataDescriptor e else v, if ep_domainDataDescriptor e \<noteq> None then ep_domainDataDescriptor e else d)
      else (v, d))"
| "hear _ vd = vd"

lemma hear_simps [simp]:
  "\<not> has_id DATA_DESCRIPTOR_CHANGED q \<Longrightarrow> hear q vd = vd"
  "hear (DataDescriptorChangedEventPacket v d) (a, b) = (if v \<noteq> None then v else a, if d \<noteq> None then d else b)"
  by (cases q; cases vd; simp) (simp add: DataDescriptorChangedEventPacket_def)

lemma told_onPacketEnqueued: "told_of (onPacketEnqueued q c) = hear q (told_of c)"
  by (cases q) (simp_all add: told_of_def Let_def)

lemma told_same_queue: "same_queue c c' \<Longrightarrow> told_of c' = told_of c"
  by (simp add: same_queue_def told_of_def)

lemma told_checkForGaps:
  assumes "checkForGaps fo q c = Inr c'"
  shows "told_of c' = told_of c"
proof (cases q)
  case (DataPacket a n dp)
  have gap: "told_of (enqueueGapPacket fo d c1) = told_of c1" for d and c1 :: "('a, 'b) connection"
    by (simp add: enqueueGapPacket_def told_of_def)
  show ?thesis
  proof (cases dp)
    case None
    with assms DataPacket show ?thesis by (simp split: if_splits)
  next
    case (Some x)
    have "told_of c' = told_of c" if "res_bind (doGapCheck fo x c) (\<lambda>(g, d, c1). if g then Inr (enqueueGapPacket fo d c1) else Inr c1) = Inr c'"
    proof -
      from that obtain g d c1 where "doGapCheck fo x c = Inr (g, d, c1)" "c' = (if g then enqueueGapPacket fo d c1 else c1)"
        by (cases "doGapCheck fo x c") (simp_all split: prod.splits if_splits)
      then show ?thesis using told_same_queue[OF conjunct1[OF doGapCheck_frame]] gap by simp
    qed
    with assms DataPacket Some show ?thesis
      using told_same_queue[OF conjunct1[OF beginGapCheck_frame[of fo x c c']]] by (simp split: if_splits)
  qed
qed (use assms in \<open>auto dest: told_same_queue[OF initGapCheck_frame]\<close>)

lemma checkForGaps_error: "checkForGaps fo q c = Inl e \<Longrightarrow> OPENDAQ_FAILED e"
  by (cases q)
     (auto simp: beginGapCheck_def doGapCheck_def numberToDomainValue_def initGapCheck_def res_bind_eq_Inl Let_def
       parseDataDescriptorEventPacket_def split: if_splits option.splits data_rule.splits)

lemma told_enqueueInternal:
  assumes "enqueueInternal fo active f q c = (e, ns, c')"
  shows "told_of c' = (if e = OPENDAQ_SUCCESS then hear q (told_of c) else told_of c)"
    and "is_event q \<Longrightarrow> e = OPENDAQ_SUCCESS \<or> OPENDAQ_FAILED e"
proof -
  have upd: "told_of (c1\<lparr>packets := ps, queueEmpty := b\<rparr>) = told_of c1" for c1 :: "('a, 'b) connection" and ps b
    by (simp add: told_of_def)
  show "told_of c' = (if e = OPENDAQ_SUCCESS then hear q (told_of c) else told_of c)"
    using assms
    by (auto simp: enqueueInternal_def Let_def upd told_onPacketEnqueued split: if_splits sum.splits
        dest: told_checkForGaps checkForGaps_error)
  show "is_event q \<Longrightarrow> e = OPENDAQ_SUCCESS \<or> OPENDAQ_FAILED e"
    using assms
    by (auto simp: enqueueInternal_def Let_def is_event_def split: if_splits sum.splits dest: checkForGaps_error)
qed

text \<open>How calls on connections change what is told.\<close>

abbreviation told :: "('f, 'a, 'v) path_world \<Rightarrow> lid \<Rightarrow> 'f data_descriptor option \<times> 'f data_descriptor option" where
  "told w l \<equiv> told_of (ln_queue (links w l))"

lemma notes_eq: "notes_of w' = notes_of w \<longleftrightarrow>
    (\<forall>s. sg_dataDescriptor (signals w' s) = sg_dataDescriptor (signals w s)) \<and> (\<forall>l. told w' l = told w l)"
  by (auto simp: notes_of_def told_of_def fun_eq_iff)

lemma linkCall_told:
  assumes "listeners_keep notes_of X"
  shows "sg_dataDescriptor (signals (snd (linkCall X f l w)) s) = sg_dataDescriptor (signals w s)"
    and "told (snd (linkCall X f l w)) m = (if m = l then told_of (called f l w) else told w m)"
  using tells.linkCall_view[OF assms, of f l w] by (auto simp: notes_eq setQueue_def called_def portActive_def)

definition quiet_call :: "('f, 'a) queue_call \<Rightarrow> bool" where
  "quiet_call f \<longleftrightarrow> (\<forall>active c. told_of (snd (snd (f active c))) = told_of c)"

lemma linkCall_quiet: "listeners_keep notes_of X \<Longrightarrow> quiet_call f \<Longrightarrow> notes_of (snd (linkCall X f l w)) = notes_of w"
  by (simp add: notes_eq linkCall_told quiet_call_def called_def)

lemma linkCalls_quiet:
  "listeners_keep notes_of X \<Longrightarrow> \<forall>(l, f) \<in> set cs. quiet_call f \<Longrightarrow> notes_of (snd (linkCalls X cs w)) = notes_of w"
proof (induction X cs w rule: linkCalls.induct)
  case (2 X l f cs w)
  then show ?case using linkCall_quiet[OF "2.prems"(1), of f l w] by (auto split: prod.splits)
qed simp

lemma enqueueInternal_quiet:
  assumes "\<not> has_id DATA_DESCRIPTOR_CHANGED q"
  shows "told_of (snd (snd (enqueueInternal fo active f q c))) = told_of c"
  using told_enqueueInternal(1)[of fo active f q c] assms by (cases "enqueueInternal fo active f q c") simp

lemma enqueueOne_quiet: "\<not> has_id DATA_DESCRIPTOR_CHANGED q \<Longrightarrow> told_of (enqueueOne q c) = told_of c"
  using told_onPacketEnqueued[of q c] by (simp add: enqueueOne_def Let_def told_of_def)

lemma fold_enqueueOne_quiet: "\<forall>q \<in> set qs. \<not> has_id DATA_DESCRIPTOR_CHANGED q \<Longrightarrow> told_of (fold enqueueOne qs c) = told_of c"
  by (induction qs arbitrary: c) (simp_all add: enqueueOne_quiet)

lemma told_queueEmpty: "told_of (c\<lparr>queueEmpty := b\<rparr>) = told_of c"
  by (simp add: told_of_def)

lemma quiet_calls:
  "\<not> has_id DATA_DESCRIPTOR_CHANGED q \<Longrightarrow> quiet_call (\<lambda>active. enqueue fo active (Some q))"
  "\<not> has_id DATA_DESCRIPTOR_CHANGED q \<Longrightarrow> quiet_call (\<lambda>active. enqueueAndStealRef fo active (Some q))"
  "\<forall>q \<in> set qs. \<not> has_id DATA_DESCRIPTOR_CHANGED q \<Longrightarrow> quiet_call (\<lambda>active. enqueueMultiple active (Some qs))"
  "\<forall>q \<in> set qs. \<not> has_id DATA_DESCRIPTOR_CHANGED q \<Longrightarrow> quiet_call (\<lambda>active. enqueueMultipleAndStealRef active (Some qs))"
  by (simp_all add: quiet_call_def enqueue_def enqueueAndStealRef_def enqueueInternal_quiet enqueueMultiple_def
      enqueueMultipleAndStealRef_def enqueueMultipleInternal_def enqueueMultipleInternalMoved_def told_queueEmpty
      popBackLoop_fold fold_enqueueOne_quiet)

lemma notes_modSignal [simp]:
  "sg_dataDescriptor (f (signals w s)) = sg_dataDescriptor (signals w s) \<Longrightarrow> notes_of (modSignal s f w) = notes_of w"
  by (auto simp: notes_eq modSignal_def)

lemma notes_simps [simp]:
  "notes_of (modPort p f w) = notes_of w" "notes_of (setRef p r w) = notes_of w" "notes_of (release l w) = notes_of w"
  "sg_dataDescriptor (checkKeepLastPacket X q g) = sg_dataDescriptor g"
  "sg_dataDescriptor (setKeepLastPacket X g) = sg_dataDescriptor g"
  "sg_dataDescriptor (setLastValueFromPacket X a g) = sg_dataDescriptor g"
  by (simp_all add: notes_of_def modPort_def setRef_def release_def checkKeepLastPacket_def setKeepLastPacket_def setLastValueFromPacket_def Let_def
      split: packet.split option.split)

lemma enqueueMovedPackets_quiet:
  assumes "listeners_keep notes_of X" and q: "\<forall>q \<in> set qs. \<not> has_id DATA_DESCRIPTOR_CHANGED q"
  shows "notes_of (snd (enqueueMovedPacketsToConnections X qs ls w)) = notes_of w"
proof -
  let ?cs = "map (\<lambda>l. (l, \<lambda>active. enqueueMultiple active (Some qs))) (butlast ls)"
  obtain e w1 where c: "linkCalls X ?cs w = (e, w1)" by force
  moreover have "notes_of (snd (linkCalls X ?cs w)) = notes_of w"
    by (rule linkCalls_quiet[OF assms(1)]) (simp add: quiet_calls(3)[OF q])
  ultimately show ?thesis
    by (simp add: enqueueMovedPacketsToConnections_def linkCall_quiet[OF assms(1) quiet_calls(4)[OF q]])
qed

lemma sendOne_quiet:
  assumes keep: "listeners_keep notes_of X" and q: "\<And>q. pp = Some q \<Longrightarrow> \<not> has_id DATA_DESCRIPTOR_CHANGED q"
  shows "notes_of (snd (signal_sendPacket X s pp w)) = notes_of w"
    and "notes_of (snd (sendPacketAndStealRef X s pp w)) = notes_of w"
  using q
  by (auto simp: send_defs Let_def quiet_calls intro!: linkCalls_quiet[OF keep, THEN trans] split: option.split)

lemma sendMany_quiet:
  assumes keep: "listeners_keep notes_of X" and qs: "\<And>qs q. pps = Some qs \<Longrightarrow> q \<in> set qs \<Longrightarrow> \<not> has_id DATA_DESCRIPTOR_CHANGED q"
  shows "notes_of (snd (sendPackets X s pps w)) = notes_of w"
    and "notes_of (snd (sendPacketsAndStealRef X s pps w)) = notes_of w"
  using qs
  by (auto simp: send_defs Let_def quiet_calls enqueueMovedPackets_quiet[OF keep] intro!: linkCalls_quiet[OF keep, THEN trans] split: option.split)

text \<open>A descriptor event that no connection refuses is heard by all of them.\<close>

definition event_call :: "('f, 'a) packet \<Rightarrow> ('f, 'a) queue_call \<Rightarrow> bool" where
  "event_call q f \<longleftrightarrow> (\<forall>active c. OPENDAQ_FAILED (fst (f active c)) \<or> told_of (snd (snd (f active c))) = hear q (told_of c))"

lemma event_calls:
  assumes "is_event q"
  shows "event_call q (\<lambda>active. enqueue fo active (Some q))" "event_call q (connectCall X b q)"
proof -
  have "OPENDAQ_FAILED (fst (enqueueInternal fo active f q c)) \<or> told_of (snd (snd (enqueueInternal fo active f q c))) = hear q (told_of c)"
    for fo active f and c :: "('a, 'b) connection"
    using told_enqueueInternal[of fo active f q c] assms by (cases "enqueueInternal fo active f q c") auto
  then show "event_call q (\<lambda>active. enqueue fo active (Some q))" "event_call q (connectCall X b q)"
    by (simp_all add: event_call_def enqueue_def connectCall_def enqueueWithScheduler_def enqueueOnThisThread_def)
qed

lemma hear_hear [simp]: "hear q (hear q vd) = hear q vd"
  by (cases q; cases vd) auto

lemma linkCall_succeeds:
  "\<not> OPENDAQ_FAILED (fst (linkCall X f l w)) \<Longrightarrow> \<not> OPENDAQ_FAILED (fst (f (portActive w l) (ln_queue (links w l))))"
  by (auto simp: linkCall_def Let_def portActive_def split: prod.splits if_splits)

lemma linkCall_tells:
  assumes "listeners_keep notes_of X" "event_call q f" "\<not> OPENDAQ_FAILED (fst (linkCall X f l w))"
  shows "told (snd (linkCall X f l w)) m = (if m = l then hear q (told w l) else told w m)"
  using assms(2)[unfolded event_call_def] linkCall_succeeds[OF assms(3)]
  by (auto simp: linkCall_told[OF assms(1)] called_def)

lemma linkCalls_tell:
  assumes keep: "listeners_keep notes_of X" and ev: "event_call q f"
  shows "linkCalls X (map (\<lambda>l. (l, f)) ls) w = (e, w') \<Longrightarrow>
    (\<forall>s. sg_dataDescriptor (signals w' s) = sg_dataDescriptor (signals w s)) \<and>
    (\<not> OPENDAQ_FAILED e \<longrightarrow> (\<forall>m. told w' m = (if m \<in> set ls then hear q (told w m) else told w m)))"
proof (induction ls arbitrary: w)
  case (Cons l ls)
  obtain e1 w1 where c: "linkCall X f l w = (e1, w1)" by force
  have d: "sg_dataDescriptor (signals w1 s) = sg_dataDescriptor (signals w s)" for s
    using linkCall_told(1)[OF keep, of f l w s] c by simp
  show ?case
  proof (cases "OPENDAQ_FAILED e1")
    case True
    with Cons.prems c d show ?thesis by simp
  next
    case False
    with Cons.prems c have "linkCalls X (map (\<lambda>l. (l, f)) ls) w1 = (e, w')" by simp
    note ih = Cons.IH[OF this]
    have "told w1 m = (if m = l then hear q (told w l) else told w m)" for m
      using linkCall_tells[OF keep ev, of l w m] c False by simp
    with ih d show ?thesis by auto
  qed
qed simp

lemma sendRecursive_tells:
  assumes keep: "listeners_keep notes_of X" and ev: "is_event q" and r: "sendPacketRecursiveLock X v (Some q) w = (e, w')"
  shows "sg_dataDescriptor (signals w' s) = sg_dataDescriptor (signals w s)"
    and "e = OPENDAQ_SUCCESS \<Longrightarrow> told w' m = (if m \<in> set (sg_connections (signals w v)) then hear q (told w m) else told w m)"
proof -
  let ?w = "modSignal v (checkKeepLastPacket X q) w"
  let ?ls = "sg_connections (signals w v)"
  have n: "sg_dataDescriptor (signals ?w s) = sg_dataDescriptor (signals w s)" "told ?w m = told w m" for s m
    by (simp_all add: modSignal_def)
  have ls: "buildTempConnections (signals ?w v) = ?ls"
    using bare_keep(3)[of X q "signals w v"] by (simp add: buildTempConnections_def modSignal_def bare_def)
  have "sg_dataDescriptor (signals w' s) = sg_dataDescriptor (signals w s) \<and>
    (e = OPENDAQ_SUCCESS \<longrightarrow> told w' m = (if m \<in> set ?ls then hear q (told w m) else told w m))"
  proof (cases "sg_active (signals w v)")
    case False
    with r show ?thesis by (auto simp: sendPacketRecursiveLock_def sendPacketInner_def keepLastPacketAndEnqueue_def)
  next
    case True
    with r have "linkCalls X (map (\<lambda>l. (l, \<lambda>active. enqueue (floatOps X) active (Some q))) ?ls) ?w = (e, w')"
      by (simp add: sendPacketRecursiveLock_def sendPacketInner_def keepLastPacketAndEnqueue_def Let_def ls enqueuePacketToConnections_def)
    from linkCalls_tell[OF keep event_calls(1)[OF ev] this] n show ?thesis by simp
  qed
  then show "sg_dataDescriptor (signals w' s) = sg_dataDescriptor (signals w s)"
    and "e = OPENDAQ_SUCCESS \<Longrightarrow> told w' m = (if m \<in> set ?ls then hear q (told w m) else told w m)" by simp_all
qed

lemma notifyReferences_tell:
  assumes keep: "listeners_keep notes_of X" "listeners_keep wiring_of X" and ev: "is_event q"
  shows "notifyReferences X vs q b w = (ok, w') \<Longrightarrow>
    (\<forall>s. sg_dataDescriptor (signals w' s) = sg_dataDescriptor (signals w s)) \<and> (ok \<longrightarrow> b) \<and>
    (ok \<longrightarrow> (\<forall>m. told w' m = (if \<exists>v \<in> set vs. m \<in> set (sg_connections (signals w v)) then hear q (told w m) else told w m)))"
proof (induction vs arbitrary: b w)
  case (Cons v vs)
  obtain e w1 where c: "sendPacketRecursiveLock X v (Some q) w = (e, w1)" by force
  note s = sendRecursive_tells[OF keep(1) ev c]
  have "wiring_of w1 = wiring_of w" using send_wiring(2)[OF keep(2), of v "Some q" w] c by simp
  then have "sg_connections (signals w1 x) = sg_connections (signals w x)" for x by (metis wiring_of_sel(1))
  moreover from Cons.prems c have "notifyReferences X vs q (b \<and> e = OPENDAQ_SUCCESS) w1 = (ok, w')" by simp
  note Cons.IH[OF this]
  ultimately show ?case using s by auto
qed simp

section \<open>The invariant of what was told\<close>

definition told_ok :: "wiring \<Rightarrow> (sid \<Rightarrow> 'f data_descriptor option) \<times> (lid \<Rightarrow> 'f data_descriptor option \<times> 'f data_descriptor option) \<Rightarrow> bool" where
  "told_ok W N \<longleftrightarrow> (\<forall>s. \<forall>l \<in> set (wr_local W s).
     snd N l = (descriptorToEventPacketParam (fst N s),
                descriptorToEventPacketParam (case wr_domain W s of None \<Rightarrow> None | Some d \<Rightarrow> fst N d)))"

lemma told_notes: "snd (notes_of w) l = told w l"
  by (simp add: told_of_def)

lemma param_Some [simp]: "descriptorToEventPacketParam d \<noteq> None"
  by (simp add: descriptorToEventPacketParam_def split: option.split)

lemma setDescriptor_told:
  assumes keep: "listeners_keep notes_of X" "listeners_keep wiring_of X" and ok: "wired (wiring_of w)" "told_ok (wiring_of w) (notes_of w)"
    and r: "fst (signal_setDescriptor X s d w) = OPENDAQ_SUCCESS"
  shows "told_ok (wiring_of w) (notes_of (snd (signal_setDescriptor X s d w)))"
proof -
  let ?p = "DataDescriptorChangedEventPacket (descriptorToEventPacketParam d) None :: ('a, 'b) packet"
  let ?w = "modSignal s (\<lambda>g. g\<lparr>sg_dataDescriptor := d\<rparr>) w"
  obtain e w1 where 1: "sendPacketInternal X s ?p True ?w = (e, w1)" by force
  then have "linkCalls X (map (\<lambda>l. (l, \<lambda>active. enqueue (floatOps X) active (Some ?p))) (sg_connections (signals w s))) ?w = (e, w1)"
    by (simp add: sendPacketInternal_def enqueuePacketToConnections_def modSignal_def)
  note t1 = linkCalls_tell[OF keep(1) event_calls(1)[OF is_event_simps(4)] this]
  have W1: "wiring_of w1 = wiring_of w" using send_wiring(6)[OF keep(2), of s ?p True ?w] 1 by simp
  have d1: "sg_dataDescriptor (signals w1 x) = (if x = s then d else sg_dataDescriptor (signals w x))" for x
    using t1 by (simp add: modSignal_def)
  let ?q = "DataDescriptorChangedEventPacket None (descriptorToEventPacketParam d) :: ('a, 'b) packet"
  have refs: "sg_domainSignalReferences (signals w1 x) = sg_domainSignalReferences (signals w x)"
    and conns: "sg_connections (signals w1 x) = sg_connections (signals w x)" for x
    using W1 by (metis wiring_of_sel(3), metis wiring_of_sel(1))
  obtain b w2 where 2: "notifyReferences X (sg_domainSignalReferences (signals w s)) ?q True w1 = (b, w2)" by force
  note t2 = notifyReferences_tell[OF keep is_event_simps(4) 2]
  have e: "\<not> OPENDAQ_FAILED e" "b" and w': "snd (signal_setDescriptor X s d w) = fireSignal s (DataDescriptorChanged s (sg_dataDescriptor (signals w2 s))) w2"
    using r 1 2 by (auto simp: signal_setDescriptor_def d1 refs split: if_splits)
  have t: "told w2 m = (if \<exists>v \<in> set (sg_domainSignalReferences (signals w s)). m \<in> set (sg_connections (signals w v)) then hear ?q (told w1 m) else told w1 m)"
    "told w1 m = (if m \<in> set (sg_connections (signals w s)) then hear ?p (told w m) else told w m)" for m
    using t1 t2 e by (auto simp: conns modSignal_def)
  have d2: "sg_dataDescriptor (signals w2 x) = (if x = s then d else sg_dataDescriptor (signals w x))" for x
    using t2 d1 by simp
  show ?thesis
    unfolding told_ok_def w' tells.fire_keeps told_notes
  proof (intro allI ballI)
    fix v l
    assume "l \<in> set (wr_local (wiring_of w) v)"
    then have l: "l \<in> set (sg_connections (signals w v))" by simp
    have own: "l \<in> set (sg_connections (signals w x)) \<longleftrightarrow> x = v" for x
      using wiredD(2)[OF ok(1), of l False] l by auto
    have old: "told w l = (descriptorToEventPacketParam (sg_dataDescriptor (signals w v)),
        descriptorToEventPacketParam (case sg_domainSignal (signals w v) of None \<Rightarrow> None | Some d \<Rightarrow> sg_dataDescriptor (signals w d)))"
      using ok(2)[unfolded told_ok_def, rule_format, of l v] l by (simp add: told_notes[symmetric] cong: option.case_cong)
    have dom: "v \<in> set (sg_domainSignalReferences (signals w s)) \<longleftrightarrow> sg_domainSignal (signals w v) = Some s"
      using wiredD(7)[OF ok(1), of v s] by simp
    show "told w2 l = (descriptorToEventPacketParam (fst (notes_of w2) v),
        descriptorToEventPacketParam (case wr_domain (wiring_of w) v of None \<Rightarrow> None | Some x \<Rightarrow> fst (notes_of w2) x))"
      using t[of l] own old dom by (auto simp: d2 split: option.split)
  qed
qed

lemma told_okI:
  assumes "told_ok W N" "\<And>s. set (wr_local W' s) \<subseteq> set (wr_local W s)"
    and "\<And>s. wr_local W' s \<noteq> [] \<Longrightarrow> wr_domain W' s = wr_domain W s" and "fst N' = fst N"
    and "\<And>s l. l \<in> set (wr_local W' s) \<Longrightarrow> snd N' l = snd N l"
  shows "told_ok W' N'"
  unfolding told_ok_def
proof (intro allI ballI)
  fix s l
  assume l: "l \<in> set (wr_local W' s)"
  then have "wr_domain W' s = wr_domain W s" using assms(3)[of s] by fastforce
  with l assms(2)[of s] assms(4,5) assms(1)[unfolded told_ok_def, rule_format, of l s]
  show "snd N' l = (descriptorToEventPacketParam (fst N' s),
      descriptorToEventPacketParam (case wr_domain W' s of None \<Rightarrow> None | Some d \<Rightarrow> fst N' d))"
    by (auto cong: option.case_cong)
qed

lemma wr_local_list: "wr_local W s = wr_list W False s"
  by (simp add: wr_list_def)

lemma told_unplug: "told_ok W N \<Longrightarrow> told_ok (unplug p W) N"
  by (erule told_okI)
     (auto simp: wr_local_list unplug_def split: option.splits if_splits dest!: set_remove1_subset[THEN subsetD])

lemma told_dropSignal:
  assumes "told_ok W N" "\<And>v. v \<in> set (wr_refs W s) \<Longrightarrow> wr_local W v = []"
  shows "told_ok (dropSignal s W) N"
  by (rule told_okI[OF assms(1)]) (use assms(2) in \<open>auto simp: wr_local_list split: if_splits\<close>)

lemma disconnectSignalInternal_notes:
  assumes "listeners_keep notes_of X"
  shows "notes_of (snd (disconnectSignalInternal X p c nl ns ev w)) = notes_of w"
  using assms
  by (auto simp: disconnectSignalInternal_def listenerDisconnected_def Let_def listeners_keep_def split: option.split)

lemma createConnection_notes:
  shows "fst (notes_of (snd (createConnection X p s w))) = fst (notes_of w)"
    and "l \<noteq> nextLink w \<Longrightarrow> told (snd (createConnection X p s w)) l = told w l"
  by (simp_all add: notes_of_def createConnection_def)

lemma connectHeard_notes:
  assumes "listeners_keep notes_of X"
  shows "fst (notes_of (snd (connectHeard X p s w))) = fst (notes_of w)"
    and "l \<noteq> nextLink w \<Longrightarrow> told (snd (connectHeard X p s w)) l = told w l"
proof -
  have "notes_of (snd (connectHeard X p s w)) = notes_of (snd (createConnection X p s w))"
    using assms by (simp add: connectHeard_def connectPlugged_def Let_def disconnectSignalInternal_notes listeners_keep_def)
  then show "fst (notes_of (snd (connectHeard X p s w))) = fst (notes_of w)"
    and "l \<noteq> nextLink w \<Longrightarrow> told (snd (connectHeard X p s w)) l = told w l"
    using createConnection_notes(1)[where X = X and p = p and s = s and w = w]
      createConnection_notes(2)[where X = X and p = p and s = s and w = w and l = l] by (simp, metis told_notes)
qed

lemma unplug_alloc:
  assumes "wired W"
  shows "wr_list (unplug p (alloc q s far W)) = wr_list (unplug p W)"
proof (cases "wr_ref W p")
  case (Some l)
  with wiredD(3)[OF assms Some] show ?thesis by (simp add: unplug_def fun_eq_iff)
qed (simp add: unplug_def)

lemma connectHeard_told:
  assumes keep: "listeners_keep notes_of X" "listeners_keep wiring_of X" and ok: "wired (wiring_of w)" "told_ok (wiring_of w) (notes_of w)"
    and w4: "w4 = snd (connectHeard X p s w)"
  shows "told_ok (wiring_of w4) (notes_of w4)"
proof (rule told_okI[OF told_unplug[OF ok(2), of p]])
  note link = connectHeard_link[OF keep(2) ok(1) w4]
  have W4: "wiring_of w4 = setWrRef p (Some (nextLink w)) (unplug p (alloc p s (createsRemote X p) (wiring_of w)))"
    unfolding w4 by (rule connectHeard_wiring[OF keep(2) ok(1)])
  show "set (wr_local (wiring_of w4) x) \<subseteq> set (wr_local (unplug p (wiring_of w)) x)" for x
    by (simp only: wr_local_list W4 setWrRef_sel unplug_alloc[OF ok(1)] order_refl)
  show "wr_domain (wiring_of w4) x = wr_domain (unplug p (wiring_of w)) x" for x
    by (simp only: W4 setWrRef_sel unplug_sel alloc_sel)
  show "fst (notes_of w4) = fst (notes_of w)" unfolding w4 by (rule connectHeard_notes(1)[OF keep(1)])
  show "snd (notes_of w4) l = snd (notes_of w) l" if "l \<in> set (wr_local (wiring_of w4) x)" for x l
  proof -
    have "l \<noteq> nextLink w" using that link(4)[of False x] by (auto simp: wr_local_list simp del: wiring_of_sel)
    from connectHeard_notes(2)[OF keep(1) this, where p = p and s = s] show ?thesis by (simp only: told_notes w4)
  qed
qed

text \<open>A connection that is made is told the current descriptors.\<close>

lemma connected_told:
  assumes keep: "listeners_keep notes_of X" "listeners_keep wiring_of X" and ok: "told_ok (wiring_of w) (notes_of w)"
    and new: "\<And>far s. l \<notin> set (wr_list (wiring_of w) far s)"
    and r: "\<not> OPENDAQ_FAILED (fst (listenerConnectedInternal X s l b w))" and w': "w' = snd (listenerConnectedInternal X s l b w)"
  shows "told_ok (wiring_of w') (notes_of w')"
proof (cases "ln_remote (links w l)")
  case True
  then have "notes_of w' = notes_of w" using new[of True s] by (simp add: w' listenerConnectedInternal_def)
  moreover have "wr_local (wiring_of w') = wr_local (wiring_of w)" "wr_domain (wiring_of w') = wr_domain (wiring_of w)"
    using listenerConnected_wiring[OF keep(2) new, of s b] True by (simp_all add: w' setList_def)
  ultimately show ?thesis using ok by (simp add: told_ok_def)
next
  case False
  have new': "l \<notin> set (sg_connections (signals w x))" for x using new[of False x] by simp
  let ?q = "createDataDescriptorChangedEventPacket s w :: ('a, 'b) packet" and ?w = "addLocal s l w"
  have ev: "is_event ?q" by (simp add: createDataDescriptorChangedEventPacket_def)
  have W: "wiring_of w' = setList False s (\<lambda>ls. ls @ [l]) (wiring_of w)"
    using listenerConnected_wiring[OF keep(2) new, of s b] False by (simp add: w')
  have t: "told w' m = (if m = l then hear ?q (told w l) else told w m)" for m
    using linkCall_tells[OF keep(1) event_calls(2)[OF ev, of X b], of l ?w m] r False new'
    by (simp add: w' listenerConnected_local addLocal_def modSignal_def)
  have d: "sg_dataDescriptor (signals w' x) = sg_dataDescriptor (signals w x)" for x
    using linkCall_told(1)[OF keep(1), of "connectCall X b ?q" l ?w x] False new'
    by (simp add: w' listenerConnected_local addLocal_def modSignal_def)
  show ?thesis
    unfolding told_ok_def told_notes
  proof (intro allI ballI)
    fix v m
    assume m: "m \<in> set (wr_local (wiring_of w') v)"
    have dom: "wr_domain (wiring_of w') v = sg_domainSignal (signals w v)" by (simp only: W setList_sel wiring_of_sel)
    show "told w' m = (descriptorToEventPacketParam (fst (notes_of w') v),
        descriptorToEventPacketParam (case wr_domain (wiring_of w') v of None \<Rightarrow> None | Some x \<Rightarrow> fst (notes_of w') x))"
    proof (cases "m = l")
      case True
      with m W new' have "v = s" by (auto simp: wr_local_list W simp del: wiring_of_sel split: if_splits)
      with True dom d show ?thesis
        by (cases "told w l") (simp add: t createDataDescriptorChangedEventPacket_def cong: option.case_cong)
    next
      case other: False
      then have "m \<in> set (wr_local (wiring_of w) v)"
        using m by (auto simp: wr_local_list W simp del: wiring_of_sel split: if_splits)
      from ok[unfolded told_ok_def told_notes, rule_format, OF this] other dom d show ?thesis
        by (simp add: t cong: option.case_cong)
    qed
  qed
qed

lemma connect_told:
  assumes keep: "listeners_keep notes_of X" "listeners_keep wiring_of X" and ok: "wired (wiring_of w)" "told_ok (wiring_of w) (notes_of w)"
    and r: "\<not> OPENDAQ_FAILED (fst (connectInternal X p sig b w))"
  shows "told_ok (wiring_of (snd (connectInternal X p sig b w))) (notes_of (snd (connectInternal X p sig b w)))"
proof -
  obtain s where s: "sig = Some s" "\<not> sg_removed (signals w s)" "\<not> po_removed (ports w p)"
    using r by (auto simp: connectInternal_def canConnectSignal_def case_prod_beta Let_def split: option.splits if_splits)
  let ?l = "nextLink w" and ?w4 = "snd (connectHeard X p s w)"
  note stages = connectInternal_stages[OF keep(2) ok(1) s(2,3), of b]
  have good: "\<not> OPENDAQ_FAILED (fst (listenerConnectedInternal X s ?l b ?w4))"
    and w': "snd (connectInternal X p sig b w) = firePort p (SignalConnected p s) (release ?l (snd (listenerConnectedInternal X s ?l b ?w4)))"
    using r s(1) by (auto simp: stages Let_def split: if_splits)
  from connected_told[OF keep connectHeard_told[OF keep ok refl] connectHeard_link(4)[OF keep(2) ok(1) refl] good refl]
  show ?thesis by (simp add: w')
qed

section \<open>Calls that keep connections informed\<close>

text \<open>
  The calls after which every connection has been told the descriptors: a connect and a
  descriptor change that succeed, changes of a domain only while nothing is connected, and no
  descriptor events of the caller's own. The other calls are unrestricted.
\<close>

definition plain_packet :: "('f, 'a) packet \<Rightarrow> bool" where
  "plain_packet q \<longleftrightarrow> \<not> has_id DATA_DESCRIPTOR_CHANGED q"

fun informs :: "('f, 'a, 'v) path_ext \<Rightarrow> ('f, 'a, 'v) path_op \<Rightarrow> ('f, 'a, 'v) path_world \<Rightarrow> bool" where
  "informs X (Connect p s sched) w \<longleftrightarrow> \<not> OPENDAQ_FAILED (fst (connectInternal X p s sched w))"
| "informs X (UpdateEnd p s) w \<longleftrightarrow> s \<noteq> None \<longrightarrow> \<not> OPENDAQ_FAILED (fst (connect X p s w))"
| "informs X (SetDescriptor s d) w \<longleftrightarrow> fst (signal_setDescriptor X s d w) = OPENDAQ_SUCCESS"
| "informs X (SetDomainSignal s d) w \<longleftrightarrow> sg_connections (signals w s) = []"
| "informs X (RemoveSignal s) w \<longleftrightarrow> (\<forall>v \<in> set (sg_domainSignalReferences (signals w s)). sg_connections (signals w v) = [])"
| "informs X (SendPacket s moved pp) w \<longleftrightarrow> (case pp of None \<Rightarrow> True | Some q \<Rightarrow> plain_packet q)"
| "informs X (SendPackets s moved pps) w \<longleftrightarrow> (case pps of None \<Rightarrow> True | Some qs \<Rightarrow> list_all plain_packet qs)"
| "informs X _ w \<longleftrightarrow> True"

inductive informed_reach :: "('f, 'a, 'v) path_ext \<Rightarrow> ('f, 'a, 'v) path_world \<Rightarrow> bool" for X where
  informed_start: "unconnected w \<Longrightarrow> informed_reach X w"
| informed_next: "informed_reach X w \<Longrightarrow> informs X op w \<Longrightarrow> informed_reach X (snd (path_exec X op w))"

lemma informed_reach_path: "informed_reach X w \<Longrightarrow> path_reach X w"
  by (induction rule: informed_reach.induct) (auto intro: path_reach.intros)

lemma told_takes [simp]:
  "told_of (snd (snd (dequeue c))) = told_of c" "told_of (snd (snd (dequeueAll c))) = told_of c" "told_of (snd (snd (dequeueUpTo n c))) = told_of c"
  "told_of (snd (enqueueLastDescriptor c)) = told_of c"
proof -
  have "told_of (onPacketDequeued q c) = told_of c" for q and c :: "('a, 'b) connection"
    by (cases q) (auto simp: told_of_def)
  then show "told_of (snd (snd (dequeue c))) = told_of c"
    by (simp add: dequeue_def split: list.split) (simp add: told_of_def)
qed (simp_all add: told_of_def dequeueAll_def dequeueUpTo_def Let_def countPackets_def countPackets_fold enqueueLastDescriptor_def)

lemma notes_setQueue: "told_of c = told w l \<Longrightarrow> notes_of (setQueue l c w) = notes_of w"
  by (auto simp: notes_eq setQueue_def)

lemma still_notes:
  "notes_of (snd (setListener p li w)) = notes_of w"
  "notes_of (snd (setNotificationMethod p m w)) = notes_of w"
  "notes_of (snd (setCustomData p c w)) = notes_of w"
  "notes_of (snd (setRequiresSignal p b w)) = notes_of w"
  "notes_of (snd (setPublic X s b w)) = notes_of w"
  "notes_of (signal_updateObject s st w) = notes_of w"
  "notes_of (snd (setRelatedSignals s rs w)) = notes_of w"
  "notes_of (snd (addRelatedSignal s r w)) = notes_of w"
  "notes_of (snd (removeRelatedSignal s r w)) = notes_of w"
  "notes_of (snd (clearRelatedSignals s w)) = notes_of w"
  "notes_of (snd (enableKeepLastValue X s b w)) = notes_of w"
  "notes_of (snd (setLastValue X s v w)) = notes_of w"
  "notes_of (snd (getLastValue X s w)) = notes_of w"
  "notes_of (snd (setDomainSignal s d w)) = notes_of w"
  "notes_of (snd (takeFrom l dequeue w)) = notes_of w"
  "notes_of (snd (takeFrom l dequeueAll w)) = notes_of w"
  "notes_of (snd (takeFrom l (dequeueUpTo n) w)) = notes_of w"
  by (simp_all add: setListener_def setNotificationMethod_def setCustomData_def setRequiresSignal_def setPublic_def
      signal_updateObject_def setRelatedSignals_def addRelatedSignal_def removeRelatedSignal_def clearRelatedSignals_def
      triggerRelatedSignalsChanged_def enableKeepLastValue_def setLastValue_def getLastValue_def takeFrom_def Let_def
      setDomainSignal_def domainSignalReferenceRemoved_def domainSignalReferenceSet_def case_prod_beta notes_setQueue
      split: option.split sum.split)

lemma removal_notes:
  assumes "listeners_keep notes_of X"
  shows "notes_of (snd (port_remove X p w)) = notes_of w" "notes_of (snd (signal_remove X s w)) = notes_of w"
proof -
  have "notes_of (fold (disconnectInputPort X) ls w) = notes_of w" for ls w
    by (induction ls arbitrary: w)
       (simp_all add: disconnectInputPort_def disconnectWithoutSignalNotification_def disconnectSignalInternal_notes[OF assms])
  moreover have "notes_of (fold clearDomainSignalWithoutNotification vs w) = notes_of w" for vs and w :: "('a, 'b, 'c) path_world"
    by (induction vs arbitrary: w) (simp_all add: clearDomainSignalWithoutNotification_def)
  ultimately show "notes_of (snd (signal_remove X s w)) = notes_of w"
    by (simp add: signal_remove_def signal_removed_def clearConnections_def clearRemoteConnections_def Let_def)
  show "notes_of (snd (port_remove X p w)) = notes_of w"
    by (simp add: port_remove_def port_removed_def Let_def disconnectSignalInternal_notes[OF assms] tells.view_events split: option.split)
qed

lemma informs_told:
  assumes keep: "listeners_keep notes_of X" "listeners_keep wiring_of X" and ok: "wired (wiring_of w)" "told_ok (wiring_of w) (notes_of w)"
    and step: "informs X op w"
  shows "told_ok (wiring_of (snd (path_exec X op w))) (notes_of (snd (path_exec X op w)))"
proof (cases op)
  case (Connect p s b)
  with step connect_told[OF keep ok, of p s b] show ?thesis
    by (cases b) (simp_all add: connect_def connectSignalSchedulerNotification_def)
next
  case (UpdateEnd p s)
  with step connect_told[OF keep ok, of p s False] ok(2) show ?thesis
    by (auto simp: connect_def onUpdatableUpdateEnd_def split: option.split)
next
  case (Disconnect p)
  with told_unplug[OF ok(2)] show ?thesis
    by (simp add: disconnect_wired(1)[OF keep(2) ok(1)]) (simp add: disconnect_def disconnectSignalInternal_notes[OF keep(1)])
next
  case (RemovePort p)
  with told_unplug[OF ok(2)] ok(2) show ?thesis
    by (simp add: removal_notes[OF keep(1)] port_remove_wired(3)[OF keep(2) ok(1)] told_ok_def markPort_def)
next
  case (SetDescriptor s d)
  with step setDescriptor_told[OF keep ok, of s d] show ?thesis by (simp add: setDescriptor_wiring[OF keep(2)])
next
  case (SetDomainSignal s d)
  show ?thesis
  proof (cases "''DomainSignal'' \<in> set (sg_lockedAttributes (signals w s)) \<or> d = sg_domainSignal (signals w s)")
    case True
    with SetDomainSignal ok(2) show ?thesis by (auto simp: setDomainSignal_def)
  next
    case False
    have "told_ok (setWrDomain s d (wiring_of w)) (notes_of w)"
      by (rule told_okI[OF ok(2)]) (use step SetDomainSignal in \<open>auto simp: setWrDomain_def split: if_splits\<close>)
    with False SetDomainSignal show ?thesis by (simp add: setDomainSignal_wiring(1)[OF ok(1)] still_notes)
  qed
next
  case (RemoveSignal s)
  with step told_dropSignal[OF ok(2), of s] ok(2) show ?thesis
    by (simp add: removal_notes[OF keep(1)]) (simp add: signal_remove_def signal_removed_wiring[OF keep(2)])
next
  case (SendPacket s m pp)
  then have "\<not> has_id DATA_DESCRIPTOR_CHANGED q" if "pp = Some q" for q
    using step that by (simp add: plain_packet_def)
  note quiet = sendOne_quiet[OF keep(1), of pp s w, OF this]
  from SendPacket ok(2) show ?thesis by (simp add: send_wiring[OF keep(2)] quiet)
next
  case (SendPackets s m pps)
  then have "\<not> has_id DATA_DESCRIPTOR_CHANGED q" if "pps = Some qs" "q \<in> set qs" for qs q
    using step that by (simp add: plain_packet_def list_all_iff)
  note quiet = sendMany_quiet[OF keep(1), of pps s w, OF this]
  from SendPackets ok(2) show ?thesis by (simp add: send_wiring[OF keep(2)] quiet)
qed (simp_all add: ok(2) still_wiring still_notes case_prod_beta)

lemma informed_told:
  assumes keep: "listeners_keep notes_of X" "listeners_keep wiring_of X" and "informed_reach X w"
  shows "told_ok (wiring_of w) (notes_of w)"
  using assms(3)
proof induction
  case (informed_start w)
  then show ?case by (simp add: told_ok_def unconnected_def)
next
  case (informed_next w op)
  with informs_told[OF keep wired_reach[OF keep(2) informed_reach_path]] show ?case by blast
qed

section \<open>Properties\<close>




section \<open>A worked example\<close>

text \<open>
  Two signals, the second one is the domain of the first, and input ports whose listener takes a
  packet off the queue when it is told of one.
\<close>

definition demo_received :: "pid \<Rightarrow> (int, nat, unit) path_world \<Rightarrow> (int, nat, unit) path_world" where
  "demo_received p w = (case po_connectionRef (ports w p) of None \<Rightarrow> w | Some l \<Rightarrow> snd (takeFrom l dequeue w))"

definition demo_ext :: "(int, nat, unit) path_ext" where
  "demo_ext = \<lparr>floatOps = whole_ops, packetDescriptor = (\<lambda>_. tick_descriptor), lastValueSize = (\<lambda>_. 8), rawLastValue = (\<lambda>_. None),
     buildObject = (\<lambda>_ _. Inl OPENDAQ_ERR_INVALIDTYPE), createsRemote = (\<lambda>_. False), onAccepts = (\<lambda>_ _. (OPENDAQ_SUCCESS, True)),
     onConnected = (\<lambda>_ w. (OPENDAQ_SUCCESS, w)), onDisconnected = (\<lambda>_ w. w), onReceived = demo_received\<rparr>"

definition still_ext :: "(int, nat, unit) path_ext" where
  "still_ext = demo_ext\<lparr>onReceived := (\<lambda>_ w. w)\<rparr>"

definition demo_signal :: "sid \<Rightarrow> (int, unit) signal" where
  "demo_signal s = \<lparr>sg_active = True, sg_frozen = False, sg_removed = False, sg_coreEventMuted = True, sg_lockedAttributes = [],
     sg_dataDescriptor = (if s = 1 then Some tick_descriptor else None), sg_isPublic = True, sg_relatedSignals = [], sg_domainSignal = None,
     sg_connections = [], sg_remoteConnections = [], sg_domainSignalReferences = [], sg_keepLastPacket = True, sg_keepLastValue = True,
     sg_lastDataValue = None, sg_lastRawDataValue = [], sg_lastDataDescriptor = None\<rparr>"

definition demo_start :: "(int, nat, unit) path_world" where
  "demo_start = \<lparr>signals = demo_signal, ports = (\<lambda>_. InputPort_init True True),
     links = (\<lambda>_. \<lparr>ln_port = 0, ln_signal = 0, ln_remote = False, ln_queue = connection_init False\<rparr>),
     nextLink = 0, held = [], scheduledWork = [], schedulerStopped = False, coreEvents = [], crashed = False\<rparr>"

definition demo_domain :: "(int, nat, unit) path_world" where
  "demo_domain = snd (path_exec demo_ext (SetDomainSignal 0 (Some 1)) demo_start)"

definition demo_connected :: "(int, nat, unit) path_world" where
  "demo_connected = snd (path_exec demo_ext (Connect 0 (Some 0) False) demo_domain)"

lemma demo_listeners:
  "listeners_keep wiring_of demo_ext" "listeners_keep notes_of demo_ext"
  "listeners_keep wiring_of still_ext" "listeners_keep flow_of still_ext"
  by (simp_all add: listeners_keep_def demo_ext_def still_ext_def demo_received_def still_wiring still_notes split: option.split)

lemmas demo_eval = demo_start_def demo_domain_def demo_connected_def demo_signal_def InputPort_init_def setDomainSignal_def
  domainSignalReferenceSet_def modSignal_def fireSignal_def Let_def connect_def connectInternal_def canConnectSignal_def createConnection_def
  getConnectionNoLock_def disconnectSignalInternal_def setRef_def modPort_def listenerConnectedInternal_def
  createDataDescriptorChangedEventPacket_def descriptorToEventPacketParam_def linkCall_def enqueueOnThisThread_def enqueueInternal_def
  connection_init_def DataDescriptorChangedEventPacket_def initGapCheck_def parseDataDescriptorEventPacket_def NullDataDescriptor_def
  tick_descriptor_def setQueue_def firePort_def release_def demo_ext_def still_ext_def

lemma demo_connects:
  "fst (connectInternal demo_ext 0 (Some 0) False demo_domain) = OPENDAQ_SUCCESS" "sg_connections (signals demo_connected 0) = [0]"
  "sg_active (signals demo_connected 0)" "ln_port (links demo_connected 0) = 0"
  by (simp_all add: demo_eval)

lemma demo_informed: "informed_reach demo_ext demo_connected"
  unfolding demo_connected_def demo_domain_def
proof (intro informed_next informed_start)
  show "unconnected demo_start" by (simp add: unconnected_def demo_start_def demo_signal_def InputPort_init_def)
  show "informs demo_ext (SetDomainSignal 0 (Some 1)) demo_start" by (simp add: demo_start_def demo_signal_def)
  show "informs demo_ext (Connect 0 (Some 0) False) (snd (path_exec demo_ext (SetDomainSignal 0 (Some 1)) demo_start))"
    using demo_connects(1) by (simp add: demo_domain_def)
qed



definition demo_sending :: "(int, nat, unit) path_world" where
  "demo_sending = snd (path_exec still_ext (Connect 0 (Some 0) False) (snd (path_exec still_ext (SetDomainSignal 0 (Some 1)) demo_start)))"

lemma demo_sending_reach: "path_reach still_ext demo_sending"
  unfolding demo_sending_def
  by (intro path_next path_start) (simp add: unconnected_def demo_start_def demo_signal_def InputPort_init_def)

lemma demo_sends:
  "fst (signal_sendPacket still_ext 0 (Some (tick_packet 7 4 0)) demo_sending) = OPENDAQ_SUCCESS"
  "sg_connections (signals demo_sending 0) = [0]" "sg_active (signals demo_sending 0)"
  by (simp_all add: demo_sending_def demo_eval send_defs buildTempConnections_def checkKeepLastPacket_def tick_packet_def setLastValueFromPacket_def
      enqueue_def beginGapCheck_def numberToDomainValue_def)


section \<open>Where the calls fall short\<close>

text \<open>
  A connect that the listener refuses has already taken the port off its former signal, without the
  disconnection being announced; changing the domain of a signal tells its connections nothing.
\<close>

theorem refused_connect_unplugs:
  assumes "listeners_keep wiring_of X" and "path_reach X w" and "\<not> sg_removed (signals w s)" and "\<not> po_removed (ports w p)"
    and "OPENDAQ_FAILED (fst (connectHeard X p s w))"
  shows "fst (connect X p (Some s) w) = fst (connectHeard X p s w) \<and> po_connectionRef (ports (snd (connect X p (Some s) w)) p) = None"
  using connectInternal_stages[OF assms(1) wired_reach[OF assms(1,2)] assms(3,4), of False] assms(5)
  by (simp add: connect_def Let_def release_def setRef_def modPort_def)

theorem domain_change_tells_nothing: "links (snd (setDomainSignal s d w)) = links w"
  by (simp add: setDomainSignal_def Let_def case_prod_beta fireSignal_def modSignal_def domainSignalReferenceRemoved_def
      domainSignalReferenceSet_def split: option.split)

end
