(* ===== verification/TailReader.thy ===== *)
theory TailReader
  imports Connection
begin

text \<open>
  The tail reader (\<^verbatim>\<open>reader_impl.h\<close>, \<^verbatim>\<open>tail_reader_impl.cpp\<close>): it takes the packets off its
  connection as they arrive, keeps as many as its history needs, and reads the last samples of
  them. The typed readers that convert the memory of packets are a parameter. An exception that
  leaves a call is \<open>Inl\<close>; it leaves the state as it was at that moment.
\<close>

section \<open>State\<close>

datatype ReadMode = ReadMode_Unscaled | ReadMode_Scaled | ReadMode_RawValue

text \<open>
  \<open>'r\<close> is the state of a typed reader, \<open>'a\<close> the memory of a data packet, \<open>'x\<close> and \<open>'y\<close> converted
  value and domain samples. \<open>ro_createReader\<close> replaces a reader of undefined type by one of the type
  that the descriptor and the mode give; \<open>ro_readValues\<close> and \<open>ro_readDomain\<close> are \<^verbatim>\<open>readData\<close> on the
  memory of a packet and of its domain packet, from an offset and for a number of samples.
\<close>

record ('f, 'a, 'r, 'x, 'y) reader_ops =
  ro_isUndefined :: "'r \<Rightarrow> bool"
  ro_createReader :: "ReadMode \<Rightarrow> 'f data_descriptor \<Rightarrow> 'r \<Rightarrow> 'r"
  ro_handleDescriptorChanged :: "ReadMode \<Rightarrow> 'f data_descriptor \<Rightarrow> 'r \<Rightarrow> bool \<times> 'r"
  ro_readValues :: "'r \<Rightarrow> ReadMode \<Rightarrow> 'a \<Rightarrow> SizeT \<Rightarrow> SizeT \<Rightarrow> 'x list result"
  ro_readDomain :: "'r \<Rightarrow> 'f domain_packet \<Rightarrow> SizeT \<Rightarrow> SizeT \<Rightarrow> 'y list result"
  ro_domainDescriptor :: "'f domain_packet \<Rightarrow> 'f data_descriptor"

text \<open>\<open>tr_readCallback\<close>, \<open>tr_externalListener\<close>: whether they are set; what they answer is an argument of the calls that use them.\<close>

record ('f, 'a, 'r) tail_reader =
  tr_invalid :: bool
  tr_readMode :: ReadMode
  tr_skipEvents :: bool
  tr_connection :: "('f, 'a) connection option"
  tr_readCallback :: bool
  tr_externalListener :: bool
  tr_valueReader :: 'r
  tr_domainReader :: 'r
  tr_historySize :: SizeT
  tr_cachedSamples :: SizeT
  tr_packets :: "('f, 'a) packet list"

section \<open>The base class\<close>

definition handleValueDescriptor :: "('f, 'a, 'r, 'x, 'y) reader_ops \<Rightarrow> 'f data_descriptor \<Rightarrow> ('f, 'a, 'r) tail_reader \<Rightarrow> ('f, 'a, 'r) tail_reader" where
  "handleValueDescriptor X d t =
     (let r0 = tr_valueReader t;
          r1 = (if ro_isUndefined X r0 then ro_createReader X (tr_readMode t) d r0 else r0);
          (valid, r2) = ro_handleDescriptorChanged X (tr_readMode t) d r1
      in t\<lparr>tr_valueReader := r2, tr_invalid := (if tr_invalid t then True else \<not> valid)\<rparr>)"

definition handleDomainDescriptor :: "('f, 'a, 'r, 'x, 'y) reader_ops \<Rightarrow> 'f data_descriptor \<Rightarrow> ('f, 'a, 'r) tail_reader \<Rightarrow> ('f, 'a, 'r) tail_reader" where
  "handleDomainDescriptor X d t =
     (let r0 = tr_domainReader t;
          r1 = (if ro_isUndefined X r0 then ro_createReader X (tr_readMode t) d r0 else r0);
          (valid, r2) = ro_handleDescriptorChanged X (tr_readMode t) d r1
      in t\<lparr>tr_domainReader := r2, tr_invalid := (if tr_invalid t then True else \<not> valid)\<rparr>)"

definition reader_handleDescriptorChanged :: "('f, 'a, 'r, 'x, 'y) reader_ops \<Rightarrow> 'f event_packet \<Rightarrow> ('f, 'a, 'r) tail_reader \<Rightarrow> ('f, 'a, 'r) tail_reader result" where
  "reader_handleDescriptorChanged X e t =
     res_bind (parseDataDescriptorEventPacket e) (\<lambda>(valueChanged, domainChanged, v, d).
       let t1 = (case v of Some x \<Rightarrow> if valueChanged then handleValueDescriptor X x t else t | None \<Rightarrow> t)
       in Inr (case d of Some x \<Rightarrow> if domainChanged then handleDomainDescriptor X x t1 else t1 | None \<Rightarrow> t1))"

definition trySetDomainSampleType :: "('f, 'a, 'r, 'x, 'y) reader_ops \<Rightarrow> ReadMode \<Rightarrow> 'f domain_packet \<Rightarrow> 'r \<Rightarrow> bool \<times> 'r" where
  "trySetDomainSampleType X mode dp r =
     (let d = ro_domainDescriptor X dp;
          r1 = (if ro_isUndefined X r then ro_createReader X mode d r else r)
      in ro_handleDescriptorChanged X mode d r1)"

definition calculateOffset :: "('f, 'a, 'r, 'x, 'y) reader_ops \<Rightarrow> 'f float_ops \<Rightarrow> 'f domain_packet option \<Rightarrow> SizeT \<Rightarrow> Int64" where
  "calculateOffset X fo domain off =
     (case domain of
        None \<Rightarrow> 0
      | Some dp \<Rightarrow>
          let dlt = (case dd_rule (ro_domainDescriptor X dp) of Some (LinearRule x s) \<Rightarrow> number_to_int fo x | _ \<Rightarrow> 0)
          in number_to_int fo (dp_offset dp) + off * dlt)"

definition reader_connected :: "('f, 'a) connection option \<Rightarrow> ErrCode \<Rightarrow> ('f, 'a, 'r) tail_reader \<Rightarrow> ErrCode \<times> ('f, 'a, 'r) tail_reader" where
  "reader_connected c listenerAnswer t =
     (if tr_externalListener t then listenerAnswer else OPENDAQ_SUCCESS, t\<lparr>tr_connection := c\<rparr>)"

definition reader_disconnected :: "ErrCode \<Rightarrow> ('f, 'a, 'r) tail_reader \<Rightarrow> ErrCode \<times> ('f, 'a, 'r) tail_reader" where
  "reader_disconnected listenerAnswer t =
     (if tr_externalListener t then listenerAnswer else OPENDAQ_SUCCESS, t\<lparr>tr_connection := None\<rparr>)"

definition setOnDataAvailable :: "bool \<Rightarrow> ('f, 'a, 'r) tail_reader \<Rightarrow> ErrCode \<times> ('f, 'a, 'r) tail_reader" where
  "setOnDataAvailable b t = (OPENDAQ_SUCCESS, t\<lparr>tr_readCallback := b\<rparr>)"

definition setExternalListener :: "bool \<Rightarrow> ('f, 'a, 'r) tail_reader \<Rightarrow> ErrCode \<times> ('f, 'a, 'r) tail_reader" where
  "setExternalListener b t = (OPENDAQ_SUCCESS, t\<lparr>tr_externalListener := b\<rparr>)"

definition markAsInvalid :: "('f, 'a, 'r) tail_reader \<Rightarrow> ErrCode \<times> ('f, 'a, 'r) tail_reader" where
  "markAsInvalid t = (OPENDAQ_SUCCESS, t\<lparr>tr_invalid := True\<rparr>)"

section \<open>Receiving packets\<close>

text \<open>
  The packets that are erased to make room: events stay, data packets go as long as enough samples
  remain. \<^verbatim>\<open>packets\<close> holds only data and event packets.
\<close>

fun evict :: "SizeT \<Rightarrow> SizeT \<Rightarrow> ('f, 'a) packet list \<Rightarrow> SizeT \<times> ('f, 'a) packet list" where
  "evict history available [] = (available, [])"
| "evict history available (EventPacket e # ps) =
     (case evict history available ps of (a, qs) \<Rightarrow> (a, EventPacket e # qs))"
| "evict history available (DataPacket a n d # ps) =
     (if available - n \<ge> history then evict history (available - n) ps else (available, DataPacket a n d # ps))"
| "evict history available (OtherPacket a # ps) = (available, OtherPacket a # ps)"

fun receive :: "('f, 'a) packet \<Rightarrow> ('f, 'a, 'r) tail_reader \<Rightarrow> ('f, 'a, 'r) tail_reader" where
  "receive (DataPacket a n d) t =
     (if tr_cachedSamples t < tr_historySize t
      then t\<lparr>tr_packets := tr_packets t @ [DataPacket a n d], tr_cachedSamples := tr_cachedSamples t + n\<rparr>
      else case evict (tr_historySize t) (tr_cachedSamples t + n) (tr_packets t) of
             (available, ps) \<Rightarrow> t\<lparr>tr_packets := ps @ [DataPacket a n d], tr_cachedSamples := available\<rparr>)"
| "receive (EventPacket e) t = t\<lparr>tr_packets := tr_packets t @ [EventPacket e]\<rparr>"
| "receive (OtherPacket a) t = t"

text \<open>The loop that empties the connection; \<open>hasEvent\<close> notes whether an event was among the packets.\<close>

function drain :: "('f, 'a) connection \<Rightarrow> bool \<Rightarrow> ('f, 'a, 'r) tail_reader \<Rightarrow> ('f, 'a) connection \<times> bool \<times> ('f, 'a, 'r) tail_reader" where
  "drain c hasEvent t =
     (case dequeue c of
        (e, None, c1) \<Rightarrow> (c1, hasEvent, t)
      | (e, Some p, c1) \<Rightarrow> drain c1 (hasEvent \<or> packet_getType p = PacketType_Event) (receive p t))"
  by pat_completeness auto
termination
  by (relation "measure (\<lambda>(c, h, t). length (packets c))") (auto simp: dequeue_def split: list.splits)

declare drain.simps [simp del]

datatype reader_call = CallReadCallback | CallExternalListener

definition tail_packetReceived ::
  "ErrCode \<Rightarrow> ErrCode \<Rightarrow> ('f, 'a, 'r) tail_reader \<Rightarrow> (ErrCode \<times> reader_call list) result \<times> ('f, 'a, 'r) tail_reader" where
  "tail_packetReceived callbackAnswer listenerAnswer t =
     (case tr_connection t of
        None \<Rightarrow> (Inl OPENDAQ_ERR_INVALIDPARAMETER, t)
      | Some c \<Rightarrow>
          (case drain c False t of (c1, hasEvent, t1) \<Rightarrow>
             let t2 = t1\<lparr>tr_connection := Some c1\<rparr>;
                 notify = (tr_readCallback t2 \<and> (hasEvent \<or> tr_cachedSamples t2 \<ge> tr_historySize t2));
                 calls = (if notify then [CallReadCallback] else [])
             in if notify \<and> OPENDAQ_FAILED callbackAnswer then (Inr (callbackAnswer, calls), t2)
                else if tr_externalListener t2 then (Inr (listenerAnswer, calls @ [CallExternalListener]), t2)
                else (Inr (OPENDAQ_SUCCESS, calls), t2)))"

section \<open>Reading\<close>

record ('x, 'y) TailReaderInfo =
  ti_values :: "'x list"
  ti_domainValues :: "'y list option"
  ti_remainingToRead :: SizeT
  ti_offset :: SizeT

record 'f TailReaderStatus =
  ts_eventPacket :: "'f event_packet option"
  ts_valid :: bool
  ts_offset :: Int64
  ts_sufficientHistory :: bool

datatype ReadStatus = ReadStatus_Ok | ReadStatus_Event | ReadStatus_Fail | ReadStatus_Unknown

definition getReadStatus :: "'f TailReaderStatus \<Rightarrow> ReadStatus" where
  "getReadStatus s =
     (if \<not> ts_sufficientHistory s then ReadStatus_Fail
      else if ts_valid s \<and> ts_eventPacket s = None then ReadStatus_Ok
      else if ts_eventPacket s \<noteq> None then ReadStatus_Event
      else ReadStatus_Fail)"

text \<open>
  What is written to the buffers of the caller is appended to \<open>ti_values\<close> and \<open>ti_domainValues\<close>. A
  null domain packet makes the smart pointer throw.
\<close>

definition readDomainSamples ::
  "('f, 'a, 'r, 'x, 'y) reader_ops \<Rightarrow> 'f domain_packet \<Rightarrow> SizeT \<Rightarrow> SizeT \<Rightarrow> ('f, 'a, 'r) tail_reader \<Rightarrow> 'y list result \<times> ('f, 'a, 'r) tail_reader" where
  "readDomainSamples X dp off toRead t =
     (case ro_readDomain X (tr_domainReader t) dp off toRead of
        Inr ys \<Rightarrow> (Inr ys, t)
      | Inl e \<Rightarrow>
          if e \<noteq> OPENDAQ_ERR_INVALIDSTATE then (Inl e, t)
          else case trySetDomainSampleType X (tr_readMode t) dp (tr_domainReader t) of
                 (ok, r) \<Rightarrow>
                   let t1 = t\<lparr>tr_domainReader := r\<rparr>
                   in if ok then (ro_readDomain X r dp off toRead, t1) else (Inl e, t1))"

definition tail_readPacket ::
  "('f, 'a, 'r, 'x, 'y) reader_ops \<Rightarrow> 'a \<Rightarrow> SizeT \<Rightarrow> 'f domain_packet option \<Rightarrow> ('x, 'y) TailReaderInfo \<Rightarrow> ('f, 'a, 'r) tail_reader \<Rightarrow>
   ErrCode result \<times> ('x, 'y) TailReaderInfo \<times> ('f, 'a, 'r) tail_reader" where
  "tail_readPacket X a sampleCount domain info t =
     (if ti_offset info > sampleCount
      then (Inr OPENDAQ_SUCCESS, info\<lparr>ti_offset := ti_offset info - sampleCount\<rparr>, t)
      else
        let toRead = min (ti_remainingToRead info) (sampleCount - ti_offset info) in
        case ro_readValues X (tr_valueReader t) (tr_readMode t) a (ti_offset info) toRead of
          Inl e \<Rightarrow> (Inr e, info, t)
        | Inr xs \<Rightarrow>
            let info1 = info\<lparr>ti_values := ti_values info @ xs\<rparr>;
                finish = (\<lambda>i. i\<lparr>ti_offset := 0, ti_remainingToRead := ti_remainingToRead i - toRead\<rparr>)
            in case ti_domainValues info of
                 None \<Rightarrow> (Inr OPENDAQ_SUCCESS, finish info1, t)
               | Some ds \<Rightarrow>
                   (case domain of
                      None \<Rightarrow> (Inl OPENDAQ_ERR_INVALIDPARAMETER, info1, t)
                    | Some dp \<Rightarrow>
                        (case readDomainSamples X dp (ti_offset info) toRead t of
                           (Inl e, t1) \<Rightarrow> (Inr e, info1, t1)
                         | (Inr ys, t1) \<Rightarrow> (Inr OPENDAQ_SUCCESS, finish (info1\<lparr>ti_domainValues := Some (ds @ ys)\<rparr>), t1))))"

text \<open>
  The loop over the cached packets. At an event the packets up to it are erased. The error code of
  \<open>tail_readPacket\<close> is not looked at.
\<close>

fun readLoop ::
  "('f, 'a, 'r, 'x, 'y) reader_ops \<Rightarrow> 'f float_ops \<Rightarrow> ('f, 'a) packet list \<Rightarrow> SizeT \<Rightarrow> Int64 option \<Rightarrow> ('x, 'y) TailReaderInfo \<Rightarrow>
   ('f, 'a, 'r) tail_reader \<Rightarrow> ('f event_packet option \<times> Int64 option) result \<times> ('x, 'y) TailReaderInfo \<times> ('f, 'a, 'r) tail_reader" where
  "readLoop X fo [] readCached offset info t = (Inr (None, offset), info, t)"
| "readLoop X fo (EventPacket e # ps) readCached offset info t =
     (case reader_handleDescriptorChanged X e t of
        Inl err \<Rightarrow> (Inl err, info, t)
      | Inr t1 \<Rightarrow>
          let t2 = t1\<lparr>tr_packets := ps, tr_cachedSamples := tr_cachedSamples t1 - readCached\<rparr>
          in if \<not> tr_skipEvents t2 \<or> tr_invalid t2 \<or> ep_eventId e = IMPLICIT_DOMAIN_GAP_DETECTED
             then (Inr (Some e, offset), info, t2)
             else readLoop X fo ps readCached offset info t2)"
| "readLoop X fo (DataPacket a n d # ps) readCached offset info t =
     (let offset1 = (if offset = None \<and> ti_offset info < n then Some (calculateOffset X fo d (ti_offset info)) else offset)
      in case tail_readPacket X a n d info t of
           (Inl err, info1, t1) \<Rightarrow> (Inl err, info1, t1)
         | (Inr code, info1, t1) \<Rightarrow> readLoop X fo ps (readCached + n) offset1 info1 t1)"
| "readLoop X fo (OtherPacket a # ps) readCached offset info t = readLoop X fo ps readCached offset info t"

definition tail_readData ::
  "('f, 'a, 'r, 'x, 'y) reader_ops \<Rightarrow> 'f float_ops \<Rightarrow> ('x, 'y) TailReaderInfo \<Rightarrow> ('f, 'a, 'r) tail_reader \<Rightarrow>
   'f TailReaderStatus result \<times> ('x, 'y) TailReaderInfo \<times> ('f, 'a, 'r) tail_reader" where
  "tail_readData X fo info t =
     (if ti_remainingToRead info > tr_cachedSamples t \<and> ti_remainingToRead info > tr_historySize t
      then (Inr \<lparr>ts_eventPacket = None, ts_valid = (\<not> tr_invalid t), ts_offset = 0, ts_sufficientHistory = False\<rparr>, info, t)
      else
        let info1 = (if tr_cachedSamples t > ti_remainingToRead info
                     then info\<lparr>ti_offset := tr_cachedSamples t - ti_remainingToRead info\<rparr> else info)
        in case readLoop X fo (tr_packets t) 0 None info1 t of
             (Inl e, info2, t1) \<Rightarrow> (Inl e, info2, t1)
           | (Inr (ev, offset), info2, t1) \<Rightarrow>
               (Inr \<lparr>ts_eventPacket = ev, ts_valid = (\<not> tr_invalid t1), ts_offset = (case offset of None \<Rightarrow> 0 | Some x \<Rightarrow> x),
                     ts_sufficientHistory = True\<rparr>, info2, t1))"

text \<open>
  \<^verbatim>\<open>read\<close> and \<^verbatim>\<open>readWithDomain\<close>: \<open>values\<close> says whether the buffer is given, \<open>domain\<close> is \<open>None\<close> for
  \<^verbatim>\<open>read\<close> and says the same of the second buffer otherwise. The result: error code, number of
  samples read, status, and what was written.
\<close>

record ('f, 'x, 'y) read_result =
  rr_code :: ErrCode
  rr_count :: SizeT
  rr_status :: "'f TailReaderStatus option"
  rr_values :: "'x list"
  rr_domain :: "'y list"

definition tail_read ::
  "('f, 'a, 'r, 'x, 'y) reader_ops \<Rightarrow> 'f float_ops \<Rightarrow> bool \<Rightarrow> bool option \<Rightarrow> SizeT \<Rightarrow> ('f, 'a, 'r) tail_reader \<Rightarrow>
   ('f, 'x, 'y) read_result result \<times> ('f, 'a, 'r) tail_reader" where
  "tail_read X fo values domain cnt t =
     (if cnt \<noteq> 0 \<and> (\<not> values \<or> domain = Some False)
      then (Inr \<lparr>rr_code = OPENDAQ_ERR_ARGUMENT_NULL, rr_count = cnt, rr_status = None, rr_values = [], rr_domain = []\<rparr>, t)
      else if tr_invalid t
      then (Inr \<lparr>rr_code = OPENDAQ_IGNORED, rr_count = 0,
                 rr_status = Some \<lparr>ts_eventPacket = None, ts_valid = False, ts_offset = 0, ts_sufficientHistory = True\<rparr>,
                 rr_values = [], rr_domain = []\<rparr>, t)
      else case tail_readData X fo \<lparr>ti_values = [], ti_domainValues = (if domain = Some True then Some [] else None),
                  ti_remainingToRead = cnt, ti_offset = 0\<rparr> t of
             (Inl e, info, t1) \<Rightarrow> (Inl e, t1)
           | (Inr status, info, t1) \<Rightarrow>
               (Inr \<lparr>rr_code = OPENDAQ_SUCCESS, rr_count = cnt - ti_remainingToRead info, rr_status = Some status,
                     rr_values = ti_values info, rr_domain = (case ti_domainValues info of None \<Rightarrow> [] | Some ys \<Rightarrow> ys)\<rparr>, t1))"

definition tail_getAvailableCount :: "('f, 'a, 'r) tail_reader \<Rightarrow> SizeT" where
  "tail_getAvailableCount t = tr_cachedSamples t"

definition tail_getEmpty :: "('f, 'a, 'r) tail_reader \<Rightarrow> bool" where
  "tail_getEmpty t \<longleftrightarrow> tail_getAvailableCount t = 0"

definition getHistorySize :: "('f, 'a, 'r) tail_reader \<Rightarrow> SizeT" where
  "getHistorySize t = tr_historySize t"

section \<open>Construction\<close>

text \<open>A reader on a connection, with the typed readers that \<^verbatim>\<open>createReaderForType\<close> makes; it takes what is queued.\<close>

definition tail_new :: "ReadMode \<Rightarrow> bool \<Rightarrow> 'r \<Rightarrow> 'r \<Rightarrow> SizeT \<Rightarrow> ('f, 'a) connection option \<Rightarrow> ('f, 'a, 'r) tail_reader" where
  "tail_new mode skip vr dr history c =
     \<lparr>tr_invalid = False, tr_readMode = mode, tr_skipEvents = skip, tr_connection = c, tr_readCallback = False, tr_externalListener = False,
      tr_valueReader = vr, tr_domainReader = dr, tr_historySize = history, tr_cachedSamples = 0, tr_packets = []\<rparr>"

definition TailReaderImpl :: "ReadMode \<Rightarrow> bool \<Rightarrow> 'r \<Rightarrow> 'r \<Rightarrow> SizeT \<Rightarrow> ('f, 'a) connection option \<Rightarrow> ('f, 'a, 'r) tail_reader" where
  "TailReaderImpl mode skip vr dr history c =
     (let t = tail_new mode skip vr dr history c
      in if c = None then t else snd (tail_packetReceived OPENDAQ_SUCCESS OPENDAQ_SUCCESS t))"

definition readDescriptorFromPort :: "('f, 'a, 'r, 'x, 'y) reader_ops \<Rightarrow> ('f, 'a, 'r) tail_reader \<Rightarrow> ('f, 'a, 'r) tail_reader result" where
  "readDescriptorFromPort X t =
     (case tr_connection t of
        None \<Rightarrow> Inr t
      | Some c \<Rightarrow>
          (case peek c of
             (_, Some (EventPacket e)) \<Rightarrow>
               if ep_eventId e = DATA_DESCRIPTOR_CHANGED
               then reader_handleDescriptorChanged X e (t\<lparr>tr_connection := Some (snd (snd (dequeue c)))\<rparr>)
               else Inr t
           | _ \<Rightarrow> Inr t))"

text \<open>A reader in place of another, which becomes invalid: setting the listener of the port repeats the last descriptors at the front of the queue.\<close>

definition TailReaderImpl_reuse :: "('f, 'a, 'r, 'x, 'y) reader_ops \<Rightarrow> ('f, 'a, 'r) tail_reader \<Rightarrow> 'r \<Rightarrow> 'r \<Rightarrow> SizeT \<Rightarrow>
   ('f, 'a, 'r) tail_reader result \<times> ('f, 'a, 'r) tail_reader" where
  "TailReaderImpl_reuse X old vr dr history =
     (res_bind (readDescriptorFromPort X
         ((tail_new (tr_readMode old) (tr_skipEvents old) vr dr history (map_option (\<lambda>c. snd (enqueueLastDescriptor c)) (tr_connection old)))
            \<lparr>tr_readCallback := tr_readCallback old\<rparr>))
       (\<lambda>t. Inr (t\<lparr>tr_cachedSamples := tr_cachedSamples old, tr_packets := tr_packets old\<rparr>)), old\<lparr>tr_invalid := True\<rparr>)"

section \<open>The history\<close>

definition sampleTotal :: "('f, 'a) packet list \<Rightarrow> nat" where
  "sampleTotal ps = sum_list (map (\<lambda>p. unat (sample_count p)) ps)"

lemma sampleTotal_simps [simp]:
  "sampleTotal [] = 0" "sampleTotal (p # ps) = unat (sample_count p) + sampleTotal ps" "sampleTotal (ps @ qs) = sampleTotal ps + sampleTotal qs"
  by (simp_all add: sampleTotal_def)

definition is_data :: "('f, 'a) packet \<Rightarrow> bool" where
  "is_data p \<longleftrightarrow> packet_getType p = PacketType_Data"

lemma is_data_cases: "is_data p \<longleftrightarrow> (\<exists>a n d. p = DataPacket a n d)"
  by (cases p) (simp_all add: is_data_def)

text \<open>
  The cached packets are the end of what was received, everything or at least the history, and the
  count is their number of samples.
\<close>

definition keeps_history :: "('f, 'a) packet list \<Rightarrow> ('f, 'a, 'r) tail_reader \<Rightarrow> bool" where
  "keeps_history H t \<longleftrightarrow>
     (\<exists>old. H = old @ tr_packets t \<and> (old = [] \<or> unat (tr_historySize t) \<le> sampleTotal (tr_packets t))) \<and>
     unat (tr_cachedSamples t) = sampleTotal (tr_packets t)"

lemma evict_spec:
  assumes "list_all is_data ps" "unat available = sampleTotal ps + k" "evict history available ps = (available', qs)"
  shows "\<exists>gone. ps = gone @ qs \<and> unat available' = sampleTotal qs + k \<and> (gone = [] \<or> history \<le> available')"
  using assms
proof (induction history available ps rule: evict.induct)
  case (3 history available a n d ps)
  show ?case
  proof (cases "available - n \<ge> history")
    case False
    with "3.prems" show ?thesis by auto
  next
    case True
    have le: "n \<le> available" using "3.prems"(2) by (simp add: word_le_nat_alt)
    then have "unat (available - n) = sampleTotal ps + k" using "3.prems"(2) by (simp add: unat_sub)
    moreover have "evict history (available - n) ps = (available', qs)" using "3.prems"(3) True by simp
    ultimately obtain gone where g: "ps = gone @ qs" "unat available' = sampleTotal qs + k" "gone = [] \<or> history \<le> available'"
      using "3.IH"[OF True] "3.prems"(1) by auto
    have "history \<le> available'"
    proof (cases "gone = []")
      case empty: True
      then have "unat available' = unat (available - n)" using g \<open>unat (available - n) = sampleTotal ps + k\<close> by simp
      then show ?thesis using True by (simp add: word_le_nat_alt)
    qed (use g in simp)
    with g show ?thesis by (intro exI[of _ "DataPacket a n d # gone"]) simp
  qed
qed (auto simp: is_data_def)

lemma receive_history:
  assumes "keeps_history H t" "list_all is_data (tr_packets t)" "is_data p" "sampleTotal (H @ [p]) < 2 ^ 64"
  shows "keeps_history (H @ [p]) (receive p t)"
proof -
  from assms(3) obtain a n d where p: "p = DataPacket a n d" by (auto simp: is_data_cases)
  from assms(1) obtain old where H: "H = old @ tr_packets t" "old = [] \<or> unat (tr_historySize t) \<le> sampleTotal (tr_packets t)"
    and c: "unat (tr_cachedSamples t) = sampleTotal (tr_packets t)" by (auto simp: keeps_history_def)
  have sum: "unat (tr_cachedSamples t + n) = sampleTotal (tr_packets t) + unat n"
    using assms(4) H(1) c p by (simp add: unat_word_ariths)
  show ?thesis
  proof (cases "tr_cachedSamples t < tr_historySize t")
    case True
    with H c sum show ?thesis unfolding keeps_history_def by (auto simp: p)
  next
    case False
    obtain av qs where e: "evict (tr_historySize t) (tr_cachedSamples t + n) (tr_packets t) = (av, qs)" by force
    from evict_spec[OF assms(2) sum e] obtain gone where g: "tr_packets t = gone @ qs" "unat av = sampleTotal qs + unat n"
      "gone = [] \<or> tr_historySize t \<le> av" by blast
    have "H @ [p] = (old @ gone) @ (qs @ [p])" using H(1) g(1) by simp
    moreover have "old @ gone = [] \<or> unat (tr_historySize t) \<le> sampleTotal (qs @ [p])"
    proof (cases "gone = []")
      case True
      with H(2) g(1) show ?thesis by (auto simp: p)
    next
      case False
      with g(3) have "unat (tr_historySize t) \<le> unat av" by (simp add: word_le_nat_alt)
      with g(2) show ?thesis by (simp add: p)
    qed
    ultimately show ?thesis
      using False e g(2) unfolding keeps_history_def by (auto simp: p)
  qed
qed

lemma receive_frame [simp]:
  "tr_historySize (receive p t) = tr_historySize t" "tr_invalid (receive p t) = tr_invalid t" "tr_valueReader (receive p t) = tr_valueReader t"
  "tr_domainReader (receive p t) = tr_domainReader t" "tr_readMode (receive p t) = tr_readMode t" "tr_skipEvents (receive p t) = tr_skipEvents t"
  by (cases p; simp split: prod.split)+

lemma drain_spec:
  "packets (fst (drain c h t)) = [] \<and> fst (snd (drain c h t)) = (h \<or> (\<exists>p \<in> set (packets c). is_event p)) \<and>
   snd (snd (drain c h t)) = fold receive (packets c) t"
proof (induction c h t rule: drain.induct)
  case (1 c h t)
  show ?case
  proof (cases "packets c")
    case Nil
    then show ?thesis by (simp add: drain.simps[of c h t] dequeue_def)
  next
    case (Cons p ps)
    let ?c = "onPacketDequeued p (c\<lparr>packets := ps\<rparr>)"
    have d: "dequeue c = (OPENDAQ_SUCCESS, Some p, ?c)" by (simp add: dequeue_def Cons)
    have "packets ?c = ps" by simp
    with 1[OF d[symmetric] refl refl] Cons d show ?thesis by (simp add: drain.simps[of c h t] is_event_def)
  qed
qed

lemma evict_subset: "set (snd (evict history available ps)) \<subseteq> set ps"
  by (induction history available ps rule: evict.induct) (auto split: prod.splits)

lemma receive_packets: "set (tr_packets (receive p t)) \<subseteq> insert p (set (tr_packets t))"
proof (cases p)
  case (DataPacket a n d)
  then show ?thesis
    using evict_subset[of "tr_historySize t" "tr_cachedSamples t + n" "tr_packets t"] by (auto split: prod.splits)
qed auto

lemma fold_receive_history:
  "keeps_history H t \<Longrightarrow> list_all is_data (tr_packets t) \<Longrightarrow> list_all is_data ps \<Longrightarrow> sampleTotal (H @ ps) < 2 ^ 64 \<Longrightarrow>
   keeps_history (H @ ps) (fold receive ps t) \<and> list_all is_data (tr_packets (fold receive ps t)) \<and>
   tr_historySize (fold receive ps t) = tr_historySize t \<and> tr_invalid (fold receive ps t) = tr_invalid t \<and>
   tr_valueReader (fold receive ps t) = tr_valueReader t \<and> tr_domainReader (fold receive ps t) = tr_domainReader t \<and>
   tr_readMode (fold receive ps t) = tr_readMode t"
proof (induction ps arbitrary: H t)
  case (Cons p ps)
  have h: "keeps_history (H @ [p]) (receive p t)"
    by (rule receive_history) (use Cons.prems in simp_all)
  have "list_all is_data (tr_packets (receive p t))"
    using Cons.prems(2,3) receive_packets[of p t] by (auto simp: list_all_iff)
  from Cons.IH[OF h this] Cons.prems(3,4) show ?case by simp
qed simp

section \<open>Reading the end of the history\<close>

text \<open>
  The typed readers as they are meant: the samples of a packet, as many as it counts, of which a
  read takes a part.
\<close>

definition reads_samples :: "('f, 'a, 'r, 'x, 'y) reader_ops \<Rightarrow> ('a \<Rightarrow> 'x list) \<Rightarrow> 'r \<Rightarrow> ReadMode \<Rightarrow> ('f, 'a) packet \<Rightarrow> bool" where
  "reads_samples X conv r mode p \<longleftrightarrow>
     (case p of DataPacket a n d \<Rightarrow>
        length (conv a) = unat n \<and>
        (\<forall>off cnt. unat off + unat cnt \<le> unat n \<longrightarrow> ro_readValues X r mode a off cnt = Inr (take (unat cnt) (drop (unat off) (conv a))))
      | _ \<Rightarrow> False)"

fun samples_of :: "('a \<Rightarrow> 'x list) \<Rightarrow> ('f, 'a) packet \<Rightarrow> 'x list" where
  "samples_of conv (DataPacket a n d) = conv a"
| "samples_of conv _ = []"

definition all_samples :: "('a \<Rightarrow> 'x list) \<Rightarrow> ('f, 'a) packet list \<Rightarrow> 'x list" where
  "all_samples conv ps = concat (map (samples_of conv) ps)"

definition reads_domain :: "('f, 'a, 'r, 'x, 'y) reader_ops \<Rightarrow> ('f domain_packet \<Rightarrow> 'y list) \<Rightarrow> 'r \<Rightarrow> ('f, 'a) packet \<Rightarrow> bool" where
  "reads_domain X conv r p \<longleftrightarrow>
     (case p of DataPacket a n (Some dp) \<Rightarrow>
        length (conv dp) = unat n \<and>
        (\<forall>off cnt. unat off + unat cnt \<le> unat n \<longrightarrow> ro_readDomain X r dp off cnt = Inr (take (unat cnt) (drop (unat off) (conv dp))))
      | _ \<Rightarrow> False)"

fun domain_of :: "('f domain_packet \<Rightarrow> 'y list) \<Rightarrow> ('f, 'a) packet \<Rightarrow> 'y list" where
  "domain_of conv (DataPacket a n (Some dp)) = conv dp"
| "domain_of conv _ = []"

definition all_domain :: "('f domain_packet \<Rightarrow> 'y list) \<Rightarrow> ('f, 'a) packet list \<Rightarrow> 'y list" where
  "all_domain conv ps = concat (map (domain_of conv) ps)"

definition window :: "SizeT \<Rightarrow> SizeT \<Rightarrow> 'z list \<Rightarrow> 'z list" where
  "window off cnt zs = take (unat cnt) (drop (unat off) zs)"

text \<open>One packet: skipped while the offset reaches beyond it, otherwise read from the offset.\<close>

lemma readPacket_takes:
  assumes v: "reads_samples X conv (tr_valueReader t) (tr_readMode t) (DataPacket a n d)"
    and dom: "ti_domainValues info \<noteq> None \<Longrightarrow> reads_domain X dconv (tr_domainReader t) (DataPacket a n d)"
  shows "\<exists>info'. tail_readPacket X a n d info t = (Inr OPENDAQ_SUCCESS, info', t) \<and>
    ti_values info' = ti_values info @ window (ti_offset info) (ti_remainingToRead info) (conv a) \<and>
    ti_domainValues info' = map_option (\<lambda>ds. ds @ window (ti_offset info) (ti_remainingToRead info) (domain_of dconv (DataPacket a n d))) (ti_domainValues info) \<and>
    unat (ti_offset info') = unat (ti_offset info) - unat n \<and>
    unat (ti_remainingToRead info') = unat (ti_remainingToRead info) - (unat n - unat (ti_offset info))"
proof (cases "ti_offset info > n")
  case True
  then have less: "unat n < unat (ti_offset info)" by (simp add: word_less_nat_alt)
  moreover have "length (conv a) = unat n" using v by (simp add: reads_samples_def)
  moreover have "ti_domainValues info \<noteq> None \<Longrightarrow> length (domain_of dconv (DataPacket a n d)) = unat n"
    using dom by (cases d) (auto simp: reads_domain_def)
  ultimately show ?thesis
    using True by (cases "ti_domainValues info") (simp_all add: tail_readPacket_def unat_sub window_def)
next
  case False
  let ?o = "ti_offset info" and ?r = "ti_remainingToRead info"
  let ?k = "min ?r (n - ?o)"
  have "?o \<le> n" using False by simp
  then have o: "unat ?o \<le> unat n" "unat (n - ?o) = unat n - unat ?o" by (simp_all add: word_le_nat_alt unat_sub)
  have k: "unat ?k = min (unat ?r) (unat n - unat ?o)" using o(2) by (simp add: min_def word_le_nat_alt)
  have win: "take (unat ?k) (drop (unat ?o) zs) = window ?o ?r zs" if "length zs = unat n" for zs :: "'z list"
    using that o k by (cases "unat ?r \<le> unat n - unat ?o") (simp_all add: window_def)
  have left: "unat (?r - ?k) = unat ?r - (unat n - unat ?o)"
    using k by (simp add: unat_sub word_le_nat_alt min_def)
  have rd: "ro_readValues X (tr_valueReader t) (tr_readMode t) a ?o ?k = Inr (window ?o ?r (conv a))"
    using v o k win[of "conv a"] by (auto simp: reads_samples_def)
  show ?thesis
  proof (cases "ti_domainValues info")
    case None
    with False rd left o show ?thesis by (simp add: tail_readPacket_def Let_def)
  next
    case (Some ds)
    with dom obtain dp where d: "d = Some dp" by (cases d) (auto simp: reads_domain_def)
    have "ro_readDomain X (tr_domainReader t) dp ?o ?k = Inr (window ?o ?r (dconv dp))"
      using dom Some d o k win[of "dconv dp"] by (auto simp: reads_domain_def)
    with False rd left o Some d show ?thesis by (simp add: tail_readPacket_def readDomainSamples_def Let_def)
  qed
qed

lemma window_append:
  assumes "length xs = unat n" "unat o' = unat off - unat n" "unat r' = unat cnt - (unat n - unat off)"
  shows "window off cnt (xs @ ys) = window off cnt xs @ window o' r' ys"
  using assms by (simp add: window_def)

lemma readLoop_takes:
  assumes "list_all (reads_samples X conv (tr_valueReader t) (tr_readMode t)) ps"
    and "ti_domainValues info \<noteq> None \<longrightarrow> list_all (reads_domain X dconv (tr_domainReader t)) ps"
  shows "\<exists>offset' info'. readLoop X fo ps rc offset info t = (Inr (None, offset'), info', t) \<and>
    ti_values info' = ti_values info @ window (ti_offset info) (ti_remainingToRead info) (all_samples conv ps) \<and>
    ti_domainValues info' = map_option (\<lambda>ds. ds @ window (ti_offset info) (ti_remainingToRead info) (all_domain dconv ps)) (ti_domainValues info) \<and>
    unat (ti_remainingToRead info') = unat (ti_remainingToRead info) - (length (all_samples conv ps) - unat (ti_offset info))"
  using assms
proof (induction ps arbitrary: rc offset info)
  case Nil
  then show ?case by (cases "ti_domainValues info") (simp_all add: all_samples_def all_domain_def window_def)
next
  case (Cons p ps)
  from Cons.prems(1) obtain a n d where p: "p = DataPacket a n d" by (cases p) (auto simp: reads_samples_def)
  have r: "reads_samples X conv (tr_valueReader t) (tr_readMode t) (DataPacket a n d)"
    and dm: "ti_domainValues info \<noteq> None \<Longrightarrow> reads_domain X dconv (tr_domainReader t) (DataPacket a n d)"
    using Cons.prems p by simp_all
  let ?o = "ti_offset info" and ?r = "ti_remainingToRead info"
  from readPacket_takes[OF r dm] obtain info1 where i: "tail_readPacket X a n d info t = (Inr OPENDAQ_SUCCESS, info1, t)"
    "ti_values info1 = ti_values info @ window ?o ?r (conv a)"
    "ti_domainValues info1 = map_option (\<lambda>ds. ds @ window ?o ?r (domain_of dconv (DataPacket a n d))) (ti_domainValues info)"
    "unat (ti_offset info1) = unat ?o - unat n" "unat (ti_remainingToRead info1) = unat ?r - (unat n - unat ?o)" by blast
  have len: "length (conv a) = unat n" using r by (simp add: reads_samples_def)
  have dlen: "length (domain_of dconv (DataPacket a n d)) = unat n" if "ti_domainValues info \<noteq> None"
    using dm[OF that] by (cases d) (auto simp: reads_domain_def)
  let ?off = "if offset = None \<and> ?o < n then Some (calculateOffset X fo d ?o) else offset"
  have "ti_domainValues info1 \<noteq> None \<longrightarrow> list_all (reads_domain X dconv (tr_domainReader t)) ps"
    using Cons.prems(2) i(3) by auto
  with Cons.IH[of info1 "rc + n" ?off] Cons.prems(1)
  obtain offset' info' where s: "readLoop X fo ps (rc + n) ?off info1 t = (Inr (None, offset'), info', t)"
    "ti_values info' = ti_values info1 @ window (ti_offset info1) (ti_remainingToRead info1) (all_samples conv ps)"
    "ti_domainValues info' = map_option (\<lambda>ds. ds @ window (ti_offset info1) (ti_remainingToRead info1) (all_domain dconv ps)) (ti_domainValues info1)"
    "unat (ti_remainingToRead info') = unat (ti_remainingToRead info1) - (length (all_samples conv ps) - unat (ti_offset info1))" by auto
  have all: "all_samples conv (p # ps) = conv a @ all_samples conv ps" "all_domain dconv (p # ps) = domain_of dconv (DataPacket a n d) @ all_domain dconv ps"
    by (simp_all add: all_samples_def all_domain_def p)
  have "readLoop X fo (p # ps) rc offset info t = (Inr (None, offset'), info', t)"
    using i(1) s(1) by (simp add: p Let_def)
  moreover have "ti_values info' = ti_values info @ window ?o ?r (all_samples conv (p # ps))"
    unfolding all s(2) i(2) using window_append[OF len i(4,5)] by simp
  moreover have "ti_domainValues info' = map_option (\<lambda>ds. ds @ window ?o ?r (all_domain dconv (p # ps))) (ti_domainValues info)"
    unfolding all s(3) i(3) using window_append[OF dlen i(4,5)] by (cases "ti_domainValues info") simp_all
  moreover have "unat (ti_remainingToRead info') = unat ?r - (length (all_samples conv (p # ps)) - unat ?o)"
    unfolding all s(4) i(4,5) by (simp add: len)
  ultimately show ?case by blast
qed

lemma all_samples_append [simp]: "all_samples conv (ps @ qs) = all_samples conv ps @ all_samples conv qs"
  by (simp add: all_samples_def)

lemma all_domain_append [simp]: "all_domain conv (ps @ qs) = all_domain conv ps @ all_domain conv qs"
  by (simp add: all_domain_def)

lemma all_lengths:
  "list_all (reads_samples X conv r m) ps \<Longrightarrow> length (all_samples conv ps) = sampleTotal ps"
  "list_all (reads_domain X dconv r') ps \<Longrightarrow> length (all_domain dconv ps) = sampleTotal ps"
proof (induction ps)
  case (Cons p ps)
  { case 1
    with Cons show ?case by (cases p) (auto simp: all_samples_def reads_samples_def) }
  { case 2
    with Cons show ?case by (cases p) (auto simp: all_domain_def reads_domain_def split: option.splits) }
qed (simp_all add: all_samples_def all_domain_def)

definition last_of :: "nat \<Rightarrow> 'z list \<Rightarrow> 'z list" where
  "last_of n zs = drop (length zs - n) zs"

lemma last_of_suffix: "n \<le> length ys \<or> xs = [] \<Longrightarrow> last_of n (xs @ ys) = last_of n ys"
  by (auto simp: last_of_def)

section \<open>Properties\<close>

text \<open>Each of the connections \<open>cs\<close> is the state of the reader's connection when it is told of packets.\<close>

definition feed :: "('f, 'a) connection list \<Rightarrow> ('f, 'a, 'r) tail_reader \<Rightarrow> ('f, 'a, 'r) tail_reader" where
  "feed cs t = fold (\<lambda>c t. snd (tail_packetReceived OPENDAQ_SUCCESS OPENDAQ_SUCCESS (t\<lparr>tr_connection := Some c\<rparr>))) cs t"

lemma packetReceived_receives:
  "\<exists>c'. snd (tail_packetReceived x y (t\<lparr>tr_connection := Some c\<rparr>)) = (fold receive (packets c) (t\<lparr>tr_connection := Some c\<rparr>))\<lparr>tr_connection := Some c'\<rparr>"
proof -
  obtain c1 h t1 where d: "drain c False (t\<lparr>tr_connection := Some c\<rparr>) = (c1, h, t1)" by (metis prod.exhaust)
  then have "t1 = fold receive (packets c) (t\<lparr>tr_connection := Some c\<rparr>)"
    using drain_spec[of c False "t\<lparr>tr_connection := Some c\<rparr>"] by simp
  with d show ?thesis by (auto simp: tail_packetReceived_def Let_def)
qed

definition reader_kept :: "('f, 'a) packet list \<Rightarrow> ('f, 'a, 'r) tail_reader \<Rightarrow> ('f, 'a, 'r) tail_reader \<Rightarrow> bool" where
  "reader_kept H t0 t \<longleftrightarrow> keeps_history H t \<and> list_all is_data (tr_packets t) \<and> tr_historySize t = tr_historySize t0 \<and>
     tr_invalid t = tr_invalid t0 \<and> tr_valueReader t = tr_valueReader t0 \<and> tr_domainReader t = tr_domainReader t0 \<and> tr_readMode t = tr_readMode t0"

lemma reader_kept_connection [simp]: "reader_kept H t0 (t\<lparr>tr_connection := c\<rparr>) = reader_kept H t0 t"
  by (simp add: reader_kept_def keeps_history_def)

lemma feed_kept:
  "reader_kept H t0 t \<Longrightarrow> list_all is_data (concat (map packets cs)) \<Longrightarrow> sampleTotal (H @ concat (map packets cs)) < 2 ^ 64 \<Longrightarrow>
   reader_kept (H @ concat (map packets cs)) t0 (feed cs t)"
proof (induction cs arbitrary: H t)
  case (Cons c cs)
  obtain c' where c': "snd (tail_packetReceived OPENDAQ_SUCCESS OPENDAQ_SUCCESS (t\<lparr>tr_connection := Some c\<rparr>)) =
      (fold receive (packets c) (t\<lparr>tr_connection := Some c\<rparr>))\<lparr>tr_connection := Some c'\<rparr>"
    using packetReceived_receives by blast
  have k: "reader_kept H t0 (t\<lparr>tr_connection := Some c\<rparr>)" using Cons.prems(1) by simp
  have "reader_kept (H @ packets c) t0 (fold receive (packets c) (t\<lparr>tr_connection := Some c\<rparr>))"
    using fold_receive_history[of H "t\<lparr>tr_connection := Some c\<rparr>" "packets c"] k Cons.prems(2,3) by (simp add: reader_kept_def)
  then have "reader_kept (H @ packets c) t0 (snd (tail_packetReceived OPENDAQ_SUCCESS OPENDAQ_SUCCESS (t\<lparr>tr_connection := Some c\<rparr>)))"
    by (simp add: c')
  from Cons.IH[OF this] Cons.prems(2,3) show ?case by (simp add: feed_def)
qed (simp add: feed_def)

lemma all_Nil [simp]: "all_samples conv [] = []" "all_domain dconv [] = []"
  by (simp_all add: all_samples_def all_domain_def)

lemma readData_runs_loop:
  assumes "ti_remainingToRead info \<le> tr_historySize t"
    and "info1 = (if tr_cachedSamples t > ti_remainingToRead info then info\<lparr>ti_offset := tr_cachedSamples t - ti_remainingToRead info\<rparr> else info)"
    and "readLoop X fo (tr_packets t) 0 None info1 t = (Inr (ev, off), info', t')"
  shows "tail_readData X fo info t = (Inr \<lparr>ts_eventPacket = ev, ts_valid = (\<not> tr_invalid t'), ts_offset = (case off of None \<Rightarrow> 0 | Some x \<Rightarrow> x),
      ts_sufficientHistory = True\<rparr>, info', t')"
  using assms(1) unfolding tail_readData_def Let_def assms(2)[symmetric] assms(3) by auto

lemma read_of_readData:
  assumes "\<not> tr_invalid t"
    and "tail_readData X fo \<lparr>ti_values = [], ti_domainValues = (if withDomain then Some [] else None), ti_remainingToRead = n, ti_offset = 0\<rparr> t =
      (Inr status, info, t')"
  shows "tail_read X fo True (if withDomain then Some True else None) n t =
      (Inr \<lparr>rr_code = OPENDAQ_SUCCESS, rr_count = n - ti_remainingToRead info, rr_status = Some status, rr_values = ti_values info,
            rr_domain = (case ti_domainValues info of None \<Rightarrow> [] | Some ys \<Rightarrow> ys)\<rparr>, t')"
  using assms by (cases withDomain) (simp_all add: tail_read_def)

text \<open>A read in one state: the last samples of the cached packets.\<close>

lemma tail_read_cached:
  assumes valid: "\<not> tr_invalid t" and c: "unat (tr_cachedSamples t) = sampleTotal (tr_packets t)" and asked: "n \<le> tr_historySize t"
    and reads: "list_all (reads_samples X conv (tr_valueReader t) (tr_readMode t)) (tr_packets t)"
      "withDomain \<Longrightarrow> list_all (reads_domain X dconv (tr_domainReader t)) (tr_packets t)"
  shows "\<exists>status. tail_read X fo True (if withDomain then Some True else None) n t =
      (Inr \<lparr>rr_code = OPENDAQ_SUCCESS, rr_count = of_nat (min (unat n) (sampleTotal (tr_packets t))), rr_status = Some status,
            rr_values = last_of (unat n) (all_samples conv (tr_packets t)),
            rr_domain = (if withDomain then last_of (unat n) (all_domain dconv (tr_packets t)) else [])\<rparr>, t) \<and>
      getReadStatus status = ReadStatus_Ok"
proof -
  let ?P = "tr_packets t" and ?c = "tr_cachedSamples t"
  let ?i = "\<lparr>ti_values = [], ti_domainValues = (if withDomain then Some [] else None), ti_remainingToRead = n, ti_offset = 0\<rparr> :: ('d, 'e) TailReaderInfo"
  define info where "info = (if ?c > n then ?i\<lparr>ti_offset := ?c - n\<rparr> else ?i)"
  have i: "ti_values info = []" "ti_remainingToRead info = n" "ti_domainValues info = (if withDomain then Some [] else None)"
    and off: "unat (ti_offset info) = sampleTotal ?P - unat n"
    using c by (auto simp: info_def unat_sub word_less_nat_alt word_le_nat_alt)
  from readLoop_takes[OF reads(1), of info dconv fo 0 None] reads(2) i obtain offset' info' where
    loop: "readLoop X fo ?P 0 None info t = (Inr (None, offset'), info', t)" "ti_values info' = window (ti_offset info) n (all_samples conv ?P)"
    "ti_domainValues info' = (if withDomain then Some (window (ti_offset info) n (all_domain dconv ?P)) else None)"
    "unat (ti_remainingToRead info') = unat n - (length (all_samples conv ?P) - unat (ti_offset info))"
    by (auto split: if_splits)
  have win: "window (ti_offset info) n zs = last_of (unat n) zs" if "length zs = sampleTotal ?P" for zs :: "'z list"
    using that by (simp add: window_def off last_of_def)
  note len = all_lengths(1)[OF reads(1)]
  have "unat (n - ti_remainingToRead info') = min (unat n) (sampleTotal ?P)"
    using loop(4) len off by (auto simp: unat_sub word_le_nat_alt)
  then have cnt: "n - ti_remainingToRead info' = of_nat (min (unat n) (sampleTotal ?P))"
    by (metis of_nat_unat ucast_id)
  have "tail_readData X fo ?i t = (Inr \<lparr>ts_eventPacket = None, ts_valid = True, ts_offset = (case offset' of None \<Rightarrow> 0 | Some x \<Rightarrow> x),
      ts_sufficientHistory = True\<rparr>, info', t)"
    by (rule trans[OF readData_runs_loop[OF _ _ loop(1)]]) (use asked valid in \<open>simp_all add: info_def\<close>)
  note read = read_of_readData[OF valid this]
  show ?thesis
    unfolding read using cnt loop(2,3) win[OF len] win[OF all_lengths(2)[OF reads(2)]] by (auto simp: getReadStatus_def)
qed

text \<open>C7: The tail reader returns the last samples. After any packets of data have arrived, in any portions, a
  valid reader asked for at most its history returns exactly the last samples of everything that
  arrived, all of them when fewer did, with the domain samples that belong to them, reports how many
  there are, and reading changes nothing: it can be repeated. The typed readers are assumed to
  convert the samples of a packet, and fewer than \<open>2 ^ 64\<close> samples to have arrived.
\<close>

theorem tail_reader_returns_last_samples:
  assumes new: "tr_packets t = []" "tr_cachedSamples t = 0" "\<not> tr_invalid t"
    and data: "list_all is_data (concat (map packets cs))" "sampleTotal (concat (map packets cs)) < 2 ^ 64"
    and readers: "list_all (reads_samples X conv (tr_valueReader t) (tr_readMode t)) (concat (map packets cs))"
      "withDomain \<Longrightarrow> list_all (reads_domain X dconv (tr_domainReader t)) (concat (map packets cs))"
    and asked: "n \<le> tr_historySize t"
  shows "\<exists>status. tail_read X fo True (if withDomain then Some True else None) n (feed cs t) =
      (Inr \<lparr>rr_code = OPENDAQ_SUCCESS, rr_count = of_nat (min (unat n) (sampleTotal (concat (map packets cs)))), rr_status = Some status,
            rr_values = last_of (unat n) (all_samples conv (concat (map packets cs))),
            rr_domain = (if withDomain then last_of (unat n) (all_domain dconv (concat (map packets cs))) else [])\<rparr>, feed cs t) \<and>
      getReadStatus status = ReadStatus_Ok"
proof -
  let ?H = "concat (map packets cs)" and ?t = "feed cs t"
  have "reader_kept [] t t" using new by (simp add: reader_kept_def keeps_history_def)
  from feed_kept[OF this] data have k: "reader_kept ?H t ?t" by simp
  then obtain old where H: "?H = old @ tr_packets ?t" "old = [] \<or> unat (tr_historySize t) \<le> sampleTotal (tr_packets ?t)"
    by (auto simp: reader_kept_def keeps_history_def)
  have enough: "unat n \<le> sampleTotal (tr_packets ?t) \<or> old = []" using H(2) asked by (auto simp: word_le_nat_alt)
  have rp: "list_all (reads_samples X conv (tr_valueReader ?t) (tr_readMode ?t)) (tr_packets ?t)"
    "withDomain \<Longrightarrow> list_all (reads_domain X dconv (tr_domainReader ?t)) (tr_packets ?t)"
    using readers H(1) k by (simp_all add: reader_kept_def)
  have "last_of (unat n) (all_samples conv ?H) = last_of (unat n) (all_samples conv (tr_packets ?t))"
    unfolding H(1) all_samples_append by (rule last_of_suffix) (use enough all_lengths(1)[OF rp(1)] in auto)
  moreover have "last_of (unat n) (all_domain dconv ?H) = last_of (unat n) (all_domain dconv (tr_packets ?t))" if withDomain
    unfolding H(1) all_domain_append by (rule last_of_suffix) (use enough all_lengths(2)[OF rp(2)[OF that]] in auto)
  moreover have "min (unat n) (sampleTotal ?H) = min (unat n) (sampleTotal (tr_packets ?t))" using enough by (auto simp: H(1))
  moreover have "\<not> tr_invalid ?t" "unat (tr_cachedSamples ?t) = sampleTotal (tr_packets ?t)" "n \<le> tr_historySize ?t"
    using k new(3) asked by (simp_all add: reader_kept_def keeps_history_def)
  note read = tail_read_cached[where fo = fo and withDomain = withDomain, OF this rp]
  ultimately show ?thesis using read by (cases withDomain) simp_all
qed

text \<open>
  Two faults of reading. A gap event is handed to \<open>reader_handleDescriptorChanged\<close>, which takes
  descriptor events only: the read throws, the event stays, and every later read throws again. The
  number of samples read is not reset at an event: with events skipped, a second event in the
  cache takes the samples before the first one off the count again, and the count wraps around.
\<close>

theorem gap_event_blocks_reads:
  assumes "tr_packets t = EventPacket e # ps" and "ep_eventId e = IMPLICIT_DOMAIN_GAP_DETECTED" and "\<not> tr_invalid t" and "n \<le> tr_historySize t"
  shows "tail_read X fo True (if withDomain then Some True else None) n t = (Inl OPENDAQ_ERR_INVALIDPARAMETER, t)"
  using assms
  by (simp add: tail_read_def tail_readData_def reader_handleDescriptorChanged_def parseDataDescriptorEventPacket_def Let_def linorder_not_less)

theorem second_event_corrupts_count:
  assumes "tr_packets t = [DataPacket a k d, EventPacket e, EventPacket e]" and "tr_cachedSamples t = k" and "tr_skipEvents t"
    and "\<not> tr_invalid t" and "n \<le> tr_historySize t"
    and "e = \<lparr>ep_eventId = DATA_DESCRIPTOR_CHANGED, ep_dataDescriptor = None, ep_domainDataDescriptor = None, ep_gapDiff = None\<rparr>"
    and "reads_samples X conv (tr_valueReader t) (tr_readMode t) (DataPacket a k d)"
  shows "tr_packets (snd (tail_read X fo True None n t)) = [] \<and> tail_getAvailableCount (snd (tail_read X fo True None n t)) = - k"
proof -
  have h: "reader_handleDescriptorChanged X e u = Inr u" for u :: "('a, 'b, 'c) tail_reader"
    by (simp add: reader_handleDescriptorChanged_def parseDataDescriptorEventPacket_def assms(6) Let_def)
  let ?i = "\<lparr>ti_values = [], ti_domainValues = None, ti_remainingToRead = n, ti_offset = 0\<rparr> :: ('d, 'e) TailReaderInfo"
  define i where "i = (if tr_cachedSamples t > n then ?i\<lparr>ti_offset := tr_cachedSamples t - n\<rparr> else ?i)"
  have "ti_domainValues i = None" by (simp add: i_def)
  with readPacket_takes[OF assms(7), of i] obtain i' where "tail_readPacket X a k d i t = (Inr OPENDAQ_SUCCESS, i', t)" by auto
  then obtain off where "readLoop X fo (tr_packets t) 0 None i t = (Inr (None, off), i', t\<lparr>tr_packets := [], tr_cachedSamples := - k\<rparr>)"
    using h assms(1-4) by (simp add: Let_def) (simp add: assms(6))
  then have "\<exists>s. tail_readData X fo ?i t = (Inr s, i', t\<lparr>tr_packets := [], tr_cachedSamples := - k\<rparr>)"
    by (intro exI) (rule readData_runs_loop, use assms(5) in \<open>simp_all add: i_def\<close>)
  then show ?thesis
    using read_of_readData[OF assms(4), of X fo False n] by (auto simp: tail_getAvailableCount_def)
qed

section \<open>Examples\<close>

text \<open>Readers that take the memory as it is and number the samples of a domain packet; packets of 3, 1 and 2 samples in two portions, of which a history of 3 keeps the last two packets.\<close>

definition numbered :: "'f domain_packet \<Rightarrow> nat list" where
  "numbered dp = [0..<unat (dp_sampleCount dp)]"

definition ramp_ops :: "(int, int list, unit, int, nat) reader_ops" where
  "ramp_ops =
     \<lparr>ro_isUndefined = (\<lambda>r. False), ro_createReader = (\<lambda>m d r. r), ro_handleDescriptorChanged = (\<lambda>m d r. (True, r)),
      ro_readValues = (\<lambda>r m a off k. Inr (take (unat k) (drop (unat off) a))),
      ro_readDomain = (\<lambda>r dp off k. Inr (take (unat k) (drop (unat off) (numbered dp)))),
      ro_domainDescriptor = (\<lambda>dp. NullDataDescriptor)\<rparr>"

definition ramp_packet :: "int list \<Rightarrow> (int, int list) packet" where
  "ramp_packet xs = DataPacket xs (of_nat (length xs)) (Some \<lparr>dp_offset = IntNumber 0, dp_sampleCount = of_nat (length xs)\<rparr>)"

definition ramp_portion :: "int list list \<Rightarrow> (int, int list) connection" where
  "ramp_portion xss = (connection_init False)\<lparr>packets := map ramp_packet xss\<rparr>"

definition ramp_reader :: "(int, int list, unit) tail_reader" where
  "ramp_reader = tail_new ReadMode_Scaled False () () 3 None"

lemma ramp_packet_reads:
  assumes "length xs < 2 ^ 64"
  shows "is_data (ramp_packet xs)" "unat (sample_count (ramp_packet xs)) = length xs"
    "reads_samples ramp_ops id r m (ramp_packet xs)" "reads_domain ramp_ops numbered r (ramp_packet xs)"
    "samples_of id (ramp_packet xs) = xs" "domain_of numbered (ramp_packet xs) = [0..<length xs]"
  using assms
  by (simp_all add: ramp_packet_def ramp_ops_def numbered_def is_data_def reads_samples_def reads_domain_def unat_of_nat take_bit_nat_eq_self)

theorem tail_reader_returns_last_samples_witness:
  "\<exists>status. tail_read ramp_ops whole_ops True (Some True) 3 (feed [ramp_portion [[1, 2, 3], [4]], ramp_portion [[5, 6]]] ramp_reader) =
     (Inr \<lparr>rr_code = OPENDAQ_SUCCESS, rr_count = 3, rr_status = Some status, rr_values = [4, 5, 6], rr_domain = [0, 0, 1]\<rparr>,
      feed [ramp_portion [[1, 2, 3], [4]], ramp_portion [[5, 6]]] ramp_reader) \<and> getReadStatus status = ReadStatus_Ok"
proof -
  have P: "concat (map packets [ramp_portion [[1, 2, 3], [4]], ramp_portion [[5, 6]]]) = map ramp_packet [[1, 2, 3], [4], [5, 6]]"
    by (simp add: ramp_portion_def)
  show ?thesis
    using tail_reader_returns_last_samples[of ramp_reader "[ramp_portion [[1, 2, 3], [4]], ramp_portion [[5, 6]]]" ramp_ops id True
        numbered 3 whole_ops]
    unfolding P
    by (simp add: ramp_reader_def tail_new_def ramp_packet_reads all_samples_def all_domain_def last_of_def upt_rec)
qed

end
