(* ===== verification/PacketBuffer.thy ===== *)
theory PacketBuffer
  imports Packet "HOL-Library.Multiset" "HOL-Library.Product_Lexorder"
begin

text \<open>
  The ring buffer that hands out memory for data packets:
  \<^verbatim>\<open>core/opendaq/utility/src/packet_buffer_impl.cpp\<close>. A pointer into the buffer is its offset from
  \<^verbatim>\<open>data.data()\<close>. \<^verbatim>\<open>Write\<close> reserves a contiguous block, the deleter of the packet calls
  \<^verbatim>\<open>Read\<close> to give it back, in any order; blocks given back out of order wait in the priority queue
  \<^verbatim>\<open>oosPackets\<close> (smallest address first) until the read position reaches them.
\<close>

section \<open>State and operations\<close>

record packet_buffer =
  readPos :: nat
  writePos :: nat
  isFull :: bool
  underReset :: bool
  sizeInBytes :: nat
  endPos :: nat
  oosPackets :: "(nat \<times> nat) list"

definition packet_buffer_init :: "nat \<Rightarrow> packet_buffer" where
  "packet_buffer_init n = \<lparr>readPos = 0, writePos = 0, isFull = False, underReset = False,
     sizeInBytes = n, endPos = n, oosPackets = []\<rparr>"

definition oos_push :: "nat \<times> nat \<Rightarrow> packet_buffer \<Rightarrow> packet_buffer" where
  "oos_push e b = b\<lparr>oosPackets := insort e (oosPackets b)\<rparr>"

fun clean_loop :: "(nat \<times> nat) list \<Rightarrow> nat \<Rightarrow> bool \<Rightarrow> (nat \<times> nat) list \<times> nat \<times> bool" where
  "clean_loop [] r full = ([], r, full)"
| "clean_loop ((a, n) # oos) r full =
     (if r \<noteq> a then ((a, n) # oos, r, full) else clean_loop oos (r + n) False)"

definition CleanOosPackets :: "packet_buffer \<Rightarrow> packet_buffer" where
  "CleanOosPackets b =
     (let (oos, r, full) = clean_loop (oosPackets b) (readPos b) (isFull b);
          r' = (if endPos b \<le> r then r - endPos b else r)
      in b\<lparr>oosPackets := oos, readPos := r', isFull := full\<rparr>)"

definition Write :: "nat \<Rightarrow> packet_buffer \<Rightarrow> (nat \<times> packet_buffer) result" where
  "Write n b =
     (let wrapped = writePos b < readPos b in
      if \<not> wrapped \<and> isFull b \<and> writePos b = readPos b then Inl OPENDAQ_ERR_BUFFERFULL
      else
        let available = (if wrapped then readPos b - writePos b else endPos b - writePos b) in
        if available < n then
          (if wrapped then Inl OPENDAQ_ERR_INVALIDPARAMETER
           else if readPos b < n then Inl OPENDAQ_ERR_INVALIDPARAMETER
           else
             let b1 = CleanOosPackets (oos_push (writePos b, endPos b - writePos b) b);
                 b2 = b1\<lparr>writePos := n\<rparr>
             in Inr (0, if writePos b2 = readPos b2 then b2\<lparr>isFull := True\<rparr> else b2))
        else
          let w = writePos b + n;
              b1 = b\<lparr>writePos := (if w = endPos b then 0 else w)\<rparr>
          in Inr (writePos b, if writePos b1 = readPos b1 then b1\<lparr>isFull := True\<rparr> else b1))"

definition Read :: "nat \<Rightarrow> nat \<Rightarrow> packet_buffer \<Rightarrow> packet_buffer" where
  "Read start n b =
     CleanOosPackets (oos_push (if start < readPos b then start + sizeInBytes b else start, n) b)"

definition createPacket ::
  "SizeT \<Rightarrow> 'f data_rule \<Rightarrow> SizeT \<Rightarrow> packet_buffer \<Rightarrow> (nat \<times> nat \<times> packet_buffer) result" where
  "createPacket sampleCount rule rawSampleSize b =
     (if rule \<noteq> ExplicitRule then Inl OPENDAQ_ERR_INVALIDPARAMETER
      else if underReset b then Inl OPENDAQ_ERR_INVALIDSTATE
      else let packetSize = unat (sampleCount * rawSampleSize) in
        res_bind (Write packetSize b) (\<lambda>(start, b'). Inr (start, packetSize, b')))"

text \<open>
  \<^verbatim>\<open>resize\<close> sets \<^verbatim>\<open>underReset\<close>, waits on the condition variable until the buffer is empty and
  then replaces it: two steps, with the wait between them.
\<close>

definition resize_begin :: "packet_buffer \<Rightarrow> packet_buffer" where
  "resize_begin b = b\<lparr>underReset := True\<rparr>"

definition resize_ready :: "packet_buffer \<Rightarrow> bool" where
  "resize_ready b \<longleftrightarrow> readPos b = writePos b \<and> \<not> isFull b"

definition resize_finish :: "nat \<Rightarrow> packet_buffer \<Rightarrow> packet_buffer" where
  "resize_finish n b = b\<lparr>sizeInBytes := n, readPos := 0, writePos := 0, endPos := n, underReset := False\<rparr>"

definition getMaxAvailableContinousSampleCount :: "nat \<Rightarrow> packet_buffer \<Rightarrow> nat" where
  "getMaxAvailableContinousSampleCount rawSampleSize b =
     (let fromEndToPos = endPos b - writePos b; fromStartToPos = readPos b;
          c0 = (if fromStartToPos \<le> fromEndToPos then fromEndToPos div rawSampleSize
                else fromStartToPos div rawSampleSize);
          c1 = (if writePos b = readPos b \<and> isFull b then 0 else c0)
      in if writePos b < readPos b then (readPos b - writePos b) div rawSampleSize else c1)"

definition getAvailableSampleCount :: "nat \<Rightarrow> packet_buffer \<Rightarrow> nat" where
  "getAvailableSampleCount rawSampleSize b =
     (let c0 = (endPos b - readPos b) div rawSampleSize;
          c1 = (if writePos b = readPos b \<and> isFull b then 0 else c0)
      in if writePos b < readPos b then (readPos b - writePos b) div rawSampleSize else c1)"

section \<open>The blocks behind the positions\<close>

text \<open>
  Seen from the read position, the occupied part of the ring is a sequence of blocks, each still in
  use or given back and waiting in the queue. Positions are unrolled: the block after position
  \<open>v\<close> starts at \<open>v\<close>, and an unrolled position beyond the end of the buffer is its remainder
  in memory. A waiting block remembers how many times the read position has gone round since
  it was queued, because its queue entry keeps the address it had then.
\<close>

datatype block = InUse nat | Waiting nat nat

fun block_len :: "block \<Rightarrow> nat" where
  "block_len (InUse n) = n"
| "block_len (Waiting n k) = n"

definition total_len :: "block list \<Rightarrow> nat" where
  "total_len bs = sum_list (map block_len bs)"

definition phys :: "nat \<Rightarrow> nat \<Rightarrow> nat" where
  "phys s v = (if v < s then v else v - s)"

fun entries :: "nat \<Rightarrow> nat \<Rightarrow> block list \<Rightarrow> (nat \<times> nat) multiset" where
  "entries s v [] = {#}"
| "entries s v (InUse n # bs) = entries s (v + n) bs"
| "entries s v (Waiting n k # bs) = add_mset (v + k * s, n) (entries s (v + n) bs)"

fun in_use :: "nat \<Rightarrow> nat \<Rightarrow> block list \<Rightarrow> (nat \<times> nat) list" where
  "in_use s v [] = []"
| "in_use s v (InUse n # bs) = (phys s v, n) # in_use s (v + n) bs"
| "in_use s v (Waiting n k # bs) = in_use s (v + n) bs"

fun placed :: "nat \<Rightarrow> nat \<Rightarrow> block list \<Rightarrow> bool" where
  "placed s v [] = True"
| "placed s v (b # bs) = (0 < block_len b \<and> (v < s \<longrightarrow> v + block_len b \<le> s) \<and> placed s (v + block_len b) bs)"

fun go_round :: "block \<Rightarrow> block" where
  "go_round (InUse n) = InUse n"
| "go_round (Waiting n k) = Waiting n (Suc k)"

definition ring :: "block list \<Rightarrow> packet_buffer \<Rightarrow> (nat \<times> nat) list \<Rightarrow> bool" where
  "ring bs b live \<longleftrightarrow>
     endPos b = sizeInBytes b \<and>
     (readPos b < sizeInBytes b \<or> sizeInBytes b = 0 \<and> readPos b = 0) \<and>
     placed (sizeInBytes b) (readPos b) bs \<and> total_len bs \<le> sizeInBytes b \<and>
     writePos b = phys (sizeInBytes b) (readPos b + total_len bs) \<and>
     (isFull b \<longleftrightarrow> total_len bs = sizeInBytes b \<and> 0 < sizeInBytes b) \<and>
     sorted (oosPackets b) \<and> mset (oosPackets b) = entries (sizeInBytes b) (readPos b) bs \<and>
     live = in_use (sizeInBytes b) (readPos b) bs"

lemma total_len_simps [simp]:
  "total_len [] = 0" "total_len (b # bs) = block_len b + total_len bs" "total_len (bs @ cs) = total_len bs + total_len cs"
  by (simp_all add: total_len_def)

lemma block_len_go_round [simp]: "block_len (go_round b) = block_len b"
  by (cases b) simp_all

lemma total_go_round [simp]: "total_len (map go_round bs) = total_len bs"
  by (induction bs) simp_all

lemma append_blocks [simp]:
  "entries s v (bs @ cs) = entries s v bs + entries s (v + total_len bs) cs"
  "in_use s v (bs @ cs) = in_use s v bs @ in_use s (v + total_len bs) cs"
  "placed s v (bs @ cs) \<longleftrightarrow> placed s v bs \<and> placed s (v + total_len bs) cs"
  by (induction s v bs rule: entries.induct) (simp_all add: add.assoc)

lemma placed_total_0: "placed s v bs \<Longrightarrow> total_len bs = 0 \<longleftrightarrow> bs = []"
  by (cases bs) simp_all

lemma entries_lower: "(a, n) \<in># entries s v bs \<Longrightarrow> v \<le> a"
  by (induction s v bs rule: entries.induct) auto

lemma entry_at_read_pos:
  assumes "(v, n) \<in># entries s v bs" "placed s v bs" "0 < s"
  obtains bs' where "bs = Waiting n 0 # bs'"
proof (cases bs)
  case (Cons b cs)
  have later: False if "0 < m" "(v, n) \<in># entries s (v + m) cs" for m
    using entries_lower[OF that(2)] that(1) by simp
  show ?thesis
  proof (cases b)
    case (InUse m)
    with Cons assms later[of m] show ?thesis by auto
  next
    case (Waiting m k)
    with Cons assms later[of m] that[of cs] show ?thesis by auto
  qed
qed (use assms in simp)

lemma entries_go_round: "entries s w (map go_round bs) = entries s (w + s) bs"
proof (induction bs arbitrary: w)
  case (Cons b bs)
  from Cons[of "w + block_len b"] show ?case
    by (cases b) (simp_all add: ac_simps)
qed simp

lemma in_use_go_round:
  "placed s (w + s) bs \<Longrightarrow> w + total_len bs \<le> s \<Longrightarrow> in_use s w (map go_round bs) = in_use s (w + s) bs"
proof (induction bs arbitrary: w)
  case (Cons b bs)
  from Cons.prems Cons.IH[of "w + block_len b"] show ?case
    by (cases b) (simp_all add: ac_simps phys_def)
qed simp

lemma placed_go_round:
  "placed s (w + s) bs \<Longrightarrow> w + total_len bs \<le> s \<Longrightarrow> placed s w (map go_round bs)"
proof (induction bs arbitrary: w)
  case (Cons b bs)
  from Cons.prems Cons.IH[of "w + block_len b"] show ?case
    by (simp add: ac_simps)
qed simp

text \<open>The loop of \<open>CleanOosPackets\<close> pops blocks off the front of the sequence.\<close>

lemma clean_loop_blocks:
  assumes "clean_loop oos r full = (oos', r', full')"
    and "mset oos = entries s r bs" and "placed s r bs" and "0 < s" and "sorted oos"
  shows "\<exists>bs0 bs'. bs = bs0 @ bs' \<and> r' = r + total_len bs0 \<and> mset oos' = entries s r' bs'
    \<and> in_use s r bs = in_use s r' bs' \<and> (full' \<longleftrightarrow> full \<and> bs0 = []) \<and> sorted oos'
    \<and> (oos' = [] \<or> fst (hd oos') \<noteq> r')"
  using assms
proof (induction oos r full arbitrary: bs rule: clean_loop.induct)
  case (1 r full)
  then show ?case by - (rule exI[of _ "[]"], rule exI[of _ bs], simp)
next
  case (2 a n oos r full)
  show ?case
  proof (cases "r = a")
    case True
    with "2.prems" have "(r, n) \<in># entries s r bs" by (metis list.set_intros(1) set_mset_mset)
    then obtain cs where bs: "bs = Waiting n 0 # cs"
      using "2.prems"(3,4) by (rule entry_at_read_pos)
    with True "2.prems" have "mset oos = entries s (r + n) cs" "placed s (r + n) cs" by simp_all
    with "2.IH"[of cs] True "2.prems" obtain bs0 bs' where
      "cs = bs0 @ bs' \<and> r' = r + n + total_len bs0 \<and> mset oos' = entries s r' bs'
        \<and> in_use s (r + n) cs = in_use s r' bs' \<and> \<not> full' \<and> sorted oos'
        \<and> (oos' = [] \<or> fst (hd oos') \<noteq> r')" by auto
    with bs show ?thesis
      by - (rule exI[of _ "Waiting n 0 # bs0"], rule exI[of _ bs'], auto)
  next
    case False
    with "2.prems" show ?thesis by - (rule exI[of _ "[]"], rule exI[of _ bs], auto)
  qed
qed

text \<open>
  The buffer with one more entry pushed, before the clean-up: \<open>ring\<close> without the clause that the
  flag says the ring is full.
\<close>

definition ring_core :: "block list \<Rightarrow> packet_buffer \<Rightarrow> (nat \<times> nat) list \<Rightarrow> bool" where
  "ring_core bs b live \<longleftrightarrow>
     endPos b = sizeInBytes b \<and> readPos b < sizeInBytes b \<and>
     placed (sizeInBytes b) (readPos b) bs \<and> total_len bs \<le> sizeInBytes b \<and>
     sorted (oosPackets b) \<and> mset (oosPackets b) = entries (sizeInBytes b) (readPos b) bs \<and>
     live = in_use (sizeInBytes b) (readPos b) bs"

lemma no_waiting_front:
  assumes "mset oos = entries s r bs" "sorted oos" "oos = [] \<or> fst (hd oos) \<noteq> r"
  shows "bs \<noteq> Waiting n 0 # cs"
proof
  assume bs: "bs = Waiting n 0 # cs"
  with assms(1) have mem: "(r, n) \<in> set oos" by (metis add_cancel_left_right entries.simps(3) mult_0 set_mset_mset union_single_eq_member)
  then obtain e es where oos: "oos = e # es" by (cases oos) auto
  with assms(1) have "(fst e, snd e) \<in># entries s r bs" by (metis list.set_intros(1) prod.collapse set_mset_mset)
  then have "r \<le> fst e" by (rule entries_lower)
  moreover from mem oos assms(2) have "e \<le> (r, n)" by auto
  ultimately show False using assms(3) oos by (auto simp: less_eq_prod_def)
qed

lemma clean_ring:
  assumes core: "ring_core bs b live" and "b' = CleanOosPackets b"
  shows "\<exists>bs0 bs'. bs = bs0 @ bs' \<and> ring_core (if sizeInBytes b \<le> readPos b + total_len bs0 then map go_round bs' else bs') b' live
     \<and> readPos b' = phys (sizeInBytes b) (readPos b + total_len bs0)
     \<and> isFull b' = (isFull b \<and> bs0 = []) \<and> writePos b' = writePos b \<and> sizeInBytes b' = sizeInBytes b
     \<and> underReset b' = underReset b \<and> (\<forall>n cs. bs' \<noteq> Waiting n 0 # cs)"
proof -
  let ?s = "sizeInBytes b" and ?r = "readPos b"
  from core have s: "0 < ?s" and r: "?r < ?s" and pl: "placed ?s ?r bs" and tot: "total_len bs \<le> ?s"
    and m: "mset (oosPackets b) = entries ?s ?r bs" and lv: "live = in_use ?s ?r bs"
    and e: "endPos b = ?s" and so: "sorted (oosPackets b)"
    by (auto simp: ring_core_def)
  obtain oos' r' full' where loop: "clean_loop (oosPackets b) ?r (isFull b) = (oos', r', full')"
    by (metis prod_cases3)
  from clean_loop_blocks[OF loop m pl s so] obtain bs0 bs' where
    bs: "bs = bs0 @ bs'" and r': "r' = ?r + total_len bs0" and m': "mset oos' = entries ?s r' bs'"
    and lv': "in_use ?s ?r bs = in_use ?s r' bs'" and f': "full' \<longleftrightarrow> isFull b \<and> bs0 = []"
    and so': "sorted oos'" and front: "oos' = [] \<or> fst (hd oos') \<noteq> r'" by blast
  from no_waiting_front[OF m' so' front] have nw: "\<forall>n cs. bs' \<noteq> Waiting n 0 # cs" by blast
  have b': "b' = b\<lparr>oosPackets := oos', readPos := phys ?s r', isFull := full'\<rparr>"
    using assms(2) e by (auto simp: CleanOosPackets_def loop phys_def)
  have pl': "placed ?s r' bs'" using pl bs r' by simp
  show ?thesis
  proof (cases "?s \<le> r'")
    case True
    define w where "w = r' - ?s"
    with True have w: "r' = w + ?s" by simp
    have "w + total_len bs' \<le> ?s" "w < ?s" using w r' bs tot r by simp_all
    with True w pl' m' lv lv' r' bs f' b' e tot so' nw show ?thesis
      by - (rule exI[of _ bs0], rule exI[of _ bs'],
          simp add: ring_core_def phys_def entries_go_round in_use_go_round placed_go_round)
  next
    case False
    with pl' m' lv lv' r' bs f' b' e tot so' nw show ?thesis
      by - (rule exI[of _ bs0], rule exI[of _ bs'], simp add: ring_core_def phys_def)
  qed
qed

text \<open>
  When packets are given back in the order they were made, the only waiting blocks are the unused
  ends of the buffer, and none of them is at the read position.
\<close>

fun in_order :: "nat \<Rightarrow> nat \<Rightarrow> block list \<Rightarrow> bool" where
  "in_order s v [] = True"
| "in_order s v (InUse n # bs) = in_order s (v + n) bs"
| "in_order s v (Waiting n k # bs) = (k = 0 \<and> v + n = s \<and> in_order s (v + n) bs)"

definition tidy :: "nat \<Rightarrow> nat \<Rightarrow> block list \<Rightarrow> bool" where
  "tidy s v bs \<longleftrightarrow> in_order s v bs \<and> (\<forall>n k cs. bs \<noteq> Waiting n k # cs)"

lemma in_order_append [simp]:
  "in_order s v (bs @ cs) \<longleftrightarrow> in_order s v bs \<and> in_order s (v + total_len bs) cs"
  by (induction s v bs rule: in_order.induct) (simp_all add: add.assoc)

lemma in_order_beyond:
  "in_order s v bs \<Longrightarrow> placed s v bs \<Longrightarrow> s \<le> v \<Longrightarrow> map go_round bs = bs \<and> in_order s w bs"
  by (induction s v bs arbitrary: w rule: in_order.induct) auto

lemma tidy_after_clean:
  assumes "in_order s v bs" "placed s v bs" "\<forall>n cs. bs \<noteq> Waiting n 0 # cs"
  shows "tidy s (phys s v) (if s \<le> v then map go_round bs else bs)"
proof (cases "s \<le> v")
  case True
  with in_order_beyond[OF assms(1,2)] have "map go_round bs = bs" "in_order s (phys s v) bs" by blast+
  with True assms show ?thesis by (auto simp: tidy_def)
qed (use assms in \<open>auto simp: tidy_def phys_def\<close>)

lemma tidy_append: "tidy s v bs \<Longrightarrow> tidy s v (bs @ [InUse n])"
  using in_order_append[of s v bs "[InUse n]"] by (cases bs) (auto simp: tidy_def simp del: in_order_append)

lemma tidy_no_use: "tidy s v bs \<Longrightarrow> in_use s v bs = [] \<Longrightarrow> bs = []"
  by (cases "(s, v, bs)" rule: in_use.cases) (auto simp: tidy_def)

section \<open>Every operation keeps the ring\<close>

lemma ring_init: "ring [] (packet_buffer_init n) []"
  by (auto simp: ring_def packet_buffer_init_def phys_def)

lemma mset_insort [simp]: "mset (insort x xs) = add_mset x (mset xs)"
  by (induction xs) auto

declare sorted_insort [simp]

lemma ring_positive: "ring bs b live \<Longrightarrow> bs \<noteq> [] \<Longrightarrow> 0 < sizeInBytes b \<and> readPos b < sizeInBytes b"
  by (cases bs) (auto simp: ring_def)

lemma ring_of_core:
  "ring_core bs b live \<Longrightarrow> writePos b = phys (sizeInBytes b) (readPos b + total_len bs) \<Longrightarrow>
   (isFull b \<longleftrightarrow> total_len bs = sizeInBytes b) \<Longrightarrow> ring bs b live"
  by (auto simp: ring_core_def ring_def)

text \<open>Writing into free space to the right of the write position.\<close>

lemma ring_append:
  assumes "ring bs b live" and "0 < n" and "total_len bs + n \<le> sizeInBytes b"
    and "readPos b + total_len bs < sizeInBytes b \<Longrightarrow> readPos b + total_len bs + n \<le> sizeInBytes b"
    and "b' = b\<lparr>writePos := w, isFull := (w = readPos b)\<rparr>"
    and "w = phys (sizeInBytes b) (readPos b + total_len bs + n)"
  shows "ring (bs @ [InUse n]) b' (live @ [(writePos b, n)])"
  using assms by (auto simp: ring_def phys_def)

lemma clean_loop_not_full: "clean_loop oos r False = (oos', r', full') \<Longrightarrow> \<not> full'"
  by (induction oos r False arbitrary: oos' rule: clean_loop.induct) (auto split: if_splits)

lemma clean_not_full: "\<not> isFull b \<Longrightarrow> \<not> isFull (CleanOosPackets (oos_push x b))"
  by (auto simp: CleanOosPackets_def oos_push_def Let_def dest: clean_loop_not_full split: prod.splits)

text \<open>
  Not enough room on the right: the rest of the buffer becomes a block that is given back at once,
  and the packet goes to the beginning.
\<close>

lemma ring_Write_at_start:
  assumes ring: "ring bs b live" and n: "0 < n" "n \<le> readPos b"
    and w: "writePos b = readPos b + total_len bs" "writePos b < sizeInBytes b" and nf: "\<not> isFull b"
    and b1: "b1 = CleanOosPackets (oos_push (writePos b, sizeInBytes b - writePos b) b)"
    and b': "b' = b1\<lparr>writePos := n, isFull := (n = readPos b1)\<rparr>"
  shows "\<exists>bs'. ring bs' b' (live @ [(0, n)]) \<and> sizeInBytes b' = sizeInBytes b
    \<and> (tidy (sizeInBytes b) (readPos b) bs \<longrightarrow> tidy (sizeInBytes b) (readPos b') bs')"
proof -
  let ?s = "sizeInBytes b" and ?r = "readPos b"
  let ?b = "oos_push (writePos b, ?s - writePos b) b"
  let ?bs = "bs @ [Waiting (?s - writePos b) 0]"
  have "ring_core ?bs ?b live"
    using ring w by (auto simp: ring_core_def ring_def oos_push_def)
  from clean_ring[OF this b1] obtain bs0 bs' where
    split: "?bs = bs0 @ bs'" and
    core: "ring_core (if ?s \<le> ?r + total_len bs0 then map go_round bs' else bs') b1 live" and
    r1: "readPos b1 = phys ?s (?r + total_len bs0)" and f1: "\<not> isFull b1" and s1: "sizeInBytes b1 = ?s"
    and nw: "\<forall>n cs. bs' \<noteq> Waiting n 0 # cs"
    using nf by (auto simp: oos_push_def)
  have sum: "?r + total_len bs0 + total_len bs' = ?s"
    using arg_cong[OF split, of total_len] w by simp
  show ?thesis
  proof (cases "bs' = []")
    case True
    with sum r1 core n w b' s1 have "ring [InUse n] b' (live @ [(0, n)])"
      by (auto simp: ring_core_def ring_def phys_def)
    moreover have "tidy ?s (readPos b') [InUse n]" by (simp add: tidy_def)
    ultimately show ?thesis using b' s1 by auto
  next
    case False
    have "placed ?s (?r + total_len bs0) bs'"
      using ring w arg_cong[OF split, of "placed ?s ?r"] by (auto simp: ring_def)
    with False have "total_len bs' \<noteq> 0" by (simp add: placed_total_0)
    with sum have low: "\<not> ?s \<le> ?r + total_len bs0" by simp
    with sum r1 core n b' s1 have "ring (bs' @ [InUse n]) b' (live @ [(0, n)])"
      by (auto simp: ring_core_def ring_def phys_def)
    moreover have "tidy ?s (readPos b') (bs' @ [InUse n])" if "tidy ?s ?r bs"
    proof (rule tidy_append)
      from that w have "in_order ?s ?r ?bs" by (simp add: tidy_def)
      with split have "in_order ?s (?r + total_len bs0) bs'" by simp
      from tidy_after_clean[OF this \<open>placed ?s (?r + total_len bs0) bs'\<close> nw] low r1 b'
      show "tidy ?s (readPos b') bs'" by simp
    qed
    ultimately show ?thesis using b' s1 by auto
  qed
qed

lemma ring_Write:
  assumes ring: "ring bs b live" and n: "0 < n" and wr: "Write n b = Inr (start, b')"
  shows "\<exists>bs'. ring bs' b' (live @ [(start, n)]) \<and> sizeInBytes b' = sizeInBytes b
    \<and> (tidy (sizeInBytes b) (readPos b) bs \<longrightarrow> tidy (sizeInBytes b) (readPos b') bs')"
proof -
  let ?s = "sizeInBytes b" and ?r = "readPos b" and ?w = "writePos b"
  have e: "endPos b = ?s" and t: "total_len bs \<le> ?s" and w: "?w = phys ?s (?r + total_len bs)"
    and full: "isFull b \<longleftrightarrow> total_len bs = ?s \<and> 0 < ?s"
    and r: "?r < ?s \<or> ?s = 0 \<and> ?r = 0"
    using ring by (auto simp: ring_def)
  show ?thesis
  proof (cases "?w < ?r")
    case True
    with w have wrapped: "?s \<le> ?r + total_len bs" "?w + ?s = ?r + total_len bs"
      by (auto simp: phys_def split: if_splits)
    from wr True have le: "n \<le> ?r - ?w" and s: "start = ?w"
      by (auto simp: Write_def Let_def split: if_splits)
    have wn: "?w + n \<noteq> ?s" using le True r by auto
    with wr True le e full wrapped have b': "b' = b\<lparr>writePos := ?w + n, isFull := (?w + n = ?r)\<rparr>"
      by (auto simp: Write_def Let_def split: if_splits)
    have "ring (bs @ [InUse n]) b' (live @ [(?w, n)])"
      using ring n _ _ b' by (rule ring_append) (use wrapped le True in \<open>auto simp: phys_def\<close>)
    with s b' show ?thesis by (auto simp: tidy_append)
  next
    case False
    with wr have nf: "\<not> (isFull b \<and> ?w = ?r)" by (auto simp: Write_def Let_def)
    have straight: "?w = ?r + total_len bs" "total_len bs < ?s \<or> ?s = 0"
      using w False nf full t r by (auto simp: phys_def split: if_splits)
    show ?thesis
    proof (cases "n \<le> ?s - ?w")
      case True
      with wr False nf e have s: "start = ?w" and
        b': "b' = b\<lparr>writePos := (if ?w + n = ?s then 0 else ?w + n),
             isFull := ((if ?w + n = ?s then 0 else ?w + n) = ?r)\<rparr>"
        using full straight n by (auto simp: Write_def Let_def split: if_splits)
      have "ring (bs @ [InUse n]) b' (live @ [(?w, n)])"
        using ring n _ _ b' by (rule ring_append) (use straight True n in \<open>auto simp: phys_def\<close>)
      with s b' show ?thesis by (auto simp: tidy_append)
    next
      case no_room: False
      let ?b1 = "CleanOosPackets (oos_push (?w, ?s - ?w) b)"
      from wr False nf no_room e have s: "start = 0" and le: "n \<le> ?r"
        and b': "b' = (if n = readPos ?b1 then ?b1\<lparr>writePos := n, isFull := True\<rparr>
                       else ?b1\<lparr>writePos := n\<rparr>)"
        by (auto simp: Write_def Let_def split: if_splits)
      from le n r have "?r < ?s" by auto
      with w have "?w < ?s" using t by (auto simp: phys_def split: if_splits)
      have nf': "\<not> isFull b" using full straight \<open>?w < ?s\<close> by auto
      then have "\<not> isFull ?b1" by (rule clean_not_full)
      with b' have "b' = ?b1\<lparr>writePos := n, isFull := (n = readPos ?b1)\<rparr>" by auto
      with ring_Write_at_start[OF ring n le straight(1) \<open>?w < ?s\<close> nf' refl] s show ?thesis
        by simp
    qed
  qed
qed

text \<open>Giving a block back.\<close>

lemma in_use_split:
  assumes "i < length (in_use s v bs)" "in_use s v bs ! i = (a, n)"
  obtains bs1 bs2 where "bs = bs1 @ InUse n # bs2" "a = phys s (v + total_len bs1)"
    "length (in_use s v bs1) = i"
  using assms
proof (induction s v bs arbitrary: thesis i rule: in_use.induct)
  case (2 s v m bs)
  show ?case
  proof (cases i)
    case 0
    with "2.prems"(1)[of "[]" bs] "2.prems"(3) show ?thesis by simp
  next
    case (Suc j)
    with "2.prems"(2,3) "2.IH"[of j] obtain bs1 bs2 where
      "bs = bs1 @ InUse n # bs2" "a = phys s (v + m + total_len bs1)" "length (in_use s (v + m) bs1) = j"
      by auto
    with Suc "2.prems"(1)[of "InUse m # bs1" bs2] show ?thesis by (simp add: add.assoc)
  qed
next
  case (3 s v m k bs)
  then obtain bs1 bs2 where "bs = bs1 @ InUse n # bs2" "a = phys s (v + m + total_len bs1)"
    "length (in_use s (v + m) bs1) = i"
    by auto
  with "3.prems"(1)[of "Waiting m k # bs1" bs2] show ?case by (simp add: add.assoc)
qed simp

definition drop_at :: "nat \<Rightarrow> 'a list \<Rightarrow> 'a list" where
  "drop_at i xs = take i xs @ drop (Suc i) xs"

lemma ring_Read:
  assumes ring: "ring bs b live" and i: "i < length live" "live ! i = (start, n)" and b': "b' = Read start n b"
  shows "\<exists>bs'. ring bs' b' (drop_at i live) \<and> sizeInBytes b' = sizeInBytes b
    \<and> (i = 0 \<and> tidy (sizeInBytes b) (readPos b) bs \<longrightarrow> tidy (sizeInBytes b) (readPos b') bs')"
proof -
  let ?s = "sizeInBytes b" and ?r = "readPos b"
  from ring have lv: "live = in_use ?s ?r bs" by (simp add: ring_def)
  with i obtain bs1 bs2 where bs: "bs = bs1 @ InUse n # bs2" and
    st: "start = phys ?s (?r + total_len bs1)" and at: "length (in_use ?s ?r bs1) = i"
    by (auto elim: in_use_split)
  from ring bs have r: "?r < ?s" and tot: "total_len bs1 + n \<le> ?s" and pos: "0 < n"
    by (auto simp: ring_def)
  let ?a = "if start < ?r then start + ?s else start"
  have a: "?a = ?r + total_len bs1" using st r tot pos by (auto simp: phys_def)
  let ?bs = "bs1 @ Waiting n 0 # bs2"
  let ?b = "oos_push (?a, n) b"
  have "drop_at i live = in_use ?s ?r ?bs" using lv bs at by (auto simp: drop_at_def)
  then have core: "ring_core ?bs ?b (drop_at i live)"
    using ring bs st r unfolding a by (auto simp: ring_core_def ring_def oos_push_def)
  have "b' = CleanOosPackets ?b" using b' by (simp add: Read_def)
  from clean_ring[OF core this] obtain cs0 cs' where
    split: "?bs = cs0 @ cs'" and
    core': "ring_core (if ?s \<le> ?r + total_len cs0 then map go_round cs' else cs') b' (drop_at i live)" and
    r': "readPos b' = phys ?s (?r + total_len cs0)" and f': "isFull b' \<longleftrightarrow> isFull b \<and> cs0 = []" and
    w': "writePos b' = writePos b" and s': "sizeInBytes b' = ?s" and nw: "\<forall>n cs. cs' \<noteq> Waiting n 0 # cs"
    by (auto simp: oos_push_def)
  have tot': "total_len bs = total_len cs0 + total_len cs'"
    using arg_cong[OF split, of total_len] bs by simp
  have pl: "placed ?s ?r cs0" and pl': "placed ?s (?r + total_len cs0) cs'"
    using ring bs arg_cong[OF split, of "placed ?s ?r"] by (auto simp: ring_def)
  have "ring (if ?s \<le> ?r + total_len cs0 then map go_round cs' else cs') b' (drop_at i live)"
    using core'
  proof (rule ring_of_core)
    show "writePos b' = phys (sizeInBytes b')
        (readPos b' + total_len (if ?s \<le> ?r + total_len cs0 then map go_round cs' else cs'))"
      using ring r tot' w' r' s' by (auto simp: ring_def phys_def)
    show "isFull b' \<longleftrightarrow>
        total_len (if ?s \<le> ?r + total_len cs0 then map go_round cs' else cs') = sizeInBytes b'"
      using ring r tot' f' s' placed_total_0[OF pl] by (auto simp: ring_def)
  qed
  moreover have "tidy ?s (readPos b') (if ?s \<le> ?r + total_len cs0 then map go_round cs' else cs')"
    if "i = 0 \<and> tidy ?s ?r bs"
  proof -
    from that bs at have "bs1 = []"
      by (cases "(?s, ?r, bs1)" rule: in_use.cases) (auto simp: tidy_def)
    with split nw obtain cs where "cs0 = Waiting n 0 # cs" "bs2 = cs @ cs'" by (cases cs0) auto
    with that bs \<open>bs1 = []\<close> have "in_order ?s (?r + total_len cs0) cs'" by (simp add: tidy_def add.assoc)
    from tidy_after_clean[OF this pl' nw] r' show ?thesis by simp
  qed
  ultimately show ?thesis using s' by blast
qed

text \<open>No byte lies in two blocks.\<close>

definition covers :: "nat \<Rightarrow> nat \<times> nat \<Rightarrow> bool" where
  "covers x an \<longleftrightarrow> fst an \<le> x \<and> x < fst an + snd an"

definition hits :: "nat \<Rightarrow> (nat \<times> nat) list \<Rightarrow> nat" where
  "hits x live = length (filter (covers x) live)"

lemma hits_simps [simp]:
  "hits x [] = 0"
  "hits x (an # live) = (if covers x an then Suc (hits x live) else hits x live)"
  by (simp_all add: hits_def)

lemma cover_count:
  "placed s v bs \<Longrightarrow> v + total_len bs \<le> 2 * s \<Longrightarrow> x < s \<Longrightarrow>
   hits x (in_use s v bs) \<le>
     (if v \<le> x \<and> x < v + total_len bs then 1 else 0) +
     (if v \<le> x + s \<and> x + s < v + total_len bs then 1 else 0)"
proof (induction s v bs rule: in_use.induct)
  case (2 s v n bs)
  then show ?case
    by (cases "v < s") (auto simp: covers_def phys_def split: if_splits)
next
  case (3 s v n k bs)
  then show ?case by (auto split: if_splits)
qed simp

lemma in_use_bounds:
  "placed s v bs \<Longrightarrow> v + total_len bs \<le> 2 * s \<Longrightarrow> (a, n) \<in> set (in_use s v bs) \<Longrightarrow> a + n \<le> s \<and> 0 < n"
proof (induction s v bs rule: in_use.induct)
  case (2 s v m bs)
  then show ?case by (auto simp: phys_def split: if_splits)
qed auto

lemma ring_disjoint:
  assumes "ring bs b live" "x < sizeInBytes b"
  shows "hits x live \<le> 1"
proof -
  have "readPos b + total_len bs \<le> 2 * sizeInBytes b" "placed (sizeInBytes b) (readPos b) bs"
    "total_len bs \<le> sizeInBytes b"
    using assms by (auto simp: ring_def)
  with cover_count[of "sizeInBytes b" "readPos b" bs x] assms show ?thesis
    by (auto simp: ring_def split: if_splits)
qed

lemma ring_bounds:
  "ring bs b live \<Longrightarrow> (a, n) \<in> set live \<Longrightarrow> a + n \<le> sizeInBytes b \<and> 0 < n"
  using in_use_bounds[of "sizeInBytes b" "readPos b" bs a n] by (auto simp: ring_def)

section \<open>The buffer and its clients as a transition system\<close>

text \<open>
  The clients hold packets, each a block \<open>(start, length)\<close>, listed in the order of creation. A packet
  can be given back at any time (its deleter runs \<^verbatim>\<open>Read\<close>); with \<open>ordered\<close> set, only the oldest can.
  All packets have at least one byte.
\<close>

type_synonym pb_config = "packet_buffer \<times> (nat \<times> nat) list"

inductive pb_step :: "bool \<Rightarrow> pb_config \<Rightarrow> pb_config \<Rightarrow> bool" for ordered :: bool where
  create: "createPacket cnt (ExplicitRule :: int data_rule) rawSize b = Inr (start, n, b') \<Longrightarrow> 0 < n \<Longrightarrow>
    pb_step ordered (b, live) (b', live @ [(start, n)])"
| free: "i < length live \<Longrightarrow> live ! i = (start, n) \<Longrightarrow> (ordered \<Longrightarrow> i = 0) \<Longrightarrow>
    pb_step ordered (b, live) (Read start n b, drop_at i live)"
| resize_start: "pb_step ordered (b, live) (resize_begin b, live)"
| resize_end: "underReset b \<Longrightarrow> resize_ready b \<Longrightarrow> pb_step ordered (b, live) (resize_finish sz b, live)"

inductive_cases pb_stepE: "pb_step ordered (b, live) c"

inductive pb_reach :: "bool \<Rightarrow> nat \<Rightarrow> pb_config \<Rightarrow> bool" for ordered :: bool and sz :: nat where
  start: "pb_reach ordered sz (packet_buffer_init sz, [])"
| step: "pb_reach ordered sz c \<Longrightarrow> pb_step ordered c c' \<Longrightarrow> pb_reach ordered sz c'"

definition ring_config :: "bool \<Rightarrow> pb_config \<Rightarrow> bool" where
  "ring_config ordered c \<longleftrightarrow> (\<exists>bs. ring bs (fst c) (snd c) \<and>
     (ordered \<longrightarrow> tidy (sizeInBytes (fst c)) (readPos (fst c)) bs))"

lemma createPacket_Write:
  "createPacket cnt rule rawSize b = Inr (start, n, b') \<Longrightarrow> Write n b = Inr (start, b')"
  by (auto simp: createPacket_def Let_def res_bind_def split: if_splits sum.splits)

lemma ring_empty: "ring bs b live \<Longrightarrow> resize_ready b \<Longrightarrow> bs = [] \<and> live = []"
  using placed_total_0[of "sizeInBytes b" "readPos b" bs]
  by (auto simp: ring_def resize_ready_def phys_def split: if_splits)

lemma ring_resize_finish:
  "ring bs b live \<Longrightarrow> resize_ready b \<Longrightarrow> ring [] (resize_finish n b) live"
  using ring_empty[of bs b live] by (auto simp: ring_def resize_finish_def resize_ready_def phys_def)

lemma ring_config_step:
  assumes "pb_step ordered c c'" "ring_config ordered c"
  shows "ring_config ordered c'"
  using assms
proof (cases rule: pb_step.cases)
  case (create cnt rawSize b start n b' live)
  with assms(2) obtain bs where bs: "ring bs b live" "ordered \<longrightarrow> tidy (sizeInBytes b) (readPos b) bs"
    by (auto simp: ring_config_def)
  from ring_Write[OF bs(1) \<open>0 < n\<close> createPacket_Write[OF create(3)]] bs(2) create(2) show ?thesis
    by (auto simp: ring_config_def)
next
  case (free i live start n b)
  with assms(2) obtain bs where bs: "ring bs b live" "ordered \<longrightarrow> tidy (sizeInBytes b) (readPos b) bs"
    by (auto simp: ring_config_def)
  from ring_Read[OF bs(1) free(3,4) refl] bs(2) free(2,5) show ?thesis
    by (auto simp: ring_config_def)
next
  case (resize_start b live)
  with assms(2) show ?thesis by (auto simp: ring_config_def ring_def resize_begin_def)
next
  case (resize_end b live sz)
  with assms(2) obtain bs where "ring bs b live" by (auto simp: ring_config_def)
  from ring_resize_finish[OF this] resize_end have "ring [] (fst c') (snd c')" by simp
  then show ?thesis by (auto simp: ring_config_def tidy_def intro!: exI[of _ "[]"])
qed

lemma pb_reach_ring: "pb_reach ordered sz c \<Longrightarrow> ring_config ordered c"
proof (induction rule: pb_reach.induct)
  case start
  show ?case using ring_init by (auto simp: ring_config_def tidy_def intro!: exI[of _ "[]"])
qed (auto intro: ring_config_step)

lemma hits_append [simp]: "hits x (xs @ ys) = hits x xs + hits x ys"
  by (simp add: hits_def)

lemma hits_nth: "i < length live \<Longrightarrow> covers x (live ! i) \<Longrightarrow> 0 < hits x live"
  by (auto simp: hits_def filter_empty_conv)

lemma hits_two:
  assumes "i < j" "j < length live" "covers x (live ! i)" "covers x (live ! j)"
  shows "2 \<le> hits x live"
proof -
  have "live = take j live @ live ! j # drop (Suc j) live" using assms by (simp add: id_take_nth_drop)
  then have "hits x live = hits x (take j live) + hits x (live ! j # drop (Suc j) live)"
    by (metis hits_append)
  moreover have "0 < hits x (take j live)" using assms by (intro hits_nth[of i]) auto
  ultimately show ?thesis using assms by simp
qed

lemma ring_live_apart:
  assumes "ring bs b live" "i < j" "j < length live"
  shows "fst (live ! i) + snd (live ! i) \<le> fst (live ! j) \<or> fst (live ! j) + snd (live ! j) \<le> fst (live ! i)"
proof (rule ccontr)
  define x where "x = max (fst (live ! i)) (fst (live ! j))"
  assume "\<not> ?thesis"
  moreover have "fst (live ! k) + snd (live ! k) \<le> sizeInBytes b \<and> 0 < snd (live ! k)" if "k < length live" for k
    using ring_bounds[OF assms(1), of "fst (live ! k)" "snd (live ! k)"] that by simp
  from this[of i] this[of j] assms
  have "fst (live ! i) + snd (live ! i) \<le> sizeInBytes b" "fst (live ! j) + snd (live ! j) \<le> sizeInBytes b"
    "0 < snd (live ! i)" "0 < snd (live ! j)" by auto
  ultimately have "covers x (live ! i)" "covers x (live ! j)" "x < sizeInBytes b"
    by (auto simp: covers_def x_def)
  with hits_two[OF assms(2,3)] ring_disjoint[OF assms(1)] show False by fastforce
qed

text \<open>Sequences of client actions as an executable function, to build concrete reachable states.\<close>

datatype pb_op = Create SizeT SizeT | Free nat | ResizeStart | ResizeEnd nat

fun pb_do :: "bool \<Rightarrow> pb_op \<Rightarrow> pb_config \<Rightarrow> pb_config option" where
  "pb_do ordered (Create cnt rawSize) (b, live) =
     (case createPacket cnt (ExplicitRule :: int data_rule) rawSize b of
        Inl _ \<Rightarrow> None
      | Inr (start, n, b') \<Rightarrow> if 0 < n then Some (b', live @ [(start, n)]) else None)"
| "pb_do ordered (Free i) (b, live) =
     (if i < length live \<and> (ordered \<longrightarrow> i = 0)
      then Some (Read (fst (live ! i)) (snd (live ! i)) b, drop_at i live) else None)"
| "pb_do ordered ResizeStart (b, live) = Some (resize_begin b, live)"
| "pb_do ordered (ResizeEnd n) (b, live) =
     (if underReset b \<and> resize_ready b then Some (resize_finish n b, live) else None)"

fun pb_run :: "bool \<Rightarrow> pb_op list \<Rightarrow> pb_config \<Rightarrow> pb_config option" where
  "pb_run ordered [] c = Some c"
| "pb_run ordered (a # as) c = (case pb_do ordered a c of None \<Rightarrow> None | Some c' \<Rightarrow> pb_run ordered as c')"

lemma pb_do_step: "pb_do ordered a c = Some c' \<Longrightarrow> pb_step ordered c c'"
  by (cases "(ordered, a, c)" rule: pb_do.cases)
     (auto intro: pb_step.intros split: sum.splits prod.splits if_splits)

lemma pb_run_reach: "pb_run ordered as c = Some c' \<Longrightarrow> pb_reach ordered sz c \<Longrightarrow> pb_reach ordered sz c'"
  by (induction ordered as c rule: pb_run.induct) (auto intro: pb_reach.step pb_do_step split: option.splits)

lemmas pb_eval = createPacket_def Write_def Read_def CleanOosPackets_def oos_push_def res_bind_def
  packet_buffer_init_def drop_at_def resize_begin_def resize_ready_def resize_finish_def

section \<open>Properties\<close>


lemma sample_run:
  "pb_run False [Create 2 3, Create 1 4, Free 0, Create 5 1] (packet_buffer_init 11, []) =
   Some (\<lparr>readPos = 6, writePos = 5, isFull = False, underReset = False, sizeInBytes = 11, endPos = 11,
     oosPackets = [(10, 1)]\<rparr>, [(6, 4), (0, 5)])"
  by (simp add: pb_eval)


text \<open>C22: When the oldest packet is always given back first, nothing leaks: as soon as no packet is
  live, the read and write positions meet, the buffer is not full and no block waits, so that
  \<open>resize\<close> can proceed.\<close>

theorem packet_buffer_fifo_drains:
  assumes "pb_reach True sz (b, [])"
  shows "resize_ready b \<and> oosPackets b = []"
proof -
  from pb_reach_ring[OF assms] obtain bs where bs: "ring bs b []" "tidy (sizeInBytes b) (readPos b) bs"
    by (auto simp: ring_config_def)
  then have "in_use (sizeInBytes b) (readPos b) bs = []" by (simp add: ring_def)
  with bs(2) have "bs = []" by (rule tidy_no_use)
  with bs(1) show ?thesis by (auto simp: ring_def resize_ready_def phys_def)
qed

lemma fifo_run:
  "pb_run True [Create 2 3, Create 1 4, Free 0, Create 5 1, Free 0, Free 0] (packet_buffer_init 11, []) =
   Some (\<lparr>readPos = 5, writePos = 5, isFull = False, underReset = False, sizeInBytes = 11, endPos = 11,
     oosPackets = []\<rparr>, [])"
  by (simp add: pb_eval)

theorem packet_buffer_fifo_drains_witness:
  "\<exists>b. pb_reach True 11 (b, []) \<and> writePos b = 5 \<and> resize_ready b \<and> oosPackets b = []"
  using pb_run_reach[OF fifo_run pb_reach.start]
    packet_buffer_fifo_drains[OF pb_run_reach[OF fifo_run pb_reach.start]] by auto

lemma leak_run:
  "pb_run False [Create 4 1, Create 4 1, Create 2 1, Free 2, Free 0, Create 2 1, Create 2 1,
     Free 2, Free 0, Free 0, ResizeStart] (packet_buffer_init 10, []) =
   Some (\<lparr>readPos = 2, writePos = 4, isFull = False, underReset = True, sizeInBytes = 10, endPos = 10,
     oosPackets = [(12, 2)]\<rparr>, [])"
  by (simp add: pb_eval)

text \<open>C29: Given back out of order, packets can leak: there is a reachable state in which no packet is
  live, a resize is waiting, its condition is false, and no further action changes the state, so the
  resize waits forever.\<close>

theorem packet_buffer_out_of_order_leak:
  "\<exists>b. pb_reach False 10 (b, []) \<and> underReset b \<and> \<not> resize_ready b
     \<and> Collect (pb_step False (b, [])) = {(b, [])}"
proof (intro exI conjI)
  let ?b = "\<lparr>readPos = 2, writePos = 4, isFull = False, underReset = True, sizeInBytes = 10, endPos = 10,
     oosPackets = [(12, 2)]\<rparr>"
  show "pb_reach False 10 (?b, [])" by (rule pb_run_reach[OF leak_run pb_reach.start])
  have "c = (?b, [])" if "pb_step False (?b, []) c" for c
    using that by (rule pb_stepE) (simp_all add: pb_eval)
  moreover have "pb_step False (?b, []) (?b, [])"
    using pb_step.resize_start[of False ?b "[]"] by (simp add: resize_begin_def)
  ultimately show "Collect (pb_step False (?b, [])) = {(?b, [])}" by blast
qed (simp_all add: resize_ready_def)

text \<open>A packet without samples breaks the separation of packets: giving it back clears the
  \<open>isFull\<close> flag of a full buffer, and the next packet is placed on a block that is still live. Here
  the third packet (five bytes at offset 5) is never given back, and the last one gets the same block.\<close>

theorem packet_buffer_empty_packet_overlap:
  "\<exists>b1 b2 b3 b4 b5.
     createPacket 5 ExplicitRule 1 (packet_buffer_init 10) = Inr (0, 5, b1) \<and>
     createPacket 0 ExplicitRule 1 b1 = Inr (5, 0, b2) \<and>
     createPacket 5 ExplicitRule 1 b2 = Inr (5, 5, b3) \<and>
     createPacket 5 ExplicitRule 1 (Read 0 5 b3) = Inr (0, 5, b4) \<and>
     createPacket 5 ExplicitRule 1 (Read 5 0 b4) = Inr (5, 5, b5)"
  by (simp add: pb_eval)

text \<open>C27: \<open>getMaxAvailableContinousSampleCount\<close> is exact: a packet of at least one sample can be made
  if and only if its sample count is at most the count the query reports.\<close>

theorem max_available_exact:
  fixes cnt rawSize :: SizeT
  assumes "\<not> underReset b" and "0 < unat cnt" and "0 < unat rawSize" and "unat cnt * unat rawSize < 2 ^ 64"
  shows "(\<exists>r. createPacket cnt ExplicitRule rawSize b = Inr r) \<longleftrightarrow>
    unat cnt \<le> getMaxAvailableContinousSampleCount (unat rawSize) b"
proof -
  have size: "unat (cnt * rawSize) = unat cnt * unat rawSize"
    using assms(4) unat_mult_lem[of cnt rawSize] by simp
  have le: "unat cnt \<le> x div unat rawSize \<longleftrightarrow> unat cnt * unat rawSize \<le> x" for x
    using assms(3) by (simp add: less_eq_div_iff_mult_less_eq)
  show ?thesis
    using assms by (auto simp: createPacket_def Write_def getMaxAvailableContinousSampleCount_def size le
        res_bind_def Let_def)
qed

theorem max_available_exact_witness:
  "(\<exists>r. createPacket 3 ExplicitRule 2 (packet_buffer_init 7) = Inr r) \<longleftrightarrow>
    (3::nat) \<le> getMaxAvailableContinousSampleCount 2 (packet_buffer_init 7)"
  using max_available_exact[of "packet_buffer_init 7" 3 2] by (simp add: packet_buffer_init_def)

text \<open>
  \<open>getAvailableSampleCount\<close> measures from the read position, so that in an unwrapped buffer it also
  counts the bytes that are in use.
\<close>

lemma available_counts_used_bytes:
  "\<exists>b. createPacket 6 ExplicitRule 1 (packet_buffer_init 10) = Inr (0, 6, b) \<and> getAvailableSampleCount 1 b = 10
     \<and> createPacket 5 ExplicitRule 1 b = Inl OPENDAQ_ERR_INVALIDPARAMETER"
  by (simp add: pb_eval getAvailableSampleCount_def)

end
