(* ===== verification/Property.thy ===== *)
theory Property
  imports Prelude
begin

text \<open>
  Property values and properties: \<^verbatim>\<open>coretypes/coretype.h\<close> and
  \<^verbatim>\<open>coreobjects/property_impl.h\<close>. Scalar values (booleans, numbers, strings, structs, enumerations,
  callables) are a type parameter \<open>'x\<close>; what the property code asks of them (core type, equality,
  conversion, comparison) is the record \<open>core_ops\<close>, an argument of the definitions. Lists and
  dictionaries carry the core type of their declared element interface, property objects are
  addresses in a store.

  The metadata of a property is what its getters return after evaluation; of evaluation values, only
  the property reference \<^verbatim>\<open>%Name\<close> is modelled. Event handlers are client code: a function from the
  value of the event arguments to a list of actions on the arguments and on property objects.
\<close>

type_synonym oid = nat

datatype CoreType = ctBool | ctInt | ctFloat | ctString | ctList | ctDict | ctRatio | ctProc | ctObject
  | ctBinaryData | ctFunc | ctComplexNumber | ctStruct | ctEnumeration | ctUndefined

datatype 'x val =
    ScalarV 'x
  | ListV CoreType "'x val list"
  | DictV CoreType CoreType "('x val \<times> 'x val) list"
  | ObjectV oid

record 'x core_ops =
  scalarType :: "'x \<Rightarrow> CoreType"
  equals :: "'x val \<Rightarrow> 'x val \<Rightarrow> bool"
  convertTo :: "CoreType \<Rightarrow> 'x val \<Rightarrow> 'x val result"
  isLess :: "'x val \<Rightarrow> 'x val \<Rightarrow> bool result"
  toSizeT :: "'x val \<Rightarrow> SizeT result"
  structTypeOf :: "'x val \<Rightarrow> string option"
  enumTypeOf :: "'x val \<Rightarrow> string option"
  enumWithInt :: "string \<Rightarrow> 'x val \<Rightarrow> 'x val result"

fun getCoreType :: "'x core_ops \<Rightarrow> 'x val \<Rightarrow> CoreType" where
  "getCoreType E (ScalarV x) = scalarType E x"
| "getCoreType E (ListV _ _) = ctList"
| "getCoreType E (DictV _ _ _) = ctDict"
| "getCoreType E (ObjectV _) = ctObject"

text \<open>Integers as scalar values, for concrete runs.\<close>

fun int_less :: "int val \<Rightarrow> int val \<Rightarrow> bool result" where
  "int_less (ScalarV a) (ScalarV b) = Inr (a < b)"
| "int_less _ _ = Inl OPENDAQ_ERR_NOINTERFACE"

fun int_size :: "int val \<Rightarrow> SizeT result" where
  "int_size (ScalarV a) = Inr (of_int a)"
| "int_size _ = Inl OPENDAQ_ERR_NOINTERFACE"

definition int_ops :: "int core_ops" where
  "int_ops = \<lparr>scalarType = \<lambda>_. ctInt, equals = (=), convertTo = \<lambda>_ _. Inl OPENDAQ_ERR_CONVERSIONFAILED,
     isLess = int_less, toSizeT = int_size, structTypeOf = \<lambda>_. None, enumTypeOf = \<lambda>_. None,
     enumWithInt = \<lambda>_ _. Inl OPENDAQ_ERR_NOINTERFACE\<rparr>"

text \<open>Equality of smart pointers: two null pointers are equal, a null pointer equals nothing else.\<close>

fun ptr_eq :: "'x core_ops \<Rightarrow> 'x val option \<Rightarrow> 'x val option \<Rightarrow> bool" where
  "ptr_eq E None None = True"
| "ptr_eq E (Some a) (Some b) = equals E a b"
| "ptr_eq E _ _ = False"

text \<open>The calls a handler can make on property objects, and the handlers.\<close>

datatype 'x call =
    SetPropertyValue oid string "'x val option"
  | SetProtectedPropertyValue oid string "'x val option"
  | GetPropertyValue oid string
  | ClearPropertyValue oid string
  | ClearProtectedPropertyValue oid string
  | BeginUpdate oid
  | EndUpdate oid
  | SetOwner oid oid
  | ConfigureCoreEvents oid string bool
  | DisableCoreEventTrigger oid

datatype 'x hact =
    ArgsSetValue "'x val"
  | CallObject "'x call"
  | ThrowErr ErrCode

type_synonym 'x handler = "'x val option \<Rightarrow> 'x hact list"

record 'x property =
  p_name :: string
  p_valueType :: CoreType
  p_description :: "string option"
  p_unit :: bool
  p_minValue :: "'x val option"
  p_maxValue :: "'x val option"
  p_defaultValue :: "'x val option"
  p_visible :: bool
  p_readOnly :: bool
  p_selectionValues :: "'x val option"
  p_suggestedValues :: "'x val option"
  p_refProp :: "string option"
  p_coercer :: "('x val \<Rightarrow> 'x val result) option"
  p_validator :: "('x val \<Rightarrow> unit result) option"
  p_callableInfo :: bool
  p_onValueWrite :: "'x handler list"
  p_onValueRead :: "'x handler list"

section \<open>Key and item types\<close>

definition getKeyType :: "'x core_ops \<Rightarrow> 'x property \<Rightarrow> CoreType" where
  "getKeyType E p =
     (case p_defaultValue p of
        Some (DictV kt _ kvs) \<Rightarrow>
          if kt = ctUndefined \<and> kvs \<noteq> [] then getCoreType E (fst (hd kvs)) else kt
      | _ \<Rightarrow> ctUndefined)"

definition getItemType :: "'x core_ops \<Rightarrow> 'x property \<Rightarrow> CoreType" where
  "getItemType E p =
     (case (case p_selectionValues p of Some s \<Rightarrow> Some s | None \<Rightarrow> p_defaultValue p) of
        Some (DictV _ it kvs) \<Rightarrow>
          if it = ctUndefined \<and> kvs \<noteq> [] then getCoreType E (snd (hd kvs)) else it
      | Some (ListV it vs) \<Rightarrow>
          if it = ctUndefined \<and> vs \<noteq> [] then getCoreType E (hd vs) else it
      | _ \<Rightarrow> ctUndefined)"

section \<open>Validation of a property on construction\<close>

fun is_list_or_dict :: "'x val \<Rightarrow> bool" where
  "is_list_or_dict (ListV _ _) = True"
| "is_list_or_dict (DictV _ _ _) = True"
| "is_list_or_dict _ = False"

definition validate :: "'x core_ops \<Rightarrow> 'x property \<Rightarrow> unit result" where
  "validate E p =
     (let noValues = (p_selectionValues p = None \<and> p_suggestedValues p = None);
          noWriteChecks = (p_coercer p = None \<and> p_validator p = None);
          noMinMax = (p_maxValue p = None \<and> p_minValue p = None);
          bad = (Inl OPENDAQ_ERR_INVALIDSTATE :: unit result)
      in
      if p_name p = ''opendaq_unassigned'' then bad
      else if (p_valueType p = ctFunc \<or> p_valueType p = ctProc) \<and> p_defaultValue p \<noteq> None then bad
      else if \<not> (p_valueType p = ctFunc \<or> p_valueType p = ctProc) \<and>
              p_refProp p \<noteq> None \<and> p_defaultValue p \<noteq> None then bad
      else if \<not> (p_valueType p = ctFunc \<or> p_valueType p = ctProc) \<and>
              p_refProp p = None \<and> p_defaultValue p = None then bad
      else if p_valueType p = ctObject \<and> \<not> (noValues \<and> noWriteChecks \<and> \<not> p_unit p) then bad
      else if \<not> noMinMax \<and> p_valueType p \<noteq> ctInt \<and> p_valueType p \<noteq> ctFloat then bad
      else if p_callableInfo p \<and> \<not> (p_valueType p = ctProc \<or> p_valueType p = ctFunc) then bad
      else if p_refProp p \<noteq> None \<and>
              \<not> (((p_valueType p = ctUndefined \<and> p_description p = None) \<or> p_description p = Some [])
                 \<and> \<not> p_readOnly p \<and> noValues \<and> noWriteChecks) then bad
      else if (\<exists>s \<in> set_option (p_selectionValues p). \<not> (p_valueType p = ctInt \<and> is_list_or_dict s)) then bad
      else if p_suggestedValues p \<noteq> None \<and> p_valueType p \<notin> {ctInt, ctFloat, ctString} then bad
      else if (p_valueType p = ctList \<or> p_valueType p = ctDict) \<and>
              (let it = getItemType E p; kt = (if p_valueType p = ctDict then getKeyType E p else ctUndefined)
               in it \<in> {ctObject, ctFunc, ctProc, ctList, ctDict} \<or> kt \<in> {ctObject, ctFunc, ctProc, ctList, ctDict})
        then bad
      else if p_valueType p = ctStruct \<and> \<not> (noValues \<and> noWriteChecks \<and> noMinMax \<and> \<not> p_unit p \<and> \<not> p_callableInfo p)
        then bad
      else if p_valueType p = ctEnumeration \<and> \<not> (noValues \<and> noWriteChecks \<and> noMinMax \<and> \<not> p_unit p \<and> \<not> p_callableInfo p)
        then bad
      else Inr ())"

section \<open>Names\<close>

definition isChildProperty :: "string \<Rightarrow> bool" where
  "isChildProperty n \<longleftrightarrow> CHR ''.'' \<in> set n"

definition splitOnFirstDot :: "string \<Rightarrow> string \<times> string" where
  "splitOnFirstDot n = (takeWhile (\<lambda>c. c \<noteq> CHR ''.'') n, drop 1 (dropWhile (\<lambda>c. c \<noteq> CHR ''.'') n))"

definition splitOnLastDot :: "string \<Rightarrow> string \<times> string" where
  "splitOnLastDot n =
     (if isChildProperty n
      then (rev (drop 1 (dropWhile (\<lambda>c. c \<noteq> CHR ''.'') (rev n))), rev (takeWhile (\<lambda>c. c \<noteq> CHR ''.'') (rev n)))
      else (n, []))"

text \<open>
  \<^verbatim>\<open>strtol\<close> in base 10: the value and the unread rest, which is the whole input when there is no
  digit. The value saturates at the bounds of \<^verbatim>\<open>long\<close> and is then cut to \<^verbatim>\<open>int\<close>.
\<close>

definition isspace :: "char \<Rightarrow> bool" where
  "isspace c \<longleftrightarrow> c = CHR '' '' \<or> (9 \<le> (of_char c :: nat) \<and> (of_char c :: nat) \<le> 13)"

definition isdigit :: "char \<Rightarrow> bool" where
  "isdigit c \<longleftrightarrow> 48 \<le> (of_char c :: nat) \<and> (of_char c :: nat) \<le> 57"

definition digits_value :: "string \<Rightarrow> int" where
  "digits_value ds = foldl (\<lambda>v c. 10 * v + (int (of_char c) - 48)) 0 ds"

definition strtol :: "string \<Rightarrow> int \<times> string" where
  "strtol s =
     (let t = dropWhile isspace s;
          neg = (t \<noteq> [] \<and> hd t = CHR ''-'');
          u = (if t \<noteq> [] \<and> (hd t = CHR ''-'' \<or> hd t = CHR ''+'') then tl t else t);
          ds = takeWhile isdigit u
      in if ds = [] then (0, s)
         else (max (- (2 ^ 63)) (min (2 ^ 63 - 1) (if neg then - digits_value ds else digits_value ds)),
               dropWhile isdigit u))"

definition to_int32 :: "int \<Rightarrow> int" where
  "to_int32 v = (v + 2 ^ 31) mod 2 ^ 32 - 2 ^ 31"

text \<open>\<open>parseIndex\<close> gets the text from the opening bracket on.\<close>

definition parseIndex :: "string \<Rightarrow> int result" where
  "parseIndex s =
     (if CHR '']'' \<notin> set s then Inl OPENDAQ_ERR_INVALIDPARAMETER
      else let (v, rest) = strtol (tl s) in
        if rest \<noteq> [] \<and> hd rest = CHR '']'' then Inr (to_int32 v) else Inl OPENDAQ_ERR_INVALIDPARAMETER)"

definition getPropNameWithoutIndex :: "string \<Rightarrow> string \<times> string option" where
  "getPropNameWithoutIndex n =
     (takeWhile (\<lambda>c. c \<noteq> CHR ''['') n,
      if CHR ''['' \<in> set n then Some (dropWhile (\<lambda>c. c \<noteq> CHR ''['') n) else None)"

definition getPropertyNameInfo :: "string \<Rightarrow> (string \<times> int) result" where
  "getPropertyNameInfo n =
     (case getPropNameWithoutIndex n of
        (_, None) \<Rightarrow> Inr (n, - 1)
      | (base, Some br) \<Rightarrow> res_bind (parseIndex br) (\<lambda>i. Inr (base, i)))"

lemma split_first_dot:
  "isChildProperty n \<Longrightarrow> fst (splitOnFirstDot n) @ CHR ''.'' # snd (splitOnFirstDot n) = n"
proof -
  assume "isChildProperty n"
  then have "dropWhile (\<lambda>c. c \<noteq> CHR ''.'') n \<noteq> []" by (auto simp: isChildProperty_def dropWhile_eq_Nil_conv)
  then obtain c cs where d: "dropWhile (\<lambda>c. c \<noteq> CHR ''.'') n = c # cs" by (cases "dropWhile (\<lambda>c. c \<noteq> CHR ''.'') n") auto
  then have "c = CHR ''.''" by (metis (mono_tags) hd_dropWhile list.distinct(1) list.sel(1))
  with d show ?thesis
    by (simp add: splitOnFirstDot_def) (metis takeWhile_dropWhile_id)
qed

lemma no_dot_name [simp]:
  assumes "\<not> isChildProperty n"
  shows "splitOnFirstDot n = (n, [])"
proof -
  have "dropWhile (\<lambda>c. c \<noteq> CHR ''.'') n = []" using assms by (auto simp: isChildProperty_def dropWhile_eq_Nil_conv)
  moreover have "takeWhile (\<lambda>c. c \<noteq> CHR ''.'') n = n"
    unfolding takeWhile_eq_all_conv using assms by (auto simp: isChildProperty_def)
  ultimately show ?thesis unfolding splitOnFirstDot_def by (metis drop_Nil)
qed

lemma plain_name_info:
  "CHR ''['' \<notin> set n \<Longrightarrow> getPropNameWithoutIndex n = (n, None) \<and> getPropertyNameInfo n = Inr (n, - 1)"
  by (simp add: getPropNameWithoutIndex_def getPropertyNameInfo_def takeWhile_eq_all_conv) metis

lemma digits_value_nonneg: "\<forall>c \<in> set ds. isdigit c \<Longrightarrow> 0 \<le> digits_value ds"
proof (induction ds rule: rev_induct)
  case (snoc d ds)
  then show ?case by (auto simp: digits_value_def isdigit_def)
qed (simp add: digits_value_def)

lemma digit_chars:
  "isdigit c \<Longrightarrow> \<not> isspace c \<and> c \<noteq> CHR ''-'' \<and> c \<noteq> CHR ''+'' \<and> c \<noteq> CHR '']'' \<and> c \<noteq> CHR ''[''"
  by (auto simp: isdigit_def isspace_def)

lemma strtol_digits:
  assumes "ds \<noteq> []" "\<forall>c \<in> set ds. isdigit c" "rest \<noteq> [] \<Longrightarrow> \<not> isdigit (hd rest)"
  shows "strtol (ds @ rest) = (min (2 ^ 63 - 1) (digits_value ds), rest)"
proof -
  obtain d ds' where ds: "ds = d # ds'" using assms(1) by (cases ds) auto
  with assms digit_chars[of d] have t: "dropWhile isspace (ds @ rest) = ds @ rest" by simp
  have u: "takeWhile isdigit (ds @ rest) = ds" "dropWhile isdigit (ds @ rest) = rest"
    using assms by (cases rest; simp add: takeWhile_append dropWhile_append takeWhile_eq_all_conv dropWhile_eq_Nil_conv)+
  show ?thesis
    unfolding strtol_def Let_def t using u assms ds digit_chars[of d] digits_value_nonneg[of ds] by simp
qed

lemma to_int32_id: "- (2 ^ 31) \<le> v \<Longrightarrow> v < 2 ^ 31 \<Longrightarrow> to_int32 v = v"
  by (simp add: to_int32_def)

text \<open>An indexed property name \<^verbatim>\<open>name[digits]\<close> is read as the name and the decimal value of the
  digits, for every index below two to the power 31.\<close>

theorem indexed_name_parses:
  assumes "CHR ''['' \<notin> set n" and "ds \<noteq> []" and "\<forall>c \<in> set ds. isdigit c" and "digits_value ds < 2 ^ 31"
  shows "getPropertyNameInfo (n @ CHR ''['' # ds @ '']'') = Inr (n, digits_value ds)"
proof -
  have tw: "takeWhile (\<lambda>c. c \<noteq> CHR ''['') (n @ CHR ''['' # ds @ '']'') = n"
    "dropWhile (\<lambda>c. c \<noteq> CHR ''['') (n @ CHR ''['' # ds @ '']'') = CHR ''['' # ds @ '']''"
    using assms(1) by (simp_all add: takeWhile_append2 takeWhile_append dropWhile_append takeWhile_eq_all_conv dropWhile_eq_Nil_conv)
  have "strtol (ds @ '']'') = (min (2 ^ 63 - 1) (digits_value ds), '']'')"
    by (rule strtol_digits) (use assms in \<open>auto simp: isdigit_def\<close>)
  then have "parseIndex (CHR ''['' # ds @ '']'') = Inr (digits_value ds)"
    using digits_value_nonneg[OF assms(3)] assms(4) by (simp add: parseIndex_def to_int32_id)
  then show ?thesis by (simp add: getPropertyNameInfo_def getPropNameWithoutIndex_def tw)
qed

theorem indexed_name_parses_witness:
  "getPropertyNameInfo (''List'' @ CHR ''['' # ''42'' @ '']'') = Inr (''List'', digits_value ''42'')
   \<and> digits_value ''42'' = 42"
  using indexed_name_parses[of "''List''" "''42''"] by (simp add: isdigit_def digits_value_def)

end
