(* ===== verification/PropertyObject.thy ===== *)
theory PropertyObject
  imports Property
begin

text \<open>
  Property objects: \<^verbatim>\<open>coreobjects/property_object_impl.h\<close>. Objects live in a store; a call on another
  object, and every call a handler makes, goes through the argument \<open>self\<close> of the operations, which
  runs one call on the store. \<open>exec\<close> ties the knot with fuel: each level of nested calls takes one
  unit, and a call that needs more than it has returns \<open>None\<close>. All operations of one object run under
  its lock, so that calls do not interleave.
\<close>

section \<open>The stack of updates in progress\<close>

record 'x stack_item =
  si_value :: "'x val option"
  si_stackLevel :: nat
  si_isPushed :: bool

type_synonym 'x update_stack = "string \<rightharpoonup> 'x stack_item"

definition PropertyUpdateStackItem :: "'x val option \<Rightarrow> 'x stack_item" where
  "PropertyUpdateStackItem v = \<lparr>si_value = v, si_stackLevel = 1, si_isPushed = True\<rparr>"

definition si_setValue :: "'x core_ops \<Rightarrow> 'x val option \<Rightarrow> 'x stack_item \<Rightarrow> bool \<times> 'x stack_item" where
  "si_setValue E v it =
     (if ptr_eq E (si_value it) v then (False, it)
      else (True, it\<lparr>si_value := v, si_isPushed := True, si_stackLevel := Suc (si_stackLevel it)\<rparr>))"

definition si_unregister :: "'x stack_item \<Rightarrow> bool \<times> 'x stack_item" where
  "si_unregister it = (si_isPushed it, it\<lparr>si_isPushed := False, si_stackLevel := si_stackLevel it - 1\<rparr>)"

definition registerPropertyUpdating ::
  "'x core_ops \<Rightarrow> string \<Rightarrow> 'x val option \<Rightarrow> 'x update_stack \<Rightarrow> bool \<times> 'x update_stack" where
  "registerPropertyUpdating E n v st =
     (case st n of
        None \<Rightarrow> (True, st(n \<mapsto> PropertyUpdateStackItem v))
      | Some it \<Rightarrow> (let (r, it') = si_setValue E v it in (r, st(n \<mapsto> it'))))"

definition unregisetPropertyUpdating :: "string \<Rightarrow> 'x update_stack \<Rightarrow> bool \<times> 'x update_stack" where
  "unregisetPropertyUpdating n st =
     (case st n of
        None \<Rightarrow> (False, st)
      | Some it \<Rightarrow> (let (r, it') = si_unregister it in
          (r, if si_stackLevel it' = 0 then st(n := None) else st(n \<mapsto> it'))))"

definition isBaseStackLevel :: "string \<Rightarrow> 'x update_stack \<Rightarrow> bool" where
  "isBaseStackLevel n st = (case st n of None \<Rightarrow> False | Some it \<Rightarrow> si_stackLevel it = 1)"

definition stack_getPropertyValue :: "string \<Rightarrow> 'x update_stack \<Rightarrow> 'x val option option" where
  "stack_getPropertyValue n st = map_option si_value (st n)"

section \<open>Objects and the store\<close>

datatype 'x core_event =
    PropertyValueChanged oid string "'x val option" string
  | PropertyObjectUpdateEnd oid "(string \<times> 'x val option) list" string
  | PropertyAdded oid string string
  | PropertyRemoved oid string string
  | PropertyOrderChanged oid "string list option" string

record 'x updating_action =
  ua_setValue :: bool
  ua_protectedAccess :: bool
  ua_value :: "'x val option"

record 'x pobj =
  frozen :: bool
  baseInterface :: bool
  owner :: "oid option"
  customOrder :: "string list"
  updateCount :: nat
  updatingPropsAndValues :: "(string \<times> 'x updating_action) list"
  coreEventMuted :: bool
  triggerCoreEvent :: bool
  localProperties :: "(string, 'x property) omap"
  opath :: string
  objectClass :: "'x property list option"
  valueWriteEvents :: "string \<rightharpoonup> 'x handler list"
  valueReadEvents :: "string \<rightharpoonup> 'x handler list"
  anyWriteEvent :: "'x handler list"
  anyReadEvent :: "'x handler list"
  endUpdateEvent :: "'x hact list list"
  updatePropertyStack :: "'x update_stack"
  propValues :: "(string, 'x val) omap"

record 'x world =
  objs :: "oid \<Rightarrow> 'x pobj"
  coreEvents :: "'x core_event list"

definition PropertyObjectImpl :: "'x property list option \<Rightarrow> 'x pobj" where
  "PropertyObjectImpl cls = \<lparr>frozen = False, baseInterface = True, owner = None, customOrder = [], updateCount = 0,
     updatingPropsAndValues = [], coreEventMuted = True, triggerCoreEvent = False, localProperties = [],
     opath = [], objectClass = cls, valueWriteEvents = Map.empty, valueReadEvents = Map.empty,
     anyWriteEvent = [], anyReadEvent = [], endUpdateEvent = [], updatePropertyStack = Map.empty, propValues = []\<rparr>"

text \<open>
  Computations on the store: \<open>None\<close> is out of fuel, \<open>Inl e\<close> an exception or a failed error code,
  which keeps the changes made so far.
\<close>

type_synonym ('x, 'a) M = "'x world \<Rightarrow> ('a result \<times> 'x world) option"

definition retM :: "'a \<Rightarrow> ('x, 'a) M" where
  "retM a w = Some (Inr a, w)"

definition throwM :: "ErrCode \<Rightarrow> ('x, 'a) M" where
  "throwM e w = Some (Inl e, w)"

definition bindM :: "('x, 'a) M \<Rightarrow> ('a \<Rightarrow> ('x, 'b) M) \<Rightarrow> ('x, 'b) M" where
  "bindM m f w =
     (case m w of
        None \<Rightarrow> None
      | Some (Inl e, w') \<Rightarrow> Some (Inl e, w')
      | Some (Inr a, w') \<Rightarrow> f a w')"

definition tryM :: "('x, 'a) M \<Rightarrow> ('x, 'a result) M" where
  "tryM m w = map_option (\<lambda>(r, w'). (Inr r, w')) (m w)"

definition liftM :: "'a result \<Rightarrow> ('x, 'a) M" where
  "liftM r w = Some (r, w)"

definition getO :: "oid \<Rightarrow> ('x pobj \<Rightarrow> 'a) \<Rightarrow> ('x, 'a) M" where
  "getO ob f w = Some (Inr (f (objs w ob)), w)"

definition modO :: "oid \<Rightarrow> ('x pobj \<Rightarrow> 'x pobj) \<Rightarrow> ('x, unit) M" where
  "modO ob f w = Some (Inr (), w\<lparr>objs := (objs w)(ob := f (objs w ob))\<rparr>)"

fun foldM :: "('a \<Rightarrow> 'b \<Rightarrow> ('x, 'b) M) \<Rightarrow> 'a list \<Rightarrow> 'b \<Rightarrow> ('x, 'b) M" where
  "foldM f [] b = retM b"
| "foldM f (a # as) b = bindM (f a b) (foldM f as)"

type_synonym 'x interp = "'x call \<Rightarrow> ('x, 'x val option) M"

definition triggerCoreEventInternal :: "oid \<Rightarrow> 'x core_event \<Rightarrow> ('x, unit) M" where
  "triggerCoreEventInternal ob ev w =
     Some (Inr (), if \<not> coreEventMuted (objs w ob) \<and> triggerCoreEvent (objs w ob)
                   then w\<lparr>coreEvents := coreEvents w @ [ev]\<rparr> else w)"

section \<open>Looking up properties\<close>

definition lookupProperty :: "'x pobj \<Rightarrow> string \<Rightarrow> 'x property option" where
  "lookupProperty ob n =
     (case map_of (localProperties ob) n of
        Some p \<Rightarrow> Some p
      | None \<Rightarrow> (case objectClass ob of None \<Rightarrow> None | Some ps \<Rightarrow> find (\<lambda>p. p_name p = n) ps))"

definition getUnboundProperty :: "oid \<Rightarrow> string \<Rightarrow> ('x, 'x property) M" where
  "getUnboundProperty ob n = bindM (getO ob (\<lambda>x. lookupProperty x n))
     (\<lambda>r. case r of None \<Rightarrow> throwM OPENDAQ_ERR_NOTFOUND | Some p \<Rightarrow> retM p)"

text \<open>
  Following reference properties. The chain of references from one property visits each property at
  most once unless it is cyclic, so the number of properties is enough fuel; a cyclic chain recurses
  without end in the code, which is \<open>None\<close>.
\<close>

fun follow_refs :: "nat \<Rightarrow> 'x pobj \<Rightarrow> bool \<Rightarrow> 'x property \<Rightarrow> ('x property \<times> bool) result option" where
  "follow_refs fuel x isRef p =
     (case p_refProp p of
        None \<Rightarrow> Some (Inr (p, isRef))
      | Some n \<Rightarrow>
          (case lookupProperty x n of
             None \<Rightarrow> Some (Inl OPENDAQ_ERR_NOTFOUND)
           | Some q \<Rightarrow> (case fuel of 0 \<Rightarrow> None | Suc f \<Rightarrow> follow_refs f x True q)))"

definition propertyCount :: "'x pobj \<Rightarrow> nat" where
  "propertyCount x = length (localProperties x) + (case objectClass x of None \<Rightarrow> 0 | Some ps \<Rightarrow> length ps)"

definition checkForRefPropAndGetBoundProp :: "oid \<Rightarrow> 'x property \<Rightarrow> ('x, 'x property \<times> bool) M" where
  "checkForRefPropAndGetBoundProp ob p w =
     map_option (\<lambda>r. (r, w)) (follow_refs (propertyCount (objs w ob)) (objs w ob) False p)"

section \<open>Event handlers\<close>

text \<open>
  One handler: its actions in order, on the value of the event arguments. The result is that value
  and the error the handler ended with, if any.
\<close>

fun runActions :: "'x interp \<Rightarrow> 'x hact list \<Rightarrow> 'x val option \<Rightarrow> ('x, 'x val option \<times> ErrCode option) M" where
  "runActions self [] v = retM (v, None)"
| "runActions self (ArgsSetValue v' # as) v = runActions self as (Some v')"
| "runActions self (CallObject c # as) v =
     bindM (tryM (self c)) (\<lambda>r. case r of Inl e \<Rightarrow> retM (v, Some e) | Inr _ \<Rightarrow> runActions self as v)"
| "runActions self (ThrowErr e # as) v = retM (v, Some e)"

text \<open>\<open>EventImpl::trigger\<close>: the handlers in order, stopping at the first that fails.\<close>

fun trigger :: "'x interp \<Rightarrow> 'x handler list \<Rightarrow> 'x val option \<Rightarrow> ('x, 'x val option \<times> ErrCode option) M" where
  "trigger self [] v = retM (v, None)"
| "trigger self (h # hs) v =
     bindM (runActions self (h v) v) (\<lambda>(v', e). case e of Some _ \<Rightarrow> retM (v', e) | None \<Rightarrow> trigger self hs v')"

text \<open>The call operator of an event throws the error.\<close>

definition emit :: "'x interp \<Rightarrow> 'x handler list \<Rightarrow> 'x val option \<Rightarrow> ('x, 'x val option) M" where
  "emit self hs v = bindM (trigger self hs v) (\<lambda>(v', e). case e of None \<Rightarrow> retM v' | Some e \<Rightarrow> throwM e)"

section \<open>Reading values\<close>

definition readLocalValue :: "'x pobj \<Rightarrow> string \<Rightarrow> 'x val result" where
  "readLocalValue x n =
     res_bind (getPropertyNameInfo n) (\<lambda>(base, i).
       case map_of (propValues x) base of
         None \<Rightarrow> Inl OPENDAQ_ERR_NOTFOUND
       | Some v \<Rightarrow>
           if i \<noteq> - 1 then
             (case v of
                ListV _ vs \<Rightarrow> if int (length vs) \<le> i \<or> i < 0 then Inl OPENDAQ_ERR_OUTOFRANGE else Inr (vs ! nat i)
              | _ \<Rightarrow> Inl OPENDAQ_ERR_INVALIDPARAMETER)
           else Inr v)"

definition callPropertyValueRead ::
  "'x interp \<Rightarrow> oid \<Rightarrow> 'x property \<Rightarrow> 'x val option \<Rightarrow> ('x, 'x val option) M" where
  "callPropertyValueRead self ob p v =
     bindM (getO ob (\<lambda>x. if om_has (localProperties x) (p_name p) then [] else p_onValueRead p)) (\<lambda>cls.
     bindM (emit self cls v) (\<lambda>v1.
     bindM (getO ob (\<lambda>x. case valueReadEvents x (p_name p) of None \<Rightarrow> [] | Some hs \<Rightarrow> hs)) (\<lambda>own.
     bindM (emit self own v1) (\<lambda>v2.
     bindM (getO ob anyReadEvent) (\<lambda>any.
     emit self any v2)))))"

text \<open>The value when there is no local one: the default, or the item the index selects from it.\<close>

definition defaultItem :: "'x property \<Rightarrow> string option \<Rightarrow> 'x val option result" where
  "defaultItem p bracket =
     (case (p_defaultValue p, bracket) of
        (None, _) \<Rightarrow> Inr None
      | (Some (ListV _ vs), Some br) \<Rightarrow>
          res_bind (parseIndex br) (\<lambda>i.
            if int (length vs) \<le> i \<or> i < 0 then Inl OPENDAQ_ERR_OUTOFRANGE else Inr (Some (vs ! nat i)))
      | (Some v, _) \<Rightarrow> Inr (Some v))"

definition storedValue ::
  "'x pobj \<Rightarrow> 'x property \<Rightarrow> string \<Rightarrow> string option \<Rightarrow> bool \<Rightarrow> 'x val option result" where
  "storedValue x p propName bracket retrieveUpdatingValue =
     (case (if retrieveUpdatingValue then stack_getPropertyValue propName (updatePropertyStack x) else None) of
        Some (Some v) \<Rightarrow> Inr (Some v)
      | Some None \<Rightarrow>
          (case p_defaultValue p of None \<Rightarrow> Inl OPENDAQ_ERR_INVALIDPARAMETER | Some v \<Rightarrow> Inr (Some v))
      | None \<Rightarrow>
          (case readLocalValue x propName of
             Inr v \<Rightarrow> Inr (Some v)
           | Inl OPENDAQ_ERR_NOTFOUND \<Rightarrow> defaultItem p bracket
           | Inl e \<Rightarrow> Inl e))"

definition getPropertyAndValueInternal ::
  "'x interp \<Rightarrow> oid \<Rightarrow> string \<Rightarrow> bool \<Rightarrow> bool \<Rightarrow> ('x, 'x val option \<times> 'x property) M" where
  "getPropertyAndValueInternal self ob n triggerEvent retrieveUpdatingValue =
     (let (base, bracket) = getPropNameWithoutIndex n in
     bindM (getUnboundProperty ob base) (\<lambda>p0.
     bindM (checkForRefPropAndGetBoundProp ob p0) (\<lambda>(p, isRef).
     let propName = (case bracket of
           Some br \<Rightarrow> if isRef then p_name p @ br else n
         | None \<Rightarrow> if isRef then p_name p else base) in
     bindM (getO ob (\<lambda>x. storedValue x p propName bracket retrieveUpdatingValue)) (\<lambda>r.
     bindM (liftM r) (\<lambda>v.
       if v = None then retM (None, p)
       else if triggerEvent then bindM (callPropertyValueRead self ob p v) (\<lambda>v'. retM (v', p))
       else retM (v, p))))))"

definition getChildPropertyValue :: "'x interp \<Rightarrow> oid \<Rightarrow> string \<Rightarrow> string \<Rightarrow> ('x, 'x val option) M" where
  "getChildPropertyValue self ob childName subName =
     bindM (getUnboundProperty ob childName) (\<lambda>p0.
     bindM (checkForRefPropAndGetBoundProp ob p0) (\<lambda>(p, _).
     bindM (getPropertyAndValueInternal self ob (p_name p) True False) (\<lambda>(v, _).
       case v of
         Some (ObjectV c) \<Rightarrow> self (GetPropertyValue c subName)
       | Some _ \<Rightarrow> throwM OPENDAQ_ERR_NOINTERFACE
       | None \<Rightarrow> throwM OPENDAQ_ERR_INVALIDPARAMETER)))"

definition getPropertyValueInternal :: "'x interp \<Rightarrow> oid \<Rightarrow> string \<Rightarrow> bool \<Rightarrow> ('x, 'x val option) M" where
  "getPropertyValueInternal self ob n retrieveUpdatingValue =
     (if isChildProperty n
      then (let (head, sub) = splitOnFirstDot n in getChildPropertyValue self ob head sub)
      else bindM (getPropertyAndValueInternal self ob n True retrieveUpdatingValue) (\<lambda>(v, _). retM v))"

definition getPropertyValue :: "'x interp \<Rightarrow> oid \<Rightarrow> string \<Rightarrow> ('x, 'x val option) M" where
  "getPropertyValue self ob n = getPropertyValueInternal self ob n True"

text \<open>The child object a dotted name goes through.\<close>

definition childObject :: "'x interp \<Rightarrow> oid \<Rightarrow> string \<Rightarrow> ('x, oid) M" where
  "childObject self ob n =
     bindM (getPropertyValueInternal self ob n False) (\<lambda>v.
       case v of
         Some (ObjectV c) \<Rightarrow> retM c
       | Some _ \<Rightarrow> throwM OPENDAQ_ERR_NOINTERFACE
       | None \<Rightarrow> throwM OPENDAQ_ERR_INVALIDPARAMETER)"

section \<open>Checks on a value to be written\<close>

definition checkPropertyTypeAndConvert :: "'x core_ops \<Rightarrow> 'x property \<Rightarrow> 'x val \<Rightarrow> 'x val result" where
  "checkPropertyTypeAndConvert E p v =
     (if p_valueType p = getCoreType E v then Inr v
      else if p_valueType p = ctEnumeration then
        (case Option.bind (p_defaultValue p) (enumTypeOf E) of
           None \<Rightarrow> Inl OPENDAQ_ERR_INVALIDSTATE
         | Some t \<Rightarrow> res_bind (convertTo E ctInt v) (enumWithInt E t))
      else convertTo E (p_valueType p) v)"

text \<open>
  \<open>iterate\<close> stops at the first element of another core type, or at the first object, whose interface
  decides. For an object value the comparison of interface ids is returned as the error code: true is
  1, which is not a failure, and false is 0, which is success, so that every inspectable object passes.
\<close>

fun iterate :: "'x core_ops \<Rightarrow> (oid \<Rightarrow> 'x pobj) \<Rightarrow> CoreType \<Rightarrow> 'x val list \<Rightarrow> bool" where
  "iterate E os ct [] = True"
| "iterate E os ct (v # vs) =
     (if getCoreType E v \<noteq> ct then False
      else case v of ObjectV c \<Rightarrow> baseInterface (os c) | _ \<Rightarrow> iterate E os ct vs)"

definition checkContainerType :: "'x core_ops \<Rightarrow> (oid \<Rightarrow> 'x pobj) \<Rightarrow> 'x property \<Rightarrow> 'x val \<Rightarrow> unit result" where
  "checkContainerType E os p v =
     (case v of
        ObjectV c \<Rightarrow> Inr ()
      | DictV _ _ kvs \<Rightarrow>
          if \<not> iterate E os (getKeyType E p) (map fst kvs) then Inl OPENDAQ_ERR_INVALIDTYPE
          else if \<not> iterate E os (getItemType E p) (map snd kvs) then Inl OPENDAQ_ERR_INVALIDTYPE
          else Inr ()
      | ListV _ vs \<Rightarrow>
          if getItemType E p \<noteq> ctUndefined \<and> \<not> iterate E os (getItemType E p) vs
          then Inl OPENDAQ_ERR_INVALIDTYPE else Inr ()
      | ScalarV x \<Rightarrow> if scalarType E x = ctObject then Inl OPENDAQ_ERR_INVALIDTYPE else Inr ())"

definition checkSelectionValues :: "'x core_ops \<Rightarrow> 'x property \<Rightarrow> 'x val \<Rightarrow> unit result" where
  "checkSelectionValues E p v =
     (case p_selectionValues p of
        None \<Rightarrow> Inr ()
      | Some s \<Rightarrow> res_bind (toSizeT E v) (\<lambda>key.
          case s of
            ListV _ vs \<Rightarrow> if unat key < length vs then Inr () else Inl OPENDAQ_ERR_NOTFOUND
          | DictV _ _ kvs \<Rightarrow> if (\<exists>k \<in> set (map fst kvs). equals E k v) then Inr () else Inl OPENDAQ_ERR_NOTFOUND
          | _ \<Rightarrow> Inl OPENDAQ_ERR_NOTFOUND))"

definition checkStructType :: "'x core_ops \<Rightarrow> 'x property \<Rightarrow> 'x val \<Rightarrow> unit result" where
  "checkStructType E p v =
     (if p_valueType p \<noteq> ctStruct then Inr ()
      else case structTypeOf E v of
        None \<Rightarrow> Inl OPENDAQ_ERR_INVALIDSTATE
      | Some t \<Rightarrow>
          (case p_defaultValue p of
             None \<Rightarrow> Inl OPENDAQ_ERR_INVALIDPARAMETER
           | Some d \<Rightarrow>
               (case structTypeOf E d of
                  None \<Rightarrow> Inl OPENDAQ_ERR_NOINTERFACE
                | Some t' \<Rightarrow> if t = t' then Inr () else Inl OPENDAQ_ERR_INVALIDSTATE)))"

definition checkEnumerationType :: "'x core_ops \<Rightarrow> 'x property \<Rightarrow> 'x val \<Rightarrow> unit result" where
  "checkEnumerationType E p v =
     (if p_valueType p \<noteq> ctEnumeration then Inr ()
      else case enumTypeOf E v of
        None \<Rightarrow> Inl OPENDAQ_ERR_INVALIDSTATE
      | Some t \<Rightarrow>
          (case Option.bind (p_defaultValue p) (enumTypeOf E) of
             None \<Rightarrow> Inl OPENDAQ_ERR_INVALIDSTATE
           | Some t' \<Rightarrow> if t = t' then Inr () else Inl OPENDAQ_ERR_INVALIDSTATE))"

definition coercePropertyWrite :: "'x property \<Rightarrow> 'x val \<Rightarrow> 'x val result" where
  "coercePropertyWrite p v = (case p_coercer p of None \<Rightarrow> Inr v | Some f \<Rightarrow> f v)"

definition validatePropertyWrite :: "'x property \<Rightarrow> 'x val \<Rightarrow> unit result" where
  "validatePropertyWrite p v = (case p_validator p of None \<Rightarrow> Inr () | Some f \<Rightarrow> f v)"

text \<open>A comparison that throws leaves the value as it is.\<close>

definition coerceMin :: "'x core_ops \<Rightarrow> 'x property \<Rightarrow> 'x val \<Rightarrow> 'x val" where
  "coerceMin E p v = (case p_minValue p of None \<Rightarrow> v | Some m \<Rightarrow> if isLess E v m = Inr True then m else v)"

definition coerceMax :: "'x core_ops \<Rightarrow> 'x property \<Rightarrow> 'x val \<Rightarrow> 'x val" where
  "coerceMax E p v = (case p_maxValue p of None \<Rightarrow> v | Some m \<Rightarrow> if isLess E m v = Inr True then m else v)"

definition coerceMinMax :: "'x core_ops \<Rightarrow> 'x property \<Rightarrow> 'x val \<Rightarrow> 'x val" where
  "coerceMinMax E p v = coerceMax E p (coerceMin E p v)"

text \<open>The checks in the order of \<open>setPropertyValueInternal\<close>.\<close>

definition prepareValue :: "'x core_ops \<Rightarrow> (oid \<Rightarrow> 'x pobj) \<Rightarrow> 'x property \<Rightarrow> 'x val \<Rightarrow> 'x val result" where
  "prepareValue E os p v0 =
     res_bind (checkPropertyTypeAndConvert E p v0) (\<lambda>v1.
     res_bind (checkContainerType E os p v1) (\<lambda>_.
     res_bind (checkSelectionValues E p v1) (\<lambda>_.
     res_bind (checkStructType E p v1) (\<lambda>_.
     res_bind (checkEnumerationType E p v1) (\<lambda>_.
     res_bind (coercePropertyWrite p v1) (\<lambda>v2.
     res_bind (validatePropertyWrite p v2) (\<lambda>_.
     Inr (coerceMinMax E p v2))))))))"

section \<open>Writing values\<close>

definition shouldWriteLocalValue :: "'x core_ops \<Rightarrow> 'x pobj \<Rightarrow> string \<Rightarrow> 'x val \<Rightarrow> bool" where
  "shouldWriteLocalValue E x n v =
     (case map_of (propValues x) n of
        Some u \<Rightarrow> \<not> equals E u v
      | None \<Rightarrow> (case lookupProperty x n of None \<Rightarrow> True | Some p \<Rightarrow> \<not> ptr_eq E (p_defaultValue p) (Some v)))"

definition writeLocalValue :: "'x core_ops \<Rightarrow> oid \<Rightarrow> string \<Rightarrow> 'x val \<Rightarrow> bool \<Rightarrow> ('x, bool) M" where
  "writeLocalValue E ob n v forceWrite =
     bindM (getO ob (\<lambda>x. if om_has (propValues x) n \<or> \<not> forceWrite then shouldWriteLocalValue E x n v else True)) (\<lambda>sw.
       if sw then bindM (modO ob (\<lambda>x. x\<lparr>propValues := om_assign n v (propValues x)\<rparr>)) (\<lambda>_. retM True)
       else retM False)"

definition setOwnerToPropertyValue :: "'x interp \<Rightarrow> oid \<Rightarrow> 'x val \<Rightarrow> ('x, unit) M" where
  "setOwnerToPropertyValue self ob v =
     (case v of ObjectV c \<Rightarrow> bindM (self (SetOwner c ob)) (\<lambda>_. retM ()) | _ \<Rightarrow> retM ())"

definition configureClonedObj :: "'x interp \<Rightarrow> oid \<Rightarrow> string \<Rightarrow> 'x val \<Rightarrow> ('x, unit) M" where
  "configureClonedObj self ob n v =
     bindM (getO ob (\<lambda>x. (coreEventMuted x, opath x, triggerCoreEvent x))) (\<lambda>(muted, pth, trig).
       case v of
         ObjectV c \<Rightarrow>
           if muted then retM ()
           else bindM (self (ConfigureCoreEvents c (if pth \<noteq> [] then pth @ ''.'' @ n else n) trig)) (\<lambda>_. retM ())
       | _ \<Rightarrow> retM ())"

type_synonym 'x writer = "oid \<Rightarrow> 'x property \<Rightarrow> 'x val option \<Rightarrow> bool \<Rightarrow> bool \<Rightarrow> ('x, ErrCode \<times> 'x val option) M"

text \<open>
  The last part of \<open>setPropertyValueInternal\<close>, after the checks: the events, the local value, the
  owner and the core event. \<open>write\<close> is \<open>callPropertyValueWrite\<close>, used only when \<open>triggerEvent\<close> is set.
\<close>

definition storeValue :: "'x core_ops \<Rightarrow> 'x interp \<Rightarrow> 'x writer \<Rightarrow> oid \<Rightarrow> 'x property \<Rightarrow> 'x val \<Rightarrow> bool \<Rightarrow> bool \<Rightarrow> ('x, ErrCode) M" where
  "storeValue E self write ob p v triggerEvent isUpdating =
     (if triggerEvent then
        bindM (write ob p (Some v) False isUpdating) (\<lambda>(err, nv).
          if err = OPENDAQ_IGNORED then retM OPENDAQ_SUCCESS
          else
            bindM (if ptr_eq E (Some v) nv
                   then bindM (writeLocalValue E ob (p_name p) (the nv) False) (\<lambda>_. setOwnerToPropertyValue self ob (the nv))
                   else retM ()) (\<lambda>_.
            bindM (getO ob opath) (\<lambda>pth.
            bindM (if isUpdating then retM () else triggerCoreEventInternal ob (PropertyValueChanged ob (p_name p) nv pth)) (\<lambda>_.
            retM OPENDAQ_SUCCESS))))
      else
        bindM (writeLocalValue E ob (p_name p) v False) (\<lambda>written.
          if \<not> written then retM OPENDAQ_IGNORED
          else bindM (setOwnerToPropertyValue self ob v) (\<lambda>_. retM OPENDAQ_SUCCESS)))"

definition setPropertyValueWith ::
  "'x core_ops \<Rightarrow> 'x interp \<Rightarrow> 'x writer \<Rightarrow> oid \<Rightarrow> string \<Rightarrow> 'x val option \<Rightarrow> bool \<Rightarrow> bool \<Rightarrow> bool \<Rightarrow> bool \<Rightarrow> ('x, ErrCode) M" where
  "setPropertyValueWith E self write ob n value triggerEvent protectedAccess batch isUpdating =
     (case value of
        None \<Rightarrow> throwM OPENDAQ_ERR_ARGUMENT_NULL
      | Some v0 \<Rightarrow>
     bindM (getO ob frozen) (\<lambda>fr.
     if fr then throwM OPENDAQ_ERR_FROZEN
     else if batch then
       bindM (modO ob (\<lambda>x. x\<lparr>updatingPropsAndValues := updatingPropsAndValues x @
                 [(n, \<lparr>ua_setValue = True, ua_protectedAccess = protectedAccess, ua_value = Some v0\<rparr>)]\<rparr>))
         (\<lambda>_. retM OPENDAQ_SUCCESS)
     else
       let (head, sub) = splitOnFirstDot n in
       bindM (getUnboundProperty ob head) (\<lambda>p0.
       bindM (checkForRefPropAndGetBoundProp ob p0) (\<lambda>(p, _).
       if \<not> protectedAccess \<and> p_readOnly p \<and> \<not> isChildProperty n then throwM OPENDAQ_ERR_ACCESSDENIED
       else if isChildProperty n then
         bindM (childObject self ob (p_name p)) (\<lambda>c.
         bindM (self (if protectedAccess then SetProtectedPropertyValue c sub (Some v0)
                      else SetPropertyValue c sub (Some v0))) (\<lambda>_.
         retM OPENDAQ_SUCCESS))
       else if \<not> protectedAccess \<and> (p_readOnly p \<or> p_valueType p = ctObject) then throwM OPENDAQ_ERR_ACCESSDENIED
       else
         bindM (\<lambda>w. Some (prepareValue E (objs w) p v0, w)) (\<lambda>v.
         bindM (if p_valueType p = ctObject then configureClonedObj self ob (p_name p) v else retM ()) (\<lambda>_.
         storeValue E self write ob p v triggerEvent isUpdating))))))"

text \<open>
  \<open>callPropertyValueWrite\<close> for an update (\<open>clear\<close> false) or a clear. The handlers of the class and of
  any-write run outside \<^verbatim>\<open>daqTry\<close>: when one throws, the property stays registered in the update stack.
\<close>

definition registerM :: "'x core_ops \<Rightarrow> oid \<Rightarrow> string \<Rightarrow> 'x val option \<Rightarrow> ('x, bool) M" where
  "registerM E ob n v =
     bindM (getO ob (\<lambda>x. registerPropertyUpdating E n v (updatePropertyStack x))) (\<lambda>(registered, st).
     bindM (modO ob (\<lambda>x. x\<lparr>updatePropertyStack := st\<rparr>)) (\<lambda>_. retM registered))"

definition unregisterM :: "oid \<Rightarrow> string \<Rightarrow> ('x, bool) M" where
  "unregisterM ob n =
     bindM (getO ob (\<lambda>x. unregisetPropertyUpdating n (updatePropertyStack x))) (\<lambda>(result, st).
     bindM (modO ob (\<lambda>x. x\<lparr>updatePropertyStack := st\<rparr>)) (\<lambda>_. retM result))"

text \<open>The write events: of the class, of the object for this property, of the object for any property.\<close>

definition runWriteHandlers :: "'x interp \<Rightarrow> oid \<Rightarrow> 'x property \<Rightarrow> 'x val option \<Rightarrow> ('x, 'x val option \<times> ErrCode option) M" where
  "runWriteHandlers self ob p arg =
     bindM (getO ob (\<lambda>x. if om_has (localProperties x) (p_name p) then [] else p_onValueWrite p)) (\<lambda>cls.
     bindM (emit self cls arg) (\<lambda>a1.
     bindM (getO ob (\<lambda>x. case valueWriteEvents x (p_name p) of None \<Rightarrow> [] | Some hs \<Rightarrow> hs)) (\<lambda>own.
     bindM (trigger self own a1) (\<lambda>(a2, failed).
     bindM (getO ob anyWriteEvent) (\<lambda>any.
     bindM (emit self any a2) (\<lambda>a3.
     retM (a3, failed)))))))"

text \<open>What is done with the value of the event arguments once the handlers have run.\<close>

definition finishWrite ::
  "'x core_ops \<Rightarrow> 'x interp \<Rightarrow> oid \<Rightarrow> 'x property \<Rightarrow> 'x val option \<Rightarrow> bool \<Rightarrow> 'x val option \<Rightarrow> ErrCode option \<Rightarrow> bool
    \<Rightarrow> ('x, ErrCode \<times> 'x val option) M" where
  "finishWrite E self ob p newValue clear arg failed shouldUpdate =
     (case failed of
        Some e \<Rightarrow> throwM e
      | None \<Rightarrow>
          if \<not> shouldUpdate then retM (OPENDAQ_IGNORED, newValue)
          else if clear \<and> ptr_eq E arg (p_defaultValue p) then retM (OPENDAQ_SUCCESS, newValue)
          else if ptr_eq E newValue arg then retM (OPENDAQ_SUCCESS, newValue)
          else bindM (setPropertyValueWith E self (\<lambda>_ _ _ _ _. throwM OPENDAQ_ERR_GENERALERROR) ob (p_name p) arg False True False False)
                 (\<lambda>err. retM (err, arg)))"

definition callPropertyValueWrite :: "'x core_ops \<Rightarrow> 'x interp \<Rightarrow> 'x writer" where
  "callPropertyValueWrite E self ob p newValue clear isUpdating =
     (let n = p_name p in
     bindM (registerM E ob n newValue) (\<lambda>registered.
     if \<not> registered then retM (OPENDAQ_IGNORED, newValue)
     else
     bindM (getO ob (\<lambda>x. isBaseStackLevel n (updatePropertyStack x) \<and> newValue \<noteq> None
                          \<and> \<not> shouldWriteLocalValue E x n (the newValue))) (\<lambda>same.
     if same then bindM (unregisterM ob n) (\<lambda>_. retM (OPENDAQ_IGNORED, newValue))
     else
     bindM (runWriteHandlers self ob p (if clear then p_defaultValue p else newValue)) (\<lambda>(arg, failed).
     bindM (unregisterM ob n) (\<lambda>shouldUpdate.
     finishWrite E self ob p newValue clear arg failed shouldUpdate)))))"

definition setPropertyValueInternal ::
  "'x core_ops \<Rightarrow> 'x interp \<Rightarrow> oid \<Rightarrow> string \<Rightarrow> 'x val option \<Rightarrow> bool \<Rightarrow> bool \<Rightarrow> bool \<Rightarrow> bool \<Rightarrow> ('x, ErrCode) M" where
  "setPropertyValueInternal E self ob n value triggerEvent protectedAccess batch isUpdating =
     setPropertyValueWith E self (callPropertyValueWrite E self) ob n value triggerEvent protectedAccess batch isUpdating"

definition setPropertyValue :: "'x core_ops \<Rightarrow> 'x interp \<Rightarrow> oid \<Rightarrow> string \<Rightarrow> 'x val option \<Rightarrow> ('x, ErrCode) M" where
  "setPropertyValue E self ob n v =
     bindM (getO ob (\<lambda>x. 0 < updateCount x)) (\<lambda>batch. setPropertyValueInternal E self ob n v True False batch False)"

definition setProtectedPropertyValue :: "'x core_ops \<Rightarrow> 'x interp \<Rightarrow> oid \<Rightarrow> string \<Rightarrow> 'x val option \<Rightarrow> ('x, ErrCode) M" where
  "setProtectedPropertyValue E self ob n v =
     bindM (getO ob (\<lambda>x. 0 < updateCount x)) (\<lambda>batch. setPropertyValueInternal E self ob n v True True batch False)"

section \<open>Listing properties\<close>

definition checkIsReferenced :: "string \<Rightarrow> 'x property \<Rightarrow> bool" where
  "checkIsReferenced n p = (p_refProp p = Some n)"

definition checkForReferences :: "'x pobj \<Rightarrow> string \<Rightarrow> bool" where
  "checkForReferences x n =
     ((\<exists>p \<in> set (case objectClass x of None \<Rightarrow> [] | Some ps \<Rightarrow> ps). checkIsReferenced n p) \<or>
      (\<exists>p \<in> set (map snd (localProperties x)). checkIsReferenced n p))"

definition allPropertyList :: "'x pobj \<Rightarrow> 'x property list" where
  "allPropertyList x = (case objectClass x of None \<Rightarrow> [] | Some ps \<Rightarrow> ps) @ map snd (localProperties x)"

text \<open>
  \<open>getPropertiesInternal\<close> with binding. Getting the visibility of a reference property follows the
  reference.
\<close>

definition boundVisible :: "'x pobj \<Rightarrow> 'x property \<Rightarrow> bool result option" where
  "boundVisible x p = map_option (map_sum id (\<lambda>(q, _). p_visible q)) (follow_refs (propertyCount x) x False p)"

fun propertyLookup :: "'x pobj \<Rightarrow> bool \<Rightarrow> 'x property list \<Rightarrow> (string, 'x property) omap \<Rightarrow> (string, 'x property) omap result option" where
  "propertyLookup x includeInvisible [] m = Some (Inr m)"
| "propertyLookup x includeInvisible (p # ps) m =
     (if includeInvisible then propertyLookup x includeInvisible ps (om_assign (p_name p) p m)
      else if checkForReferences x (p_name p) then propertyLookup x includeInvisible ps m
      else case boundVisible x p of
        None \<Rightarrow> None
      | Some (Inl e) \<Rightarrow> if e = OPENDAQ_ERR_CALCFAILED \<or> e = OPENDAQ_ERR_NOINTERFACE
                         then propertyLookup x includeInvisible ps m else Some (Inl e)
      | Some (Inr False) \<Rightarrow> propertyLookup x includeInvisible ps m
      | Some (Inr True) \<Rightarrow> propertyLookup x includeInvisible ps (om_assign (p_name p) p m))"

fun takeOrdered :: "string list \<Rightarrow> (string, 'x property) omap \<Rightarrow> 'x property list \<times> (string, 'x property) omap" where
  "takeOrdered [] m = ([], m)"
| "takeOrdered (n # ns) m =
     (case map_of m n of
        None \<Rightarrow> takeOrdered ns m
      | Some p \<Rightarrow> (let (ps, m') = takeOrdered ns (om_erase n m) in (p # ps, m')))"

definition getPropertiesInternal :: "'x pobj \<Rightarrow> bool \<Rightarrow> 'x property list result option" where
  "getPropertiesInternal x includeInvisible =
     map_option (map_sum id (\<lambda>m. let (ps, rest) = takeOrdered (customOrder x) m in ps @ map snd rest))
       (propertyLookup x includeInvisible (allPropertyList x) [])"

section \<open>Clearing values\<close>

definition clearPropertyValueInternal ::
  "'x core_ops \<Rightarrow> 'x interp \<Rightarrow> oid \<Rightarrow> string \<Rightarrow> bool \<Rightarrow> bool \<Rightarrow> bool \<Rightarrow> ('x, ErrCode) M" where
  "clearPropertyValueInternal E self ob n protectedAccess batch isUpdating =
     bindM (getO ob frozen) (\<lambda>fr.
     if fr then throwM OPENDAQ_ERR_FROZEN
     else if batch then
       bindM (modO ob (\<lambda>x. x\<lparr>updatingPropsAndValues := updatingPropsAndValues x @
                 [(n, \<lparr>ua_setValue = False, ua_protectedAccess = protectedAccess, ua_value = None\<rparr>)]\<rparr>))
         (\<lambda>_. retM OPENDAQ_SUCCESS)
     else
       let (head, sub) = splitOnFirstDot n;
           clearCall = (\<lambda>c m. if protectedAccess then ClearProtectedPropertyValue c m else ClearPropertyValue c m) in
       bindM (getUnboundProperty ob head) (\<lambda>p0.
       bindM (checkForRefPropAndGetBoundProp ob p0) (\<lambda>(p, _).
       if \<not> protectedAccess \<and> p_readOnly p \<and> \<not> isChildProperty n then throwM OPENDAQ_ERR_ACCESSDENIED
       else if isChildProperty n then
         bindM (childObject self ob (p_name p)) (\<lambda>c.
         bindM (self (clearCall c sub)) (\<lambda>_. retM OPENDAQ_SUCCESS))
       else
         bindM (getO ob (\<lambda>x. map_of (propValues x) (p_name p))) (\<lambda>cur.
         case cur of
           None \<Rightarrow> retM OPENDAQ_IGNORED
         | Some v \<Rightarrow>
             if p_valueType p = ctObject then
               (case v of
                  ObjectV c \<Rightarrow>
                    bindM (\<lambda>w. map_option (\<lambda>r. (r, w)) (getPropertiesInternal (objs w c) True)) (\<lambda>ps.
                    bindM (foldM (\<lambda>q _. bindM (self (clearCall c (p_name q))) (\<lambda>_. retM ())) ps ()) (\<lambda>_.
                    retM OPENDAQ_SUCCESS))
                | _ \<Rightarrow> throwM OPENDAQ_ERR_NOINTERFACE)
             else
               bindM (callPropertyValueWrite E self ob p None True isUpdating) (\<lambda>(err, nv).
                 if err = OPENDAQ_IGNORED then retM OPENDAQ_SUCCESS
                 else
                   bindM (if nv = None then modO ob (\<lambda>x. x\<lparr>propValues := om_erase (p_name p) (propValues x)\<rparr>) else retM ()) (\<lambda>_.
                   bindM (getO ob opath) (\<lambda>pth.
                   bindM (if isUpdating then retM () else triggerCoreEventInternal ob (PropertyValueChanged ob (p_name p) nv pth)) (\<lambda>_.
                   retM OPENDAQ_SUCCESS))))))))"

definition clearPropertyValue :: "'x core_ops \<Rightarrow> 'x interp \<Rightarrow> oid \<Rightarrow> string \<Rightarrow> ('x, ErrCode) M" where
  "clearPropertyValue E self ob n =
     bindM (getO ob (\<lambda>x. 0 < updateCount x)) (\<lambda>batch. clearPropertyValueInternal E self ob n False batch False)"

definition clearProtectedPropertyValue :: "'x core_ops \<Rightarrow> 'x interp \<Rightarrow> oid \<Rightarrow> string \<Rightarrow> ('x, ErrCode) M" where
  "clearProtectedPropertyValue E self ob n =
     bindM (getO ob (\<lambda>x. 0 < updateCount x)) (\<lambda>batch. clearPropertyValueInternal E self ob n True batch False)"

section \<open>Batched updates\<close>

definition childObjects :: "'x world \<Rightarrow> oid \<Rightarrow> oid list" where
  "childObjects w ob = List.map_filter (\<lambda>(_, v). case v of ObjectV c \<Rightarrow> if frozen (objs w c) then None else Some c | _ \<Rightarrow> None)
     (propValues (objs w ob))"

text \<open>\<open>callBeginUpdateOnChildren\<close> and \<open>callEndUpdateOnChildren\<close>: the call on every child that is not frozen.\<close>

definition callOnChildren :: "'x interp \<Rightarrow> (oid \<Rightarrow> 'x call) \<Rightarrow> oid \<Rightarrow> ('x, unit) M" where
  "callOnChildren self mk ob =
     bindM (\<lambda>w. Some (Inr (childObjects w ob), w)) (\<lambda>cs.
     foldM (\<lambda>c _. bindM (self (mk c)) (\<lambda>_. retM ())) cs ())"

definition beginUpdateInternal :: "'x interp \<Rightarrow> oid \<Rightarrow> bool \<Rightarrow> ('x, ErrCode) M" where
  "beginUpdateInternal self ob deep =
     bindM (getO ob frozen) (\<lambda>fr.
     if fr then throwM OPENDAQ_ERR_FROZEN
     else
       bindM (modO ob (\<lambda>x. x\<lparr>updateCount := Suc (updateCount x)\<rparr>)) (\<lambda>_.
       bindM (if deep then callOnChildren self BeginUpdate ob else retM ()) (\<lambda>_.
       retM OPENDAQ_SUCCESS)))"

text \<open>One item of \<open>endApplyUpdate\<close>: apply it and, unless it was ignored, read the value back.\<close>

definition applyItem ::
  "'x core_ops \<Rightarrow> 'x interp \<Rightarrow> oid \<Rightarrow> string \<times> 'x updating_action
    \<Rightarrow> (string \<times> 'x updating_action) list \<times> string list \<Rightarrow> ('x, (string \<times> 'x updating_action) list \<times> string list) M" where
  "applyItem E self ob item acc =
     (let (n, a) = item; (done_items, ignored) = acc in
     bindM (if ua_setValue a
            then setPropertyValueInternal E self ob n (ua_value a) True (ua_protectedAccess a) False True
            else clearPropertyValueInternal E self ob n (ua_protectedAccess a) False True) (\<lambda>err.
     if err = OPENDAQ_IGNORED then retM (done_items @ [(n, a)], ignored @ [n])
     else bindM (tryM (getPropertyAndValueInternal self ob n True False)) (\<lambda>r.
       retM (done_items @ [(n, case r of Inr (v, _) \<Rightarrow> a\<lparr>ua_value := v\<rparr> | Inl _ \<Rightarrow> a)], ignored))))"

fun eraseFirst :: "string \<Rightarrow> (string \<times> 'b) list \<Rightarrow> (string \<times> 'b) list" where
  "eraseFirst n [] = []"
| "eraseFirst n (kv # kvs) = (if fst kv = n then kvs else kv # eraseFirst n kvs)"

fun runEndHandlers :: "'x interp \<Rightarrow> 'x hact list list \<Rightarrow> ('x, unit) M" where
  "runEndHandlers self [] = retM ()"
| "runEndHandlers self (h # hs) =
     bindM (runActions self h None) (\<lambda>(_, e). case e of Some e \<Rightarrow> throwM e | None \<Rightarrow> runEndHandlers self hs)"

definition endApplyProperties :: "'x interp \<Rightarrow> oid \<Rightarrow> (string \<times> 'x updating_action) list \<Rightarrow> ('x, unit) M" where
  "endApplyProperties self ob items =
     (let dict = fold (\<lambda>(n, a). om_assign n (ua_value a)) items [] in
     bindM (getO ob endUpdateEvent) (\<lambda>hs.
     bindM (runEndHandlers self hs) (\<lambda>_.
     bindM (getO ob opath) (\<lambda>pth.
     if dict \<noteq> [] then triggerCoreEventInternal ob (PropertyObjectUpdateEnd ob dict pth) else retM ()))))"

definition endApplyUpdate :: "'x core_ops \<Rightarrow> 'x interp \<Rightarrow> oid \<Rightarrow> ('x, unit) M" where
  "endApplyUpdate E self ob =
     bindM (getO ob updatingPropsAndValues) (\<lambda>items.
     bindM (foldM (applyItem E self ob) items ([], [])) (\<lambda>(items', ignored).
     bindM (endApplyProperties self ob (fold eraseFirst ignored items')) (\<lambda>_.
     modO ob (\<lambda>x. x\<lparr>updatingPropsAndValues := []\<rparr>))))"

definition endUpdateInternal :: "'x core_ops \<Rightarrow> 'x interp \<Rightarrow> oid \<Rightarrow> bool \<Rightarrow> ('x, ErrCode) M" where
  "endUpdateInternal E self ob deep =
     bindM (getO ob updateCount) (\<lambda>k.
     if k = 0 then throwM OPENDAQ_ERR_INVALIDSTATE
     else
       bindM (modO ob (\<lambda>x. x\<lparr>updateCount := k - 1\<rparr>)) (\<lambda>_.
       bindM (if deep then callOnChildren self EndUpdate ob else retM ()) (\<lambda>_.
       bindM (if k - 1 = 0 then endApplyUpdate E self ob else retM ()) (\<lambda>_.
       retM OPENDAQ_SUCCESS))))"

section \<open>Owner, path and core events\<close>

definition setOwner :: "oid \<Rightarrow> oid option \<Rightarrow> ('x, ErrCode) M" where
  "setOwner ob newOwner =
     bindM (getO ob owner) (\<lambda>cur.
     if cur = newOwner then retM OPENDAQ_IGNORED
     else bindM (modO ob (\<lambda>x. x\<lparr>owner := newOwner\<rparr>)) (\<lambda>_. retM OPENDAQ_SUCCESS))"

definition setPath :: "oid \<Rightarrow> string \<Rightarrow> ('x, ErrCode) M" where
  "setPath ob pth =
     bindM (getO ob opath) (\<lambda>cur.
     if cur \<noteq> [] then retM OPENDAQ_IGNORED
     else bindM (modO ob (\<lambda>x. x\<lparr>opath := pth\<rparr>)) (\<lambda>_. retM OPENDAQ_SUCCESS))"

definition setCoreEventTrigger :: "oid \<Rightarrow> bool \<Rightarrow> ('x, ErrCode) M" where
  "setCoreEventTrigger ob trig = bindM (modO ob (\<lambda>x. x\<lparr>triggerCoreEvent := trig\<rparr>)) (\<lambda>_. retM OPENDAQ_SUCCESS)"

definition enableCoreEventTrigger :: "'x interp \<Rightarrow> oid \<Rightarrow> ('x, ErrCode) M" where
  "enableCoreEventTrigger self ob =
     bindM (modO ob (\<lambda>x. x\<lparr>coreEventMuted := False\<rparr>)) (\<lambda>_.
     bindM (getO ob propValues) (\<lambda>kvs.
     bindM (foldM (\<lambda>(n, v) _. configureClonedObj self ob n v) kvs ()) (\<lambda>_.
     retM OPENDAQ_SUCCESS)))"

definition disableCoreEventTrigger :: "'x interp \<Rightarrow> oid \<Rightarrow> ('x, ErrCode) M" where
  "disableCoreEventTrigger self ob =
     bindM (modO ob (\<lambda>x. x\<lparr>coreEventMuted := True\<rparr>)) (\<lambda>_.
     bindM (getO ob (\<lambda>x. map snd (propValues x) @
        List.map_filter (\<lambda>(_, p). if p_valueType p = ctObject then p_defaultValue p else None) (localProperties x))) (\<lambda>vs.
     bindM (foldM (\<lambda>v _. case v of ObjectV c \<Rightarrow> bindM (self (DisableCoreEventTrigger c)) (\<lambda>_. retM ()) | _ \<Rightarrow> retM ()) vs ()) (\<lambda>_.
     retM OPENDAQ_SUCCESS)))"

definition freeze :: "oid \<Rightarrow> ('x, ErrCode) M" where
  "freeze ob = bindM (getO ob frozen) (\<lambda>fr.
     if fr then retM OPENDAQ_IGNORED
     else bindM (modO ob (\<lambda>x. x\<lparr>frozen := True\<rparr>)) (\<lambda>_. retM OPENDAQ_SUCCESS))"

section \<open>Adding, removing and ordering properties\<close>

definition hasDuplicateReferences :: "'x pobj \<Rightarrow> 'x property \<Rightarrow> bool" where
  "hasDuplicateReferences x p =
     (case p_refProp p of None \<Rightarrow> False | Some n \<Rightarrow> lookupProperty x n \<noteq> None \<and> checkForReferences x n)"

text \<open>
  \<open>addProperty\<close> for properties without a property object as default value: an object-type property also
  clones its default, which is not modelled.
\<close>

definition addProperty :: "oid \<Rightarrow> 'x property \<Rightarrow> ('x, ErrCode) M" where
  "addProperty ob p =
     bindM (getO ob (\<lambda>x. (frozen x, hasDuplicateReferences x p, om_has (localProperties x) (p_name p)))) (\<lambda>(fr, dup, exists).
     if fr then throwM OPENDAQ_ERR_FROZEN
     else if dup then throwM OPENDAQ_ERR_INVALIDVALUE
     else if exists then throwM OPENDAQ_ERR_ALREADYEXISTS
     else
       bindM (modO ob (\<lambda>x. x\<lparr>localProperties := om_insert (p_name p) p (localProperties x),
           valueReadEvents := (if p_onValueRead p \<noteq> [] \<and> valueReadEvents x (p_name p) = None
              then (valueReadEvents x)(p_name p \<mapsto> p_onValueRead p) else valueReadEvents x),
           valueWriteEvents := (if p_onValueWrite p \<noteq> [] \<and> valueWriteEvents x (p_name p) = None
              then (valueWriteEvents x)(p_name p \<mapsto> p_onValueWrite p) else valueWriteEvents x)\<rparr>)) (\<lambda>_.
       bindM (getO ob opath) (\<lambda>pth.
       bindM (triggerCoreEventInternal ob (PropertyAdded ob (p_name p) pth)) (\<lambda>_.
       retM OPENDAQ_SUCCESS))))"

definition removeProperty :: "oid \<Rightarrow> string \<Rightarrow> ('x, ErrCode) M" where
  "removeProperty ob n =
     bindM (getO ob (\<lambda>x. (frozen x, om_has (localProperties x) n))) (\<lambda>(fr, exists).
     if fr then throwM OPENDAQ_ERR_FROZEN
     else if \<not> exists then throwM OPENDAQ_ERR_NOTFOUND
     else
       bindM (modO ob (\<lambda>x. x\<lparr>localProperties := om_erase n (localProperties x), propValues := om_erase n (propValues x)\<rparr>)) (\<lambda>_.
       bindM (getO ob opath) (\<lambda>pth.
       bindM (triggerCoreEventInternal ob (PropertyRemoved ob n pth)) (\<lambda>_.
       retM OPENDAQ_SUCCESS))))"

definition setPropertyOrderInternal :: "oid \<Rightarrow> string list option \<Rightarrow> bool \<Rightarrow> ('x, ErrCode) M" where
  "setPropertyOrderInternal ob ns isUpdating =
     bindM (getO ob frozen) (\<lambda>fr.
     if fr then throwM OPENDAQ_ERR_FROZEN
     else
       bindM (modO ob (\<lambda>x. x\<lparr>customOrder := (case ns of None \<Rightarrow> [] | Some l \<Rightarrow> l)\<rparr>)) (\<lambda>_.
       bindM (getO ob opath) (\<lambda>pth.
       bindM (if isUpdating then retM () else triggerCoreEventInternal ob (PropertyOrderChanged ob ns pth)) (\<lambda>_.
       retM OPENDAQ_SUCCESS))))"

section \<open>Nested calls\<close>

definition asCall :: "('x, ErrCode) M \<Rightarrow> ('x, 'x val option) M" where
  "asCall m = bindM m (\<lambda>_. retM None)"

definition dispatch :: "'x core_ops \<Rightarrow> 'x interp \<Rightarrow> 'x interp" where
  "dispatch E self c =
     (case c of
        SetPropertyValue ob n v \<Rightarrow> asCall (setPropertyValue E self ob n v)
      | SetProtectedPropertyValue ob n v \<Rightarrow> asCall (setProtectedPropertyValue E self ob n v)
      | GetPropertyValue ob n \<Rightarrow> getPropertyValue self ob n
      | ClearPropertyValue ob n \<Rightarrow> asCall (clearPropertyValue E self ob n)
      | ClearProtectedPropertyValue ob n \<Rightarrow> asCall (clearProtectedPropertyValue E self ob n)
      | BeginUpdate ob \<Rightarrow> asCall (beginUpdateInternal self ob True)
      | EndUpdate ob \<Rightarrow> asCall (endUpdateInternal E self ob True)
      | SetOwner ob ow \<Rightarrow> asCall (setOwner ob (Some ow))
      | ConfigureCoreEvents ob pth trig \<Rightarrow>
          asCall (bindM (setPath ob pth) (\<lambda>_. bindM (setCoreEventTrigger ob trig) (\<lambda>_. enableCoreEventTrigger self ob)))
      | DisableCoreEventTrigger ob \<Rightarrow> asCall (disableCoreEventTrigger self ob))"

primrec exec :: "'x core_ops \<Rightarrow> nat \<Rightarrow> 'x interp" where
  "exec E 0 = (\<lambda>c w. None)"
| "exec E (Suc k) = dispatch E (exec E k)"

section \<open>Properties of the update stack\<close>

lemma stack_simps [simp]:
  "stack_getPropertyValue n (st(n \<mapsto> it)) = Some (si_value it)"
  "stack_getPropertyValue n (st(n := None)) = None"
  by (simp_all add: stack_getPropertyValue_def)

definition registerAll :: "'x core_ops \<Rightarrow> string \<Rightarrow> 'x val option list \<Rightarrow> 'x update_stack \<Rightarrow> 'x update_stack" where
  "registerAll E n vs st = fold (\<lambda>v s. snd (registerPropertyUpdating E n v s)) vs st"

fun unregisterTimes :: "nat \<Rightarrow> string \<Rightarrow> 'x update_stack \<Rightarrow> bool list \<times> 'x update_stack" where
  "unregisterTimes 0 n st = ([], st)"
| "unregisterTimes (Suc k) n st =
     (let (r, st1) = unregisetPropertyUpdating n st; (rs, st2) = unregisterTimes k n st1 in (r # rs, st2))"

lemma registerAll_Some:
  "st n = Some it \<Longrightarrow> successively (\<lambda>a b. \<not> ptr_eq E a b) (si_value it # vs) \<Longrightarrow> si_isPushed it \<Longrightarrow>
   registerAll E n vs st = st(n \<mapsto> it\<lparr>si_value := last (si_value it # vs), si_stackLevel := si_stackLevel it + length vs\<rparr>)"
proof (induction vs arbitrary: st it)
  case Nil
  then show ?case by (auto simp: registerAll_def fun_upd_idem_iff)
next
  case (Cons v vs)
  define it' where "it' = it\<lparr>si_value := v, si_isPushed := True, si_stackLevel := Suc (si_stackLevel it)\<rparr>"
  have "registerAll E n (v # vs) st = registerAll E n vs (st(n \<mapsto> it'))"
    using Cons.prems by (simp add: registerAll_def registerPropertyUpdating_def si_setValue_def it'_def)
  also have "\<dots> = (st(n \<mapsto> it'))(n \<mapsto> it'\<lparr>si_value := last (v # vs), si_stackLevel := si_stackLevel it' + length vs\<rparr>)"
  proof -
    have "si_value it' = v" by (simp add: it'_def)
    moreover have "registerAll E n vs (st(n \<mapsto> it')) =
        (st(n \<mapsto> it'))(n \<mapsto> it'\<lparr>si_value := last (si_value it' # vs), si_stackLevel := si_stackLevel it' + length vs\<rparr>)"
      by (rule Cons.IH) (use Cons.prems in \<open>auto simp: it'_def successively_Cons\<close>)
    ultimately show ?thesis by (simp only:)
  qed
  finally show ?case using Cons.prems(3) by (cases it) (simp add: it'_def)
qed

lemma unregisterTimes_not_pushed:
  "st n = Some it \<Longrightarrow> \<not> si_isPushed it \<Longrightarrow> si_stackLevel it = Suc k \<Longrightarrow>
   unregisterTimes (Suc k) n st = (replicate (Suc k) False, st(n := None))"
proof (induction k arbitrary: st it)
  case 0
  then show ?case by (auto simp: unregisetPropertyUpdating_def si_unregister_def)
next
  case (Suc k)
  let ?it = "it\<lparr>si_isPushed := False, si_stackLevel := si_stackLevel it - 1\<rparr>"
  from Suc.prems have u: "unregisetPropertyUpdating n st = (False, st(n \<mapsto> ?it))"
    by (simp add: unregisetPropertyUpdating_def si_unregister_def)
  have "unregisterTimes (Suc k) n (st(n \<mapsto> ?it)) = (replicate (Suc k) False, st(n := None))"
  proof -
    have "unregisterTimes (Suc k) n (st(n \<mapsto> ?it)) = (replicate (Suc k) False, (st(n \<mapsto> ?it))(n := None))"
      by (rule Suc.IH[where it = ?it]) (use Suc.prems in auto)
    then show ?thesis by (simp only: fun_upd_upd)
  qed
  then show ?case by (simp only: unregisterTimes.simps(2)[of "Suc k"] u Let_def prod.case replicate_Suc)
qed

text \<open>C23: A property that is written again from inside its own write handlers: after the nested writes
  of values \<open>vs\<close> (each different from the one it replaces) the stack reports the last value; when the
  writes return, only the innermost, which returns first, is told to store its value, and the
  property leaves the stack with the outermost.\<close>

theorem update_stack_innermost_wins:
  assumes "st n = None" and "vs \<noteq> []" and "successively (\<lambda>a b. \<not> ptr_eq E a b) vs"
  shows "stack_getPropertyValue n (registerAll E n vs st) = Some (last vs)
    \<and> unregisterTimes (length vs) n (registerAll E n vs st) = (True # replicate (length vs - 1) False, st)"
proof -
  obtain v us where vs: "vs = v # us" using assms(2) by (cases vs) auto
  define it where "it = (PropertyUpdateStackItem v)\<lparr>si_value := last vs, si_stackLevel := length vs\<rparr>"
  have "registerAll E n vs st = registerAll E n us (st(n \<mapsto> PropertyUpdateStackItem v))"
    using assms(1) by (simp add: vs registerAll_def registerPropertyUpdating_def)
  also have "\<dots> = st(n \<mapsto> it)"
    using registerAll_Some[of "st(n \<mapsto> PropertyUpdateStackItem v)" n "PropertyUpdateStackItem v" E us] assms(3)
    by (simp add: vs it_def PropertyUpdateStackItem_def)
  finally have reg: "registerAll E n vs st = st(n \<mapsto> it)" .
  have un: "unregisetPropertyUpdating n (st(n \<mapsto> it)) =
      (True, if us = [] then st else st(n \<mapsto> it\<lparr>si_isPushed := False, si_stackLevel := length us\<rparr>))"
    using assms(1) by (auto simp: unregisetPropertyUpdating_def si_unregister_def it_def PropertyUpdateStackItem_def vs fun_upd_idem_iff)
  have "unregisterTimes (length us) n (if us = [] then st else st(n \<mapsto> it\<lparr>si_isPushed := False, si_stackLevel := length us\<rparr>))
      = (replicate (length us) False, st)"
  proof (cases "length us")
    case (Suc k)
    with unregisterTimes_not_pushed[of "st(n \<mapsto> it\<lparr>si_isPushed := False, si_stackLevel := length us\<rparr>)" n _ k] assms(1)
    show ?thesis by (auto simp del: unregisterTimes.simps simp: fun_upd_idem_iff)
  qed simp
  with un have "unregisterTimes (length vs) n (st(n \<mapsto> it)) = (True # replicate (length vs - 1) False, st)"
    by (simp add: vs)
  with reg show ?thesis by (simp add: it_def vs)
qed

theorem update_stack_innermost_wins_witness:
  "stack_getPropertyValue ''P'' (registerAll int_ops ''P'' [Some (ScalarV 1), Some (ScalarV 2), None] Map.empty) = Some None
   \<and> unregisterTimes 3 ''P'' (registerAll int_ops ''P'' [Some (ScalarV 1), Some (ScalarV 2), None] Map.empty)
     = ([True, False, False], Map.empty)"
  using update_stack_innermost_wins[of Map.empty "''P''" "[Some (ScalarV 1), Some (ScalarV 2), None]" int_ops]
  by (simp add: int_ops_def eval_nat_numeral del: unregisterTimes.simps)

section \<open>Every call leaves the update stacks balanced\<close>

definition level :: "'x world \<Rightarrow> oid \<Rightarrow> string \<Rightarrow> nat" where
  "level w ob n = (case updatePropertyStack (objs w ob) n of None \<Rightarrow> 0 | Some it \<Rightarrow> si_stackLevel it)"

text \<open>
  The calls never change which properties an object has nor its any-write handlers. \<open>tame\<close> says that
  no handler is installed that runs outside \<^verbatim>\<open>daqTry\<close>: no any-write handler, no write handler of a
  class property.
\<close>

type_synonym 'x statics = "oid \<Rightarrow> (string, 'x property) omap \<times> 'x property list option \<times> 'x handler list"

definition statics :: "'x world \<Rightarrow> 'x statics" where
  "statics w ob = (localProperties (objs w ob), objectClass (objs w ob), anyWriteEvent (objs w ob))"

definition tame :: "'x statics \<Rightarrow> bool" where
  "tame S \<longleftrightarrow> (\<forall>ob. case S ob of (loc, cls, any) \<Rightarrow>
     any = [] \<and> (\<forall>(n, p) \<in> set loc. p_name p = n) \<and>
     (\<forall>ps \<in> set_option cls. \<forall>p \<in> set ps. p_onValueWrite p = []))"

definition levels_ok :: "'x world \<Rightarrow> bool" where
  "levels_ok w \<longleftrightarrow> (\<forall>ob n it. updatePropertyStack (objs w ob) n = Some it \<longrightarrow> 0 < si_stackLevel it)"

definition at_level :: "'x statics \<Rightarrow> (oid \<Rightarrow> string \<Rightarrow> nat) \<Rightarrow> 'x world \<Rightarrow> bool" where
  "at_level S L w \<longleftrightarrow> statics w = S \<and> levels_ok w \<and> level w = L"

definition balanced :: "'x statics \<Rightarrow> ('x, 'a) M \<Rightarrow> bool" where
  "balanced S m \<longleftrightarrow> (\<forall>L w r w'. at_level S L w \<longrightarrow> m w = Some (r, w') \<longrightarrow> at_level S L w')"

definition yields :: "'x statics \<Rightarrow> ('x, 'a) M \<Rightarrow> ('a \<Rightarrow> bool) \<Rightarrow> bool" where
  "yields S m Q \<longleftrightarrow> (\<forall>w a w'. statics w = S \<longrightarrow> m w = Some (Inr a, w') \<longrightarrow> Q a)"

named_theorems balanced_intros

lemma balanced_bind_yields:
  assumes "balanced S m" "yields S m Q" "\<And>a. Q a \<Longrightarrow> balanced S (f a)"
  shows "balanced S (bindM m f)"
  unfolding balanced_def
proof (intro allI impI)
  fix L w r w' assume w: "at_level S L w" and run: "bindM m f w = Some (r, w')"
  then obtain r1 w1 where m: "m w = Some (r1, w1)" by (auto simp: bindM_def split: option.splits)
  with assms(1) w have 1: "at_level S L w1" unfolding balanced_def by blast
  show "at_level S L w'"
  proof (cases r1)
    case (Inl e)
    with run m 1 show ?thesis by (simp add: bindM_def)
  next
    case (Inr a)
    with run m have f: "f a w1 = Some (r, w')" by (simp add: bindM_def)
    from assms(2) m Inr w have "Q a" by (auto simp: yields_def at_level_def)
    from assms(3)[OF this] 1 f show ?thesis unfolding balanced_def by blast
  qed
qed

lemma balanced_bind [balanced_intros]:
  "balanced S m \<Longrightarrow> (\<And>a. balanced S (f a)) \<Longrightarrow> balanced S (bindM m f)"
  by (rule balanced_bind_yields[where Q = "\<lambda>_. True"]) (auto simp: yields_def)

lemma balanced_basic [balanced_intros]:
  "balanced S (retM a)" "balanced S (throwM e)" "balanced S (getO ob f)" "balanced S (liftM r)"
  "balanced S (\<lambda>w. Some (g w, w))" "balanced S (\<lambda>w. map_option (\<lambda>r. (r, w)) (h w))"
  "balanced S (checkForRefPropAndGetBoundProp ob p)"
  by (auto simp: balanced_def retM_def throwM_def getO_def liftM_def checkForRefPropAndGetBoundProp_def)

lemma balanced_try [balanced_intros]: "balanced S m \<Longrightarrow> balanced S (tryM m)"
  by (auto simp: balanced_def tryM_def)

lemma balanced_event [balanced_intros]: "balanced S (triggerCoreEventInternal ob ev)"
  by (auto simp: balanced_def triggerCoreEventInternal_def at_level_def statics_def levels_ok_def level_def fun_eq_iff)

lemma balanced_mod [balanced_intros]:
  assumes "\<And>x. updatePropertyStack (f x) = updatePropertyStack x \<and> anyWriteEvent (f x) = anyWriteEvent x
    \<and> objectClass (f x) = objectClass x \<and> localProperties (f x) = localProperties x"
  shows "balanced S (modO ob f)"
  using assms by (auto simp: balanced_def modO_def at_level_def statics_def levels_ok_def level_def fun_eq_iff)

lemma balanced_cases [balanced_intros]:
  "(b \<Longrightarrow> balanced S m1) \<Longrightarrow> (\<not> b \<Longrightarrow> balanced S m2) \<Longrightarrow> balanced S (if b then m1 else m2)"
  "(v = None \<Longrightarrow> balanced S m1) \<Longrightarrow> (\<And>y. v = Some y \<Longrightarrow> balanced S (f y)) \<Longrightarrow> balanced S (case v of None \<Rightarrow> m1 | Some y \<Rightarrow> f y)"
  "(\<And>a b. pq = (a, b) \<Longrightarrow> balanced S (g a b)) \<Longrightarrow> balanced S (case pq of (a, b) \<Rightarrow> g a b)"
  "(\<And>e. s = Inl e \<Longrightarrow> balanced S (f1 e)) \<Longrightarrow> (\<And>y. s = Inr y \<Longrightarrow> balanced S (f2 y)) \<Longrightarrow> balanced S (case s of Inl e \<Rightarrow> f1 e | Inr y \<Rightarrow> f2 y)"
  "(\<And>x. balanced S (h1 x)) \<Longrightarrow> (\<And>t vs. balanced S (h2 t vs)) \<Longrightarrow> (\<And>k t vs. balanced S (h3 k t vs)) \<Longrightarrow> (\<And>c. balanced S (h4 c)) \<Longrightarrow>
     balanced S (case u of ScalarV x \<Rightarrow> h1 x | ListV t vs \<Rightarrow> h2 t vs | DictV k t kvs \<Rightarrow> h3 k t kvs | ObjectV c \<Rightarrow> h4 c)"
  by (auto split: option.splits prod.splits sum.splits val.splits)

lemma balanced_foldM:
  "(\<And>a b. balanced S (f a b)) \<Longrightarrow> balanced S (foldM f as b)"
  by (induction as arbitrary: b) (auto intro: balanced_intros)

lemma balanced_actions:
  assumes "\<And>c. balanced S (self c)"
  shows "balanced S (runActions self as v)"
  using assms by (induction self as v rule: runActions.induct) (auto intro!: balanced_intros)

lemma balanced_trigger:
  assumes "\<And>c. balanced S (self c)"
  shows "balanced S (trigger self hs v)"
  using assms by (induction self hs v rule: trigger.induct) (auto intro!: balanced_intros balanced_actions)

lemma actions_never_throw: "runActions self as v w = Some (r, w') \<Longrightarrow> \<exists>a f. r = Inr (a, f)"
  by (induction self as v arbitrary: w rule: runActions.induct)
     (auto simp: retM_def bindM_def tryM_def split: option.splits sum.splits)

lemma trigger_never_throws: "trigger self hs v w = Some (r, w') \<Longrightarrow> \<exists>a f. r = Inr (a, f)"
  by (induction self hs v arbitrary: w rule: trigger.induct)
     (auto simp: retM_def bindM_def split: option.splits sum.splits prod.splits dest: actions_never_throw)

lemma balanced_emit:
  "(\<And>c. balanced S (self c)) \<Longrightarrow> balanced S (emit self hs v)"
  unfolding emit_def by (intro balanced_intros balanced_trigger)

lemmas balanced_handlers = balanced_intros balanced_foldM balanced_trigger balanced_emit balanced_actions

lemma balanced_reads:
  assumes "\<And>c. balanced S (self c)"
  shows "balanced S (getUnboundProperty ob n)" "balanced S (callPropertyValueRead self ob p v)"
    "balanced S (getPropertyAndValueInternal self ob n te ru)" "balanced S (getChildPropertyValue self ob n m)"
    "balanced S (getPropertyValueInternal self ob n ru)" "balanced S (childObject self ob n)"
proof -
  show 1: "balanced S (getUnboundProperty ob n)" for n unfolding getUnboundProperty_def by (intro balanced_handlers)
  show 2: "balanced S (callPropertyValueRead self ob p v)" for p v
    unfolding callPropertyValueRead_def by (intro balanced_handlers assms)
  show 3: "balanced S (getPropertyAndValueInternal self ob n te ru)" for n te ru
    unfolding getPropertyAndValueInternal_def Let_def by (intro balanced_handlers 1 2)
  show 4: "balanced S (getChildPropertyValue self ob n m)" for n m
    unfolding getChildPropertyValue_def by (intro balanced_handlers assms 1 3)
  show 5: "balanced S (getPropertyValueInternal self ob n ru)" for n ru
    unfolding getPropertyValueInternal_def Let_def by (intro balanced_handlers 3 4)
  show "balanced S (childObject self ob n)"
    unfolding childObject_def by (intro balanced_handlers 5)
qed

definition known :: "'x statics \<Rightarrow> oid \<Rightarrow> 'x property \<Rightarrow> bool" where
  "known S ob p \<longleftrightarrow> (case S ob of (loc, cls, any) \<Rightarrow> p \<in> snd ` set loc \<or> (\<exists>ps \<in> set_option cls. p \<in> set ps))"

lemma lookup_known: "lookupProperty (objs w ob) n = Some p \<Longrightarrow> known (statics w) ob p"
  by (auto simp: lookupProperty_def known_def statics_def find_Some_iff
      dest!: map_of_SomeD split: option.splits intro: image_eqI[where x = "(_, p)"])

lemma follow_refs_known:
  "follow_refs f (objs w ob) isRef p = Some (Inr (q, b)) \<Longrightarrow> known (statics w) ob p \<Longrightarrow> known (statics w) ob q"
proof (induction f "objs w ob" isRef p rule: follow_refs.induct)
  case (1 f isRef p)
  show ?case
  proof (cases "p_refProp p")
    case None
    with "1.prems" show ?thesis by simp
  next
    case (Some n)
    with "1.prems"(1) obtain q' where l: "lookupProperty (objs w ob) n = Some q'" by (auto split: option.splits)
    with "1.prems"(1) Some obtain f' where "f = Suc f'" "follow_refs f' (objs w ob) True q' = Some (Inr (q, b))"
      by (auto split: nat.splits simp del: follow_refs.simps simp: follow_refs.simps[of f])
    with "1.hyps"[OF Some l] lookup_known[OF l] show ?thesis by blast
  qed
qed

lemma yields_unbound: "yields S (getUnboundProperty ob n) (known S ob)"
  by (auto simp: yields_def getUnboundProperty_def bindM_def getO_def retM_def throwM_def lookup_known split: option.splits)

lemma yields_bound:
  "known S ob p \<Longrightarrow> yields S (checkForRefPropAndGetBoundProp ob p) (\<lambda>(q, _). known S ob q)"
  unfolding yields_def checkForRefPropAndGetBoundProp_def by (auto dest: follow_refs_known simp del: follow_refs.simps)

lemma known_quiet:
  "tame S \<Longrightarrow> known S ob p \<Longrightarrow> \<not> om_has (fst (S ob)) (p_name p) \<Longrightarrow> p_onValueWrite p = []"
proof -
  assume a: "tame S" "known S ob p" "\<not> om_has (fst (S ob)) (p_name p)"
  obtain loc cls any where S: "S ob = (loc, cls, any)" by (metis prod_cases3)
  have "p \<notin> snd ` set loc"
  proof
    assume "p \<in> snd ` set loc"
    then obtain n where n: "(n, p) \<in> set loc" by auto
    with a(1) S have "p_name p = n" by (auto simp: tame_def dest!: spec[of _ ob])
    with n a(3) S show False by (auto simp: om_has_iff image_iff)
  qed
  with a(1,2) S show ?thesis by (auto simp: tame_def known_def dest!: spec[of _ ob])
qed

definition raise :: "(oid \<Rightarrow> string \<Rightarrow> nat) \<Rightarrow> oid \<Rightarrow> string \<Rightarrow> oid \<Rightarrow> string \<Rightarrow> nat" where
  "raise L ob n = L(ob := (L ob)(n := Suc (L ob n)))"

definition item_level :: "'x stack_item option \<Rightarrow> nat" where
  "item_level x = (case x of None \<Rightarrow> 0 | Some it \<Rightarrow> si_stackLevel it)"

definition put_item :: "oid \<Rightarrow> string \<Rightarrow> 'x stack_item option \<Rightarrow> 'x world \<Rightarrow> 'x world" where
  "put_item ob n x w = w\<lparr>objs := (objs w)(ob := (objs w ob)\<lparr>updatePropertyStack := (updatePropertyStack (objs w ob))(n := x)\<rparr>)\<rparr>"

lemma at_level_put:
  assumes "at_level S L w" "x \<noteq> None \<Longrightarrow> 0 < item_level x"
  shows "at_level S (L(ob := (L ob)(n := item_level x))) (put_item ob n x w)"
proof -
  have "level (put_item ob n x w) ob' m = (L(ob := (L ob)(n := item_level x))) ob' m" for ob' m
    using assms(1) by (auto simp: at_level_def level_def put_item_def item_level_def)
  then have "level (put_item ob n x w) = L(ob := (L ob)(n := item_level x))" by blast
  moreover have "statics (put_item ob n x w) = S" "levels_ok (put_item ob n x w)"
    using assms by (auto simp: at_level_def statics_def levels_ok_def put_item_def item_level_def fun_eq_iff split: option.splits)
  ultimately show ?thesis by (simp add: at_level_def)
qed

lemma item_level_at: "at_level S L w \<Longrightarrow> item_level (updatePropertyStack (objs w ob) n) = L ob n"
  by (auto simp: at_level_def level_def item_level_def)

lemma register_level:
  assumes "at_level S L w"
  obtains reg w1 where "registerM E ob n v w = Some (Inr reg, w1)" "at_level S (if reg then raise L ob n else L) w1"
proof -
  let ?cur = "updatePropertyStack (objs w ob) n"
  define r where "r = (case ?cur of None \<Rightarrow> (True, PropertyUpdateStackItem v) | Some it \<Rightarrow> si_setValue E v it)"
  have "registerM E ob n v w = Some (Inr (fst r), put_item ob n (Some (snd r)) w)"
    by (auto simp: registerM_def bindM_def getO_def modO_def retM_def put_item_def registerPropertyUpdating_def r_def
        split: option.splits prod.splits)
  moreover have "item_level (Some (snd r)) = (if fst r then Suc (L ob n) else L ob n) \<and> 0 < item_level (Some (snd r))"
    using item_level_at[OF assms, of ob n] assms
    by (auto simp: r_def item_level_def PropertyUpdateStackItem_def si_setValue_def at_level_def levels_ok_def split: option.splits)
  with at_level_put[OF assms, of "Some (snd r)" ob n] have "at_level S (if fst r then raise L ob n else L) (put_item ob n (Some (snd r)) w)"
    by (auto simp: raise_def)
  ultimately show ?thesis by (rule that)
qed

lemma unregister_level:
  assumes "at_level S (raise L ob n) w"
  obtains su w1 where "unregisterM ob n w = Some (Inr su, w1)" "at_level S L w1"
proof -
  have "item_level (updatePropertyStack (objs w ob) n) = Suc (L ob n)"
    using item_level_at[OF assms, of ob n] by (simp add: raise_def)
  then obtain it where it: "updatePropertyStack (objs w ob) n = Some it" "si_stackLevel it = Suc (L ob n)"
    by (auto simp: item_level_def split: option.splits)
  define x where "x = (if L ob n = 0 then None else Some (it\<lparr>si_isPushed := False, si_stackLevel := L ob n\<rparr>))"
  have "unregisterM ob n w = Some (Inr (si_isPushed it), put_item ob n x w)"
    using it by (simp add: unregisterM_def bindM_def getO_def modO_def retM_def unregisetPropertyUpdating_def
        si_unregister_def put_item_def x_def)
  moreover have "item_level x = L ob n" "x \<noteq> None \<Longrightarrow> 0 < item_level x"
    by (auto simp: x_def item_level_def split: if_splits)
  then have "(raise L ob n)(ob := (raise L ob n ob)(n := item_level x)) = L" "x \<noteq> None \<Longrightarrow> 0 < item_level x"
    by (auto simp: raise_def fun_eq_iff)
  with at_level_put[OF assms, of x ob n] have "at_level S L (put_item ob n x w)" by simp
  ultimately show ?thesis by (rule that)
qed

lemma runWriteHandlers_quiet:
  assumes "tame S" "known S ob p" "\<And>c. balanced S (self c)" "at_level S L w" "runWriteHandlers self ob p arg w = Some (r, w1)"
  obtains a failed where "r = Inr (a, failed)" "at_level S L w1"
proof -
  have S: "statics w = S" using assms(4) by (simp add: at_level_def)
  have cls: "(if om_has (localProperties (objs w ob)) (p_name p) then [] else p_onValueWrite p) = []"
    using known_quiet[OF assms(1,2)] S by (auto simp: statics_def)
  define own where "own = (case valueWriteEvents (objs w ob) (p_name p) of None \<Rightarrow> [] | Some hs \<Rightarrow> hs)"
  have run: "runWriteHandlers self ob p arg w = bindM (trigger self own arg) (\<lambda>(a2, failed).
     bindM (getO ob anyWriteEvent) (\<lambda>any. bindM (emit self any a2) (\<lambda>a3. retM (a3, failed)))) w"
    unfolding runWriteHandlers_def bindM_def[of "getO ob (\<lambda>x. if om_has (localProperties x) (p_name p) then [] else p_onValueWrite p)"]
    by (simp only: getO_def option.case prod.case sum.case cls) (simp add: emit_def bindM_def getO_def retM_def own_def)
  from assms(5) obtain rt w2 where t: "trigger self own arg w = Some (rt, w2)"
    unfolding run bindM_def[of "trigger self own arg"] by (cases "trigger self own arg w") auto
  have "balanced S (trigger self own arg)" by (rule balanced_trigger) (rule assms(3))
  with assms(4) t have w2: "at_level S L w2" unfolding balanced_def by blast
  then have "S ob = (localProperties (objs w2 ob), objectClass (objs w2 ob), anyWriteEvent (objs w2 ob))"
    by (auto simp: at_level_def statics_def)
  with assms(1) have any: "anyWriteEvent (objs w2 ob) = []" by (auto simp: tame_def dest!: spec[of _ ob])
  from trigger_never_throws[OF t] obtain a f where rt: "rt = Inr (a, f)" by blast
  have "r = Inr (a, f) \<and> w1 = w2"
    using assms(5) unfolding run by (simp add: bindM_def getO_def retM_def emit_def t rt any)
  with w2 that show ?thesis by blast
qed

lemma balanced_resolve:
  assumes "\<And>q b. known S ob q \<Longrightarrow> balanced S (f q b)"
  shows "balanced S (bindM (getUnboundProperty ob n) (\<lambda>p0. bindM (checkForRefPropAndGetBoundProp ob p0) (\<lambda>(q, b). f q b)))"
proof (rule balanced_bind_yields[OF _ yields_unbound])
  show "balanced S (getUnboundProperty ob n)" unfolding getUnboundProperty_def by (intro balanced_intros)
  fix p assume "known S ob p"
  then show "balanced S (bindM (checkForRefPropAndGetBoundProp ob p) (\<lambda>(q, b). f q b))"
    by (intro balanced_bind_yields[OF _ yields_bound] balanced_intros) (auto intro: assms)
qed

lemma balanced_writeLocal [balanced_intros]: "balanced S (writeLocalValue E ob n v fw)"
  unfolding writeLocalValue_def by (intro balanced_intros; simp)

lemma balanced_local:
  assumes "\<And>c. balanced S (self c)"
  shows "balanced S (setOwnerToPropertyValue self ob u)" "balanced S (configureClonedObj self ob n u)"
  unfolding setOwnerToPropertyValue_def configureClonedObj_def
  by (intro balanced_intros assms; simp)+

lemma balanced_store:
  assumes "\<And>c. balanced S (self c)" "\<And>v up. balanced S (write ob p v False up)"
  shows "balanced S (storeValue E self write ob p v te up)"
  unfolding storeValue_def by (intro balanced_intros balanced_local assms)

lemma balanced_setWith:
  assumes "\<And>c. balanced S (self c)" "\<And>p v up. known S ob p \<Longrightarrow> balanced S (write ob p v False up)"
  shows "balanced S (setPropertyValueWith E self write ob n v te pa ba up)"
proof -
  have child: "balanced S (childObject self ob m)" for m by (rule balanced_reads) (rule assms)
  show ?thesis
    unfolding setPropertyValueWith_def Let_def
    by (intro balanced_cases balanced_bind balanced_basic balanced_mod balanced_resolve balanced_local balanced_store
        assms child; (assumption | simp))
qed

lemma balanced_callWrite:
  assumes "tame S" "\<And>c. balanced S (self c)" "known S ob p"
  shows "balanced S (callPropertyValueWrite E self ob p nv cl up)"
  unfolding balanced_def
proof (intro allI impI)
  fix L w r w' assume w: "at_level S L w" and run: "callPropertyValueWrite E self ob p nv cl up w = Some (r, w')"
  let ?n = "p_name p"
  have finish: "balanced S (finishWrite E self ob p nv cl a failed su)" for a failed su
    unfolding finishWrite_def by (intro balanced_intros balanced_setWith assms)
  from register_level[OF w, of E ob ?n nv] obtain reg w1 where
    reg: "registerM E ob ?n nv w = Some (Inr reg, w1)" "at_level S (if reg then raise L ob ?n else L) w1" by blast
  show "at_level S L w'"
  proof (cases reg)
    case False
    with run reg show ?thesis by (simp add: callPropertyValueWrite_def Let_def bindM_def retM_def)
  next
    case True
    with reg have w1: "at_level S (raise L ob ?n) w1" by simp
    define same where "same \<longleftrightarrow> isBaseStackLevel ?n (updatePropertyStack (objs w1 ob)) \<and> nv \<noteq> None
      \<and> \<not> shouldWriteLocalValue E (objs w1 ob) ?n (the nv)"
    show ?thesis
    proof (cases same)
      case same: True
      from unregister_level[OF w1] obtain su w2 where "unregisterM ob ?n w1 = Some (Inr su, w2)" "at_level S L w2" by blast
      with run reg True same show ?thesis
        by (simp add: callPropertyValueWrite_def Let_def bindM_def getO_def retM_def same_def)
    next
      case different: False
      let ?arg = "if cl then p_defaultValue p else nv"
      have run1: "bindM (runWriteHandlers self ob p ?arg) (\<lambda>(arg, failed). bindM (unregisterM ob ?n)
          (\<lambda>su. finishWrite E self ob p nv cl arg failed su)) w1 = Some (r, w')"
        using run reg True different
        by (auto simp: callPropertyValueWrite_def Let_def bindM_def[of "registerM E ob ?n nv"] bindM_def[of "getO ob _"] getO_def same_def
            split: if_splits)
      then obtain rh w2 where h: "runWriteHandlers self ob p ?arg w1 = Some (rh, w2)"
        by (cases "runWriteHandlers self ob p ?arg w1") (auto simp: bindM_def)
      from runWriteHandlers_quiet[OF assms(1,3,2) w1 h] obtain a failed where
        rh: "rh = Inr (a, failed)" and w2: "at_level S (raise L ob ?n) w2" by blast
      from unregister_level[OF w2] obtain su w3 where u: "unregisterM ob ?n w2 = Some (Inr su, w3)" and w3: "at_level S L w3" by blast
      have "finishWrite E self ob p nv cl a failed su w3 = Some (r, w')"
        using run1 by (simp add: bindM_def h rh u)
      with finish w3 show ?thesis unfolding balanced_def by blast
    qed
  qed
qed

lemma balanced_writes:
  assumes "tame S" "\<And>c. balanced S (self c)"
  shows "balanced S (setPropertyValueInternal E self ob n v te pa ba up)"
    "balanced S (clearPropertyValueInternal E self ob n pa ba up)"
proof -
  have wr: "known S ob p \<Longrightarrow> balanced S (callPropertyValueWrite E self ob p nv cl up)" for p nv cl up
    by (rule balanced_callWrite[OF assms])
  show "balanced S (setPropertyValueInternal E self ob n v te pa ba up)"
    unfolding setPropertyValueInternal_def by (rule balanced_setWith) (auto intro: assms(2) wr)
  have child: "balanced S (childObject self ob m)" for m by (rule balanced_reads) (rule assms)
  show "balanced S (clearPropertyValueInternal E self ob n pa ba up)"
    unfolding clearPropertyValueInternal_def Let_def
    by (intro balanced_cases balanced_bind balanced_basic balanced_mod balanced_resolve balanced_foldM balanced_event
        assms child wr; (assumption | simp))
qed

lemma balanced_updates:
  assumes "tame S" "\<And>c. balanced S (self c)"
  shows "balanced S (beginUpdateInternal self ob deep)" "balanced S (endUpdateInternal E self ob deep)"
proof -
  have ch: "balanced S (callOnChildren self mk ob)" for mk
    unfolding callOnChildren_def by (intro balanced_intros balanced_foldM assms)
  have item: "balanced S (applyItem E self ob it acc)" for it acc
    unfolding applyItem_def Let_def
    by (intro balanced_cases balanced_bind balanced_basic balanced_try balanced_writes balanced_reads assms)
  have ends: "balanced S (runEndHandlers self hs)" for hs
    by (induction hs) (auto intro!: balanced_intros balanced_actions assms)
  have "balanced S (endApplyUpdate E self ob)"
    unfolding endApplyUpdate_def endApplyProperties_def Let_def
    by (intro balanced_cases balanced_bind balanced_basic balanced_event balanced_foldM balanced_mod item ends; simp)
  then show "balanced S (endUpdateInternal E self ob deep)"
    unfolding endUpdateInternal_def by (intro balanced_cases balanced_bind balanced_basic balanced_mod ch; simp)
  show "balanced S (beginUpdateInternal self ob deep)"
    unfolding beginUpdateInternal_def by (intro balanced_cases balanced_bind balanced_basic balanced_mod ch; simp)
qed

lemma balanced_dispatch:
  assumes "tame S" "\<And>c. balanced S (self c)"
  shows "balanced S (dispatch E self c)"
proof -
  note ops = balanced_writes[OF assms] balanced_updates[OF assms] balanced_reads[OF assms(2)] balanced_local[OF assms(2)]
  show ?thesis
  proof (cases c)
    case (ConfigureCoreEvents ob pth trig)
    then show ?thesis
      unfolding dispatch_def asCall_def setPath_def setCoreEventTrigger_def enableCoreEventTrigger_def
      by simp (intro balanced_cases balanced_bind balanced_basic balanced_mod balanced_foldM; auto intro: ops split: prod.splits)
  next
    case (DisableCoreEventTrigger ob)
    then show ?thesis
      unfolding dispatch_def asCall_def disableCoreEventTrigger_def
      by simp (intro balanced_cases balanced_bind balanced_basic balanced_mod balanced_foldM assms(2); simp)
  next
    case (SetOwner ob ow)
    then show ?thesis
      unfolding dispatch_def asCall_def setOwner_def
      by simp (intro balanced_cases balanced_bind balanced_basic balanced_mod; simp)
  qed (auto simp: dispatch_def asCall_def setPropertyValue_def setProtectedPropertyValue_def clearPropertyValue_def
      clearProtectedPropertyValue_def getPropertyValue_def intro!: balanced_bind balanced_basic ops)
qed

lemma balanced_exec: "tame S \<Longrightarrow> balanced S (exec E k c)"
  by (induction k arbitrary: c) (auto simp: balanced_def[of _ "\<lambda>w. None"] intro: balanced_dispatch)


section \<open>Reading back what was written\<close>

text \<open>A property of the object itself, without reference, and a name without dots and brackets.\<close>

definition plain :: "'x pobj \<Rightarrow> 'x property \<Rightarrow> bool" where
  "plain x p \<longleftrightarrow> lookupProperty x (p_name p) = Some p \<and> p_refProp p = None \<and>
     \<not> isChildProperty (p_name p) \<and> CHR ''['' \<notin> set (p_name p)"

definition noReadHandlers :: "'x pobj \<Rightarrow> 'x property \<Rightarrow> bool" where
  "noReadHandlers x p \<longleftrightarrow> (om_has (localProperties x) (p_name p) \<or> p_onValueRead p = []) \<and>
     valueReadEvents x (p_name p) \<in> {None, Some []} \<and> anyReadEvent x = []"

definition noWriteHandlers :: "'x pobj \<Rightarrow> 'x property \<Rightarrow> bool" where
  "noWriteHandlers x p \<longleftrightarrow> (om_has (localProperties x) (p_name p) \<or> p_onValueWrite p = []) \<and>
     valueWriteEvents x (p_name p) \<in> {None, Some []} \<and> anyWriteEvent x = []"

text \<open>The value of a property that is not being updated.\<close>

definition currentValue :: "'x pobj \<Rightarrow> 'x property \<Rightarrow> 'x val option" where
  "currentValue x p = (case map_of (propValues x) (p_name p) of Some v \<Rightarrow> Some v | None \<Rightarrow> p_defaultValue p)"

lemmas eval_M = bindM_def retM_def throwM_def getO_def modO_def liftM_def

lemma resolve_plain:
  assumes "plain (objs w ob) p"
  shows "getUnboundProperty ob (p_name p) w = Some (Inr p, w)" "checkForRefPropAndGetBoundProp ob p w = Some (Inr (p, False), w)"
  using assms by (simp_all add: plain_def getUnboundProperty_def checkForRefPropAndGetBoundProp_def eval_M)

lemma read_plain:
  assumes "plain (objs w ob) p"
  shows "readLocalValue (objs w ob) (p_name p) =
    (case map_of (propValues (objs w ob)) (p_name p) of None \<Rightarrow> Inl OPENDAQ_ERR_NOTFOUND | Some v \<Rightarrow> Inr v)"
  using assms plain_name_info[of "p_name p"] by (auto simp: plain_def readLocalValue_def split: option.splits)

lemma no_read_handlers:
  "noReadHandlers (objs w ob) p \<Longrightarrow> callPropertyValueRead self ob p v w = Some (Inr v, w)"
  by (auto simp: noReadHandlers_def callPropertyValueRead_def emit_def eval_M)

lemma no_write_handlers:
  "noWriteHandlers (objs w ob) p \<Longrightarrow> runWriteHandlers self ob p v w = Some (Inr (v, None), w)"
  by (auto simp: noWriteHandlers_def runWriteHandlers_def emit_def eval_M)

lemma getAndValue_plain:
  assumes "plain (objs w ob) p" "noReadHandlers (objs w ob) p" "updatePropertyStack (objs w ob) (p_name p) = None"
  shows "getPropertyAndValueInternal self ob (p_name p) True ru w = Some (Inr (currentValue (objs w ob) p, p), w)"
proof -
  have nm: "getPropNameWithoutIndex (p_name p) = (p_name p, None)" "\<not> isChildProperty (p_name p)"
    using assms(1) plain_name_info[of "p_name p"] by (auto simp: plain_def)
  have sv: "storedValue (objs w ob) p (p_name p) None ru = Inr (currentValue (objs w ob) p)"
    using assms(3) by (auto simp: storedValue_def stack_getPropertyValue_def read_plain[OF assms(1)] currentValue_def defaultItem_def
        split: option.splits val.splits)
  show ?thesis
    using resolve_plain[OF assms(1)] no_read_handlers[OF assms(2)]
    by (simp add: getPropertyAndValueInternal_def nm sv eval_M)
qed

lemma get_plain:
  assumes "plain (objs w ob) p" "noReadHandlers (objs w ob) p" "updatePropertyStack (objs w ob) (p_name p) = None"
  shows "getPropertyValue self ob (p_name p) w = Some (Inr (currentValue (objs w ob) p), w)"
  using assms(1) getAndValue_plain[OF assms, of self True]
  by (simp add: getPropertyValue_def getPropertyValueInternal_def plain_def bindM_def retM_def)

definition setsLocally :: "oid \<Rightarrow> 'x property \<Rightarrow> 'x val \<Rightarrow> 'x world \<Rightarrow> 'x world" where
  "setsLocally ob p v w =
     (let x = objs w ob; w1 = w\<lparr>objs := (objs w)(ob := x\<lparr>propValues := om_assign (p_name p) v (propValues x)\<rparr>)\<rparr>
      in if \<not> coreEventMuted x \<and> triggerCoreEvent x
         then w1\<lparr>coreEvents := coreEvents w @ [PropertyValueChanged ob (p_name p) (Some v) (opath x)]\<rparr> else w1)"

lemma stack_write:
  assumes "updatePropertyStack (objs w ob) n = None"
  shows "registerM E ob n v w = Some (Inr True, put_item ob n (Some (PropertyUpdateStackItem v)) w)"
    "unregisterM ob n (put_item ob n (Some (PropertyUpdateStackItem v)) w) = Some (Inr True, w)"
  using assms by (auto simp: registerM_def unregisterM_def eval_M registerPropertyUpdating_def unregisetPropertyUpdating_def
      si_unregister_def PropertyUpdateStackItem_def put_item_def fun_upd_idem)

lemma lookupProperty_upd [simp]:
  "lookupProperty (x\<lparr>updatePropertyStack := st\<rparr>) n = lookupProperty x n"
  "lookupProperty (x\<lparr>propValues := pv\<rparr>) n = lookupProperty x n"
  by (simp_all add: lookupProperty_def cong: option.case_cong)

lemma put_item_keeps [simp]:
  "shouldWriteLocalValue E (objs (put_item ob n x w) ob) m v = shouldWriteLocalValue E (objs w ob) m v"
  "noWriteHandlers (objs (put_item ob n x w) ob) p = noWriteHandlers (objs w ob) p"
  "updatePropertyStack (objs (put_item ob n x w) ob) = (updatePropertyStack (objs w ob))(n := x)"
  by (simp_all add: put_item_def shouldWriteLocalValue_def noWriteHandlers_def cong: option.case_cong)

lemma write_plain:
  assumes "noWriteHandlers (objs w ob) p" "updatePropertyStack (objs w ob) (p_name p) = None" "equals E v v"
  shows "callPropertyValueWrite E self ob p (Some v) False up w =
    Some (Inr (if shouldWriteLocalValue E (objs w ob) (p_name p) v then OPENDAQ_SUCCESS else OPENDAQ_IGNORED, Some v), w)"
proof -
  let ?w1 = "put_item ob (p_name p) (Some (PropertyUpdateStackItem (Some v))) w"
  have h: "runWriteHandlers self ob p (Some v) ?w1 = Some (Inr (Some v, None), ?w1)"
    by (rule no_write_handlers) (use assms(1) in simp)
  show ?thesis
    using stack_write[OF assms(2)] h assms(3)
    by (simp add: callPropertyValueWrite_def Let_def bindM_def getO_def retM_def finishWrite_def isBaseStackLevel_def PropertyUpdateStackItem_def)
qed

definition putsLocally :: "oid \<Rightarrow> 'x property \<Rightarrow> 'x val \<Rightarrow> 'x world \<Rightarrow> 'x world" where
  "putsLocally ob p v w = w\<lparr>objs := (objs w)(ob := (objs w ob)\<lparr>propValues := om_assign (p_name p) v (propValues (objs w ob))\<rparr>)\<rparr>"

lemma set_internal_plain:
  fixes w :: "'x world"
  assumes "plain (objs w ob) p" "noWriteHandlers (objs w ob) p" "updatePropertyStack (objs w ob) (p_name p) = None"
    and "\<not> frozen (objs w ob)" "\<not> p_readOnly p" "p_valueType p \<noteq> ctObject"
    and "prepareValue E (objs w) p v = Inr v'" "\<forall>c. v' \<noteq> ObjectV c" "equals E v' v'"
  shows "setPropertyValueInternal E self ob (p_name p) (Some v) True pa False up w =
    Some (Inr OPENDAQ_SUCCESS, if shouldWriteLocalValue E (objs w ob) (p_name p) v'
      then (if up then putsLocally ob p v' w else setsLocally ob p v' w) else w)"
proof -
  have nm: "\<not> isChildProperty (p_name p)" "splitOnFirstDot (p_name p) = (p_name p, [])" using assms(1) by (auto simp: plain_def)
  have own: "setOwnerToPropertyValue self ob v' = retM ()" using assms(8) by (cases v') (auto simp: setOwnerToPropertyValue_def)
  have st: "storeValue E self (callPropertyValueWrite E self) ob p v' True up w =
      Some (Inr OPENDAQ_SUCCESS, if shouldWriteLocalValue E (objs w ob) (p_name p) v'
        then (if up then putsLocally ob p v' w else setsLocally ob p v' w) else w)"
    using write_plain[OF assms(2,3,9), of self up] assms(9)
    by (simp add: storeValue_def bindM_def own retM_def getO_def modO_def writeLocalValue_def triggerCoreEventInternal_def
        setsLocally_def putsLocally_def Let_def)
  show ?thesis
    using assms resolve_plain[OF assms(1)] st
    by (simp add: setPropertyValueInternal_def setPropertyValueWith_def Let_def nm bindM_def getO_def retM_def)
qed

lemma set_plain:
  fixes w :: "'x world"
  assumes "plain (objs w ob) p" "noWriteHandlers (objs w ob) p" "updatePropertyStack (objs w ob) (p_name p) = None"
    and "\<not> frozen (objs w ob)" "updateCount (objs w ob) = 0" "\<not> p_readOnly p" "p_valueType p \<noteq> ctObject"
    and "prepareValue E (objs w) p v = Inr v'" "\<forall>c. v' \<noteq> ObjectV c" "equals E v' v'"
  shows "setPropertyValue E self ob (p_name p) (Some v) w =
    Some (Inr OPENDAQ_SUCCESS, if shouldWriteLocalValue E (objs w ob) (p_name p) v' then setsLocally ob p v' w else w)"
  using assms set_internal_plain[of w ob p E v v' self False False]
  by (simp add: setPropertyValue_def bindM_def getO_def)

lemma setsLocally_objs [simp]:
  "objs (setsLocally ob p v w) = (objs w)(ob := (objs w ob)\<lparr>propValues := om_assign (p_name p) v (propValues (objs w ob))\<rparr>)"
  by (simp add: setsLocally_def Let_def)

lemma not_written_equal:
  assumes "plain x p" "\<not> shouldWriteLocalValue E x (p_name p) v"
  shows "\<exists>u. currentValue x p = Some u \<and> equals E u v"
  using assms by (cases "p_defaultValue p")
    (auto simp: plain_def shouldWriteLocalValue_def currentValue_def split: option.splits)

text \<open>C20: A successful write of a plain property without handlers is read back: reading the property
  returns a value equal to the one that conversion, coercion and the limits made of the value
  written; every other property keeps its value, and no other object changes.\<close>

theorem set_then_get:
  fixes w :: "'x world"
  assumes "plain (objs w ob) p" and "noWriteHandlers (objs w ob) p" and "noReadHandlers (objs w ob) p"
    and "updatePropertyStack (objs w ob) (p_name p) = None"
    and "\<not> frozen (objs w ob)" and "updateCount (objs w ob) = 0" and "\<not> p_readOnly p" and "p_valueType p \<noteq> ctObject"
    and "prepareValue E (objs w) p v = Inr v'" and "\<forall>c. v' \<noteq> ObjectV c" and "equals E v' v'"
  shows "\<exists>w' u. setPropertyValue E self ob (p_name p) (Some v) w = Some (Inr OPENDAQ_SUCCESS, w')
    \<and> getPropertyValue self ob (p_name p) w' = Some (Inr (Some u), w') \<and> equals E u v'
    \<and> (\<forall>q. p_name q \<noteq> p_name p \<longrightarrow> currentValue (objs w' ob) q = currentValue (objs w ob) q)
    \<and> (\<forall>ob'. ob' \<noteq> ob \<longrightarrow> objs w' ob' = objs w ob')"
proof -
  let ?sw = "shouldWriteLocalValue E (objs w ob) (p_name p) v'"
  let ?w' = "if ?sw then setsLocally ob p v' w else w"
  have keep: "plain (objs ?w' ob) p" "noReadHandlers (objs ?w' ob) p" "updatePropertyStack (objs ?w' ob) (p_name p) = None"
    using assms by (auto simp: plain_def noReadHandlers_def)
  have set_ok: "setPropertyValue E self ob (p_name p) (Some v) w = Some (Inr OPENDAQ_SUCCESS, ?w')"
    using assms by (intro set_plain)
  have "\<exists>u. currentValue (objs ?w' ob) p = Some u \<and> equals E u v'"
    using not_written_equal[OF assms(1), of E v'] assms(11) by (auto simp: currentValue_def omap_simps)
  then obtain u where u: "currentValue (objs ?w' ob) p = Some u" "equals E u v'" by blast
  have "getPropertyValue self ob (p_name p) ?w' = Some (Inr (Some u), ?w')"
    using get_plain[OF keep, of self] u(1) by simp
  moreover have "\<forall>q. p_name q \<noteq> p_name p \<longrightarrow> currentValue (objs ?w' ob) q = currentValue (objs w ob) q"
    by (auto simp: currentValue_def omap_simps)
  moreover have "\<forall>ob'. ob' \<noteq> ob \<longrightarrow> objs ?w' ob' = objs w ob'" by simp
  ultimately show ?thesis using set_ok u(2) by blast
qed

text \<open>C24: A write that is refused leaves everything as it was: on a frozen object, of a read-only or
  object-type property without protected access, of a property that does not exist, or of a value
  that fails the type, container, selection, struct, enumeration, coercion or validation checks.\<close>

theorem refused_write_changes_nothing:
  fixes w :: "'x world"
  assumes "updateCount (objs w ob) = 0" and "\<not> isChildProperty n"
    and "frozen (objs w ob) \<and> e = OPENDAQ_ERR_FROZEN
      \<or> \<not> frozen (objs w ob) \<and> lookupProperty (objs w ob) n = None \<and> e = OPENDAQ_ERR_NOTFOUND
      \<or> \<not> frozen (objs w ob) \<and> plain (objs w ob) p \<and> p_name p = n
        \<and> (p_readOnly p \<or> p_valueType p = ctObject) \<and> e = OPENDAQ_ERR_ACCESSDENIED
      \<or> \<not> frozen (objs w ob) \<and> plain (objs w ob) p \<and> p_name p = n
        \<and> \<not> p_readOnly p \<and> p_valueType p \<noteq> ctObject \<and> prepareValue E (objs w) p v = Inl e"
  shows "setPropertyValue E self ob n (Some v) w = Some (Inl e, w)"
proof -
  have nm: "splitOnFirstDot n = (n, [])" using assms(2) by simp
  note run = setPropertyValue_def setPropertyValueInternal_def setPropertyValueWith_def
  from assms(3) consider
      (fr) "frozen (objs w ob)" "e = OPENDAQ_ERR_FROZEN"
    | (missing) "\<not> frozen (objs w ob)" "lookupProperty (objs w ob) n = None" "e = OPENDAQ_ERR_NOTFOUND"
    | (denied) "\<not> frozen (objs w ob)" "plain (objs w ob) p" "p_name p = n" "p_readOnly p \<or> p_valueType p = ctObject"
        "e = OPENDAQ_ERR_ACCESSDENIED"
    | (check) "\<not> frozen (objs w ob)" "plain (objs w ob) p" "p_name p = n" "\<not> p_readOnly p" "p_valueType p \<noteq> ctObject"
        "prepareValue E (objs w) p v = Inl e" by metis
  then show ?thesis
  proof cases
    case fr
    then show ?thesis using assms(1) by (simp add: run eval_M)
  next
    case missing
    then show ?thesis using assms(1,2) nm by (simp add: run getUnboundProperty_def eval_M)
  next
    case denied
    with resolve_plain[of w ob p] show ?thesis using assms(1,2) nm by (auto simp: run eval_M)
  next
    case check
    with resolve_plain[of w ob p] show ?thesis using assms(1,2) nm by (auto simp: run eval_M)
  qed
qed

section \<open>Concrete objects\<close>

definition plainProp :: "string \<Rightarrow> int \<Rightarrow> int property" where
  "plainProp n d = \<lparr>p_name = n, p_valueType = ctInt, p_description = None, p_unit = False, p_minValue = None,
     p_maxValue = Some (ScalarV 10), p_defaultValue = Some (ScalarV d), p_visible = True, p_readOnly = False,
     p_selectionValues = None, p_suggestedValues = None, p_refProp = None, p_coercer = None, p_validator = None,
     p_callableInfo = False, p_onValueWrite = [], p_onValueRead = []\<rparr>"

definition plainObj :: "int pobj" where
  "plainObj = (PropertyObjectImpl None)\<lparr>localProperties := [(''A'', plainProp ''A'' 1), (''B'', plainProp ''B'' 2)]\<rparr>"

definition plainWorld :: "int pobj \<Rightarrow> int world" where
  "plainWorld x = \<lparr>objs = (\<lambda>_. x), coreEvents = []\<rparr>"

lemmas concrete = plainProp_def plainObj_def plainWorld_def PropertyObjectImpl_def plain_def noWriteHandlers_def
  noReadHandlers_def lookupProperty_def isChildProperty_def om_has_def

lemma prepare_concrete:
  "prepareValue int_ops os (plainProp ''A'' 1) (ScalarV k) = Inr (ScalarV (min k 10))"
  by (simp add: prepareValue_def checkPropertyTypeAndConvert_def checkContainerType_def checkSelectionValues_def
      checkStructType_def checkEnumerationType_def coercePropertyWrite_def validatePropertyWrite_def coerceMinMax_def
      coerceMin_def coerceMax_def plainProp_def int_ops_def)

theorem set_then_get_witness:
  "\<exists>w'. setPropertyValue int_ops (exec int_ops 0) 0 ''A'' (Some (ScalarV 12)) (plainWorld plainObj) = Some (Inr OPENDAQ_SUCCESS, w')
     \<and> getPropertyValue (exec int_ops 0) 0 ''A'' w' = Some (Inr (Some (ScalarV 10)), w')"
  using set_then_get[of "plainWorld plainObj" 0 "plainProp ''A'' 1" int_ops "ScalarV 12" "ScalarV 10" "exec int_ops 0"]
  by (simp add: concrete prepare_concrete[unfolded plainProp_def]) (auto simp: int_ops_def)

theorem refused_write_changes_nothing_witness:
  "setPropertyValue int_ops (exec int_ops 0) 0 ''C'' (Some (ScalarV 12)) (plainWorld plainObj)
     = Some (Inl OPENDAQ_ERR_NOTFOUND, plainWorld plainObj)
   \<and> setPropertyValue int_ops (exec int_ops 0) 0 ''A'' (Some (ListV ctInt [])) (plainWorld plainObj)
     = Some (Inl OPENDAQ_ERR_CONVERSIONFAILED, plainWorld plainObj)"
  using refused_write_changes_nothing[of "plainWorld plainObj" 0 "''C''" OPENDAQ_ERR_NOTFOUND _ int_ops]
    refused_write_changes_nothing[of "plainWorld plainObj" 0 "''A''" OPENDAQ_ERR_CONVERSIONFAILED "plainProp ''A'' 1" int_ops "ListV ctInt []"]
  by (simp add: concrete prepareValue_def checkPropertyTypeAndConvert_def int_ops_def)

text \<open>A handler that writes its own property again, and an object that uses it.\<close>

definition doublingObj :: "int pobj" where
  "doublingObj = plainObj\<lparr>valueWriteEvents := [''A'' \<mapsto> [\<lambda>v. if v = Some (ScalarV 3)
     then [CallObject (SetPropertyValue 0 ''A'' (Some (ScalarV 6))), ThrowErr OPENDAQ_ERR_CALLFAILED] else []]]\<rparr>"

lemmas run_eval = dispatch_def asCall_def setPropertyValue_def getPropertyValue_def getPropertyValueInternal_def
  getPropertyAndValueInternal_def setPropertyValueInternal_def setPropertyValueWith_def storeValue_def
  callPropertyValueWrite_def registerM_def unregisterM_def runWriteHandlers_def finishWrite_def emit_def
  registerPropertyUpdating_def unregisetPropertyUpdating_def si_setValue_def si_unregister_def PropertyUpdateStackItem_def
  isBaseStackLevel_def shouldWriteLocalValue_def writeLocalValue_def setOwnerToPropertyValue_def
  triggerCoreEventInternal_def getUnboundProperty_def checkForRefPropAndGetBoundProp_def storedValue_def
  stack_getPropertyValue_def readLocalValue_def getPropertyNameInfo_def getPropNameWithoutIndex_def
  callPropertyValueRead_def tryM_def eval_M concrete om_assign_def om_erase_def Let_def

lemma doubling_run:
  "\<exists>w'. exec int_ops 2 (SetPropertyValue 0 ''A'' (Some (ScalarV 3))) (plainWorld doublingObj) = Some (Inl OPENDAQ_ERR_CALLFAILED, w')
     \<and> propValues (objs w' 0) = [(''A'', ScalarV 6)]"
  by (simp add: eval_nat_numeral doublingObj_def run_eval prepare_concrete[unfolded plainProp_def]) (simp add: int_ops_def)

lemma doubling_tame:
  "tame (statics (plainWorld doublingObj))" "\<forall>ob. updatePropertyStack (objs (plainWorld doublingObj) ob) = Map.empty"
  by (simp_all add: tame_def statics_def plainWorld_def doublingObj_def plainObj_def PropertyObjectImpl_def plainProp_def)


definition throwingObj :: "int pobj" where
  "throwingObj = plainObj\<lparr>anyWriteEvent := [\<lambda>v. [ThrowErr OPENDAQ_ERR_CALLFAILED]]\<rparr>"


text \<open>
  Reading with index \<open>-1\<close> gives the whole list when the list is a local value, and is out of range when
  it is the default value.
\<close>

definition listObj :: "int pobj" where
  "listObj = (PropertyObjectImpl None)\<lparr>localProperties := [(''L'', (plainProp ''L'' 1)\<lparr>p_valueType := ctList,
     p_maxValue := None, p_defaultValue := Some (ListV ctInt [ScalarV 7, ScalarV 8])\<rparr>)]\<rparr>"

lemma negative_index_reads:
  "getPropertyValue (exec int_ops 0) 0 ''L[-1]'' (plainWorld listObj) = Some (Inl OPENDAQ_ERR_OUTOFRANGE, plainWorld listObj)"
  "getPropertyValue (exec int_ops 0) 0 ''L[-1]'' (plainWorld (listObj\<lparr>propValues := [(''L'', ListV ctInt [ScalarV 7])]\<rparr>))
     = Some (Inr (Some (ListV ctInt [ScalarV 7])), plainWorld (listObj\<lparr>propValues := [(''L'', ListV ctInt [ScalarV 7])]\<rparr>))"
  by (simp_all add: listObj_def run_eval defaultItem_def parseIndex_def strtol_def isspace_def isdigit_def digits_value_def to_int32_def)

section \<open>Clearing and batched updates\<close>

lemma clear_write_plain:
  assumes "noWriteHandlers (objs w ob) p" "updatePropertyStack (objs w ob) (p_name p) = None"
    and "\<And>v. p_defaultValue p = Some v \<Longrightarrow> equals E v v"
  shows "callPropertyValueWrite E self ob p None True up w = Some (Inr (OPENDAQ_SUCCESS, None), w)"
proof -
  let ?w1 = "put_item ob (p_name p) (Some (PropertyUpdateStackItem None)) w"
  have h: "runWriteHandlers self ob p (p_defaultValue p) ?w1 = Some (Inr (p_defaultValue p, None), ?w1)"
    by (rule no_write_handlers) (use assms(1) in simp)
  have "ptr_eq E (p_defaultValue p) (p_defaultValue p)" using assms(3) by (cases "p_defaultValue p") auto
  then show ?thesis
    using stack_write[OF assms(2)] h
    by (simp add: callPropertyValueWrite_def Let_def bindM_def getO_def retM_def finishWrite_def)
qed

text \<open>C25: Clearing a plain property without handlers makes it read as its default value again, and
  clears it for good: clearing it once more is ignored and changes nothing.\<close>

theorem clear_then_get:
  fixes w :: "'x world"
  assumes "plain (objs w ob) p" and "noWriteHandlers (objs w ob) p" and "noReadHandlers (objs w ob) p"
    and "updatePropertyStack (objs w ob) (p_name p) = None" and "om_ok (propValues (objs w ob))"
    and "\<not> frozen (objs w ob)" and "updateCount (objs w ob) = 0" and "\<not> p_readOnly p" and "p_valueType p \<noteq> ctObject"
    and "p_defaultValue p = Some d" and "equals E d d" and "map_of (propValues (objs w ob)) (p_name p) = Some u"
  shows "\<exists>w'. clearPropertyValue E self ob (p_name p) w = Some (Inr OPENDAQ_SUCCESS, w')
    \<and> getPropertyValue self ob (p_name p) w' = Some (Inr (Some d), w')
    \<and> clearPropertyValue E self ob (p_name p) w' = Some (Inr OPENDAQ_IGNORED, w')"
proof -
  have nm: "\<not> isChildProperty (p_name p)" "splitOnFirstDot (p_name p) = (p_name p, [])" using assms(1) by (auto simp: plain_def)
  note run = clearPropertyValue_def clearPropertyValueInternal_def Let_def nm bindM_def getO_def retM_def modO_def triggerCoreEventInternal_def
  have wr: "callPropertyValueWrite E self ob p None True False w = Some (Inr (OPENDAQ_SUCCESS, None), w)"
    using assms by (intro clear_write_plain) auto
  obtain w' where w': "clearPropertyValue E self ob (p_name p) w = Some (Inr OPENDAQ_SUCCESS, w')"
    and objs: "objs w' = (objs w)(ob := (objs w ob)\<lparr>propValues := om_erase (p_name p) (propValues (objs w ob))\<rparr>)"
    using assms(6-9,12) resolve_plain[OF assms(1)] wr by (simp add: run)
  have pl: "plain (objs w' ob) p" and nr: "noReadHandlers (objs w' ob) p"
    and st: "updatePropertyStack (objs w' ob) (p_name p) = None"
    using assms(1,3,4) objs by (auto simp: plain_def noReadHandlers_def)
  have gone: "map_of (propValues (objs w' ob)) (p_name p) = None" using objs by (simp add: omap_simps)
  have "getPropertyValue self ob (p_name p) w' = Some (Inr (Some d), w')"
    using get_plain[OF pl nr st] gone assms(10) by (simp add: currentValue_def)
  moreover have "clearPropertyValue E self ob (p_name p) w' = Some (Inr OPENDAQ_IGNORED, w')"
    using assms(6-9) objs gone resolve_plain[OF pl] by (simp add: run)
  ultimately show ?thesis using w' by blast
qed

theorem clear_then_get_witness:
  "\<exists>w'. clearPropertyValue int_ops (exec int_ops 0) 0 ''A'' (plainWorld (plainObj\<lparr>propValues := [(''A'', ScalarV 7)]\<rparr>))
       = Some (Inr OPENDAQ_SUCCESS, w')
     \<and> getPropertyValue (exec int_ops 0) 0 ''A'' w' = Some (Inr (Some (ScalarV 1)), w')
     \<and> clearPropertyValue int_ops (exec int_ops 0) 0 ''A'' w' = Some (Inr OPENDAQ_IGNORED, w')"
  using clear_then_get[of "plainWorld (plainObj\<lparr>propValues := [(''A'', ScalarV 7)]\<rparr>)" 0 "plainProp ''A'' 1" "ScalarV 1" int_ops "ScalarV 7" "exec int_ops 0"]
  by (simp add: concrete om_ok_def) (simp add: int_ops_def)

definition setAll :: "'x core_ops \<Rightarrow> 'x interp \<Rightarrow> oid \<Rightarrow> (string \<times> 'x val) list \<Rightarrow> ('x, unit) M" where
  "setAll E self ob kvs = foldM (\<lambda>(n, v) _. bindM (setPropertyValue E self ob n (Some v)) (\<lambda>_. retM ())) kvs ()"

definition settable :: "'x core_ops \<Rightarrow> (oid \<Rightarrow> 'x pobj) \<Rightarrow> oid \<Rightarrow> string \<Rightarrow> 'x val \<Rightarrow> bool" where
  "settable E os ob n v \<longleftrightarrow> (\<exists>p v'. p_name p = n \<and> plain (os ob) p \<and> noWriteHandlers (os ob) p \<and> noReadHandlers (os ob) p \<and>
     updatePropertyStack (os ob) n = None \<and> \<not> p_readOnly p \<and> p_valueType p \<noteq> ctObject \<and>
     prepareValue E os p v = Inr v' \<and> (\<forall>c. v' \<noteq> ObjectV c) \<and> equals E v' v')"

text \<open>One write as a function of the local values.\<close>

definition writeStep :: "'x core_ops \<Rightarrow> (oid \<Rightarrow> 'x pobj) \<Rightarrow> oid \<Rightarrow> string \<times> 'x val \<Rightarrow> (string, 'x val) omap \<Rightarrow> (string, 'x val) omap" where
  "writeStep E os ob kv pv =
     (case kv of (n, v) \<Rightarrow>
        let v' = projr (prepareValue E os (the (lookupProperty (os ob) n)) v)
        in if shouldWriteLocalValue E ((os ob)\<lparr>propValues := pv\<rparr>) n v' then om_assign n v' pv else pv)"

text \<open>The states of the object during the batch.\<close>

definition during :: "'x world \<Rightarrow> oid \<Rightarrow> (string, 'x val) omap \<Rightarrow> nat \<Rightarrow> (string \<times> 'x updating_action) list \<Rightarrow> 'x world \<Rightarrow> bool" where
  "during w0 ob pv k us w \<longleftrightarrow>
     objs w = (objs w0)(ob := (objs w0 ob)\<lparr>propValues := pv, updateCount := k, updatingPropsAndValues := us\<rparr>)"

lemma iterate_upd:
  "baseInterface x = baseInterface (os ob) \<Longrightarrow> iterate E (os(ob := x)) ct vs = iterate E os ct vs"
  by (induction vs) (auto split: val.splits)

lemma prepare_upd:
  "baseInterface x = baseInterface (os ob) \<Longrightarrow> prepareValue E (os(ob := x)) p v = prepareValue E os p v"
proof -
  assume "baseInterface x = baseInterface (os ob)"
  then have "checkContainerType E (os(ob := x)) p u = checkContainerType E os p u" for u
    by (auto simp: checkContainerType_def iterate_upd split: val.splits)
  then show ?thesis by (simp add: prepareValue_def)
qed

lemma during_settable:
  assumes "during w0 ob pv k us w" "settable E (objs w0) ob n v"
  obtains p v' where "p_name p = n" "plain (objs w ob) p" "noWriteHandlers (objs w ob) p" "noReadHandlers (objs w ob) p"
    "updatePropertyStack (objs w ob) n = None" "\<not> p_readOnly p" "p_valueType p \<noteq> ctObject"
    "prepareValue E (objs w) p v = Inr v'" "\<forall>c. v' \<noteq> ObjectV c" "equals E v' v'"
    "writeStep E (objs w0) ob (n, v) pv = (if shouldWriteLocalValue E (objs w ob) n v' then om_assign n v' pv else pv)"
proof -
  from assms(2) obtain p v' where p: "p_name p = n" "plain (objs w0 ob) p" "noWriteHandlers (objs w0 ob) p" "noReadHandlers (objs w0 ob) p"
    "updatePropertyStack (objs w0 ob) n = None" "\<not> p_readOnly p" "p_valueType p \<noteq> ctObject"
    "prepareValue E (objs w0) p v = Inr v'" "\<forall>c. v' \<noteq> ObjectV c" "equals E v' v'" unfolding settable_def by blast
  have o: "objs w = (objs w0)(ob := (objs w0 ob)\<lparr>propValues := pv, updateCount := k, updatingPropsAndValues := us\<rparr>)"
    using assms(1) by (simp add: during_def)
  have l: "lookupProperty (objs w0 ob) n = Some p" using p by (auto simp: plain_def)
  have lk: "lookupProperty (objs w ob) m = lookupProperty (objs w0 ob) m" for m
    by (simp add: o lookupProperty_def cong: option.case_cong)
  have "writeStep E (objs w0) ob (n, v) pv = (if shouldWriteLocalValue E (objs w ob) n v' then om_assign n v' pv else pv)"
    using lk by (simp add: writeStep_def l p shouldWriteLocalValue_def o cong: option.case_cong)
  moreover have "plain (objs w ob) p" "noWriteHandlers (objs w ob) p" "noReadHandlers (objs w ob) p" "updatePropertyStack (objs w ob) n = None"
    using p lk by (auto simp: plain_def noWriteHandlers_def noReadHandlers_def o)
  moreover have "prepareValue E (objs w) p v = Inr v'" using p(8) by (simp add: o prepare_upd)
  ultimately show ?thesis using that p by blast
qed

lemma sequential_sets:
  assumes "\<forall>(n, v) \<in> set kvs. settable E (objs w0) ob n v" "\<not> frozen (objs w0 ob)" "during w0 ob pv 0 us w"
  shows "\<exists>w'. setAll E self ob kvs w = Some (Inr (), w') \<and> during w0 ob (fold (writeStep E (objs w0) ob) kvs pv) 0 us w'"
  using assms
proof (induction kvs arbitrary: w pv)
  case Nil
  then show ?case by (simp add: setAll_def retM_def)
next
  case (Cons kv kvs)
  obtain n v where kv: "kv = (n, v)" by fastforce
  with Cons.prems(1) have "settable E (objs w0) ob n v" by auto
  from during_settable[OF Cons.prems(3) this] obtain p v' where
    p: "p_name p = n" "plain (objs w ob) p" "noWriteHandlers (objs w ob) p" "updatePropertyStack (objs w ob) n = None"
    "\<not> p_readOnly p" "p_valueType p \<noteq> ctObject" "prepareValue E (objs w) p v = Inr v'" "\<forall>c. v' \<noteq> ObjectV c" "equals E v' v'"
    and step: "writeStep E (objs w0) ob (n, v) pv = (if shouldWriteLocalValue E (objs w ob) n v' then om_assign n v' pv else pv)" by metis
  define w1 where "w1 = (if shouldWriteLocalValue E (objs w ob) n v' then setsLocally ob p v' w else w)"
  have "\<not> frozen (objs w ob)" "updateCount (objs w ob) = 0" using Cons.prems(2,3) by (simp_all add: during_def)
  with set_plain[of w ob p E v v' self] p have run: "setPropertyValue E self ob n (Some v) w = Some (Inr OPENDAQ_SUCCESS, w1)"
    by (simp add: w1_def)
  have "during w0 ob (writeStep E (objs w0) ob (n, v) pv) 0 us w1"
    using Cons.prems(3) step p(1) by (auto simp: during_def w1_def setsLocally_def Let_def)
  from Cons.IH[OF _ Cons.prems(2) this] Cons.prems(1) obtain w' where
    "setAll E self ob kvs w1 = Some (Inr (), w')" "during w0 ob (fold (writeStep E (objs w0) ob) kvs (writeStep E (objs w0) ob (n, v) pv)) 0 us w'"
    by auto
  with run kv show ?case by (auto simp: setAll_def bindM_def retM_def)
qed

definition setActions :: "(string \<times> 'x val) list \<Rightarrow> (string \<times> 'x updating_action) list" where
  "setActions kvs = map (\<lambda>(n, v). (n, \<lparr>ua_setValue = True, ua_protectedAccess = False, ua_value = Some v\<rparr>)) kvs"

lemma batched_sets:
  assumes "\<not> frozen (objs w0 ob)" "during w0 ob pv (Suc k) us w"
  shows "\<exists>w'. setAll E self ob kvs w = Some (Inr (), w') \<and> during w0 ob pv (Suc k) (us @ setActions kvs) w'"
  using assms
proof (induction kvs arbitrary: w us)
  case Nil
  then show ?case by (simp add: setAll_def retM_def setActions_def)
next
  case (Cons kv kvs)
  obtain n v where kv: "kv = (n, v)" by fastforce
  define us' where "us' = us @ [(n, \<lparr>ua_setValue = True, ua_protectedAccess = False, ua_value = Some v\<rparr>)]"
  define w1 where "w1 = w\<lparr>objs := (objs w)(ob := (objs w ob)\<lparr>updatingPropsAndValues := us'\<rparr>)\<rparr>"
  have run: "setPropertyValue E self ob n (Some v) w = Some (Inr OPENDAQ_SUCCESS, w1)"
    using Cons.prems by (simp add: setPropertyValue_def setPropertyValueInternal_def setPropertyValueWith_def eval_M during_def w1_def us'_def)
  have "during w0 ob pv (Suc k) us' w1" using Cons.prems(2) by (simp add: during_def w1_def)
  from Cons.IH[OF Cons.prems(1) this] obtain w' where
    "setAll E self ob kvs w1 = Some (Inr (), w')" "during w0 ob pv (Suc k) (us' @ setActions kvs) w'" by blast
  with run kv show ?case by (auto simp: setAll_def bindM_def retM_def setActions_def us'_def)
qed

lemma apply_items:
  assumes "\<forall>(n, v) \<in> set kvs. settable E (objs w0) ob n v" "\<not> frozen (objs w0 ob)" "during w0 ob pv 0 us w"
  shows "\<exists>items w'. foldM (applyItem E self ob) (setActions kvs) (acc, []) w = Some (Inr (items, []), w')
    \<and> during w0 ob (fold (writeStep E (objs w0) ob) kvs pv) 0 us w'"
  using assms
proof (induction kvs arbitrary: w pv acc)
  case Nil
  then show ?case by (auto simp: setActions_def retM_def)
next
  case (Cons kv kvs)
  obtain n v where kv: "kv = (n, v)" by fastforce
  with Cons.prems(1) have "settable E (objs w0) ob n v" by auto
  from during_settable[OF Cons.prems(3) this] obtain p v' where
    p: "p_name p = n" "plain (objs w ob) p" "noWriteHandlers (objs w ob) p" "noReadHandlers (objs w ob) p" "updatePropertyStack (objs w ob) n = None"
    "\<not> p_readOnly p" "p_valueType p \<noteq> ctObject" "prepareValue E (objs w) p v = Inr v'" "\<forall>c. v' \<noteq> ObjectV c" "equals E v' v'"
    and step: "writeStep E (objs w0) ob (n, v) pv = (if shouldWriteLocalValue E (objs w ob) n v' then om_assign n v' pv else pv)" .
  define w1 where "w1 = (if shouldWriteLocalValue E (objs w ob) n v' then putsLocally ob p v' w else w)"
  have "\<not> frozen (objs w ob)" using Cons.prems(2,3) by (simp add: during_def)
  with set_internal_plain[of w ob p E v v' self False True] p
  have run: "setPropertyValueInternal E self ob n (Some v) True False False True w = Some (Inr OPENDAQ_SUCCESS, w1)"
    by (simp add: w1_def)
  have d1: "during w0 ob (writeStep E (objs w0) ob (n, v) pv) 0 us w1"
    using Cons.prems(3) step p(1) by (auto simp: during_def w1_def putsLocally_def)
  have "plain (objs w1 ob) p" "noReadHandlers (objs w1 ob) p" "updatePropertyStack (objs w1 ob) (p_name p) = None"
    using p by (auto simp: w1_def putsLocally_def plain_def noReadHandlers_def)
  from getAndValue_plain[OF this, of self False] p(1)
  have get: "getPropertyAndValueInternal self ob n True False w1 = Some (Inr (currentValue (objs w1 ob) p, p), w1)" by simp
  define a where "a = \<lparr>ua_setValue = True, ua_protectedAccess = False, ua_value = currentValue (objs w1 ob) p\<rparr>"
  have item: "applyItem E self ob (n, \<lparr>ua_setValue = True, ua_protectedAccess = False, ua_value = Some v\<rparr>) (acc, []) w
      = Some (Inr (acc @ [(n, a)], []), w1)"
    using run get by (simp add: applyItem_def bindM_def tryM_def retM_def a_def)
  from Cons.IH[OF _ Cons.prems(2) d1, of "acc @ [(n, a)]"] Cons.prems(1) obtain items w' where
    "foldM (applyItem E self ob) (setActions kvs) (acc @ [(n, a)], []) w1 = Some (Inr (items, []), w')"
    "during w0 ob (fold (writeStep E (objs w0) ob) kvs (writeStep E (objs w0) ob (n, v) pv)) 0 us w'" by auto
  with item kv show ?case by (auto simp: setActions_def bindM_def)
qed


lemma settable_concrete:
  "settable int_ops (objs (plainWorld plainObj)) ob ''A'' (ScalarV k)"
  unfolding settable_def
  by (rule exI[of _ "plainProp ''A'' 1"], rule exI[of _ "ScalarV (min k 10)"])
     (use prepare_concrete[of _ k] in \<open>simp add: concrete int_ops_def\<close>)


section \<open>The order of the property list\<close>

fun keepFirst :: "'a list \<Rightarrow> 'a list" where
  "keepFirst [] = []"
| "keepFirst (x # xs) = x # filter (\<lambda>y. y \<noteq> x) (keepFirst xs)"

lemma set_keepFirst [simp]: "set (keepFirst xs) = set xs"
  by (induction xs) auto

lemma keepFirst_filter: "keepFirst (filter P xs) = filter P (keepFirst xs)"
  by (induction xs) (auto simp: filter_filter intro: filter_cong)

lemma set_om_erase: "set (om_erase k m) \<subseteq> set m"
  by (auto simp: om_erase_def AList.delete_eq)

lemma set_om_assign: "x \<in> set (om_assign k v m) \<Longrightarrow> x = (k, v) \<or> x \<in> set m"
  by (induction m) (auto simp: om_assign_def split: if_splits)

definition keyed_by_name :: "(string, 'x property) omap \<Rightarrow> bool" where
  "keyed_by_name m \<longleftrightarrow> om_ok m \<and> (\<forall>(n, p) \<in> set m. p_name p = n)"

lemma takeOrdered_names:
  assumes "keyed_by_name m" "takeOrdered ns m = (ps, rest)"
  shows "map p_name ps = keepFirst (filter (om_has m) ns) \<and> map fst rest = filter (\<lambda>n. n \<notin> set ns) (map fst m) \<and> keyed_by_name rest"
  using assms
proof (induction ns arbitrary: m ps)
  case (Cons n ns)
  show ?case
  proof (cases "map_of m n")
    case None
    with Cons show ?thesis by (auto simp: om_has_def map_of_eq_None_iff image_iff intro!: filter_cong) 
  next
    case (Some p)
    obtain qs where qs: "takeOrdered ns (om_erase n m) = (qs, rest)" "ps = p # qs"
      using Cons.prems Some by (auto split: prod.splits)
    have "keyed_by_name (om_erase n m)" using Cons.prems(1)
      using set_om_erase[of n m] by (auto simp: keyed_by_name_def)
    from Cons.IH[OF this qs(1)] have IH: "map p_name qs = keepFirst (filter (om_has (om_erase n m)) ns)"
      "map fst rest = filter (\<lambda>k. k \<notin> set ns) (map fst (om_erase n m))" "keyed_by_name rest" by auto
    have "om_has (om_erase n m) k \<longleftrightarrow> k \<noteq> n \<and> om_has m k" for k by (simp add: om_has_def omap_simps)
    then have "filter (om_has (om_erase n m)) ns = filter (\<lambda>k. k \<noteq> n) (filter (om_has m) ns)" by (auto intro: filter_cong)
    moreover have "p_name p = n" using Cons.prems(1) map_of_SomeD[OF Some] by (auto simp: keyed_by_name_def)
    ultimately show ?thesis using IH qs(2) Some
      by (auto simp: keepFirst_filter om_has_def[of m n] keys_om_erase filter_filter intro!: filter_cong)
  qed
qed auto

lemma lookup_all:
  "keyed_by_name m \<Longrightarrow> propertyLookup x True ps m = Some (Inr m') \<Longrightarrow>
   keyed_by_name m' \<and> map fst m' = map fst m @ filter (\<lambda>n. n \<notin> set (map fst m)) (keepFirst (map p_name ps))"
proof (induction ps arbitrary: m)
  case (Cons p ps)
  have k: "keyed_by_name (om_assign (p_name p) p m)"
    using Cons.prems(1) by (auto simp: keyed_by_name_def dest!: set_om_assign)
  from Cons.IH[OF k] Cons.prems(2) have
    "keyed_by_name m'" "map fst m' = map fst (om_assign (p_name p) p m) @
       filter (\<lambda>n. n \<notin> set (map fst (om_assign (p_name p) p m))) (keepFirst (map p_name ps))" by auto
  then show ?case
    by (auto simp: keys_om_assign om_has_iff filter_filter intro!: filter_cong)
qed (auto simp: keyed_by_name_def)

text \<open>C26: The list of all properties holds every property of the class and of the object once; the
  properties named in the custom order come first, in that order, the others follow in the order
  class properties first, then local ones, each in order of addition.\<close>

theorem all_properties_ordered:
  assumes "getPropertiesInternal x True = Some (Inr ps)"
  shows "map p_name ps =
    keepFirst (filter (\<lambda>n. n \<in> p_name ` set (allPropertyList x)) (customOrder x)) @
    filter (\<lambda>n. n \<notin> set (customOrder x)) (keepFirst (map p_name (allPropertyList x)))
    \<and> distinct (map p_name ps) \<and> set (map p_name ps) = p_name ` set (allPropertyList x)"
proof -
  from assms obtain m where m: "propertyLookup x True (allPropertyList x) [] = Some (Inr m)"
    and ps: "ps = (case takeOrdered (customOrder x) m of (qs, rest) \<Rightarrow> qs @ map snd rest)"
    by (auto simp: getPropertiesInternal_def) (metis (no_types, lifting) Inr_not_Inl map_sum.simps sum.exhaust sum.inject(2))
  obtain qs rest where t: "takeOrdered (customOrder x) m = (qs, rest)" by fastforce
  from lookup_all[OF _ m] have k: "keyed_by_name m" "map fst m = keepFirst (map p_name (allPropertyList x))"
    by (auto simp: keyed_by_name_def)
  have has: "om_has m = (\<lambda>n. n \<in> p_name ` set (allPropertyList x))"
    using arg_cong[OF k(2), of set] by (auto simp: om_has_iff fun_eq_iff)
  from takeOrdered_names[OF k(1) t] have o: "map p_name qs = keepFirst (filter (om_has m) (customOrder x))"
    "map fst rest = filter (\<lambda>n. n \<notin> set (customOrder x)) (map fst m)" "keyed_by_name rest" by auto
  have "map p_name (map snd rest) = map fst rest" using o(3) by (auto simp: keyed_by_name_def)
  with o k(2) t ps have eq: "map p_name ps = keepFirst (filter (om_has m) (customOrder x)) @
      filter (\<lambda>n. n \<notin> set (customOrder x)) (keepFirst (map p_name (allPropertyList x)))" by simp
  moreover have "distinct (keepFirst xs)" for xs :: "string list" by (induction xs) auto
  ultimately show ?thesis unfolding has by (auto simp del: map_map)
qed

theorem all_properties_ordered_witness:
  "\<exists>ps. getPropertiesInternal (plainObj\<lparr>customOrder := [''X'', ''B'']\<rparr>) True = Some (Inr ps) \<and> map p_name ps = [''B'', ''A'']"
  using all_properties_ordered[of "plainObj\<lparr>customOrder := [''X'', ''B'']\<rparr>"]
  by (simp add: plainObj_def PropertyObjectImpl_def getPropertiesInternal_def allPropertyList_def plainProp_def om_assign_def
      om_erase_def)

end
