(* ===== verification/Permissions.thy ===== *)
theory Permissions
  imports Prelude
begin

unbundle bit_operations_syntax

text \<open>
  Permissions, after \<^verbatim>\<open>core/coreobjects/src/permissions_builder_impl.cpp\<close>, \<^verbatim>\<open>permissions_impl.cpp\<close>,
  \<^verbatim>\<open>permission_mask_builder_impl.cpp\<close> and \<^verbatim>\<open>permission_manager_impl.cpp\<close> built with access control.
  The first part holds the masks and the builder: per group a mask of allowed, of denied and of assigned
  permissions. The second part holds the tree of managers: every manager keeps its local permissions and
  the permissions in force, which are the local ones on top of the parent's when the local ones inherit.
  A store maps manager ids to managers; a parent is held weakly, so a destroyed parent reads as none.
  The lemmas give the closed form of \<open>extendPermissions\<close>, the masks' invariant and that the permissions in force
  of the whole tree stay consistent under every operation.
\<close>

section \<open>Masks and the builder\<close>

type_synonym mask = "64 word"

datatype Permission = Permission_None | Permission_Read | Permission_Write | Permission_Execute

fun permission_bits :: "Permission \<Rightarrow> mask" where
  "permission_bits Permission_None = 0"
| "permission_bits Permission_Read = 1"
| "permission_bits Permission_Write = 2"
| "permission_bits Permission_Execute = 4"

definition mask_read :: "mask \<Rightarrow> mask" where
  "mask_read m = m OR permission_bits Permission_Read"

definition mask_write :: "mask \<Rightarrow> mask" where
  "mask_write m = m OR permission_bits Permission_Write"

definition mask_execute :: "mask \<Rightarrow> mask" where
  "mask_execute m = m OR permission_bits Permission_Execute"

definition mask_clear :: "mask \<Rightarrow> mask" where
  "mask_clear m = 0"

text \<open>The tables of a builder and of the permissions it builds; \<open>operator[]\<close> reads a missing entry as 0.\<close>

record perms =
  inherited :: bool
  allowed :: "(string, mask) omap"
  denied :: "(string, mask) omap"
  assigned :: "(string, mask) omap"

definition PermissionsBuilder :: perms where
  "PermissionsBuilder = \<lparr>inherited = False, allowed = [], denied = [], assigned = []\<rparr>"

definition getOrDefault :: "(string, mask) omap \<Rightarrow> string \<Rightarrow> mask" where
  "getOrDefault t g = (case map_of t g of None \<Rightarrow> 0 | Some m \<Rightarrow> m)"

definition inherit :: "bool \<Rightarrow> perms \<Rightarrow> perms" where
  "inherit b c = c\<lparr>inherited := b\<rparr>"

definition assign :: "string \<Rightarrow> mask \<Rightarrow> perms \<Rightarrow> perms" where
  "assign g flags c =
     c\<lparr>assigned := om_assign g flags (assigned c),
       allowed := om_assign g flags (allowed c),
       denied := om_assign g 0 (denied c)\<rparr>"

definition allow :: "string \<Rightarrow> mask \<Rightarrow> perms \<Rightarrow> perms" where
  "allow g flags c =
     c\<lparr>allowed := om_assign g (getOrDefault (allowed c) g OR flags) (allowed c),
       denied := om_assign g (getOrDefault (denied c) g AND NOT flags) (denied c)\<rparr>"

definition deny :: "string \<Rightarrow> mask \<Rightarrow> perms \<Rightarrow> perms" where
  "deny g flags c =
     c\<lparr>denied := om_assign g (getOrDefault (denied c) g OR flags) (denied c),
       allowed := om_assign g (getOrDefault (allowed c) g AND NOT flags) (allowed c)\<rparr>"

definition extendPermissions :: "perms \<Rightarrow> perms \<Rightarrow> perms" where
  "extendPermissions config c =
     fold (\<lambda>(g, m). deny g m) (denied config)
       (fold (\<lambda>(g, m). allow g m) (allowed config)
         (fold (\<lambda>(g, m). assign g m) (assigned config) c))"

definition CopyPermissionTable :: "(string, mask) omap \<Rightarrow> (string, mask) omap" where
  "CopyPermissionTable t = fold (\<lambda>(g, m). om_assign g m) t []"

definition build :: "perms \<Rightarrow> perms" where
  "build c = c\<lparr>allowed := CopyPermissionTable (allowed c), denied := CopyPermissionTable (denied c),
              assigned := CopyPermissionTable (assigned c)\<rparr>"

section \<open>Authorization\<close>

fun anyGroup :: "(string, mask) omap \<Rightarrow> mask \<Rightarrow> string list \<Rightarrow> bool" where
  "anyGroup t target [] \<longleftrightarrow> False"
| "anyGroup t target (g # gs) \<longleftrightarrow> (if getOrDefault t g AND target \<noteq> 0 then True else anyGroup t target gs)"

definition permitted :: "perms \<Rightarrow> string list \<Rightarrow> Permission \<Rightarrow> bool" where
  "permitted c groups p =
     (if anyGroup (denied c) (permission_bits p) groups then False
      else anyGroup (allowed c) (permission_bits p) groups)"

section \<open>The tree of managers\<close>

type_synonym mid = nat

record manager =
  m_alive :: bool
  m_parent :: "mid option"
  m_children :: "mid list"
  m_permissions :: perms
  m_localPermissions :: perms

type_synonym managers = "mid \<Rightarrow> manager"

definition DefaultPermissions :: perms where
  "DefaultPermissions = build (inherit True PermissionsBuilder)"

definition getParentManager :: "mid \<Rightarrow> managers \<Rightarrow> mid option" where
  "getParentManager m s =
     (case m_parent (s m) of None \<Rightarrow> None | Some p \<Rightarrow> if m_alive (s p) then Some p else None)"

definition getPermissions :: "mid \<Rightarrow> managers \<Rightarrow> perms" where
  "getPermissions m s = m_permissions (s m)"

text \<open>The permissions in force for local permissions \<open>l\<close> below a parent whose permissions are \<open>pp\<close>.\<close>

definition inForce :: "perms option \<Rightarrow> perms \<Rightarrow> perms" where
  "inForce pp l =
     (if inherited l then
        let builder = (case pp of None \<Rightarrow> PermissionsBuilder
                       | Some parentConfig \<Rightarrow> extendPermissions parentConfig (inherit True PermissionsBuilder))
        in build (extendPermissions l builder)
      else l)"

definition updateInheritedPermissions ::
  "(mid \<Rightarrow> perms \<Rightarrow> managers \<Rightarrow> managers option) \<Rightarrow> mid \<Rightarrow> managers \<Rightarrow> managers option" where
  "updateInheritedPermissions recur c s =
     (if inherited (m_localPermissions (s c)) then recur c (m_localPermissions (s c)) s else Some s)"

fun updateChildPermissions ::
  "(mid \<Rightarrow> perms \<Rightarrow> managers \<Rightarrow> managers option) \<Rightarrow> mid list \<Rightarrow> managers \<Rightarrow> managers option" where
  "updateChildPermissions recur [] s = Some s"
| "updateChildPermissions recur (c # cs) s =
     (case updateInheritedPermissions recur c s of
        None \<Rightarrow> None
      | Some s' \<Rightarrow> updateChildPermissions recur cs s')"

fun setPermissions :: "nat \<Rightarrow> mid \<Rightarrow> perms \<Rightarrow> managers \<Rightarrow> managers option" where
  "setPermissions 0 m p s = None"
| "setPermissions (Suc n) m p s =
     (let pp = map_option (\<lambda>q. getPermissions q s) (getParentManager m s);
          s' = s(m := (s m)\<lparr>m_localPermissions := p, m_permissions := inForce pp p\<rparr>)
      in updateChildPermissions (setPermissions n) (m_children (s' m)) s')"

definition isAuthorized :: "mid \<Rightarrow> string list \<Rightarrow> Permission \<Rightarrow> managers \<Rightarrow> bool" where
  "isAuthorized m groups p s = permitted (m_permissions (s m)) groups p"

definition addChildManager :: "mid \<Rightarrow> mid \<Rightarrow> managers \<Rightarrow> managers" where
  "addChildManager p c s = s(p := (s p)\<lparr>m_children := List.insert c (m_children (s p))\<rparr>)"

definition removeChildManager :: "mid \<Rightarrow> mid \<Rightarrow> managers \<Rightarrow> managers" where
  "removeChildManager p c s = s(p := (s p)\<lparr>m_children := filter (\<lambda>x. x \<noteq> c) (m_children (s p))\<rparr>)"

definition relink :: "mid \<Rightarrow> mid option \<Rightarrow> managers \<Rightarrow> managers" where
  "relink m newParent s =
     (let s1 = (case getParentManager m s of None \<Rightarrow> s | Some p \<Rightarrow> removeChildManager p m s);
          s2 = s1(m := (s1 m)\<lparr>m_parent := newParent\<rparr>)
      in case getParentManager m s2 of None \<Rightarrow> s2 | Some p \<Rightarrow> addChildManager p m s2)"

definition setParent :: "nat \<Rightarrow> mid \<Rightarrow> mid option \<Rightarrow> managers \<Rightarrow> managers option" where
  "setParent n m newParent s =
     (let s' = relink m newParent s in setPermissions n m (m_localPermissions (s' m)) s')"

definition newManager :: "mid \<Rightarrow> managers \<Rightarrow> managers" where
  "newManager m s = s(m := \<lparr>m_alive = True, m_parent = None, m_children = [],
     m_permissions = DefaultPermissions, m_localPermissions = DefaultPermissions\<rparr>)"

definition PermissionManager :: "nat \<Rightarrow> mid \<Rightarrow> mid option \<Rightarrow> managers \<Rightarrow> managers option" where
  "PermissionManager n m newParent s =
     (let s' = newManager m s in if newParent = None then Some s' else setParent n m newParent s')"

definition destroyManager :: "mid \<Rightarrow> managers \<Rightarrow> managers" where
  "destroyManager m s =
     (let s1 = (case getParentManager m s of None \<Rightarrow> s | Some p \<Rightarrow> removeChildManager p m s)
      in s1(m := (s1 m)\<lparr>m_alive := False\<rparr>))"

definition cloneManager :: "nat \<Rightarrow> mid \<Rightarrow> mid \<Rightarrow> managers \<Rightarrow> managers option" where
  "cloneManager n m m' s =
     (case PermissionManager n m' (getParentManager m s) s of
        None \<Rightarrow> None
      | Some s' \<Rightarrow> setPermissions n m' (m_localPermissions (s' m)) s')"

section \<open>What the builder's operations do to one group\<close>

text \<open>The masks of one group: allowed, denied and, when the group has been assigned, assigned.\<close>

definition masks :: "perms \<Rightarrow> string \<Rightarrow> mask \<times> mask \<times> mask option" where
  "masks c g = (getOrDefault (allowed c) g, getOrDefault (denied c) g, map_of (assigned c) g)"

lemma getOrDefault_assign [simp]:
  "getOrDefault (om_assign k v t) g = (if g = k then v else getOrDefault t g)"
  by (simp add: getOrDefault_def omap_simps)

lemma masks_ops [simp]:
  "masks (assign k m c) g = (if g = k then (m, 0, Some m) else masks c g)"
  "masks (allow k m c) g = (if g = k then (case masks c g of (a, d, s) \<Rightarrow> (a OR m, d AND NOT m, s)) else masks c g)"
  "masks (deny k m c) g = (if g = k then (case masks c g of (a, d, s) \<Rightarrow> (a AND NOT m, d OR m, s)) else masks c g)"
  "masks (inherit b c) g = masks c g"
  "masks PermissionsBuilder g = (0, 0, None)"
  by (auto simp: masks_def assign_def allow_def deny_def inherit_def PermissionsBuilder_def omap_simps getOrDefault_def)

lemma fold_per_key:
  assumes "\<And>k m c g. view (op k m c) g = (if g = k then f m (view c g) else view c g)" and "om_ok t"
  shows "view (fold (\<lambda>(k, m). op k m) t c) g =
    (case map_of t g of None \<Rightarrow> view c g | Some m \<Rightarrow> f m (view c g))"
  using assms(2)
proof (induction t arbitrary: c)
  case (Cons km t)
  obtain k m where [simp]: "km = (k, m)" by (cases km)
  have "om_ok t" and "g = k \<Longrightarrow> map_of t g = None"
    using Cons.prems by (auto simp: om_ok_def map_of_eq_None_iff)
  with Cons.IH[of "op k m c"] show ?case by (auto simp: assms(1) split: option.splits)
qed simp

definition tables_ok :: "perms \<Rightarrow> bool" where
  "tables_ok c \<longleftrightarrow> om_ok (allowed c) \<and> om_ok (denied c) \<and> om_ok (assigned c)"

lemma masks_folds:
  "om_ok t \<Longrightarrow> masks (fold (\<lambda>(k, m). deny k m) t c) g =
     (case masks c g of (a, d, s) \<Rightarrow> (a AND NOT (getOrDefault t g), d OR getOrDefault t g, s))"
  "om_ok t \<Longrightarrow> masks (fold (\<lambda>(k, m). allow k m) t c) g =
     (case masks c g of (a, d, s) \<Rightarrow> (a OR getOrDefault t g, d AND NOT (getOrDefault t g), s))"
  "om_ok t \<Longrightarrow> masks (fold (\<lambda>(k, m). assign k m) t c) g =
     (case map_of t g of None \<Rightarrow> masks c g | Some m \<Rightarrow> (m, 0, Some m))"
  using fold_per_key[of masks deny "\<lambda>m (a, d, s). (a AND NOT m, d OR m, s)" t c g]
    fold_per_key[of masks allow "\<lambda>m (a, d, s). (a OR m, d AND NOT m, s)" t c g]
    fold_per_key[of masks assign "\<lambda>m _. (m, 0, Some m)" t c g]
  by (auto simp: getOrDefault_def split: option.splits prod.splits)

lemma masks_extend:
  assumes "tables_ok cfg"
  shows "masks (extendPermissions cfg c) g =
    (case (masks c g, masks cfg g) of ((a, d, s), (ca, cd, cs)) \<Rightarrow>
       case cs of
         None \<Rightarrow> ((a OR ca) AND NOT cd, (d AND NOT ca) OR cd, s)
       | Some m \<Rightarrow> ((m OR ca) AND NOT cd, cd, Some m))"
proof -
  have ok: "om_ok (allowed cfg)" "om_ok (denied cfg)" "om_ok (assigned cfg)"
    using assms by (simp_all add: tables_ok_def)
  have "masks cfg g = (getOrDefault (allowed cfg) g, getOrDefault (denied cfg) g, map_of (assigned cfg) g)"
    by (simp add: masks_def)
  then show ?thesis
    by (cases "map_of (assigned cfg) g"; cases "masks c g")
       (simp_all add: extendPermissions_def masks_folds[OF ok(1)] masks_folds[OF ok(2)] masks_folds[OF ok(3)])
qed

section \<open>Decisions\<close>

text \<open>
  What permissions say of one bit for one group. The specification of inheritance is that the nearest
  manager that decides a bit wins, and that assigning a group decides all of its bits.
\<close>

datatype decision = Allowed | Denied | Unset

definition decision :: "perms \<Rightarrow> string \<Rightarrow> nat \<Rightarrow> decision" where
  "decision c g b =
     (if bit (getOrDefault (denied c) g) b then Denied
      else if bit (getOrDefault (allowed c) g) b then Allowed else Unset)"

definition decides :: "perms \<Rightarrow> string \<Rightarrow> nat \<Rightarrow> bool" where
  "decides c g b \<longleftrightarrow> om_has (assigned c) g \<or> decision c g b \<noteq> Unset"

text \<open>Built permissions never allow and deny the same bit, and keep no trace of an assignment undone.\<close>

fun triple_ok :: "mask \<times> mask \<times> mask option \<Rightarrow> bool" where
  "triple_ok (a, d, s) \<longleftrightarrow> a AND d = 0 \<and> (case s of None \<Rightarrow> True | Some m \<Rightarrow> m AND NOT (a OR d) = 0)"

declare triple_ok.simps [simp del]

definition masks_ok :: "perms \<Rightarrow> bool" where
  "masks_ok c \<longleftrightarrow> tables_ok c \<and> (\<forall>g. triple_ok (masks c g))"

inductive builds :: "perms \<Rightarrow> bool" where
  builds_new: "builds PermissionsBuilder"
| builds_inherit: "builds c \<Longrightarrow> builds (inherit b c)"
| builds_assign: "builds c \<Longrightarrow> builds (assign g m c)"
| builds_allow: "builds c \<Longrightarrow> builds (allow g m c)"
| builds_deny: "builds c \<Longrightarrow> builds (deny g m c)"
| builds_extend: "builds c \<Longrightarrow> builds cfg \<Longrightarrow> builds (extendPermissions cfg c)"
| builds_build: "builds c \<Longrightarrow> builds (build c)"

lemma tables_ok_ops [simp]:
  "tables_ok PermissionsBuilder"
  "tables_ok c \<Longrightarrow> tables_ok (inherit b c)"
  "tables_ok c \<Longrightarrow> tables_ok (assign g m c)"
  "tables_ok c \<Longrightarrow> tables_ok (allow g m c)"
  "tables_ok c \<Longrightarrow> tables_ok (deny g m c)"
  by (simp_all add: tables_ok_def PermissionsBuilder_def inherit_def assign_def allow_def deny_def)

lemma fold_keeps: "(\<And>k m c. P c \<Longrightarrow> P (op k m c)) \<Longrightarrow> P c \<Longrightarrow> P (fold (\<lambda>(k, m). op k m) t c)"
  by (induction t arbitrary: c) auto

lemma tables_ok_extend [simp]: "tables_ok c \<Longrightarrow> tables_ok (extendPermissions cfg c)"
  unfolding extendPermissions_def by (intro fold_keeps[where P = tables_ok]) simp_all

lemma CopyPermissionTable_id: "om_ok t \<Longrightarrow> CopyPermissionTable t = t"
proof -
  have "om_ok (u @ t) \<Longrightarrow> fold (\<lambda>(g, m). om_assign g m) t u = u @ t" for u
  proof (induction t arbitrary: u)
    case (Cons gm t)
    obtain g m where [simp]: "gm = (g, m)" by (cases gm)
    have "g \<notin> fst ` set u" using Cons.prems by (auto simp: om_ok_def)
    then have "om_assign g m u = u @ [(g, m)]"
      by (induction u) (auto simp: om_assign_def)
    with Cons.IH[of "u @ [(g, m)]"] Cons.prems show ?case by simp
  qed simp
  from this[of "[]"] show "om_ok t \<Longrightarrow> CopyPermissionTable t = t" by (simp add: CopyPermissionTable_def)
qed

lemma build_id: "tables_ok c \<Longrightarrow> build c = c"
  by (simp add: build_def tables_ok_def CopyPermissionTable_id)

lemma triple_ok_ops:
  "triple_ok (m, 0, Some m)"
  "triple_ok (a, d, s) \<Longrightarrow> triple_ok (a OR m, d AND NOT m, s)"
  "triple_ok (a, d, s) \<Longrightarrow> triple_ok (a AND NOT m, d OR m, s)"
  "triple_ok (a, d, s) \<Longrightarrow> triple_ok (ca, cd, None) \<Longrightarrow> triple_ok ((a OR ca) AND NOT cd, (d AND NOT ca) OR cd, s)"
  by (auto simp: triple_ok.simps bit_eq_iff bit_and_iff bit_or_iff bit_not_iff split: option.splits)

lemma triple_ok_assigned: "triple_ok (ca, cd, Some m) \<Longrightarrow> (m OR ca) AND NOT cd = ca"
  by (auto simp: triple_ok.simps bit_eq_iff bit_and_iff bit_or_iff bit_not_iff)

lemma disjoint_bits: "triple_ok (a, d, s) \<Longrightarrow> bit a b \<Longrightarrow> \<not> bit d b"
  using bit_and_iff[of a d b] by (auto simp: triple_ok.simps)

lemma masks_ok_tables: "masks_ok c \<Longrightarrow> tables_ok c"
  by (simp add: masks_ok_def)

lemma masks_extend_ok:
  assumes "masks_ok cfg"
  shows "masks (extendPermissions cfg c) g =
    (case (masks c g, masks cfg g) of ((a, d, s), (ca, cd, cs)) \<Rightarrow>
       if cs \<noteq> None then (ca, cd, cs) else ((a OR ca) AND NOT cd, (d AND NOT ca) OR cd, s))"
proof -
  obtain ca cd cs where cfg: "masks cfg g = (ca, cd, cs)" by (cases "masks cfg g")
  have "triple_ok (ca, cd, cs)" using assms cfg by (metis masks_ok_def)
  then show ?thesis using masks_ok_tables[OF assms]
    by (cases cs; cases "masks c g") (simp_all add: masks_extend cfg triple_ok_assigned)
qed

lemma builds_masks_ok: "builds c \<Longrightarrow> masks_ok c"
proof (induction rule: builds.induct)
  case (builds_extend c cfg)
  show ?case unfolding masks_ok_def
  proof (intro conjI allI)
    show "tables_ok (extendPermissions cfg c)" using builds_extend by (simp add: masks_ok_tables)
    fix g
    obtain a d s where m: "masks c g = (a, d, s)" by (cases "masks c g")
    obtain ca cd cs where m': "masks cfg g = (ca, cd, cs)" by (cases "masks cfg g")
    have "triple_ok (a, d, s)" "triple_ok (ca, cd, cs)"
      using builds_extend.IH m m' by (metis masks_ok_def)+
    then show "triple_ok (masks (extendPermissions cfg c) g)"
      by (cases cs) (simp_all add: masks_extend_ok[OF builds_extend.IH(2)] m m' triple_ok_ops)
  qed
next
  case (builds_allow c g m)
  then show ?case by (auto simp: masks_ok_def triple_ok_ops split: prod.splits) (metis triple_ok_ops(2))
next
  case (builds_deny c g m)
  then show ?case by (auto simp: masks_ok_def triple_ok_ops split: prod.splits) (metis triple_ok_ops(3))
qed (auto simp: masks_ok_def build_id triple_ok_ops(1) triple_ok.simps)

lemma decision_masks:
  "masks c g = (a, d, s) \<Longrightarrow> decision c g b = (if bit d b then Denied else if bit a b then Allowed else Unset)"
  "masks c g = (a, d, s) \<Longrightarrow> om_has (assigned c) g \<longleftrightarrow> s \<noteq> None"
  by (auto simp: masks_def decision_def om_has_def)

lemma decision_extend:
  assumes "masks_ok cfg"
  shows "decision (extendPermissions cfg c) g b = (if decides cfg g b then decision cfg g b else decision c g b)"
proof -
  obtain a d s where m: "masks c g = (a, d, s)" by (cases "masks c g")
  obtain ca cd cs where m': "masks cfg g = (ca, cd, cs)" by (cases "masks cfg g")
  have ok: "triple_ok (ca, cd, cs)" using assms m' by (metis masks_ok_def)
  note ext = masks_extend_ok[OF assms, of c g, unfolded m m' prod.case]
  show ?thesis
  proof (cases "cs = None")
    case True
    then have "masks (extendPermissions cfg c) g = ((a OR ca) AND NOT cd, (d AND NOT ca) OR cd, s)"
      using ext by simp
    from decision_masks(1)[OF this] decision_masks[OF m] decision_masks[OF m'] True disjoint_bits[OF ok, of b]
    show ?thesis
      by (auto simp: decides_def bit_and_iff bit_or_iff bit_not_iff split: if_splits dest: bit_imp_le_length)
  next
    case False
    then have "masks (extendPermissions cfg c) g = (ca, cd, cs)" using ext by simp
    from decision_masks(1)[OF this] decision_masks[OF m'] False show ?thesis by (simp add: decides_def)
  qed
qed

lemma anyGroup_iff: "anyGroup t m gs \<longleftrightarrow> (\<exists>g \<in> set gs. getOrDefault t g AND m \<noteq> 0)"
  by (induction gs) auto

definition permission_bit :: "Permission \<Rightarrow> nat option" where
  "permission_bit p = (case p of Permission_None \<Rightarrow> None | Permission_Read \<Rightarrow> Some 0
     | Permission_Write \<Rightarrow> Some 1 | Permission_Execute \<Rightarrow> Some 2)"

lemma bit_test: "(x :: mask) AND permission_bits p \<noteq> 0 \<longleftrightarrow> (case permission_bit p of None \<Rightarrow> False | Some b \<Rightarrow> bit x b)"
  using and_exp_eq_0_iff_not_bit[of x 0] and_exp_eq_0_iff_not_bit[of x 1] and_exp_eq_0_iff_not_bit[of x 2]
  by (cases p) (auto simp: permission_bit_def)

lemma permitted_iff:
  assumes "masks_ok c"
  shows "permitted c gs p \<longleftrightarrow> (\<exists>b. permission_bit p = Some b \<and> (\<forall>g \<in> set gs. decision c g b \<noteq> Denied)
     \<and> (\<exists>g \<in> set gs. decision c g b = Allowed))"
  by (cases "permission_bit p")
     (auto simp: permitted_def anyGroup_iff bit_test decision_def split: if_splits)

section \<open>Consistency of the tree\<close>

text \<open>Two stores with the same managers, parents and children.\<close>

definition same_tree :: "managers \<Rightarrow> managers \<Rightarrow> bool" where
  "same_tree s s' \<longleftrightarrow> (\<forall>x. m_alive (s' x) = m_alive (s x) \<and> m_parent (s' x) = m_parent (s x)
     \<and> m_children (s' x) = m_children (s x))"

definition edges :: "managers \<Rightarrow> (mid \<times> mid) set" where
  "edges s = {(c, p). m_alive (s c) \<and> m_alive (s p) \<and> m_parent (s c) = Some p}"

definition linked :: "managers \<Rightarrow> bool" where
  "linked s \<longleftrightarrow> (\<forall>p c. m_alive (s p) \<longrightarrow> (c \<in> set (m_children (s p)) \<longleftrightarrow> m_alive (s c) \<and> m_parent (s c) = Some p))"

definition tree_ok :: "managers \<Rightarrow> bool" where
  "tree_ok s \<longleftrightarrow> linked s \<and> wf (edges s) \<and>
     (\<forall>x. m_alive (s x) \<longrightarrow> builds (m_permissions (s x)) \<and> builds (m_localPermissions (s x)))"

definition orphan :: "managers \<Rightarrow> mid \<Rightarrow> bool" where
  "orphan s m \<longleftrightarrow> m_parent (s m) \<noteq> None \<and> getParentManager m s = None"

definition computed :: "managers \<Rightarrow> mid \<Rightarrow> perms" where
  "computed s m = inForce (map_option (\<lambda>q. getPermissions q s) (getParentManager m s)) (m_localPermissions (s m))"

definition stale :: "managers \<Rightarrow> mid set" where
  "stale s = {m. m_alive (s m) \<and> \<not> orphan s m \<and> masks (m_permissions (s m)) \<noteq> masks (computed s m)}"

lemma same_tree_refl [simp]: "same_tree s s"
  by (simp add: same_tree_def)

lemma same_tree_trans: "same_tree s t \<Longrightarrow> same_tree t u \<Longrightarrow> same_tree s u"
  by (simp add: same_tree_def)

lemma same_tree_facts:
  assumes "same_tree s s'"
  shows "edges s' = edges s" "linked s' = linked s" "getParentManager m s' = getParentManager m s"
    "orphan s' m = orphan s m"
  using assms by (simp_all add: same_tree_def edges_def linked_def getParentManager_def orphan_def cong: option.case_cong)

lemma getParentManager_iff: "getParentManager m s = Some p \<longleftrightarrow> m_parent (s m) = Some p \<and> m_alive (s p)"
  by (auto simp: getParentManager_def split: option.splits)

lemma builds_inForce: "(\<And>pp. ppo = Some pp \<Longrightarrow> builds pp) \<Longrightarrow> builds l \<Longrightarrow> builds (inForce ppo l)"
  by (auto simp: inForce_def Let_def split: option.splits intro!: builds.intros)

text \<open>The first half of \<open>setPermissions\<close>: only the children can become stale.\<close>

definition setOne :: "mid \<Rightarrow> perms \<Rightarrow> managers \<Rightarrow> managers" where
  "setOne m p s = s(m := (s m)\<lparr>m_localPermissions := p,
     m_permissions := inForce (map_option (\<lambda>q. getPermissions q s) (getParentManager m s)) p\<rparr>)"

lemma setPermissions_Suc:
  "setPermissions (Suc n) m p s = updateChildPermissions (setPermissions n) (m_children (s m)) (setOne m p s)"
  by (simp add: setOne_def Let_def)

lemma same_tree_setOne: "same_tree s (setOne m p s)"
  by (simp add: same_tree_def setOne_def)

lemma tree_ok_irrefl: "tree_ok s \<Longrightarrow> m_alive (s m) \<Longrightarrow> m_parent (s m) \<noteq> Some m"
  by (auto simp: tree_ok_def edges_def dest: wf_irrefl)

lemma tree_ok_setOne:
  assumes "tree_ok s" "m_alive (s m)" "builds p"
  shows "tree_ok (setOne m p s)"
proof -
  have "builds (inForce (map_option (\<lambda>q. getPermissions q s) (getParentManager m s)) p)"
    using assms by (intro builds_inForce) (auto simp: getParentManager_iff tree_ok_def getPermissions_def)
  with assms show ?thesis
    using same_tree_facts[OF same_tree_setOne[of s m p]] by (auto simp: tree_ok_def) (auto simp: setOne_def)
qed

lemma stale_setOne:
  assumes "tree_ok s" "m_alive (s m)"
  shows "stale (setOne m p s) \<subseteq> (stale s - {m}) \<union> {c \<in> set (m_children (s m)). inherited (m_localPermissions (s c))}"
proof
  fix x assume x: "x \<in> stale (setOne m p s)"
  note t = same_tree_facts[OF same_tree_setOne[of s m p]]
  have alive: "m_alive (s x)" and no: "\<not> orphan s x"
    and neq: "masks (m_permissions (setOne m p s x)) \<noteq> masks (computed (setOne m p s) x)"
    using x same_tree_setOne[of s m p] by (auto simp: stale_def t same_tree_def)
  have "getParentManager m s \<noteq> Some m" using tree_ok_irrefl[OF assms] by (simp add: getParentManager_iff)
  then have "computed (setOne m p s) m = m_permissions (setOne m p s m)"
    by (cases "getParentManager m s"; simp add: computed_def t(3); simp add: setOne_def getPermissions_def)
  then have notm: "x \<noteq> m" using neq by auto
  show "x \<in> (stale s - {m}) \<union> {c \<in> set (m_children (s m)). inherited (m_localPermissions (s c))}"
  proof (cases "m_parent (s x) = Some m \<and> inherited (m_localPermissions (s x))")
    case True
    then show ?thesis using assms alive by (auto simp: tree_ok_def linked_def)
  next
    case False
    then have "computed (setOne m p s) x = computed s x" using notm
      by (cases "getParentManager x s"; simp add: computed_def t(3);
          auto simp: setOne_def getPermissions_def getParentManager_iff inForce_def)
    then show ?thesis using notm neq alive no by (simp add: stale_def setOne_def)
  qed
qed

definition same_locals :: "managers \<Rightarrow> managers \<Rightarrow> bool" where
  "same_locals s s' \<longleftrightarrow> (\<forall>x. m_localPermissions (s' x) = m_localPermissions (s x))"

definition refreshed :: "mid set \<Rightarrow> managers \<Rightarrow> managers \<Rightarrow> bool" where
  "refreshed C s s' \<longleftrightarrow> same_tree s s' \<and> same_locals s s' \<and> tree_ok s' \<and> stale s' \<subseteq> stale s - C"

lemma refreshed_trans: "refreshed C s t \<Longrightarrow> refreshed D t u \<Longrightarrow> refreshed (C \<union> D) s u"
  by (auto simp: refreshed_def same_locals_def intro: same_tree_trans)

lemma updateChild_refreshes:
  assumes "\<And>c s s'. recur c (m_localPermissions (s c)) s = Some s' \<Longrightarrow> tree_ok s \<Longrightarrow> m_alive (s c) \<Longrightarrow> refreshed {c} s s'"
  shows "updateChildPermissions recur cs s = Some s' \<Longrightarrow> tree_ok s \<Longrightarrow> (\<And>c. c \<in> set cs \<Longrightarrow> m_alive (s c)) \<Longrightarrow>
    refreshed {c \<in> set cs. inherited (m_localPermissions (s c))} s s'"
proof (induction cs arbitrary: s)
  case Nil
  then show ?case by (simp add: refreshed_def same_locals_def)
next
  case (Cons c cs)
  obtain t where t: "updateInheritedPermissions recur c s = Some t" "updateChildPermissions recur cs t = Some s'"
    using Cons.prems(1) by (auto split: option.splits)
  have first: "refreshed {x \<in> {c}. inherited (m_localPermissions (s x))} s t"
  proof (cases "inherited (m_localPermissions (s c))")
    case True
    then have "recur c (m_localPermissions (s c)) s = Some t" using t(1) by (simp add: updateInheritedPermissions_def)
    from assms[OF this] Cons.prems True show ?thesis by (simp add: Collect_conv_if)
  next
    case False
    then show ?thesis using t(1) Cons.prems
      by (auto simp: updateInheritedPermissions_def refreshed_def same_locals_def)
  qed
  have "refreshed {x \<in> set cs. inherited (m_localPermissions (t x))} t s'"
    using first Cons.prems by (intro Cons.IH[OF t(2)]) (auto simp: refreshed_def same_tree_def)
  from refreshed_trans[OF first this] first show ?case
    by (auto simp: refreshed_def same_locals_def)
qed

lemma setPermissions_refreshes:
  "setPermissions n m p s = Some s' \<Longrightarrow> tree_ok s \<Longrightarrow> m_alive (s m) \<Longrightarrow> builds p \<Longrightarrow>
     refreshed {} (setOne m p s) s' \<and> stale s' \<subseteq> stale s - {m}"
proof (induction n arbitrary: m p s s')
  case (Suc n)
  have ok: "tree_ok (setOne m p s)" using Suc.prems by (simp add: tree_ok_setOne)
  have rec: "refreshed {c} t t'" if "setPermissions n c (m_localPermissions (t c)) t = Some t'" "tree_ok t" "m_alive (t c)" for c t t'
  proof -
    have b: "builds (m_localPermissions (t c))" using that by (simp add: tree_ok_def)
    have "same_locals t (setOne c (m_localPermissions (t c)) t)" by (simp add: same_locals_def setOne_def)
    with Suc.IH[OF that b] same_tree_setOne[of t c "m_localPermissions (t c)"]
    show ?thesis by (auto simp: refreshed_def same_locals_def intro: same_tree_trans)
  qed
  have run: "updateChildPermissions (setPermissions n) (m_children (s m)) (setOne m p s) = Some s'"
    using Suc.prems(1) by (simp only: setPermissions_Suc)
  have notself: "m \<notin> set (m_children (s m))"
    using tree_ok_irrefl[OF Suc.prems(2,3)] Suc.prems by (auto simp: tree_ok_def linked_def)
  have "refreshed {c \<in> set (m_children (s m)). inherited (m_localPermissions (setOne m p s c))} (setOne m p s) s'"
    using Suc.prems ok by (intro updateChild_refreshes[OF rec run]) (auto simp: tree_ok_def linked_def setOne_def)
  moreover have "m_localPermissions (setOne m p s c) = m_localPermissions (s c)" if "c \<in> set (m_children (s m))" for c
    using that notself by (auto simp: setOne_def)
  moreover from this have "{c \<in> set (m_children (s m)). inherited (m_localPermissions (setOne m p s c))} =
    {c \<in> set (m_children (s m)). inherited (m_localPermissions (s c))}"
    by (intro Collect_cong) auto
  ultimately show ?case using stale_setOne[OF Suc.prems(2,3), of p]
    by (auto simp: refreshed_def)
qed simp

section \<open>Updates end\<close>

lemma updateChild_ends:
  assumes "\<And>c t. c \<in> set cs \<Longrightarrow> same_tree s t \<Longrightarrow> \<exists>t'. recur c (m_localPermissions (t c)) t = Some t' \<and> same_tree t t'"
  shows "same_tree s t \<Longrightarrow> \<exists>t'. updateChildPermissions recur cs t = Some t' \<and> same_tree t t'"
  using assms
proof (induction cs arbitrary: t)
  case (Cons c cs)
  obtain t1 where t1: "updateInheritedPermissions recur c t = Some t1" "same_tree t t1"
    using Cons.prems(2)[of c t] Cons.prems(1)
    by (cases "inherited (m_localPermissions (t c))") (auto simp: updateInheritedPermissions_def)
  obtain t2 where "updateChildPermissions recur cs t1 = Some t2" "same_tree t1 t2"
    using Cons.IH[of t1] Cons.prems t1(2) by (auto intro: same_tree_trans)
  with t1 show ?case by (auto intro: same_tree_trans)
qed simp

lemma setPermissions_ends:
  assumes "tree_ok s"
  shows "m_alive (s m) \<Longrightarrow> \<exists>n. \<forall>k \<ge> n. \<forall>t p. same_tree s t \<longrightarrow> (\<exists>t'. setPermissions k m p t = Some t' \<and> same_tree t t')"
proof -
  have "wf (edges s)" using assms by (simp add: tree_ok_def)
  then show "m_alive (s m) \<Longrightarrow> ?thesis"
  proof (induction m rule: wf_induct_rule)
    case (less m)
    let ?P = "\<lambda>k c. \<forall>t p. same_tree s t \<longrightarrow> (\<exists>t'. setPermissions k c p t = Some t' \<and> same_tree t t')"
    have "\<exists>n. \<forall>k \<ge> n. ?P k c" if "c \<in> set (m_children (s m))" for c
      using that less assms by (intro less.IH) (auto simp: tree_ok_def linked_def edges_def)
    then obtain n where n: "\<forall>k \<ge> n. \<forall>c \<in> set (m_children (s m)). ?P k c"
      using finite_fuel[of "m_children (s m)" ?P] by auto
    show ?case
    proof (intro exI[of _ "Suc n"] allI impI)
      fix k t p assume k: "Suc n \<le> k" and st: "same_tree s t"
      obtain j where j: "k = Suc j" "n \<le> j" using k by (cases k) auto
      have cs: "m_children (t m) = m_children (s m)" using st by (simp add: same_tree_def)
      have "\<exists>t'. updateChildPermissions (setPermissions j) (m_children (s m)) (setOne m p t) = Some t' \<and> same_tree (setOne m p t) t'"
        using n j(2) st by (intro updateChild_ends[of _ s]) (auto intro: same_tree_trans same_tree_setOne)
      then show "\<exists>t'. setPermissions k m p t = Some t' \<and> same_tree t t'"
        using same_tree_trans[OF same_tree_setOne[of t m p]] by (auto simp only: j setPermissions_Suc cs)
    qed
  qed
qed

lemma updateChild_mono:
  assumes "\<And>c p s s'. r c p s = Some s' \<Longrightarrow> r' c p s = Some s'"
  shows "updateChildPermissions r cs s = Some s' \<Longrightarrow> updateChildPermissions r' cs s = Some s'"
proof (induction cs arbitrary: s)
  case (Cons c cs)
  obtain t where t: "updateInheritedPermissions r c s = Some t" "updateChildPermissions r cs t = Some s'"
    using Cons.prems by (auto split: option.splits)
  have "updateInheritedPermissions r' c s = Some t"
    using t(1) assms by (auto simp: updateInheritedPermissions_def split: if_splits)
  with Cons.IH[OF t(2)] show ?case by simp
qed simp

lemma setPermissions_mono:
  "setPermissions n m p s = Some s' \<Longrightarrow> n \<le> k \<Longrightarrow> setPermissions k m p s = Some s'"
proof (induction n arbitrary: m p s s' k)
  case (Suc n)
  obtain j where j: "k = Suc j" "n \<le> j" using Suc.prems(2) by (cases k) auto
  have "updateChildPermissions (setPermissions j) (m_children (s m)) (setOne m p s) = Some s'"
    using Suc.prems(1) Suc.IH[OF _ j(2)] unfolding setPermissions_Suc by (rule updateChild_mono[rotated])
  then show ?case by (simp only: j setPermissions_Suc)
qed simp

section \<open>Managers over time\<close>

definition fresh :: "managers \<Rightarrow> mid \<Rightarrow> bool" where
  "fresh s m \<longleftrightarrow> \<not> m_alive (s m) \<and> (\<forall>x. m_alive (s x) \<longrightarrow> m_parent (s x) \<noteq> Some m)"

text \<open>A new parent must be alive and not lie below the manager; else the recursion of the code never ends.\<close>

definition may_adopt :: "managers \<Rightarrow> mid \<Rightarrow> mid option \<Rightarrow> bool" where
  "may_adopt s m np \<longleftrightarrow> (\<forall>p. np = Some p \<longrightarrow> m_alive (s p) \<and> (p, m) \<notin> (edges s)\<^sup>*)"

inductive perm_step :: "managers \<Rightarrow> managers \<Rightarrow> bool" where
  step_set: "m_alive (s m) \<Longrightarrow> builds p \<Longrightarrow> setPermissions n m p s = Some s' \<Longrightarrow> perm_step s s'"
| step_parent: "m_alive (s m) \<Longrightarrow> may_adopt s m np \<Longrightarrow> setParent n m np s = Some s' \<Longrightarrow> perm_step s s'"
| step_new: "fresh s m \<Longrightarrow> may_adopt s m np \<Longrightarrow> PermissionManager n m np s = Some s' \<Longrightarrow> perm_step s s'"
| step_clone: "m_alive (s m) \<Longrightarrow> fresh s m' \<Longrightarrow> cloneManager n m m' s = Some s' \<Longrightarrow> perm_step s s'"
| step_destroy: "m_alive (s m) \<Longrightarrow> perm_step s (destroyManager m s)"

definition no_managers :: managers where
  "no_managers = (\<lambda>_. \<lparr>m_alive = False, m_parent = None, m_children = [],
     m_permissions = PermissionsBuilder, m_localPermissions = PermissionsBuilder\<rparr>)"

inductive perm_reach :: "managers \<Rightarrow> bool" where
  reach_none: "perm_reach no_managers"
| reach_step: "perm_reach s \<Longrightarrow> perm_step s s' \<Longrightarrow> perm_reach s'"

lemma relink_parent:
  "m_alive (relink m np s x) = m_alive (s x)"
  "m_parent (relink m np s x) = (if x = m then np else m_parent (s x))"
  "m_permissions (relink m np s x) = m_permissions (s x)"
  "m_localPermissions (relink m np s x) = m_localPermissions (s x)"
  by (auto simp: relink_def Let_def removeChildManager_def addChildManager_def split: option.splits)

lemma relink_children:
  assumes "np \<noteq> Some m" "m_parent (s m) \<noteq> Some m" "m_alive (s q)"
  shows "set (m_children (relink m np s q)) =
    (set (m_children (s q)) - (if m_parent (s m) = Some q then {m} else {})) \<union> (if np = Some q then {m} else {})"
proof -
  define s1 where "s1 = (case getParentManager m s of None \<Rightarrow> s | Some p \<Rightarrow> removeChildManager p m s)"
  define s2 where "s2 = s1(m := (s1 m)\<lparr>m_parent := np\<rparr>)"
  have s1: "m_alive (s1 x) = m_alive (s x)" "m_children (s1 q) =
      (if m_parent (s m) = Some q then filter (\<lambda>y. y \<noteq> m) (m_children (s q)) else m_children (s q))" for x
    using assms by (auto simp: s1_def removeChildManager_def getParentManager_iff getParentManager_def split: option.splits)
  have s2: "m_alive (s2 x) = m_alive (s x)" "m_children (s2 q) = m_children (s1 q)" "m_parent (s2 m) = np" for x
    using s1(1) by (auto simp: s2_def)
  have "relink m np s = (case getParentManager m s2 of None \<Rightarrow> s2 | Some p \<Rightarrow> addChildManager p m s2)"
    by (simp only: relink_def Let_def s1_def s2_def)
  then have "set (m_children (relink m np s q)) = set (m_children (s2 q)) \<union> (if np = Some q then {m} else {})"
    using s2 assms(3) by (auto simp: addChildManager_def getParentManager_def split: option.splits if_splits)
  then show ?thesis using s1 s2 by auto
qed

lemma edges_relink: "edges (relink m np s) \<subseteq> (case np of None \<Rightarrow> edges s | Some p \<Rightarrow> insert (m, p) (edges s))"
  by (auto simp: edges_def relink_parent split: option.splits if_splits)

lemma tree_ok_relink:
  assumes "tree_ok s" "m_alive (s m)" "may_adopt s m np"
  shows "tree_ok (relink m np s)"
proof -
  have np: "np \<noteq> Some m" using assms(3) by (auto simp: may_adopt_def)
  have "wf (case np of None \<Rightarrow> edges s | Some p \<Rightarrow> insert (m, p) (edges s))"
    using assms by (auto simp: tree_ok_def may_adopt_def split: option.splits)
  then have "wf (edges (relink m np s))" by (rule wf_subset[OF _ edges_relink])
  moreover have "linked (relink m np s)"
    using assms relink_children[of np m s, OF np tree_ok_irrefl[OF assms(1,2)]]
    by (auto simp: linked_def tree_ok_def relink_parent split: if_splits)
  ultimately show ?thesis using assms by (simp add: tree_ok_def relink_parent)
qed

lemma stale_relink: "stale (relink m np s) \<subseteq> insert m (stale s)"
proof
  fix x assume x: "x \<in> stale (relink m np s)"
  have "getParentManager x (relink m np s) = getParentManager x s" if "x \<noteq> m"
    using that by (simp add: getParentManager_def relink_parent cong: option.case_cong)
  then show "x \<in> insert m (stale s)" using x
    by (cases "x = m") (auto simp: stale_def orphan_def computed_def relink_parent getPermissions_def)
qed

lemma builds_Default: "builds DefaultPermissions"
  by (simp add: DefaultPermissions_def builds.intros)

lemma edges_newManager: "fresh s m \<Longrightarrow> edges (newManager m s) = edges s"
  by (auto simp: edges_def newManager_def fresh_def split: if_splits)

lemma tree_ok_newManager: "tree_ok s \<Longrightarrow> fresh s m \<Longrightarrow> tree_ok (newManager m s)"
  using edges_newManager[of s m] builds_Default
  by (auto simp: tree_ok_def linked_def newManager_def fresh_def)

lemma masks_inForce_Default: "masks (inForce None DefaultPermissions) = masks DefaultPermissions"
  by (auto simp: inForce_def DefaultPermissions_def build_def extendPermissions_def CopyPermissionTable_def
      inherit_def PermissionsBuilder_def masks_def getOrDefault_def fun_eq_iff)

lemma stale_newManager:
  assumes "fresh s m" shows "stale (newManager m s) \<subseteq> stale s"
proof
  fix x assume x: "x \<in> stale (newManager m s)"
  have "getParentManager m (newManager m s) = None" by (simp add: getParentManager_def newManager_def)
  then have "x \<noteq> m" using x masks_inForce_Default
    by (auto simp: stale_def computed_def) (auto simp: newManager_def)
  moreover have "getParentManager x (newManager m s) = getParentManager x s" "getParentManager x s \<noteq> Some m"
    using x assms \<open>x \<noteq> m\<close>
    by (auto simp: stale_def fresh_def newManager_def getParentManager_def split: option.splits)
  moreover from calculation have "computed (newManager m s) x = computed s x"
    by (cases "getParentManager x s") (simp_all add: computed_def getPermissions_def newManager_def)
  ultimately show "x \<in> stale s" using x by (simp add: stale_def orphan_def newManager_def)
qed

lemma refreshed_step:
  assumes "tree_ok s" "m_alive (s m)" "builds p" "setPermissions n m p s = Some s'"
  shows "tree_ok s' \<and> stale s' \<subseteq> stale s - {m}" and "same_tree s s'"
    and "m_localPermissions (s' x) = (if x = m then p else m_localPermissions (s x))"
  using setPermissions_refreshes[OF assms(4,1,2,3)] same_tree_setOne[of s m p]
  by (auto simp: refreshed_def same_locals_def intro: same_tree_trans) (auto simp: setOne_def)

lemma setParent_step:
  assumes "tree_ok s" "m_alive (s m)" "may_adopt s m np" "setParent n m np s = Some s'"
  shows "tree_ok s' \<and> stale s' \<subseteq> stale s - {m}" "m_alive (s' m)" "m_localPermissions (s' x) = m_localPermissions (s x)"
proof -
  have ok: "tree_ok (relink m np s)" "m_alive (relink m np s m)"
    using assms by (simp_all add: tree_ok_relink relink_parent)
  have b: "builds (m_localPermissions (relink m np s m))" using ok by (simp add: tree_ok_def)
  have run: "setPermissions n m (m_localPermissions (relink m np s m)) (relink m np s) = Some s'"
    using assms(4) by (simp add: setParent_def Let_def)
  note r = refreshed_step[OF ok b run]
  show "tree_ok s' \<and> stale s' \<subseteq> stale s - {m}" using r(1) stale_relink[of m np s] by auto
  show "m_alive (s' m)" using r(2) ok(2) by (simp add: same_tree_def)
  show "m_localPermissions (s' x) = m_localPermissions (s x)" using r(3) by (simp add: relink_parent)
qed

lemma PermissionManager_step:
  assumes "tree_ok s" "fresh s m" "may_adopt s m np" "PermissionManager n m np s = Some s'"
  shows "tree_ok s' \<and> stale s' \<subseteq> stale s" "m_alive (s' m)"
    "x \<noteq> m \<Longrightarrow> m_localPermissions (s' x) = m_localPermissions (s x)"
proof -
  note ok = tree_ok_newManager[OF assms(1,2)] stale_newManager[OF assms(2)]
  have alive: "m_alive (newManager m s m)" by (simp add: newManager_def)
  have adopt: "may_adopt (newManager m s) m np"
    using assms(2,3) edges_newManager[OF assms(2)] by (auto simp: may_adopt_def newManager_def)
  have "tree_ok s' \<and> stale s' \<subseteq> stale (newManager m s) \<and> m_alive (s' m) \<and>
    m_localPermissions (s' x) = m_localPermissions (newManager m s x)"
    using assms(4) ok(1) alive setParent_step(1,2)[OF ok(1) alive adopt, of n s'] setParent_step(3)[OF ok(1) alive adopt, of n s' x]
    by (auto simp: PermissionManager_def Let_def split: if_splits)
  then show "tree_ok s' \<and> stale s' \<subseteq> stale s" "m_alive (s' m)"
    "x \<noteq> m \<Longrightarrow> m_localPermissions (s' x) = m_localPermissions (s x)"
    using ok(2) by (auto simp: newManager_def)
qed

lemma destroy_step:
  assumes "tree_ok s" "m_alive (s m)"
  shows "tree_ok (destroyManager m s) \<and> stale (destroyManager m s) \<subseteq> stale s"
proof -
  let ?s = "destroyManager m s"
  have f: "m_alive (?s x) \<longleftrightarrow> x \<noteq> m \<and> m_alive (s x)" "m_parent (?s x) = m_parent (s x)"
    "m_permissions (?s x) = m_permissions (s x)" "m_localPermissions (?s x) = m_localPermissions (s x)" for x
    by (auto simp: destroyManager_def Let_def removeChildManager_def split: option.splits)
  have ch: "set (m_children (?s q)) = set (m_children (s q)) - (if m_parent (s m) = Some q then {m} else {})"
    if "m_alive (s q)" for q
    using that by (auto simp: destroyManager_def Let_def removeChildManager_def getParentManager_def split: option.splits)
  have "linked ?s" using assms ch by (auto simp: linked_def tree_ok_def f split: if_splits)
  moreover have "edges ?s \<subseteq> edges s" by (auto simp: edges_def f)
  then have "wf (edges ?s)" using assms(1) wf_subset by (auto simp: tree_ok_def)
  moreover have "computed ?s x = computed s x \<and> \<not> orphan s x" if "x \<noteq> m" "\<not> orphan ?s x" for x
    using that by (cases "m_parent (s x)")
      (auto simp: computed_def orphan_def getParentManager_def getPermissions_def f split: if_splits)
  then have "stale ?s \<subseteq> stale s" by (auto simp: stale_def f)
  ultimately show ?thesis using assms(1) by (simp add: tree_ok_def f)
qed

lemma not_below_fresh: "fresh s m' \<Longrightarrow> m_alive (s p) \<Longrightarrow> (p, m') \<notin> (edges s)\<^sup>*"
  by (auto simp: fresh_def edges_def elim: rtranclE)

lemma perm_step_ok:
  assumes "perm_step s s'" "tree_ok s" shows "tree_ok s' \<and> stale s' \<subseteq> stale s"
  using assms
proof (induction rule: perm_step.induct)
  case (step_set s m p n s')
  then show ?case using refreshed_step(1)[of s m p n s'] by auto
next
  case (step_parent s m np n s')
  then show ?case using setParent_step(1)[of s m np n s'] by auto
next
  case (step_new s m np n s')
  then show ?case using PermissionManager_step(1) by blast
next
  case (step_clone s m m' n s')
  obtain t where t: "PermissionManager n m' (getParentManager m s) s = Some t"
    "setPermissions n m' (m_localPermissions (t m)) t = Some s'"
    using step_clone.hyps(3) by (auto simp: cloneManager_def split: option.splits)
  have adopt: "may_adopt s m' (getParentManager m s)"
    using not_below_fresh[OF step_clone.hyps(2)] by (auto simp: may_adopt_def getParentManager_iff)
  note new = PermissionManager_step[OF step_clone.prems step_clone.hyps(2) adopt t(1)]
  have "m \<noteq> m'" using step_clone.hyps by (auto simp: fresh_def)
  then have "builds (m_localPermissions (t m))"
    using new(3)[of m] step_clone.hyps(1) step_clone.prems by (simp add: tree_ok_def)
  with refreshed_step(1)[of t m'] new(1,2) t(2) show ?case by blast
next
  case (step_destroy s m)
  then show ?case by (simp add: destroy_step)
qed

lemma perm_reach_ok: "perm_reach s \<Longrightarrow> tree_ok s \<and> stale s = {}"
proof (induction rule: perm_reach.induct)
  case reach_none
  then show ?case by (simp add: tree_ok_def linked_def edges_def stale_def no_managers_def)
next
  case (reach_step s s')
  then show ?case using perm_step_ok by blast
qed

section \<open>The specification: the nearest manager that decides\<close>

inductive decided :: "managers \<Rightarrow> string \<Rightarrow> nat \<Rightarrow> mid \<Rightarrow> decision \<Rightarrow> bool" for s g b where
  decided_local: "\<not> orphan s m \<Longrightarrow>
     decides (m_localPermissions (s m)) g b \<or> \<not> inherited (m_localPermissions (s m)) \<or> m_parent (s m) = None \<Longrightarrow>
     decided s g b m (decision (m_localPermissions (s m)) g b)"
| decided_parent: "inherited (m_localPermissions (s m)) \<Longrightarrow> \<not> decides (m_localPermissions (s m)) g b \<Longrightarrow>
     getParentManager m s = Some p \<Longrightarrow> decided s g b p d \<Longrightarrow> decided s g b m d"

lemma decision_same_masks: "masks c g = masks c' g \<Longrightarrow> decision c g b = decision c' g b"
  by (simp add: masks_def decision_def)

lemma decision_empty: "decision (inherit x PermissionsBuilder) g b = Unset" "decision PermissionsBuilder g b = Unset"
  by (simp_all add: decision_def inherit_def PermissionsBuilder_def getOrDefault_def)

lemma decision_inForce:
  assumes "builds l" "\<And>pp. ppo = Some pp \<Longrightarrow> builds pp"
  shows "decision (inForce ppo l) g b =
    (if inherited l \<and> \<not> decides l g b then (case ppo of None \<Rightarrow> Unset | Some pp \<Rightarrow> decision pp g b) else decision l g b)"
proof -
  have b: "build (extendPermissions l c) = extendPermissions l c" if "builds c" for c
    using that assms(1) by (simp add: build_id builds.intros masks_ok_tables builds_masks_ok)
  have p: "decision (extendPermissions pp (inherit True PermissionsBuilder)) g b = decision pp g b" if "builds pp" for pp
    using that by (simp add: decision_extend builds_masks_ok decision_empty decides_def)
  show ?thesis
  proof (cases ppo)
    case None
    then show ?thesis using assms(1) b[OF builds_new]
      by (simp add: inForce_def decision_extend builds_masks_ok decision_empty)
  next
    case (Some pp)
    then have pp: "builds pp" using assms(2) by simp
    then have "builds (extendPermissions pp (inherit True PermissionsBuilder))" by (intro builds.intros)
    from b[OF this] p[OF pp] Some assms(1) show ?thesis
      by (simp add: inForce_def decision_extend builds_masks_ok)
  qed
qed

lemma decided_unique_local:
  assumes "perm_reach s" "m_alive (s m)" "\<not> orphan s m"
  shows "decision (m_permissions (s m)) g b =
    (if inherited (m_localPermissions (s m)) \<and> \<not> decides (m_localPermissions (s m)) g b
     then (case getParentManager m s of None \<Rightarrow> Unset | Some p \<Rightarrow> decision (m_permissions (s p)) g b)
     else decision (m_localPermissions (s m)) g b)"
proof -
  have ok: "tree_ok s" "m \<notin> stale s" using perm_reach_ok[OF assms(1)] by auto
  then have "masks (m_permissions (s m)) = masks (computed s m)" using assms by (simp add: stale_def)
  then have "decision (m_permissions (s m)) g b = decision (computed s m) g b"
    by (intro decision_same_masks) simp
  also have "\<dots> = (if inherited (m_localPermissions (s m)) \<and> \<not> decides (m_localPermissions (s m)) g b
     then (case map_option (\<lambda>q. getPermissions q s) (getParentManager m s) of None \<Rightarrow> Unset | Some pp \<Rightarrow> decision pp g b)
     else decision (m_localPermissions (s m)) g b)"
    unfolding computed_def using ok(1) assms(2)
    by (intro decision_inForce) (auto simp: tree_ok_def getPermissions_def getParentManager_iff)
  finally show ?thesis by (simp add: getPermissions_def option.case_eq_if option.map_sel)
qed

lemma decided_decision:
  assumes "perm_reach s"
  shows "decided s g b m d \<Longrightarrow> m_alive (s m) \<Longrightarrow> decision (m_permissions (s m)) g b = d"
proof (induction rule: decided.induct)
  case (decided_local m)
  then have "decides (m_localPermissions (s m)) g b \<or> \<not> inherited (m_localPermissions (s m)) \<or> getParentManager m s = None"
    by (auto simp: getParentManager_def)
  then show ?case using decided_unique_local[OF assms decided_local(3,1), of g b] by (auto simp: decides_def)
next
  case (decided_parent m p d)
  then have "\<not> orphan s m" "m_alive (s p)" by (auto simp: orphan_def getParentManager_iff)
  with decided_parent decided_unique_local[OF assms decided_parent.prems, of g b] show ?case by simp
qed

section \<open>Properties\<close>


text \<open>C36: The recursion of setPermissions over the tree ends: in every reachable tree there is a depth from
  which on the update of any live manager returns, always with the same tree of managers.\<close>

theorem permission_update_ends:
  assumes "perm_reach s" "m_alive (s m)"
  shows "\<exists>n s'. same_tree s s' \<and> (\<forall>k \<ge> n. setPermissions k m p s = Some s')"
proof -
  obtain n where "\<forall>k \<ge> n. \<forall>t p. same_tree s t \<longrightarrow> (\<exists>t'. setPermissions k m p t = Some t' \<and> same_tree t t')"
    using setPermissions_ends perm_reach_ok[OF assms(1)] assms(2) by blast
  then obtain s' where "setPermissions n m p s = Some s'" "same_tree s s'" by (meson order_refl same_tree_refl)
  then show ?thesis using setPermissions_mono by blast
qed

text \<open>C37: Permissions made by any sequence of builder calls never both allow and deny a permission of a group,
  and extending by them overrides exactly the bits they decide.\<close>

theorem extend_overrides_decided:
  assumes "builds cfg"
  shows "decision (extendPermissions cfg c) g b = (if decides cfg g b then decision cfg g b else decision c g b)
    \<and> getOrDefault (allowed cfg) g AND getOrDefault (denied cfg) g = 0"
  using decision_extend[OF builds_masks_ok[OF assms]] builds_masks_ok[OF assms]
  by (auto simp: masks_ok_def masks_def triple_ok.simps)

section \<open>A tree of two managers\<close>

definition rootPerms :: perms where
  "rootPerms = build (allow ''user'' (mask_write (mask_read 0)) PermissionsBuilder)"

definition childPerms :: perms where
  "childPerms = build (deny ''user'' (mask_write 0) (inherit True PermissionsBuilder))"

definition demoTree :: managers where
  "demoTree = the (Option.bind (PermissionManager 3 0 None no_managers) (\<lambda>s.
     Option.bind (PermissionManager 3 1 (Some 0) s) (\<lambda>s.
     Option.bind (setPermissions 3 1 childPerms s) (setPermissions 3 0 rootPerms))))"

lemmas perm_eval = PermissionManager_def newManager_def no_managers_def setParent_def relink_def Let_def
  getParentManager_def removeChildManager_def addChildManager_def updateInheritedPermissions_def
  numeral_3_eq_3

lemma demo_builds: "builds rootPerms" "builds childPerms"
  by (simp_all add: rootPerms_def childPerms_def builds.intros)

lemma demo_values:
  "inherited childPerms" "decision childPerms ''user'' 1 = Denied" "\<not> inherited rootPerms"
  "\<not> decides childPerms ''user'' 0" "decision rootPerms ''user'' 0 = Allowed"
  by (simp_all add: childPerms_def rootPerms_def build_def deny_def allow_def inherit_def PermissionsBuilder_def
      mask_write_def mask_read_def CopyPermissionTable_def decision_def decides_def getOrDefault_def om_assign_def om_has_def
      bit_and_iff bit_or_iff bit_not_iff)

lemma demo_reach: "perm_reach demoTree \<and> m_alive (demoTree 1) \<and> m_alive (demoTree 0) \<and> m_parent (demoTree 1) = Some 0
  \<and> m_parent (demoTree 0) = None \<and> m_localPermissions (demoTree 1) = childPerms \<and> m_localPermissions (demoTree 0) = rootPerms"
proof -
  define s1 where "s1 = newManager 0 no_managers"
  have r1: "perm_reach s1"
    by (rule reach_step[OF reach_none step_new[of no_managers 0 None 3]])
       (simp_all add: s1_def PermissionManager_def fresh_def no_managers_def may_adopt_def)
  have f: "fresh s1 1" "may_adopt s1 1 (Some 0)"
    using not_below_fresh[of s1 1 0] by (auto simp: fresh_def may_adopt_def s1_def newManager_def no_managers_def)
  obtain s2 where s2: "PermissionManager 3 1 (Some 0) s1 = Some s2"
    by (simp add: s1_def perm_eval)
  have r2: "perm_reach s2" by (rule reach_step[OF r1 step_new[OF f s2]])
  have a2: "m_alive (s2 1)" "m_alive (s2 0)" "m_parent (s2 1) = Some 0" "m_parent (s2 0) = None" "m_children (s2 0) = [1]" "m_children (s2 1) = []"
    using s2 by (auto simp: s1_def perm_eval)
  obtain s3 where s3: "setPermissions 3 1 childPerms s2 = Some s3"
    using a2 by (simp add: perm_eval)
  have r3: "perm_reach s3" by (rule reach_step[OF r2 step_set[OF a2(1) demo_builds(2) s3]])
  note t3 = refreshed_step(2,3)[OF conjunct1[OF perm_reach_ok[OF r2]] a2(1) demo_builds(2) s3]
  have a3: "m_alive (s3 0)" "m_alive (s3 1)" "m_parent (s3 1) = Some 0" "m_parent (s3 0) = None"
    "m_children (s3 0) = [1]" "m_children (s3 1) = []" "m_localPermissions (s3 1) = childPerms"
    using t3 a2 by (auto simp: same_tree_def)
  obtain s4 where s4: "setPermissions 3 0 rootPerms s3 = Some s4"
    using a3 by (simp add: perm_eval demo_values)
  have r4: "perm_reach s4" by (rule reach_step[OF r3 step_set[OF a3(1) demo_builds(1) s4]])
  note t4 = refreshed_step(2,3)[OF conjunct1[OF perm_reach_ok[OF r3]] a3(1) demo_builds(1) s4]
  have "demoTree = s4" using s2 s3 s4 by (simp add: demoTree_def PermissionManager_def s1_def)
  then show ?thesis using r4 t4 a3 by (auto simp: same_tree_def)
qed

lemma demo_decided: "decided demoTree ''user'' 1 1 Denied" "decided demoTree ''user'' 0 1 Allowed"
proof -
  have no: "\<not> orphan demoTree 0" "\<not> orphan demoTree 1" "getParentManager 1 demoTree = Some 0"
    using demo_reach by (auto simp: orphan_def getParentManager_def)
  show "decided demoTree ''user'' 1 1 Denied"
    using decided_local[of demoTree 1 "''user''" 1] no demo_reach demo_values(2) by (simp add: decides_def)
  have "decided demoTree ''user'' 0 0 Allowed"
    using decided_local[of demoTree 0 "''user''" 0] no demo_reach demo_values(5) by simp
  then show "decided demoTree ''user'' 0 1 Allowed"
    using decided_parent[of demoTree 1 "''user''" 0 0 Allowed] no demo_reach demo_values by simp
qed


theorem permission_update_ends_witness:
  "\<exists>n s'. same_tree demoTree s' \<and> setPermissions n 0 childPerms demoTree = Some s'"
  using permission_update_ends[of demoTree 0 childPerms] demo_reach by blast

theorem extend_overrides_decided_witness:
  "decision (extendPermissions childPerms rootPerms) ''user'' 0 = Allowed
   \<and> decision (extendPermissions childPerms rootPerms) ''user'' 1 = Denied"
  using extend_overrides_decided[OF demo_builds(2), of rootPerms "''user''" 0]
    extend_overrides_decided[OF demo_builds(2), of rootPerms "''user''" 1] demo_values
  by (auto simp: decides_def)

end
