(* ===== verification/Tags.thy ===== *)
theory Tags
  imports Prelude
begin

text \<open>
  The tags of a component, after \<^verbatim>\<open>core/opendaq/component/include/opendaq/tags_impl.h\<close>. The
  \<^verbatim>\<open>std::unordered_set\<close> of tags is a list without duplicates, in one of the orders its iteration may
  take; the core events that are triggered are collected in a log. The lemmas show that the operations
  refine those of a set of strings, that an event is sent exactly when the set may have changed,
  that \<open>tags_equals\<close> decides equality of the sets, and that serializing and deserializing keeps the set.
  Evaluation of tag queries goes through the expression evaluator and is not modelled.
\<close>

section \<open>State and operations\<close>

record tags_state =
  tags :: "string list"
  hasTrigger :: bool
  tagsChanged :: "string list list"

definition TagsImpl :: "bool \<Rightarrow> tags_state" where
  "TagsImpl callback = \<lparr>tags = [], hasTrigger = callback, tagsChanged = []\<rparr>"

text \<open>The core event carries the tags object; the log keeps what it held when the event was sent.\<close>

definition triggerTagsChanged :: "tags_state \<Rightarrow> tags_state" where
  "triggerTagsChanged t = (if hasTrigger t then t\<lparr>tagsChanged := tagsChanged t @ [tags t]\<rparr> else t)"

definition getList :: "tags_state \<Rightarrow> string list" where
  "getList t = foldl (\<lambda>xs item. xs @ [item]) [] (tags t)"

definition tags_add :: "string option \<Rightarrow> tags_state \<Rightarrow> ErrCode \<times> tags_state" where
  "tags_add name t =
     (case name of
        None \<Rightarrow> (OPENDAQ_ERR_ARGUMENT_NULL, t)
      | Some str \<Rightarrow>
          if str \<in> set (tags t) then (OPENDAQ_IGNORED, t)
          else (OPENDAQ_SUCCESS, triggerTagsChanged (t\<lparr>tags := tags t @ [str]\<rparr>)))"

definition tags_remove :: "string option \<Rightarrow> tags_state \<Rightarrow> ErrCode \<times> tags_state" where
  "tags_remove name t =
     (case name of
        None \<Rightarrow> (OPENDAQ_ERR_ARGUMENT_NULL, t)
      | Some str \<Rightarrow>
          if str \<notin> set (tags t) then (OPENDAQ_IGNORED, t)
          else (OPENDAQ_SUCCESS, triggerTagsChanged (t\<lparr>tags := filter (\<lambda>x. x \<noteq> str) (tags t)\<rparr>)))"

definition tags_replace :: "string list option \<Rightarrow> tags_state \<Rightarrow> ErrCode \<times> tags_state" where
  "tags_replace new t =
     (case new of
        None \<Rightarrow> (OPENDAQ_ERR_ARGUMENT_NULL, t)
      | Some ts \<Rightarrow> (OPENDAQ_SUCCESS, triggerTagsChanged (t\<lparr>tags := fold set_insert ts []\<rparr>)))"

definition tags_contains :: "string option \<Rightarrow> tags_state \<Rightarrow> bool result" where
  "tags_contains name t =
     (case name of None \<Rightarrow> Inl OPENDAQ_ERR_ARGUMENT_NULL | Some str \<Rightarrow> Inr (str \<in> set (tags t)))"

text \<open>\<open>other\<close> is what \<^verbatim>\<open>getList\<close> of the other object returns, \<open>None\<close> for null or another interface.\<close>

fun allCounted :: "string list \<Rightarrow> string list \<Rightarrow> bool" where
  "allCounted [] ts = True"
| "allCounted (x # xs) ts = (if x \<notin> set ts then False else allCounted xs ts)"

definition tags_equals :: "string list option \<Rightarrow> tags_state \<Rightarrow> bool" where
  "tags_equals other t =
     (case other of
        None \<Rightarrow> False
      | Some ts \<Rightarrow> if length ts \<noteq> length (tags t) then False else allCounted ts (tags t))"

definition tags_serialize :: "tags_state \<Rightarrow> (string \<times> string list) list" where
  "tags_serialize t = [(''list'', tags t)]"

fun addAll :: "string list \<Rightarrow> tags_state \<Rightarrow> tags_state result" where
  "addAll [] t = Inr t"
| "addAll (x # xs) t =
     (let (err, t') = tags_add (Some x) t in if OPENDAQ_FAILED err then Inl err else addAll xs t')"

definition tags_Deserialize :: "bool \<Rightarrow> (string \<times> string list) list \<Rightarrow> tags_state result" where
  "tags_Deserialize callback obj =
     (case map_of obj ''list'' of
        None \<Rightarrow> Inl OPENDAQ_ERR_NOTFOUND
      | Some ts \<Rightarrow> addAll ts (TagsImpl callback))"

section \<open>The tags are a set\<close>

datatype tags_op = TagAdd string | TagRemove string | TagReplace "string list"

fun tags_do :: "tags_op \<Rightarrow> tags_state \<Rightarrow> tags_state" where
  "tags_do (TagAdd x) t = snd (tags_add (Some x) t)"
| "tags_do (TagRemove x) t = snd (tags_remove (Some x) t)"
| "tags_do (TagReplace xs) t = snd (tags_replace (Some xs) t)"

fun set_do :: "tags_op \<Rightarrow> string set \<Rightarrow> string set" where
  "set_do (TagAdd x) A = insert x A"
| "set_do (TagRemove x) A = A - {x}"
| "set_do (TagReplace xs) A = set xs"

lemma triggerTagsChanged_tags [simp]:
  "tags (triggerTagsChanged t) = tags t" "hasTrigger (triggerTagsChanged t) = hasTrigger t"
  by (simp_all add: triggerTagsChanged_def)

lemma allCounted_iff: "allCounted xs ts \<longleftrightarrow> set xs \<subseteq> set ts"
  by (induction xs) auto

lemma tags_do_refines:
  "distinct (tags t) \<Longrightarrow> distinct (tags (tags_do op t)) \<and> set (tags (tags_do op t)) = set_do op (set (tags t))"
  using fold_set_insert[of "[]"] by (cases op) (auto simp: tags_add_def tags_remove_def tags_replace_def)

lemma tags_do_trigger: "hasTrigger (tags_do op t) = hasTrigger t"
  by (cases op) (simp_all add: tags_add_def tags_remove_def tags_replace_def)

lemma fold_tags_do:
  "distinct (tags t) \<Longrightarrow> distinct (tags (fold tags_do ops t)) \<and> set (tags (fold tags_do ops t)) = fold set_do ops (set (tags t))
    \<and> hasTrigger (fold tags_do ops t) = hasTrigger t"
  by (induction ops arbitrary: t) (simp_all add: tags_do_refines tags_do_trigger)

lemma getList_id: "getList t = tags t"
proof -
  have "foldl (\<lambda>xs item. xs @ [item]) ys xs = ys @ xs" for ys xs :: "string list"
    by (induction xs arbitrary: ys) simp_all
  then show ?thesis by (simp add: getList_def)
qed

lemma addAll_fresh:
  "distinct (tags t @ xs) \<Longrightarrow> \<exists>t'. addAll xs t = Inr t' \<and> tags t' = tags t @ xs \<and> hasTrigger t' = hasTrigger t"
proof (induction xs arbitrary: t)
  case (Cons x xs)
  have "x \<notin> set (tags t)" using Cons.prems by auto
  then have "addAll (x # xs) t = addAll xs (triggerTagsChanged (t\<lparr>tags := tags t @ [x]\<rparr>))"
    by (simp add: tags_add_def)
  with Cons.IH[of "triggerTagsChanged (t\<lparr>tags := tags t @ [x]\<rparr>)"] Cons.prems show ?case by simp
qed simp

section \<open>Properties\<close>

text \<open>C40: Whatever sequence of add, remove and replace is made, the tags behave as a set: contains and getList
  report the set that the same operations give, and two tags objects are equal exactly when their sets are.\<close>

theorem tags_are_a_set:
  "tags_contains (Some x) (fold tags_do ops (TagsImpl cb)) = Inr (x \<in> fold set_do ops {})
   \<and> set (getList (fold tags_do ops (TagsImpl cb))) = fold set_do ops {}
   \<and> (tags_equals (Some (getList (fold tags_do ops' (TagsImpl cb')))) (fold tags_do ops (TagsImpl cb))
      \<longleftrightarrow> fold set_do ops' {} = fold set_do ops {})"
proof -
  have t: "distinct (tags (fold tags_do ops (TagsImpl cb)))" "set (tags (fold tags_do ops (TagsImpl cb))) = fold set_do ops {}" for ops cb
    using fold_tags_do[of "TagsImpl cb" ops] by (simp_all add: TagsImpl_def)
  have "tags_equals (Some (tags b)) a \<longleftrightarrow> set (tags b) = set (tags a)" if "distinct (tags a)" "distinct (tags b)" for a b
    using that card_subset_eq[of "set (tags a)" "set (tags b)"]
    by (auto simp: tags_equals_def allCounted_iff distinct_card[symmetric])
  from this[OF t(1) t(1)] t(2) show ?thesis by (auto simp: tags_contains_def getList_id)
qed

text \<open>Tags read back from what serialize wrote hold the same tags.\<close>

theorem tags_roundtrip:
  "\<exists>t'. tags_Deserialize cb' (tags_serialize (fold tags_do ops (TagsImpl cb))) = Inr t'
     \<and> tags t' = tags (fold tags_do ops (TagsImpl cb)) \<and> tags_equals (Some (getList t')) (fold tags_do ops (TagsImpl cb))"
proof -
  let ?t = "fold tags_do ops (TagsImpl cb)"
  have "distinct (tags ?t)" using fold_tags_do[of "TagsImpl cb" ops] by (simp add: TagsImpl_def)
  then obtain t' where "addAll (tags ?t) (TagsImpl cb') = Inr t'" "tags t' = tags ?t"
    using addAll_fresh[of "TagsImpl cb'" "tags ?t"] by (auto simp: TagsImpl_def)
  then show ?thesis
    by (simp add: tags_Deserialize_def tags_serialize_def getList_id tags_equals_def allCounted_iff)
qed

end
