(* ===== verification/Component.thy ===== *)
theory Component
  imports Prelude
begin

text \<open>
  Components and folders, after \<^verbatim>\<open>core/opendaq/component/include/opendaq/component_impl.h\<close> and
  \<^verbatim>\<open>folder_impl.h\<close>. A store maps component ids to components; a folder holds its items as an ordered
  map from local ids to component ids. Virtual calls (\<^verbatim>\<open>setActive\<close>, \<^verbatim>\<open>remove\<close>, the core event triggers)
  dispatch on whether the component is a folder and recurse over the items with a fuel argument that
  bounds the depth of the tree. The hooks \<^verbatim>\<open>activeChanged\<close>, \<^verbatim>\<open>visibleChanged\<close>, \<^verbatim>\<open>removed\<close> and
  \<^verbatim>\<open>onOperationModeChanged\<close> do nothing in these two classes, except that a folder clears its items when it
  is removed. Core events are collected in a log. Logging, locks and operation modes are not modelled.
\<close>

section \<open>State\<close>

type_synonym cid = nat

record component =
  frozen :: bool
  isComponentRemoved :: bool
  cparent :: "cid option"
  localId :: string
  globalId :: string
  lockedAttributes :: "string list"
  visible :: bool
  active :: bool
  cname :: "string option"
  description :: "string option"
  coreEventMuted :: bool
  isFolder :: bool
  itemId :: nat
  interfaces :: "nat list"
  items :: "(string, cid) omap"

datatype component_event =
    ActiveChanged cid bool
  | NameChanged cid "string option"
  | DescriptionChanged cid "string option"
  | VisibleChanged cid bool
  | ComponentAdded cid cid
  | ComponentRemoved cid string
  | ComponentUpdateEnd cid

record cworld =
  comps :: "cid \<Rightarrow> component"
  cevents :: "component_event list"

definition modC :: "cid \<Rightarrow> (component \<Rightarrow> component) \<Rightarrow> cworld \<Rightarrow> cworld" where
  "modC c f w = w\<lparr>comps := (comps w)(c := f (comps w c))\<rparr>"

text \<open>Sending a core event unless the component's events are muted.\<close>

definition notify :: "cid \<Rightarrow> component_event \<Rightarrow> cworld \<Rightarrow> cworld" where
  "notify c e w = (if coreEventMuted (comps w c) then w else w\<lparr>cevents := cevents w @ [e]\<rparr>)"

section \<open>Construction\<close>

definition validateComponentId :: "string \<Rightarrow> bool result" where
  "validateComponentId i = (if CHR ''/'' \<in> set i then Inl OPENDAQ_ERR_INVALIDPARAMETER else Inr (CHR '' '' \<notin> set i))"

text \<open>
  \<open>parentId\<close> is the parent and its global id, \<open>hasLogger\<close> whether the context has a logger: only then is the
  local id validated. The new component is a folder when \<open>folder\<close> gives the interface of its items.
\<close>

definition ComponentImpl ::
  "(cid \<times> string) option \<Rightarrow> string \<Rightarrow> string option \<Rightarrow> bool \<Rightarrow> nat option \<Rightarrow> nat list \<Rightarrow> component result" where
  "ComponentImpl parentId lid nm hasLogger folder intfs =
     (if lid = [] then Inl OPENDAQ_ERR_GENERALERROR
      else
        let gid = (case parentId of Some (_, pg) \<Rightarrow> pg @ ''/'' @ lid | None \<Rightarrow> ''/'' @ lid) in
        res_bind (if hasLogger then validateComponentId lid else Inr True) (\<lambda>_.
          Inr \<lparr>frozen = False, isComponentRemoved = False, cparent = map_option fst parentId, localId = lid,
               globalId = gid, lockedAttributes = [''Visible''], visible = True, active = True,
               cname = (case nm of Some n \<Rightarrow> if n \<noteq> [] then Some n else Some lid | None \<Rightarrow> Some lid),
               description = Some [], coreEventMuted = True, isFolder = (folder \<noteq> None),
               itemId = (case folder of Some i \<Rightarrow> i | None \<Rightarrow> 0), interfaces = intfs, items = []\<rparr>))"

section \<open>Attributes\<close>

definition component_setActive :: "cid \<Rightarrow> bool \<Rightarrow> cworld \<Rightarrow> ErrCode \<times> cworld" where
  "component_setActive c a w =
     (let x = comps w c in
      if frozen x then (OPENDAQ_ERR_FROZEN, w)
      else if isComponentRemoved x then (OPENDAQ_ERR_COMPONENT_REMOVED, w)
      else if a = active x then (OPENDAQ_IGNORED, w)
      else if ''Active'' \<in> set (lockedAttributes x) then (OPENDAQ_IGNORED, w)
      else if a \<and> isComponentRemoved x then (OPENDAQ_ERR_INVALIDSTATE, w)
      else (OPENDAQ_SUCCESS, notify c (ActiveChanged c a) (modC c (\<lambda>x. x\<lparr>active := a\<rparr>) w)))"

definition getName :: "cid \<Rightarrow> cworld \<Rightarrow> string" where
  "getName c w = (case cname (comps w c) of Some n \<Rightarrow> n | None \<Rightarrow> localId (comps w c))"

definition setName :: "cid \<Rightarrow> string option \<Rightarrow> cworld \<Rightarrow> ErrCode \<times> cworld" where
  "setName c n w =
     (let x = comps w c in
      if frozen x then (OPENDAQ_ERR_FROZEN, w)
      else if isComponentRemoved x then (OPENDAQ_ERR_COMPONENT_REMOVED, w)
      else if cname x = n then (OPENDAQ_IGNORED, w)
      else if ''Name'' \<in> set (lockedAttributes x) then (OPENDAQ_IGNORED, w)
      else (OPENDAQ_SUCCESS, notify c (NameChanged c n) (modC c (\<lambda>x. x\<lparr>cname := n\<rparr>) w)))"

definition setDescription :: "cid \<Rightarrow> string option \<Rightarrow> cworld \<Rightarrow> ErrCode \<times> cworld" where
  "setDescription c d w =
     (let x = comps w c in
      if frozen x then (OPENDAQ_ERR_FROZEN, w)
      else if isComponentRemoved x then (OPENDAQ_ERR_COMPONENT_REMOVED, w)
      else if description x = d then (OPENDAQ_IGNORED, w)
      else if ''Description'' \<in> set (lockedAttributes x) then (OPENDAQ_IGNORED, w)
      else (OPENDAQ_SUCCESS, notify c (DescriptionChanged c d) (modC c (\<lambda>x. x\<lparr>description := d\<rparr>) w)))"

definition setVisible :: "cid \<Rightarrow> bool \<Rightarrow> cworld \<Rightarrow> ErrCode \<times> cworld" where
  "setVisible c v w =
     (let x = comps w c in
      if frozen x then (OPENDAQ_ERR_FROZEN, w)
      else if isComponentRemoved x then (OPENDAQ_ERR_COMPONENT_REMOVED, w)
      else if ''Visible'' \<in> set (lockedAttributes x) then (OPENDAQ_IGNORED, w)
      else (OPENDAQ_SUCCESS, notify c (VisibleChanged c v) (modC c (\<lambda>x. x\<lparr>visible := v\<rparr>) w)))"

text \<open>Case conversion of the classic locale, and the spelling under which an attribute is locked.\<close>

definition toLowerCase :: "char \<Rightarrow> char" where
  "toLowerCase ch = (let k = of_char ch :: nat in if 65 \<le> k \<and> k \<le> 90 then char_of (k + 32) else ch)"

definition toUpperCase :: "char \<Rightarrow> char" where
  "toUpperCase ch = (let k = of_char ch :: nat in if 97 \<le> k \<and> k \<le> 122 then char_of (k - 32) else ch)"

definition attributeKey :: "string \<Rightarrow> string" where
  "attributeKey s = (case map toLowerCase s of [] \<Rightarrow> [] | ch # rest \<Rightarrow> toUpperCase ch # rest)"

definition lockAttributes :: "cid \<Rightarrow> string list option \<Rightarrow> cworld \<Rightarrow> ErrCode \<times> cworld" where
  "lockAttributes c attrs w =
     (case attrs of
        None \<Rightarrow> (OPENDAQ_SUCCESS, w)
      | Some as \<Rightarrow>
          if isComponentRemoved (comps w c) then (OPENDAQ_ERR_COMPONENT_REMOVED, w)
          else (OPENDAQ_SUCCESS,
                modC c (\<lambda>x. x\<lparr>lockedAttributes := fold (\<lambda>s. set_insert (attributeKey s)) as (lockedAttributes x)\<rparr>) w))"

definition unlockAttributes :: "cid \<Rightarrow> string list option \<Rightarrow> cworld \<Rightarrow> ErrCode \<times> cworld" where
  "unlockAttributes c attrs w =
     (case attrs of
        None \<Rightarrow> (OPENDAQ_SUCCESS, w)
      | Some as \<Rightarrow>
          if isComponentRemoved (comps w c) then (OPENDAQ_ERR_COMPONENT_REMOVED, w)
          else (OPENDAQ_SUCCESS,
                modC c (\<lambda>x. x\<lparr>lockedAttributes :=
                  fold (\<lambda>s. filter (\<lambda>y. y \<noteq> attributeKey s)) as (lockedAttributes x)\<rparr>) w))"

definition componentAvailableAttributes :: "string list" where
  "componentAvailableAttributes = [''Name'', ''Description'', ''Visible'', ''Active'']"

definition lockAllAttributes :: "cid \<Rightarrow> cworld \<Rightarrow> ErrCode \<times> cworld" where
  "lockAllAttributes c w =
     (if isComponentRemoved (comps w c) then (OPENDAQ_ERR_COMPONENT_REMOVED, w)
      else (OPENDAQ_SUCCESS,
            modC c (\<lambda>x. x\<lparr>lockedAttributes := fold set_insert componentAvailableAttributes (lockedAttributes x)\<rparr>) w))"

definition unlockAllAttributes :: "cid \<Rightarrow> cworld \<Rightarrow> ErrCode \<times> cworld" where
  "unlockAllAttributes c w =
     (if isComponentRemoved (comps w c) then (OPENDAQ_ERR_COMPONENT_REMOVED, w)
      else (OPENDAQ_SUCCESS, modC c (\<lambda>x. x\<lparr>lockedAttributes := []\<rparr>) w))"

definition getLockedAttributes :: "cid \<Rightarrow> cworld \<Rightarrow> string list result" where
  "getLockedAttributes c w =
     (if isComponentRemoved (comps w c) then Inl OPENDAQ_ERR_COMPONENT_REMOVED
      else Inr (lockedAttributes (comps w c)))"

section \<open>Operations over the tree\<close>

definition itemsOf :: "cid \<Rightarrow> cworld \<Rightarrow> cid list" where
  "itemsOf c w = (if isFolder (comps w c) then map snd (items (comps w c)) else [])"

text \<open>A loop over items; the first failure ends it, as an early return or an exception does.\<close>

fun forItems :: "(cid \<Rightarrow> cworld \<Rightarrow> (ErrCode \<times> cworld) option) \<Rightarrow> cid list \<Rightarrow> cworld \<Rightarrow> (ErrCode \<times> cworld) option" where
  "forItems f [] w = Some (OPENDAQ_SUCCESS, w)"
| "forItems f (c # cs) w =
     (case f c w of
        None \<Rightarrow> None
      | Some (err, w') \<Rightarrow> if OPENDAQ_FAILED err then Some (err, w') else forItems f cs w')"

text \<open>What runs after a call that returned: nothing when it failed.\<close>

definition thenDo :: "(ErrCode \<times> cworld) option \<Rightarrow> (cworld \<Rightarrow> (ErrCode \<times> cworld) option) \<Rightarrow> (ErrCode \<times> cworld) option" where
  "thenDo r f = (case r of None \<Rightarrow> None | Some (err, w) \<Rightarrow> if OPENDAQ_FAILED err then Some (err, w) else f w)"

fun enableCoreEventTrigger_rec :: "nat \<Rightarrow> cid \<Rightarrow> cworld \<Rightarrow> (ErrCode \<times> cworld) option" where
  "enableCoreEventTrigger_rec 0 c w = None"
| "enableCoreEventTrigger_rec (Suc n) c w =
     thenDo (forItems (enableCoreEventTrigger_rec n) (itemsOf c w) w) (\<lambda>w.
       Some (OPENDAQ_SUCCESS, modC c (\<lambda>x. x\<lparr>coreEventMuted := False\<rparr>) w))"

fun disableCoreEventTrigger_rec :: "nat \<Rightarrow> cid \<Rightarrow> cworld \<Rightarrow> (ErrCode \<times> cworld) option" where
  "disableCoreEventTrigger_rec 0 c w = None"
| "disableCoreEventTrigger_rec (Suc n) c w =
     thenDo (forItems (disableCoreEventTrigger_rec n) (itemsOf c w) w) (\<lambda>w.
       Some (OPENDAQ_SUCCESS, modC c (\<lambda>x. x\<lparr>coreEventMuted := True\<rparr>) w))"

definition setActiveRecursive ::
  "nat \<Rightarrow> (cid \<Rightarrow> cworld \<Rightarrow> (ErrCode \<times> cworld) option) \<Rightarrow> cid \<Rightarrow> cid list \<Rightarrow> cworld \<Rightarrow> (ErrCode \<times> cworld) option" where
  "setActiveRecursive n setItem c cs w =
     (let muted = coreEventMuted (comps w c) in
      thenDo (if muted then Some (OPENDAQ_SUCCESS, w) else disableCoreEventTrigger_rec n c w) (\<lambda>w.
      thenDo (forItems setItem cs w) (\<lambda>w.
      if muted then Some (OPENDAQ_SUCCESS, w) else enableCoreEventTrigger_rec n c w)))"

fun setActive :: "nat \<Rightarrow> cid \<Rightarrow> bool \<Rightarrow> cworld \<Rightarrow> (ErrCode \<times> cworld) option" where
  "setActive 0 c a w = None"
| "setActive (Suc n) c a w =
     (let (err, w1) = component_setActive c a w in
      if \<not> isFolder (comps w c) then Some (err, w1)
      else if OPENDAQ_FAILED err then Some (err, w1)
      else if err = OPENDAQ_IGNORED then Some (err, w1)
      else setActiveRecursive (Suc n) (\<lambda>i. setActive n i a) c (itemsOf c w1) w1)"

text \<open>The body of \<^verbatim>\<open>clearInternal\<close> for one item, then \<^verbatim>\<open>remove\<close> with the folder's \<^verbatim>\<open>removed\<close>.\<close>

definition clearItem ::
  "nat \<Rightarrow> (cid \<Rightarrow> cworld \<Rightarrow> (ErrCode \<times> cworld) option) \<Rightarrow> cid \<Rightarrow> cid \<Rightarrow> cworld \<Rightarrow> (ErrCode \<times> cworld) option" where
  "clearItem n removeItem' c i w =
     thenDo (disableCoreEventTrigger_rec n i w) (\<lambda>w.
     thenDo (removeItem' i w) (\<lambda>w.
     Some (OPENDAQ_SUCCESS, notify c (ComponentRemoved c (localId (comps w i))) w)))"

definition clearInternal ::
  "nat \<Rightarrow> (cid \<Rightarrow> cworld \<Rightarrow> (ErrCode \<times> cworld) option) \<Rightarrow> cid \<Rightarrow> cworld \<Rightarrow> (ErrCode \<times> cworld) option" where
  "clearInternal n removeItem' c w =
     thenDo (forItems (clearItem n removeItem' c) (itemsOf c w) w) (\<lambda>w.
     Some (OPENDAQ_SUCCESS, modC c (\<lambda>x. x\<lparr>items := []\<rparr>) w))"

fun remove :: "nat \<Rightarrow> cid \<Rightarrow> cworld \<Rightarrow> (ErrCode \<times> cworld) option" where
  "remove 0 c w = None"
| "remove (Suc n) c w =
     (if isComponentRemoved (comps w c) then Some (OPENDAQ_IGNORED, w)
      else
        let w1 = modC c (\<lambda>x. x\<lparr>isComponentRemoved := True, active := False\<rparr>) w in
        thenDo (disableCoreEventTrigger_rec (Suc n) c w1) (\<lambda>w2.
        if isFolder (comps w2 c) then clearInternal n (remove n) c w2 else Some (OPENDAQ_SUCCESS, w2)))"

section \<open>Folders\<close>

definition getItems :: "cid \<Rightarrow> cworld \<Rightarrow> cid list" where
  "getItems c w = filter (\<lambda>i. visible (comps w i)) (map snd (items (comps w c)))"

definition getItem :: "cid \<Rightarrow> string option \<Rightarrow> cworld \<Rightarrow> cid result" where
  "getItem c lid w =
     (case lid of
        None \<Rightarrow> Inl OPENDAQ_ERR_ARGUMENT_NULL
      | Some l \<Rightarrow> (case map_of (items (comps w c)) l of None \<Rightarrow> Inl OPENDAQ_ERR_NOTFOUND | Some i \<Rightarrow> Inr i))"

definition isEmpty :: "cid \<Rightarrow> cworld \<Rightarrow> bool" where
  "isEmpty c w \<longleftrightarrow> items (comps w c) = []"

definition hasItem :: "cid \<Rightarrow> string option \<Rightarrow> cworld \<Rightarrow> bool result" where
  "hasItem c lid w =
     (case lid of None \<Rightarrow> Inl OPENDAQ_ERR_ARGUMENT_NULL | Some l \<Rightarrow> Inr (om_has (items (comps w c)) l))"

definition addItemInternal :: "cid \<Rightarrow> cid \<Rightarrow> cworld \<Rightarrow> (bool \<times> cworld) result" where
  "addItemInternal c i w =
     (if itemId (comps w c) \<notin> set (interfaces (comps w i)) then Inl OPENDAQ_ERR_INVALIDPARAMETER
      else
        let l = localId (comps w i) in
        Inr (\<not> om_has (items (comps w c)) l, modC c (\<lambda>x. x\<lparr>items := om_insert l i (items x)\<rparr>) w))"

definition addItem :: "nat \<Rightarrow> cid \<Rightarrow> cid option \<Rightarrow> cworld \<Rightarrow> (ErrCode \<times> cworld) option" where
  "addItem n c item w =
     (case item of
        None \<Rightarrow> Some (OPENDAQ_ERR_ARGUMENT_NULL, w)
      | Some i \<Rightarrow>
          (case addItemInternal c i w of
             Inl e \<Rightarrow> Some (e, w)
           | Inr (added, w1) \<Rightarrow>
               if \<not> added then Some (OPENDAQ_ERR_DUPLICATEITEM, w1)
               else if coreEventMuted (comps w1 c) then Some (OPENDAQ_SUCCESS, w1)
               else thenDo (enableCoreEventTrigger_rec n i (notify c (ComponentAdded c i) w1)) (\<lambda>w2. Some (OPENDAQ_SUCCESS, w2))))"

definition removeItemWithLocalIdInternal :: "nat \<Rightarrow> cid \<Rightarrow> string \<Rightarrow> cworld \<Rightarrow> (ErrCode \<times> cworld) option" where
  "removeItemWithLocalIdInternal n c l w =
     (case map_of (items (comps w c)) l of
        None \<Rightarrow> Some (OPENDAQ_ERR_NOTFOUND, w)
      | Some i \<Rightarrow>
          thenDo (disableCoreEventTrigger_rec n i w) (\<lambda>w1.
          thenDo (remove n i w1) (\<lambda>w2.
          Some (OPENDAQ_SUCCESS, modC c (\<lambda>x. x\<lparr>items := om_erase l (items x)\<rparr>) w2))))"

definition removeItemWithLocalId :: "nat \<Rightarrow> cid \<Rightarrow> string option \<Rightarrow> cworld \<Rightarrow> (ErrCode \<times> cworld) option" where
  "removeItemWithLocalId n c lid w =
     (case lid of
        None \<Rightarrow> Some (OPENDAQ_ERR_ARGUMENT_NULL, w)
      | Some l \<Rightarrow> thenDo (removeItemWithLocalIdInternal n c l w) (\<lambda>w1.
          Some (OPENDAQ_SUCCESS, notify c (ComponentRemoved c l) w1)))"

definition removeItem :: "nat \<Rightarrow> cid \<Rightarrow> cid option \<Rightarrow> cworld \<Rightarrow> (ErrCode \<times> cworld) option" where
  "removeItem n c item w =
     (case item of
        None \<Rightarrow> Some (OPENDAQ_ERR_ARGUMENT_NULL, w)
      | Some i \<Rightarrow> (let l = localId (comps w i) in
          thenDo (removeItemWithLocalIdInternal n c l w) (\<lambda>w1.
          Some (OPENDAQ_SUCCESS, notify c (ComponentRemoved c l) w1))))"

definition clear :: "nat \<Rightarrow> cid \<Rightarrow> cworld \<Rightarrow> (ErrCode \<times> cworld) option" where
  "clear n c w = thenDo (clearInternal n (remove n) c w) (\<lambda>w. Some (OPENDAQ_SUCCESS, w))"

section \<open>Finding a component by its id\<close>

definition splitRelativeId :: "string \<Rightarrow> (string \<times> string) option" where
  "splitRelativeId i =
     (case dropWhile (\<lambda>ch. ch \<noteq> CHR ''/'') i of
        [] \<Rightarrow> None
      | _ # rest \<Rightarrow> Some (takeWhile (\<lambda>ch. ch \<noteq> CHR ''/'') i, rest))"

lemma splitRelativeId_shorter: "splitRelativeId i = Some (s, r) \<Longrightarrow> length r < length i"
proof -
  assume "splitRelativeId i = Some (s, r)"
  then obtain ch where "dropWhile (\<lambda>ch. ch \<noteq> CHR ''/'') i = ch # r"
    by (auto simp: splitRelativeId_def split: list.splits)
  then show ?thesis using length_dropWhile_le[of "\<lambda>ch. ch \<noteq> CHR ''/''" i] by simp
qed

function findComponentInternal :: "cid \<Rightarrow> string \<Rightarrow> cworld \<Rightarrow> cid option" where
  "findComponentInternal c i w =
     (if i = [] then Some c
      else if \<not> isFolder (comps w c) then None
      else (case splitRelativeId i of
              None \<Rightarrow> map_of (items (comps w c)) i
            | Some (start, rest) \<Rightarrow>
                (case map_of (items (comps w c)) start of
                   None \<Rightarrow> None
                 | Some sub \<Rightarrow> findComponentInternal sub rest w)))"
  by pat_completeness auto
termination by (relation "measure (\<lambda>(c, i, w). length i)") (auto dest: splitRelativeId_shorter)

declare findComponentInternal.simps [simp del]

definition findComponent :: "cid \<Rightarrow> string option \<Rightarrow> cworld \<Rightarrow> (ErrCode \<times> cid option)" where
  "findComponent c idp w =
     (case idp of
        None \<Rightarrow> (OPENDAQ_ERR_ARGUMENT_NULL, None)
      | Some str \<Rightarrow>
          let str1 = (case str of
                        [] \<Rightarrow> str
                      | ch # tail \<Rightarrow>
                          if ch = CHR ''/'' then
                            (let (startStr, restStr) = (case splitRelativeId tail of None \<Rightarrow> ([], []) | Some sr \<Rightarrow> sr)
                             in if startStr = localId (comps w c) then restStr else tail)
                          else str);
              r = findComponentInternal c str1 w
          in (if r = None then OPENDAQ_NOTFOUND else OPENDAQ_SUCCESS, r))"

section \<open>Saved values\<close>

text \<open>Comparing a null string with a literal throws.\<close>

datatype saved = SavedBool bool | SavedString string

type_synonym saved_object = "(string, saved) omap"

definition savedText :: "string \<Rightarrow> string option \<Rightarrow> saved_object result" where
  "savedText k s =
     (case s of
        None \<Rightarrow> Inl OPENDAQ_ERR_INVALIDPARAMETER
      | Some d \<Rightarrow> Inr (if d \<noteq> [] then [(k, SavedString d)] else []))"

definition serializeValues :: "component \<Rightarrow> saved_object result" where
  "serializeValues x =
     res_bind (savedText ''description'' (description x)) (\<lambda>d.
     res_bind (savedText ''name'' (cname x)) (\<lambda>n.
     Inr ((if \<not> active x then [(''active'', SavedBool (active x))] else []) @
          (if \<not> visible x then [(''visible'', SavedBool (visible x))] else []) @ d @ n)))"

definition readBool :: "saved_object \<Rightarrow> string \<Rightarrow> bool result" where
  "readBool obj k = (case map_of obj k of Some (SavedBool b) \<Rightarrow> Inr b | Some _ \<Rightarrow> Inl OPENDAQ_ERR_INVALIDTYPE | None \<Rightarrow> Inl OPENDAQ_ERR_NOTFOUND)"

definition readString :: "saved_object \<Rightarrow> string \<Rightarrow> string result" where
  "readString obj k = (case map_of obj k of Some (SavedString s) \<Rightarrow> Inr s | Some _ \<Rightarrow> Inl OPENDAQ_ERR_INVALIDTYPE | None \<Rightarrow> Inl OPENDAQ_ERR_NOTFOUND)"

text \<open>\<^verbatim>\<open>updateObject\<close> and \<^verbatim>\<open>deserializeCustomObjectValues\<close> read the four attributes in the same way.\<close>

definition updateObject :: "saved_object \<Rightarrow> component \<Rightarrow> component result" where
  "updateObject obj x =
     res_bind (if om_has obj ''active'' then res_bind (readBool obj ''active'') (\<lambda>b. Inr (x\<lparr>active := b\<rparr>)) else Inr x) (\<lambda>x.
     res_bind (if om_has obj ''visible'' then res_bind (readBool obj ''visible'') (\<lambda>b. Inr (x\<lparr>visible := b\<rparr>)) else Inr x) (\<lambda>x.
     res_bind (if om_has obj ''description'' then res_bind (readString obj ''description'') (\<lambda>s. Inr (x\<lparr>description := Some s\<rparr>)) else Inr x) (\<lambda>x.
     if om_has obj ''name'' then res_bind (readString obj ''name'') (\<lambda>s. Inr (x\<lparr>cname := Some s\<rparr>)) else Inr x)))"

lemma thenDo_Some: "thenDo r f = Some y \<longleftrightarrow> (\<exists>e w. r = Some (e, w) \<and> (if OPENDAQ_FAILED e then y = (e, w) else f w = Some y))"
  by (auto simp: thenDo_def split: option.splits)

section \<open>Trees and updates of sets of components\<close>

definition kids :: "cworld \<Rightarrow> (cid \<times> cid) set" where
  "kids w = {(c, i). i \<in> set (itemsOf c w)}"

definition subtree :: "cworld \<Rightarrow> cid \<Rightarrow> cid set" where
  "subtree w c = {x. (c, x) \<in> (kids w)\<^sup>*}"

definition updSet :: "cid set \<Rightarrow> (component \<Rightarrow> component) \<Rightarrow> cworld \<Rightarrow> cworld" where
  "updSet S g w = w\<lparr>comps := \<lambda>x. if x \<in> S then g (comps w x) else comps w x\<rparr>"

lemma subtree_unfold: "subtree w c = insert c (\<Union>i \<in> set (itemsOf c w). subtree w i)"
  by (auto simp: subtree_def kids_def elim: converse_rtranclE intro: converse_rtrancl_into_rtrancl)

lemma subtree_self [simp]: "c \<in> subtree w c"
  by (simp add: subtree_def)

lemma subtree_trans: "y \<in> subtree w x \<Longrightarrow> z \<in> subtree w y \<Longrightarrow> z \<in> subtree w x"
  by (auto simp: subtree_def)

lemma updSet_simps [simp]:
  "comps (updSet S g w) x = (if x \<in> S then g (comps w x) else comps w x)"
  "cevents (updSet S g w) = cevents w"
  "updSet {} g w = w"
  by (simp_all add: updSet_def)

lemma modC_updSet: "modC c g w = updSet {c} g w"
  by (cases w) (auto simp: modC_def updSet_def fun_eq_iff)

lemma itemsOf_updSet:
  "(\<And>x. isFolder (g x) = isFolder x) \<Longrightarrow> (\<And>x. items (g x) = items x) \<Longrightarrow> itemsOf c (updSet S g w) = itemsOf c w"
  by (simp add: itemsOf_def)

lemma kids_cong: "(\<And>c. itemsOf c w' = itemsOf c w) \<Longrightarrow> kids w' = kids w \<and> subtree w' = subtree w"
  by (auto simp: kids_def subtree_def fun_eq_iff)

text \<open>
  The contract shared by muting, activation and removal: each leaves an idempotent mark on the components
  it reaches, so that loops over items accumulate the sets they reach.
\<close>

locale idempotent_mark =
  fixes g :: "component \<Rightarrow> component"
  assumes idem: "g (g x) = g x"
begin

lemma mark_Un: "updSet S g (updSet T g w) = updSet (S \<union> T) g w"
  by (cases w) (auto simp: updSet_def fun_eq_iff idem)

lemma forItems_mark:
  assumes "\<And>i T. i \<in> set cs \<Longrightarrow> Q T \<Longrightarrow> Q (S i \<union> T) \<and> (\<exists>e. \<not> OPENDAQ_FAILED e \<and> f i (updSet T g w) = Some (e, updSet (S i \<union> T) g w))"
  shows "Q T \<Longrightarrow> Q ((\<Union>i \<in> set cs. S i) \<union> T) \<and> forItems f cs (updSet T g w) = Some (OPENDAQ_SUCCESS, updSet ((\<Union>i \<in> set cs. S i) \<union> T) g w)"
  using assms
proof (induction cs arbitrary: T)
  case (Cons i cs)
  obtain e where e: "Q (S i \<union> T)" "\<not> OPENDAQ_FAILED e" "f i (updSet T g w) = Some (e, updSet (S i \<union> T) g w)"
    using Cons.prems(2)[of i T] Cons.prems(1) by auto
  have "Q ((\<Union>i \<in> set cs. S i) \<union> (S i \<union> T)) \<and>
    forItems f cs (updSet (S i \<union> T) g w) = Some (OPENDAQ_SUCCESS, updSet ((\<Union>i \<in> set cs. S i) \<union> (S i \<union> T)) g w)"
    using Cons.prems(2) by (intro Cons.IH e(1)) auto
  with e show ?case by (simp add: Un_ac)
qed simp

end

section \<open>Muting a subtree\<close>

definition setMuted :: "bool \<Rightarrow> component \<Rightarrow> component" where
  "setMuted b x = x\<lparr>coreEventMuted := b\<rparr>"

fun setTrigger :: "bool \<Rightarrow> nat \<Rightarrow> cid \<Rightarrow> cworld \<Rightarrow> (ErrCode \<times> cworld) option" where
  "setTrigger b 0 c w = None"
| "setTrigger b (Suc n) c w =
     thenDo (forItems (setTrigger b n) (itemsOf c w) w) (\<lambda>w. Some (OPENDAQ_SUCCESS, modC c (setMuted b) w))"

lemma setTrigger_disable: "disableCoreEventTrigger_rec n = setTrigger True n"
  by (induction n; intro ext; simp add: setMuted_def[abs_def])

lemma setTrigger_enable: "enableCoreEventTrigger_rec n = setTrigger False n"
  by (induction n; intro ext; simp add: setMuted_def[abs_def])

lemma setMuted_frame [simp]:
  "setMuted b (setMuted b x) = setMuted b x" "isFolder (setMuted b x) = isFolder x" "items (setMuted b x) = items x"
  "frozen (setMuted b x) = frozen x" "isComponentRemoved (setMuted b x) = isComponentRemoved x"
  "active (setMuted b x) = active x" "lockedAttributes (setMuted b x) = lockedAttributes x"
  "coreEventMuted (setMuted b x) = b" "localId (setMuted b x) = localId x"
  by (simp_all add: setMuted_def)

interpretation muting: idempotent_mark "setMuted b"
  by unfold_locales simp

lemma setMuted_shape [simp]:
  "itemsOf c (updSet S (setMuted b) w) = itemsOf c w"
  "kids (updSet S (setMuted b) w) = kids w"
  "subtree (updSet S (setMuted b) w) = subtree w"
proof -
  show "itemsOf c (updSet S (setMuted b) w) = itemsOf c w" for c by (rule itemsOf_updSet) simp_all
  from kids_cong[OF this] show "kids (updSet S (setMuted b) w) = kids w" "subtree (updSet S (setMuted b) w) = subtree w"
    by simp_all
qed

text \<open>In a tree that is no deeper than that of \<open>w0\<close>, muting reaches exactly the subtree.\<close>

definition acyclic_tree :: "cworld \<Rightarrow> bool" where
  "acyclic_tree w \<longleftrightarrow> wf ((kids w)\<inverse>)"

lemma setTrigger_spec:
  assumes "acyclic_tree w0"
  shows "\<exists>n. \<forall>k \<ge> n. \<forall>w. kids w \<subseteq> kids w0 \<longrightarrow> setTrigger b k c w = Some (OPENDAQ_SUCCESS, updSet (subtree w c) (setMuted b) w)"
  using assms unfolding acyclic_tree_def
proof (induction c rule: wf_induct_rule)
  case (less c)
  let ?P = "\<lambda>k i. \<forall>w. kids w \<subseteq> kids w0 \<longrightarrow> setTrigger b k i w = Some (OPENDAQ_SUCCESS, updSet (subtree w i) (setMuted b) w)"
  obtain n where n: "\<forall>k \<ge> n. \<forall>i \<in> set (itemsOf c w0). ?P k i"
    using finite_fuel[of "itemsOf c w0" ?P] less by (auto simp: kids_def)
  show ?case
  proof (intro exI[of _ "Suc n"] allI impI)
    fix k w assume k: "Suc n \<le> k" and K: "kids w \<subseteq> kids w0"
    obtain j where j: "k = Suc j" "n \<le> j" using k by (cases k) auto
    have "setTrigger b j i (updSet T (setMuted b) w) = Some (OPENDAQ_SUCCESS, updSet (subtree w i \<union> T) (setMuted b) w)"
      if "i \<in> set (itemsOf c w)" for i T
    proof -
      have "i \<in> set (itemsOf c w0)" using that K by (auto simp: kids_def)
      then have "?P j i" using n j(2) by blast
      from this[rule_format, of "updSet T (setMuted b) w"] K show ?thesis by (simp add: muting.mark_Un)
    qed
    then have "forItems (setTrigger b j) (itemsOf c w) (updSet {} (setMuted b) w) =
      Some (OPENDAQ_SUCCESS, updSet ((\<Union>i \<in> set (itemsOf c w). subtree w i) \<union> {}) (setMuted b) w)"
      by (intro muting.forItems_mark[where Q = "\<lambda>_. True", THEN conjunct2]) auto
    then show "setTrigger b k c w = Some (OPENDAQ_SUCCESS, updSet (subtree w c) (setMuted b) w)"
      by (simp add: j thenDo_def modC_updSet muting.mark_Un subtree_unfold[of w c])
  qed
qed

lemma trigger_at:
  assumes "acyclic_tree w0" "kids w \<subseteq> kids w0"
  shows "\<exists>n. \<forall>k \<ge> n. setTrigger b k c w = Some (OPENDAQ_SUCCESS, updSet (subtree w c) (setMuted b) w)"
  using setTrigger_spec[OF assms(1)] assms(2) by blast

section \<open>Reaching through open components\<close>

text \<open>
  Activation and removal walk the tree from a component and stop at components that are not open for
  them; a component they change is closed afterwards. \<open>openReach\<close> is the set of components they change.
\<close>

definition openKids :: "(component \<Rightarrow> bool) \<Rightarrow> cworld \<Rightarrow> (cid \<times> cid) set" where
  "openKids P w = {(u, v) \<in> kids w. P (comps w v)}"

definition openReach :: "(component \<Rightarrow> bool) \<Rightarrow> cworld \<Rightarrow> cid \<Rightarrow> cid set" where
  "openReach P w c = (if P (comps w c) then {y. (c, y) \<in> (openKids P w)\<^sup>*} else {})"

definition downClosed :: "(component \<Rightarrow> bool) \<Rightarrow> cworld \<Rightarrow> cid set \<Rightarrow> bool" where
  "downClosed P w T \<longleftrightarrow> (\<forall>(u, v) \<in> openKids P w. u \<in> T \<longrightarrow> v \<in> T)"

lemma openReach_unfold:
  "openReach P w c = (if P (comps w c) then insert c (\<Union>i \<in> set (itemsOf c w). openReach P w i) else {})"
  by (auto simp: openReach_def openKids_def kids_def elim: converse_rtranclE intro: converse_rtrancl_into_rtrancl split: if_splits)

lemma openReach_subtree: "openReach P w c \<subseteq> subtree w c"
proof -
  have "(openKids P w)\<^sup>* \<subseteq> (kids w)\<^sup>*" by (rule rtrancl_mono) (auto simp: openKids_def)
  then show ?thesis by (auto simp: openReach_def subtree_def)
qed

lemma openReach_open: "y \<in> openReach P w c \<Longrightarrow> P (comps w y)"
  by (auto simp: openReach_def openKids_def split: if_splits elim: rtranclE)

lemma downClosed_openReach: "downClosed P w (openReach P w c)"
  by (auto simp: downClosed_def openReach_def intro: rtrancl_into_rtrancl)

lemma downClosed_Un: "downClosed P w S \<Longrightarrow> downClosed P w T \<Longrightarrow> downClosed P w (S \<union> T)"
  by (auto simp: downClosed_def)

lemma subtree_step: "x \<in> subtree w c \<Longrightarrow> (x, y) \<in> kids w \<Longrightarrow> y \<in> subtree w c"
  by (auto simp: subtree_def)

lemma subtree_kid: "(c, i) \<in> kids w \<Longrightarrow> subtree w i \<subseteq> subtree w c"
  by (auto simp: subtree_def intro: converse_rtrancl_into_rtrancl)

lemma acyclic_not_below: "acyclic_tree w \<Longrightarrow> (c, i) \<in> kids w \<Longrightarrow> c \<notin> subtree w i"
proof -
  assume "acyclic_tree w" "(c, i) \<in> kids w"
  then have "acyclic (kids w)" unfolding acyclic_tree_def
    using wf_acyclic[of "(kids w)\<inverse>"] by (simp add: acyclic_converse)
  then show ?thesis using \<open>(c, i) \<in> kids w\<close>
    by (auto simp: acyclic_def subtree_def dest: rtrancl_into_trancl2)
qed

lemma openReach_cong:
  assumes "\<And>x. x \<in> subtree w c \<Longrightarrow> P (comps w' x) = P (comps w x) \<and> itemsOf x w' = itemsOf x w"
  shows "openReach P w' c = openReach P w c"
proof -
  have "(c, y) \<in> (openKids P w)\<^sup>* \<Longrightarrow> (c, y) \<in> (openKids P w')\<^sup>* \<and> y \<in> subtree w c" for y
  proof (induction rule: rtrancl_induct)
    case (step y z)
    then have "z \<in> subtree w c" by (auto simp: openKids_def intro: subtree_step)
    then have "(y, z) \<in> openKids P w'" using step assms by (auto simp: openKids_def kids_def)
    with step \<open>z \<in> subtree w c\<close> show ?case by auto
  qed simp
  moreover have "(c, y) \<in> (openKids P w')\<^sup>* \<Longrightarrow> (c, y) \<in> (openKids P w)\<^sup>* \<and> y \<in> subtree w c" for y
  proof (induction rule: rtrancl_induct)
    case (step y z)
    have "(y, z) \<in> kids w" using step assms by (auto simp: openKids_def kids_def)
    then have "z \<in> subtree w c" using step by (auto intro: subtree_step)
    then have "(y, z) \<in> openKids P w" using step assms \<open>(y, z) \<in> kids w\<close> by (auto simp: openKids_def)
    with step \<open>z \<in> subtree w c\<close> show ?case by auto
  qed simp
  ultimately show ?thesis using assms[of c] by (auto simp: openReach_def)
qed

lemma openReach_mark:
  assumes closed: "downClosed P w T"
    and out: "\<And>x. x \<notin> T \<Longrightarrow> P (comps w' x) = P (comps w x) \<and> itemsOf x w' = itemsOf x w"
    and shut: "\<And>x. x \<in> T \<Longrightarrow> \<not> P (comps w' x)"
  shows "openReach P w' c \<union> T = openReach P w c \<union> T"
proof -
  have fwd: "(c, y) \<in> (openKids P w')\<^sup>* \<Longrightarrow> P (comps w' c) \<Longrightarrow> (c, y) \<in> (openKids P w)\<^sup>* \<and> y \<notin> T" for y
  proof (induction rule: rtrancl_induct)
    case base
    then show ?case using shut by auto
  next
    case (step y z)
    then have "z \<notin> T" "y \<notin> T" using shut by (auto simp: openKids_def)
    then have "(y, z) \<in> openKids P w" using step(2) out by (auto simp: openKids_def kids_def)
    with step \<open>z \<notin> T\<close> show ?case by auto
  qed
  have bwd: "(c, y) \<in> (openKids P w)\<^sup>* \<Longrightarrow> P (comps w c) \<Longrightarrow> y \<in> T \<or> (c, y) \<in> (openKids P w')\<^sup>* \<and> P (comps w' y)" for y
  proof (induction rule: rtrancl_induct)
    case base
    then show ?case using out by (cases "c \<in> T") auto
  next
    case (step y z)
    show ?case
    proof (cases "y \<in> T \<or> z \<in> T")
      case True
      then show ?thesis using step closed by (auto simp: downClosed_def)
    next
      case False
      then have "(y, z) \<in> openKids P w'" "P (comps w' z)" using step(2) out by (auto simp: openKids_def kids_def)
      with step False show ?thesis by auto
    qed
  qed
  have inside: "(c, y) \<in> (openKids P w)\<^sup>* \<Longrightarrow> c \<in> T \<Longrightarrow> y \<in> T" for y
    by (induction rule: rtrancl_induct) (use closed in \<open>auto simp: downClosed_def\<close>)
  show ?thesis
  proof (cases "c \<in> T")
    case True
    then have "openReach P w' c = {}" using shut by (simp add: openReach_def)
    moreover have "openReach P w c \<subseteq> T"
      using inside True by (auto simp: openReach_def)
    ultimately show ?thesis by auto
  next
    case False
    then have "P (comps w' c) = P (comps w c)" using out by simp
    then show ?thesis
      using fwd bwd
      by (auto simp: openReach_def)
  qed
qed

section \<open>Activation\<close>

definition eligible :: "bool \<Rightarrow> component \<Rightarrow> bool" where
  "eligible a x \<longleftrightarrow> active x \<noteq> a \<and> ''Active'' \<notin> set (lockedAttributes x)"

definition setAct :: "bool \<Rightarrow> component \<Rightarrow> component" where
  "setAct a x = x\<lparr>active := a\<rparr>"

lemma setAct_frame [simp]:
  "setAct a (setAct a x) = setAct a x" "isFolder (setAct a x) = isFolder x" "items (setAct a x) = items x"
  "frozen (setAct a x) = frozen x" "isComponentRemoved (setAct a x) = isComponentRemoved x"
  "coreEventMuted (setAct a x) = coreEventMuted x" "\<not> eligible a (setAct a x)"
  "eligible a (setMuted b x) = eligible a x" "active (setAct a x) = a"
  by (simp_all add: setAct_def eligible_def)

interpretation activation: idempotent_mark "setAct a"
  by unfold_locales simp

lemma setAct_shape [simp]:
  "itemsOf c (updSet S (setAct a) w) = itemsOf c w"
  "kids (updSet S (setAct a) w) = kids w"
  "subtree (updSet S (setAct a) w) = subtree w"
proof -
  show "itemsOf c (updSet S (setAct a) w) = itemsOf c w" for c by (rule itemsOf_updSet) simp_all
  from kids_cong[OF this] show "kids (updSet S (setAct a) w) = kids w" "subtree (updSet S (setAct a) w) = subtree w"
    by simp_all
qed

text \<open>A component that takes calls, and one whose whole subtree is muted and takes calls.\<close>

definition usable :: "component \<Rightarrow> bool" where
  "usable x \<longleftrightarrow> \<not> frozen x \<and> \<not> isComponentRemoved x"

definition quiet :: "cworld \<Rightarrow> cid \<Rightarrow> bool" where
  "quiet w c \<longleftrightarrow> (\<forall>x \<in> subtree w c. coreEventMuted (comps w x) \<and> usable (comps w x))"

lemma usable_frame [simp]: "usable (setAct a x) = usable x" "usable (setMuted b x) = usable x"
  by (simp_all add: usable_def)

lemma quiet_kid: "quiet w c \<Longrightarrow> i \<in> set (itemsOf c w) \<Longrightarrow> quiet w i"
  using subtree_kid[of c i w] by (auto simp: quiet_def kids_def)

lemma quiet_updSet: "quiet w c \<Longrightarrow> quiet (updSet T (setAct a) w) c"
  by (simp add: quiet_def)

lemma component_setActive_usable:
  assumes "usable (comps w c)"
  shows "component_setActive c a w =
    (if eligible a (comps w c) then (OPENDAQ_SUCCESS, notify c (ActiveChanged c a) (updSet {c} (setAct a) w)) else (OPENDAQ_IGNORED, w))"
  using assms by (auto simp: component_setActive_def Let_def usable_def eligible_def modC_updSet setAct_def[abs_def])

lemma forItems_setAct:
  assumes "\<And>i w. i \<in> set cs \<Longrightarrow> quiet w i \<Longrightarrow> kids w = K \<Longrightarrow>
    \<exists>e. \<not> OPENDAQ_FAILED e \<and> f i w = Some (e, updSet (openReach (eligible a) w i) (setAct a) w)"
    and "\<And>i. i \<in> set cs \<Longrightarrow> quiet w i" "kids w = K"
  shows "forItems f cs w = Some (OPENDAQ_SUCCESS, updSet (\<Union>i \<in> set cs. openReach (eligible a) w i) (setAct a) w)"
proof -
  have "downClosed (eligible a) w (openReach (eligible a) w i \<union> T) \<and>
      (\<exists>e. \<not> OPENDAQ_FAILED e \<and> f i (updSet T (setAct a) w) = Some (e, updSet (openReach (eligible a) w i \<union> T) (setAct a) w))"
    if i: "i \<in> set cs" and T: "downClosed (eligible a) w T" for i T
  proof -
    obtain e where e: "\<not> OPENDAQ_FAILED e"
      "f i (updSet T (setAct a) w) = Some (e, updSet (openReach (eligible a) (updSet T (setAct a) w) i) (setAct a) (updSet T (setAct a) w))"
      using assms(1)[OF i, of "updSet T (setAct a) w"] quiet_updSet[OF assms(2)[OF i]] assms(3) by auto
    have "openReach (eligible a) (updSet T (setAct a) w) i \<union> T = openReach (eligible a) w i \<union> T"
      by (rule openReach_mark[OF T]) simp_all
    with e downClosed_Un[OF downClosed_openReach T] show ?thesis by (simp add: activation.mark_Un)
  qed
  then have "forItems f cs (updSet {} (setAct a) w) =
    Some (OPENDAQ_SUCCESS, updSet ((\<Union>i \<in> set cs. openReach (eligible a) w i) \<union> {}) (setAct a) w)"
    by (intro activation.forItems_mark[where Q = "downClosed (eligible a) w", THEN conjunct2]) (auto simp: downClosed_def)
  then show ?thesis by simp
qed

lemma openReach_below:
  assumes "acyclic_tree w" "eligible a (comps w c)"
  shows "openReach (eligible a) w c = insert c (\<Union>i \<in> set (itemsOf c w). openReach (eligible a) (updSet {c} (setAct a) w) i)"
proof -
  have "openReach (eligible a) (updSet {c} (setAct a) w) i = openReach (eligible a) w i" if "i \<in> set (itemsOf c w)" for i
    using acyclic_not_below[OF assms(1), of c i] that by (intro openReach_cong) (auto simp: kids_def)
  then show ?thesis using assms(2) by (subst openReach_unfold) simp
qed

lemma setActive_quiet:
  assumes "acyclic_tree w0"
  shows "\<exists>n. \<forall>k \<ge> n. \<forall>w. kids w = kids w0 \<longrightarrow> quiet w c \<longrightarrow>
    setActive k c a w = Some (if eligible a (comps w c) then OPENDAQ_SUCCESS else OPENDAQ_IGNORED,
      updSet (openReach (eligible a) w c) (setAct a) w)"
  using assms unfolding acyclic_tree_def
proof (induction c rule: wf_induct_rule)
  case (less c)
  let ?P = "\<lambda>k i. \<forall>w. kids w = kids w0 \<longrightarrow> quiet w i \<longrightarrow>
    setActive k i a w = Some (if eligible a (comps w i) then OPENDAQ_SUCCESS else OPENDAQ_IGNORED,
      updSet (openReach (eligible a) w i) (setAct a) w)"
  obtain n where n: "\<forall>k \<ge> n. \<forall>i \<in> set (itemsOf c w0). ?P k i"
    using finite_fuel[of "itemsOf c w0" ?P] less by (auto simp: kids_def)
  show ?case
  proof (intro exI[of _ "Suc n"] allI impI)
    fix k w assume k: "Suc n \<le> k" and K: "kids w = kids w0" and q: "quiet w c"
    obtain j where j: "k = Suc j" "n \<le> j" using k by (cases k) auto
    have u: "usable (comps w c)" "coreEventMuted (comps w c)" using q by (auto simp: quiet_def)
    have acyc: "acyclic_tree w" using assms K by (simp add: acyclic_tree_def)
    let ?w1 = "updSet {c} (setAct a) w"
    show "setActive k c a w = Some (if eligible a (comps w c) then OPENDAQ_SUCCESS else OPENDAQ_IGNORED,
      updSet (openReach (eligible a) w c) (setAct a) w)"
    proof (cases "eligible a (comps w c)")
      case False
      then show ?thesis using u by (simp add: j component_setActive_usable openReach_def)
    next
      case True
      have base: "component_setActive c a w = (OPENDAQ_SUCCESS, ?w1)"
        using u True by (simp add: component_setActive_usable notify_def)
      have "forItems (\<lambda>i. setActive j i a) (itemsOf c w) ?w1 =
        Some (OPENDAQ_SUCCESS, updSet (\<Union>i \<in> set (itemsOf c w). openReach (eligible a) ?w1 i) (setAct a) ?w1)"
      proof (rule forItems_setAct[where K = "kids w0"])
        fix i w' assume "i \<in> set (itemsOf c w)" "quiet w' i" "kids w' = kids w0"
        moreover have "i \<in> set (itemsOf c w0)" using \<open>i \<in> set (itemsOf c w)\<close> K by (auto simp: kids_def)
        ultimately show "\<exists>e. \<not> OPENDAQ_FAILED e \<and> setActive j i a w' = Some (e, updSet (openReach (eligible a) w' i) (setAct a) w')"
          using n j(2) by auto
      qed (use q K in \<open>auto intro: quiet_updSet quiet_kid\<close>)
      then have "forItems (\<lambda>i. setActive j i a) (itemsOf c w) ?w1 =
        Some (OPENDAQ_SUCCESS, updSet (openReach (eligible a) w c) (setAct a) w)"
        by (simp add: activation.mark_Un openReach_below[OF acyc True])
      moreover have "itemsOf c w = [] \<Longrightarrow> openReach (eligible a) w c = {c}"
        using True by (subst openReach_unfold) simp
      ultimately show ?thesis using True u
        by (auto simp: j base setActiveRecursive_def thenDo_def itemsOf_def)
    qed
  qed
qed

definition activated :: "bool \<Rightarrow> cid \<Rightarrow> cworld \<Rightarrow> cworld" where
  "activated a c w = w\<lparr>
     comps := (\<lambda>x. if x \<in> subtree w c
        then (comps w x)\<lparr>coreEventMuted := False, active := (if x \<in> openReach (eligible a) w c then a else active (comps w x))\<rparr>
        else comps w x),
     cevents := cevents w @ [ActiveChanged c a]\<rparr>"

lemma openReach_muted [simp]: "openReach (eligible a) (updSet S (setMuted b) w) c = openReach (eligible a) w c"
  by (rule openReach_cong) simp

lemma activated_eq:
  assumes "S = subtree w c" "R = openReach (eligible a) w c"
  shows "updSet S (setMuted False) (updSet R (setAct a) (updSet S (setMuted True) (w\<lparr>cevents := cevents w @ [ActiveChanged c a]\<rparr>))) = activated a c w"
proof -
  have "R \<subseteq> S" using assms openReach_subtree by simp
  then show ?thesis unfolding activated_def assms[symmetric]
    by (cases w) (auto simp: updSet_def fun_eq_iff setMuted_def setAct_def)
qed

lemma cevents_shape [simp]:
  "itemsOf x (w\<lparr>cevents := e\<rparr>) = itemsOf x w" "kids (w\<lparr>cevents := e\<rparr>) = kids w" "subtree (w\<lparr>cevents := e\<rparr>) = subtree w"
  "updSet S g (w\<lparr>cevents := e\<rparr>) = (updSet S g w)\<lparr>cevents := e\<rparr>"
proof -
  show "itemsOf x (w\<lparr>cevents := e\<rparr>) = itemsOf x w" for x by (simp add: itemsOf_def)
  from kids_cong[OF this] show "kids (w\<lparr>cevents := e\<rparr>) = kids w" "subtree (w\<lparr>cevents := e\<rparr>) = subtree w" by simp_all
  show "updSet S g (w\<lparr>cevents := e\<rparr>) = (updSet S g w)\<lparr>cevents := e\<rparr>" by (cases w) (simp add: updSet_def fun_eq_iff)
qed

lemma openReach_cevents [simp]: "openReach P (w\<lparr>cevents := e\<rparr>) c = openReach P w c"
  by (rule openReach_cong) simp

lemma updSet_commute:
  "updSet S (setMuted b) (updSet T (setAct a) w) = updSet T (setAct a) (updSet S (setMuted b) w)"
  by (cases w) (auto simp: updSet_def fun_eq_iff setMuted_def setAct_def)

lemma setActive_folder:
  assumes "acyclic_tree w" "isFolder (comps w c)" "\<not> coreEventMuted (comps w c)" "eligible a (comps w c)"
    and "\<And>x. x \<in> subtree w c \<Longrightarrow> usable (comps w x)"
  shows "\<exists>n. \<forall>k \<ge> n. setActive k c a w = Some (OPENDAQ_SUCCESS, activated a c w)"
proof -
  let ?w1 = "updSet {c} (setAct a) w\<lparr>cevents := cevents w @ [ActiveChanged c a]\<rparr>"
  let ?S = "subtree w c" and ?R = "openReach (eligible a) w c"
  let ?w2 = "updSet ?S (setMuted True) ?w1"
  obtain n1 where n1: "\<forall>k \<ge> n1. disableCoreEventTrigger_rec k c ?w1 = Some (OPENDAQ_SUCCESS, ?w2)"
    using trigger_at[OF assms(1), of ?w1 True c] by (auto simp: setTrigger_disable)
  have items1: "itemsOf c ?w1 = itemsOf c w" by simp
  have "\<exists>n. \<forall>k \<ge> n. forItems (\<lambda>i. setActive k i a) (itemsOf c w) ?w2 =
      Some (OPENDAQ_SUCCESS, updSet (\<Union>i \<in> set (itemsOf c w). openReach (eligible a) ?w2 i) (setAct a) ?w2)"
  proof -
    let ?P = "\<lambda>k i. \<forall>w'. kids w' = kids w \<longrightarrow> quiet w' i \<longrightarrow>
      setActive k i a w' = Some (if eligible a (comps w' i) then OPENDAQ_SUCCESS else OPENDAQ_IGNORED,
        updSet (openReach (eligible a) w' i) (setAct a) w')"
    obtain n where n: "\<forall>k \<ge> n. \<forall>i \<in> set (itemsOf c w). ?P k i"
      using finite_fuel[of "itemsOf c w" ?P] setActive_quiet[OF assms(1)] by auto
    have "quiet ?w2 c" using assms(5) by (simp add: quiet_def)
    then have "quiet ?w2 i" if "i \<in> set (itemsOf c w)" for i using quiet_kid[of ?w2 c i] that by simp
    then have "forItems (\<lambda>i. setActive k i a) (itemsOf c w) ?w2 =
      Some (OPENDAQ_SUCCESS, updSet (\<Union>i \<in> set (itemsOf c w). openReach (eligible a) ?w2 i) (setAct a) ?w2)" if "n \<le> k" for k
      using n that by (intro forItems_setAct[where K = "kids w"]) auto
    then show ?thesis by blast
  qed
  then obtain n2 where n2: "\<forall>k \<ge> n2. forItems (\<lambda>i. setActive k i a) (itemsOf c w) ?w2 =
      Some (OPENDAQ_SUCCESS, updSet (\<Union>i \<in> set (itemsOf c w). openReach (eligible a) ?w2 i) (setAct a) ?w2)" by blast
  have "updSet (\<Union>i \<in> set (itemsOf c w). openReach (eligible a) ?w2 i) (setAct a) ?w2 =
      updSet ?R (setAct a) (updSet ?S (setMuted True) (w\<lparr>cevents := cevents w @ [ActiveChanged c a]\<rparr>))"
  proof -
    have e1: "(\<Union>i \<in> set (itemsOf c w). openReach (eligible a) ?w2 i) = (\<Union>i \<in> set (itemsOf c w). openReach (eligible a) (updSet {c} (setAct a) w) i)"
      by simp
    have e2: "?w2 = updSet {c} (setAct a) (updSet ?S (setMuted True) (w\<lparr>cevents := cevents w @ [ActiveChanged c a]\<rparr>))"
      by (simp add: updSet_commute)
    show ?thesis by (subst e1, subst e2) (simp add: activation.mark_Un openReach_below[OF assms(1,4)])
  qed
  then obtain w3 where w3: "w3 = updSet ?R (setAct a) (updSet ?S (setMuted True) (w\<lparr>cevents := cevents w @ [ActiveChanged c a]\<rparr>))"
    and run: "\<forall>k \<ge> n2. forItems (\<lambda>i. setActive k i a) (itemsOf c w) ?w2 = Some (OPENDAQ_SUCCESS, w3)"
    using n2 by simp
  have shape3: "kids w3 = kids w" "subtree w3 = subtree w" by (simp_all add: w3)
  obtain n3 where "\<forall>k \<ge> n3. enableCoreEventTrigger_rec k c w3 = Some (OPENDAQ_SUCCESS, updSet (subtree w3 c) (setMuted False) w3)"
    using trigger_at[OF assms(1), of w3 False c] shape3 by (auto simp: setTrigger_enable)
  then have n3: "\<forall>k \<ge> n3. enableCoreEventTrigger_rec k c w3 = Some (OPENDAQ_SUCCESS, activated a c w)"
    using activated_eq[of ?S w c ?R a] by (simp add: w3)
  have base: "component_setActive c a w = (OPENDAQ_SUCCESS, ?w1)"
    using assms(3,4) assms(5)[of c] by (simp add: component_setActive_usable notify_def)
  have "setActive (Suc j) c a w = Some (OPENDAQ_SUCCESS, activated a c w)" if "n1 \<le> j" "n2 \<le> j" "n3 \<le> j" for j
  proof -
    have "disableCoreEventTrigger_rec (Suc j) c ?w1 = Some (OPENDAQ_SUCCESS, ?w2)"
      "enableCoreEventTrigger_rec (Suc j) c w3 = Some (OPENDAQ_SUCCESS, activated a c w)"
      "forItems (\<lambda>i. setActive j i a) (itemsOf c w) ?w2 = Some (OPENDAQ_SUCCESS, w3)"
      using that n1 n3 run by (simp_all del: cevents_shape disableCoreEventTrigger_rec.simps enableCoreEventTrigger_rec.simps)
    then show ?thesis using assms(2,3)
      by (simp add: base setActiveRecursive_def thenDo_def Let_def
          del: disableCoreEventTrigger_rec.simps enableCoreEventTrigger_rec.simps)
  qed
  then show ?thesis
    by (intro exI[of _ "Suc (max n1 (max n2 n3))"] allI impI) (metis Suc_le_D Suc_le_mono max.bounded_iff)
qed

text \<open>When the whole subtree is muted, activation changes no mute flag and undoes no activation,
  whether it succeeds or fails.\<close>

definition all_muted :: "cworld \<Rightarrow> cid \<Rightarrow> bool" where
  "all_muted w c \<longleftrightarrow> (\<forall>x \<in> subtree w c. coreEventMuted (comps w x))"

definition same_mutes :: "bool \<Rightarrow> cworld \<Rightarrow> cworld \<Rightarrow> bool" where
  "same_mutes a w w' \<longleftrightarrow> (\<forall>x. coreEventMuted (comps w' x) = coreEventMuted (comps w x) \<and> itemsOf x w' = itemsOf x w
     \<and> (active (comps w x) = a \<longrightarrow> active (comps w' x) = a))"

lemma same_mutes_muted: "same_mutes a w w' \<Longrightarrow> all_muted w' c = all_muted w c"
  using kids_cong[of w' w] by (simp add: same_mutes_def all_muted_def)

lemma same_mutes_component: "component_setActive c a w = (e, w') \<Longrightarrow> same_mutes a w w'"
  by (auto simp: component_setActive_def Let_def same_mutes_def modC_def notify_def itemsOf_def split: if_splits)

lemma forItems_mutes:
  assumes "\<And>i v e v'. f i v = Some (e, v') \<Longrightarrow> all_muted v i \<Longrightarrow> same_mutes a v v'"
  shows "forItems f cs v = Some (e, v') \<Longrightarrow> (\<And>i. i \<in> set cs \<Longrightarrow> all_muted v i) \<Longrightarrow> same_mutes a v v'"
proof (induction cs arbitrary: v)
  case (Cons i cs)
  obtain e1 v1 where r: "f i v = Some (e1, v1)" using Cons.prems(1) by (auto split: option.splits)
  then have s: "same_mutes a v v1" using assms Cons.prems(2) by auto
  show ?case
  proof (cases "OPENDAQ_FAILED e1")
    case False
    then have "same_mutes a v1 v'" using Cons.prems r same_mutes_muted[OF s] by (intro Cons.IH) auto
    with s show ?thesis by (auto simp: same_mutes_def)
  qed (use Cons.prems r s in auto)
qed (simp add: same_mutes_def)

lemma all_muted_kid: "all_muted w c \<Longrightarrow> i \<in> set (itemsOf c w) \<Longrightarrow> all_muted w i"
  using subtree_kid[of c i w] by (auto simp: all_muted_def kids_def)

lemma setActive_mutes:
  "setActive n c a w = Some (e, w') \<Longrightarrow> all_muted w c \<Longrightarrow> same_mutes a w w'"
proof (induction n arbitrary: c w e w')
  case (Suc n)
  obtain e1 w1 where b: "component_setActive c a w = (e1, w1)" by fastforce
  note s1 = same_mutes_component[OF b]
  have m1: "all_muted w1 c" "coreEventMuted (comps w1 c)"
    using Suc.prems(2) same_mutes_muted[OF s1, of c] subtree_self[of c w1] by (auto simp: all_muted_def)
  show ?case
  proof (cases "w' = w1")
    case False
    then have "setActiveRecursive (Suc n) (\<lambda>i. setActive n i a) c (itemsOf c w1) w1 = Some (e, w')"
      using Suc.prems(1) b by (auto split: if_splits)
    then obtain e2 where "forItems (\<lambda>i. setActive n i a) (itemsOf c w1) w1 = Some (e2, w')"
      using m1(2) by (auto simp: setActiveRecursive_def thenDo_def split: option.splits if_splits)
    from forItems_mutes[OF Suc.IH this all_muted_kid[OF m1(1)]] s1 show ?thesis by (auto simp: same_mutes_def)
  qed (use s1 in simp)
qed simp

text \<open>Muting and unmuting, when they return, have reached the whole subtree.\<close>

lemma setTrigger_partial:
  "setTrigger b n c w = Some (e, w') \<Longrightarrow> e = OPENDAQ_SUCCESS \<and> w' = updSet (subtree w c) (setMuted b) w"
proof (induction n arbitrary: c w e w')
  case (Suc n)
  have loop: "forItems (setTrigger b n) cs v = Some (e, v') \<Longrightarrow>
    e = OPENDAQ_SUCCESS \<and> v' = updSet (\<Union>i \<in> set cs. subtree v i) (setMuted b) v" for cs v e v'
  proof (induction cs arbitrary: v)
    case (Cons i cs)
    then obtain e1 v1 where r: "setTrigger b n i v = Some (e1, v1)" by (auto split: option.splits)
    from Suc.IH[OF r] have v1: "e1 = OPENDAQ_SUCCESS" "v1 = updSet (subtree v i) (setMuted b) v" by auto
    then have "forItems (setTrigger b n) cs v1 = Some (e, v')" using Cons.prems r by simp
    from Cons.IH[OF this] v1 show ?case by (simp add: muting.mark_Un Un_commute)
  qed simp
  obtain e1 v where v: "forItems (setTrigger b n) (itemsOf c w) w = Some (e1, v)"
    using Suc.prems by (auto simp: thenDo_def split: option.splits)
  from loop[OF v] Suc.prems v show ?case
    by (simp add: thenDo_def modC_updSet muting.mark_Un subtree_unfold[of w c])
qed simp

section \<open>Removal\<close>

definition gone :: "component \<Rightarrow> component" where
  "gone x = x\<lparr>isComponentRemoved := True, active := False, coreEventMuted := True,
     items := (if isFolder x then [] else items x)\<rparr>"

text \<open>A removed component is inactive, muted and empty.\<close>

definition removed_ok :: "cworld \<Rightarrow> cid \<Rightarrow> bool" where
  "removed_ok w c \<longleftrightarrow> (\<forall>x \<in> subtree w c. isComponentRemoved (comps w x) \<longrightarrow> gone (comps w x) = comps w x)"

definition kidsClosed :: "cworld \<Rightarrow> cid set \<Rightarrow> bool" where
  "kidsClosed w T \<longleftrightarrow> (\<forall>(u, v) \<in> kids w. u \<in> T \<longrightarrow> v \<in> T)"

lemma gone_frame [simp]:
  "gone (gone x) = gone x" "isComponentRemoved (gone x)" "coreEventMuted (gone x)" "isFolder (gone x) = isFolder x"
  "gone (setMuted True x) = gone x" "localId (gone x) = localId x"
  by (simp_all add: gone_def setMuted_def)

interpretation removal: idempotent_mark gone
  by unfold_locales simp

lemma itemsOf_gone: "itemsOf x (updSet T gone w) = (if x \<in> T then [] else itemsOf x w)"
  by (simp add: itemsOf_def gone_def)

lemma kids_gone: "kids (updSet T gone w) \<subseteq> kids w"
  by (auto simp: kids_def itemsOf_gone split: if_splits)

lemma subtree_mono: "kids w' \<subseteq> kids w \<Longrightarrow> subtree w' c \<subseteq> subtree w c"
  using rtrancl_mono[of "kids w'" "kids w"] by (auto simp: subtree_def)

lemma kidsClosed_subtree: "kidsClosed w (subtree w c)"
  by (auto simp: kidsClosed_def intro: subtree_step)

lemma kidsClosed_Un: "kidsClosed w S \<Longrightarrow> kidsClosed w T \<Longrightarrow> kidsClosed w (S \<union> T)"
  by (auto simp: kidsClosed_def)

lemma subtree_gone:
  assumes "kidsClosed w T"
  shows "subtree (updSet T gone w) i \<union> T = subtree w i \<union> T"
proof -
  have "(i, y) \<in> (kids w)\<^sup>* \<Longrightarrow> y \<in> T \<or> (i, y) \<in> (kids (updSet T gone w))\<^sup>*" for y
  proof (induction rule: rtrancl_induct)
    case (step y z)
    show ?case
    proof (cases "y \<in> T")
      case True
      then show ?thesis using step assms by (auto simp: kidsClosed_def)
    next
      case False
      then have "(y, z) \<in> kids (updSet T gone w)" using step by (simp add: kids_def itemsOf_gone)
      with False step show ?thesis by (auto intro: rtrancl_into_rtrancl)
    qed
  qed simp
  then show ?thesis using subtree_mono[OF kids_gone, of T w i] by (auto simp: subtree_def)
qed

lemma removed_ok_gone: "removed_ok w c \<Longrightarrow> removed_ok (updSet T gone w) c"
  using subtree_mono[OF kids_gone, of T w c] by (auto simp: removed_ok_def)

lemma updSet_muted_id:
  assumes "\<And>x. x \<in> S \<Longrightarrow> coreEventMuted (comps w x)"
  shows "updSet S (setMuted True) w = w"
  using assms by (cases w) (auto simp: updSet_def fun_eq_iff setMuted_def)

lemma clearItem_spec:
  assumes fuel: "\<And>w. kids w \<subseteq> K \<Longrightarrow> disableCoreEventTrigger_rec n i w = Some (OPENDAQ_SUCCESS, updSet (subtree w i) (setMuted True) w)"
    and rem: "\<And>w. kids w \<subseteq> K \<Longrightarrow> removed_ok w i \<Longrightarrow> \<exists>e. \<not> OPENDAQ_FAILED e \<and> rm i w = Some (e, updSet (subtree w i) gone w)"
    and K: "kids w \<subseteq> K" and ok: "removed_ok w i" and c: "coreEventMuted (comps w c)"
    and muted: "\<And>x. x \<in> subtree w i \<Longrightarrow> coreEventMuted (comps w x)" and T: "kidsClosed w T"
  shows "clearItem n rm c i (updSet T gone w) = Some (OPENDAQ_SUCCESS, updSet (subtree w i \<union> T) gone w)"
proof -
  let ?w = "updSet T gone w"
  have K': "kids ?w \<subseteq> K" using kids_gone[of T w] K by blast
  have "updSet (subtree ?w i) (setMuted True) ?w = ?w"
    using muted subtree_mono[OF kids_gone, of T w i] by (intro updSet_muted_id) auto
  then have "disableCoreEventTrigger_rec n i ?w = Some (OPENDAQ_SUCCESS, ?w)" using fuel[OF K'] by simp
  moreover obtain e where "\<not> OPENDAQ_FAILED e" "rm i ?w = Some (e, updSet (subtree ?w i) gone ?w)"
    using rem[OF K' removed_ok_gone[OF ok]] by blast
  ultimately show ?thesis using c by (simp add: clearItem_def thenDo_def notify_def removal.mark_Un subtree_gone[OF T])
qed

definition markRemoved :: "component \<Rightarrow> component" where
  "markRemoved x = x\<lparr>isComponentRemoved := True, active := False\<rparr>"

lemma markRemoved_shape [simp]:
  "itemsOf x (updSet S markRemoved w) = itemsOf x w" "kids (updSet S markRemoved w) = kids w"
  "subtree (updSet S markRemoved w) = subtree w" "isFolder (markRemoved y) = isFolder y"
proof -
  show "itemsOf x (updSet S markRemoved w) = itemsOf x w" for x by (rule itemsOf_updSet) (simp_all add: markRemoved_def)
  from kids_cong[OF this] show "kids (updSet S markRemoved w) = kids w" "subtree (updSet S markRemoved w) = subtree w" by simp_all
qed (simp add: markRemoved_def)

lemma removed_steps:
  "updSet {c} (\<lambda>x. x\<lparr>items := []\<rparr>) (updSet (\<Union>i \<in> set (itemsOf c w). subtree w i) gone (updSet (subtree w c) (setMuted True) (updSet {c} markRemoved w)))
   = updSet (subtree w c) gone w" if "isFolder (comps w c)"
  using that subtree_unfold[of w c]
  by (cases w) (auto simp: updSet_def fun_eq_iff gone_def markRemoved_def setMuted_def)

lemma removed_leaf: "removed_ok w c \<Longrightarrow> isComponentRemoved (comps w c) \<Longrightarrow> updSet (subtree w c) gone w = w"
proof -
  assume a: "removed_ok w c" "isComponentRemoved (comps w c)"
  then have g: "gone (comps w c) = comps w c" by (auto simp: removed_ok_def)
  then have "items (comps w c) = items (gone (comps w c))" by simp
  then have "itemsOf c w = []" by (auto simp: itemsOf_def gone_def)
  then have "subtree w c = {c}" by (subst subtree_unfold) simp
  then show ?thesis using g by (cases w) (auto simp: updSet_def fun_eq_iff)
qed

lemma setMuted_same: "coreEventMuted x \<Longrightarrow> setMuted True x = x"
  by (cases x) (simp add: setMuted_def)

lemma remove_spec:
  assumes "acyclic_tree w0"
  shows "\<exists>n. \<forall>k \<ge> n. \<forall>w. kids w \<subseteq> kids w0 \<longrightarrow> removed_ok w c \<longrightarrow>
    remove k c w = Some (if isComponentRemoved (comps w c) then OPENDAQ_IGNORED else OPENDAQ_SUCCESS, updSet (subtree w c) gone w)"
  using assms unfolding acyclic_tree_def
proof (induction c rule: wf_induct_rule)
  case (less c)
  let ?R = "\<lambda>k i. \<forall>w. kids w \<subseteq> kids w0 \<longrightarrow> removed_ok w i \<longrightarrow>
    remove k i w = Some (if isComponentRemoved (comps w i) then OPENDAQ_IGNORED else OPENDAQ_SUCCESS, updSet (subtree w i) gone w)"
  let ?D = "\<lambda>k i. \<forall>w. kids w \<subseteq> kids w0 \<longrightarrow> disableCoreEventTrigger_rec k i w = Some (OPENDAQ_SUCCESS, updSet (subtree w i) (setMuted True) w)"
  obtain n1 where n1: "\<forall>k \<ge> n1. \<forall>i \<in> set (itemsOf c w0). ?R k i"
    using finite_fuel[of "itemsOf c w0" ?R] less by (auto simp: kids_def)
  obtain n2 where n2: "\<forall>k \<ge> n2. \<forall>i \<in> set (c # itemsOf c w0). ?D k i"
    using finite_fuel[of "c # itemsOf c w0" ?D] setTrigger_spec[OF assms] by (auto simp: setTrigger_disable)
  show ?case
  proof (intro exI[of _ "Suc (max n1 n2)"] allI impI)
    fix k w assume k: "Suc (max n1 n2) \<le> k" and K: "kids w \<subseteq> kids w0" and ok: "removed_ok w c"
    obtain j where j: "k = Suc j" "n1 \<le> j" "n2 \<le> j" using k by (cases k) auto
    let ?w1 = "updSet {c} markRemoved w" and ?w2 = "updSet (subtree w c) (setMuted True) (updSet {c} markRemoved w)"
    let ?U = "\<Union>i \<in> set (itemsOf c w). subtree w i"
    have acyc: "acyclic_tree w" using assms K wf_subset[of "(kids w0)\<inverse>" "(kids w)\<inverse>"] by (auto simp: acyclic_tree_def)
    show "remove k c w = Some (if isComponentRemoved (comps w c) then OPENDAQ_IGNORED else OPENDAQ_SUCCESS, updSet (subtree w c) gone w)"
    proof (cases "isComponentRemoved (comps w c)")
      case True
      then show ?thesis using removed_leaf[OF ok] by (simp add: j)
    next
      case False
      have "?D (Suc j) c" using n2 j(3) by (meson le_SucI list.set_intros(1))
      then have dis: "disableCoreEventTrigger_rec (Suc j) c ?w1 = Some (OPENDAQ_SUCCESS, ?w2)"
        using K by (simp del: disableCoreEventTrigger_rec.simps)
      have loop: "clearItem j (remove j) c i (updSet T gone ?w2) = Some (OPENDAQ_SUCCESS, updSet (subtree ?w2 i \<union> T) gone ?w2)"
        if i: "i \<in> set (itemsOf c w)" and T: "kidsClosed ?w2 T" for i T
      proof -
        have i0: "i \<in> set (itemsOf c w0)" using i K by (auto simp: kids_def)
        have kid: "(c, i) \<in> kids w" using i by (simp add: kids_def)
        have notc: "c \<notin> subtree w i" using acyclic_not_below[OF acyc kid] .
        have below: "comps ?w2 x = setMuted True (comps w x)" "x \<in> subtree w c" if "x \<in> subtree w i" for x
          using that notc subtree_kid[OF kid] by auto
        have ok2: "removed_ok ?w2 i" unfolding removed_ok_def
        proof (intro ballI impI)
          fix x assume x: "x \<in> subtree ?w2 i" "isComponentRemoved (comps ?w2 x)"
          then have b: "comps ?w2 x = setMuted True (comps w x)" "x \<in> subtree w c" using below[of x] by simp_all
          then have "gone (comps w x) = comps w x" using ok x(2) by (simp add: removed_ok_def)
          then show "gone (comps ?w2 x) = comps ?w2 x" unfolding b(1) using setMuted_same[of "comps w x"] gone_frame(3)[of "comps w x"] by simp
        qed
        show ?thesis
        proof (rule clearItem_spec[where K = "kids w0"])
          show "disableCoreEventTrigger_rec j i v = Some (OPENDAQ_SUCCESS, updSet (subtree v i) (setMuted True) v)" if "kids v \<subseteq> kids w0" for v
            using n2 j(3) i0 that by simp
          show "\<exists>e. \<not> OPENDAQ_FAILED e \<and> remove j i v = Some (e, updSet (subtree v i) gone v)" if "kids v \<subseteq> kids w0" "removed_ok v i" for v
            using n1 j(2) i0 that by simp
          show "coreEventMuted (comps ?w2 x)" if "x \<in> subtree ?w2 i" for x using below[of x] that by simp
        qed (use K ok2 T in simp_all)
      qed
      have run: "forItems (clearItem j (remove j) c) (itemsOf c w) (updSet {} gone ?w2) = Some (OPENDAQ_SUCCESS, updSet ((\<Union>i \<in> set (itemsOf c w). subtree ?w2 i) \<union> {}) gone ?w2)"
      proof (rule removal.forItems_mark[where Q = "kidsClosed ?w2", THEN conjunct2])
        fix i T assume a: "i \<in> set (itemsOf c w)" "kidsClosed ?w2 T"
        show "kidsClosed ?w2 (subtree ?w2 i \<union> T) \<and> (\<exists>e. \<not> OPENDAQ_FAILED e \<and>
          clearItem j (remove j) c i (updSet T gone ?w2) = Some (e, updSet (subtree ?w2 i \<union> T) gone ?w2))"
          using loop[OF a] kidsClosed_Un[OF kidsClosed_subtree a(2)] failed_simps(1) by blast
      qed (simp_all add: kidsClosed_def)
      show ?thesis
      proof (cases "isFolder (comps w c)")
        case True
        then show ?thesis using False dis run removed_steps[OF True]
          by (simp add: j Let_def modC_updSet thenDo_def clearInternal_def markRemoved_def[abs_def, symmetric] del: disableCoreEventTrigger_rec.simps)
      next
        case nofolder: False
        then have "itemsOf c w = []" by (simp add: itemsOf_def)
        then have "subtree w c = {c}" by (subst subtree_unfold) simp
        then have "?w2 = updSet (subtree w c) gone w" using nofolder
          by (cases w) (auto simp: updSet_def fun_eq_iff gone_def setMuted_def markRemoved_def)
        then show ?thesis using False dis nofolder
          by (simp add: j Let_def modC_updSet thenDo_def markRemoved_def[abs_def, symmetric] del: disableCoreEventTrigger_rec.simps)
      qed
    qed
  qed
qed

section \<open>Ids and paths\<close>

inductive path :: "cworld \<Rightarrow> cid \<Rightarrow> string list \<Rightarrow> cid \<Rightarrow> bool" for w where
  path_nil: "path w r [] r"
| path_cons: "isFolder (comps w r) \<Longrightarrow> map_of (items (comps w r)) l = Some y \<Longrightarrow> path w y ids x \<Longrightarrow> path w r (l # ids) x"

inductive_cases path_consE: "path w r (l # ids) x"

definition id_ok :: "string \<Rightarrow> bool" where
  "id_ok l \<longleftrightarrow> l \<noteq> [] \<and> CHR ''/'' \<notin> set l"

definition ids_ok :: "cworld \<Rightarrow> bool" where
  "ids_ok w \<longleftrightarrow> (\<forall>p l y. isFolder (comps w p) \<longrightarrow> map_of (items (comps w p)) l = Some y \<longrightarrow>
     localId (comps w y) = l \<and> id_ok l \<and> globalId (comps w y) = globalId (comps w p) @ ''/'' @ l)"

fun relativeId :: "string list \<Rightarrow> string" where
  "relativeId [] = []"
| "relativeId [l] = l"
| "relativeId (l # ids) = l @ ''/'' @ relativeId ids"

lemma split_at_slash: "CHR ''/'' \<notin> set l \<Longrightarrow> splitRelativeId (l @ CHR ''/'' # r) = Some (l, r)"
  by (auto simp: splitRelativeId_def dropWhile_append takeWhile_append split: if_splits)

lemma split_no_slash: "CHR ''/'' \<notin> set l \<Longrightarrow> splitRelativeId l = None"
proof -
  assume "CHR ''/'' \<notin> set l"
  then have "dropWhile (\<lambda>ch. ch \<noteq> CHR ''/'') l = []" by (auto simp: dropWhile_eq_Nil_conv)
  then show ?thesis unfolding splitRelativeId_def by (simp only: list.case)
qed

lemma path_globalId:
  "path w r ids x \<Longrightarrow> ids_ok w \<Longrightarrow> globalId (comps w x) = globalId (comps w r) @ (if ids = [] then [] else ''/'' @ relativeId ids)"
proof (induction rule: path.induct)
  case (path_cons r l y ids x)
  then have "globalId (comps w y) = globalId (comps w r) @ ''/'' @ l" by (auto simp: ids_ok_def)
  with path_cons show ?case by (cases ids) simp_all
qed simp

lemma path_found: "path w r ids x \<Longrightarrow> ids_ok w \<Longrightarrow> findComponentInternal r (relativeId ids) w = Some x"
proof (induction rule: path.induct)
  case (path_nil r)
  then show ?case by (simp add: findComponentInternal.simps)
next
  case (path_cons r l y ids x)
  have l: "id_ok l" using path_cons by (auto simp: ids_ok_def)
  show ?case
  proof (cases ids)
    case Nil
    then have "x = y" using path_cons.hyps(3) by (auto elim: path.cases)
    with Nil l path_cons show ?thesis by (simp add: findComponentInternal.simps[of r] id_ok_def split_no_slash)
  next
    case (Cons l' ids')
    then show ?thesis using path_cons l by (simp add: findComponentInternal.simps[of r] id_ok_def split_at_slash)
  qed
qed

lemma addItemInternal_items:
  "addItemInternal c i w = Inr (added, w') \<Longrightarrow>
     w' = modC c (\<lambda>x. x\<lparr>items := om_insert (localId (comps w i)) i (items x)\<rparr>) w \<and> added = (\<not> om_has (items (comps w c)) (localId (comps w i)))"
  by (auto simp: addItemInternal_def Let_def split: if_splits)

definition same_ids :: "cworld \<Rightarrow> cworld \<Rightarrow> bool" where
  "same_ids w w' \<longleftrightarrow> (\<forall>x. isFolder (comps w' x) = isFolder (comps w x) \<and> items (comps w' x) = items (comps w x)
     \<and> localId (comps w' x) = localId (comps w x) \<and> globalId (comps w' x) = globalId (comps w x))"

lemma same_ids_ok: "same_ids w w' \<Longrightarrow> ids_ok w \<Longrightarrow> ids_ok w'"
  by (simp add: same_ids_def ids_ok_def)

lemma same_ids_trans: "same_ids w v \<Longrightarrow> same_ids v u \<Longrightarrow> same_ids w u"
  by (simp add: same_ids_def)

lemma same_ids_enable: "enableCoreEventTrigger_rec n c w = Some (e, w') \<Longrightarrow> same_ids w w'"
proof (induction n arbitrary: c w e w')
  case (Suc n)
  have loop: "forItems (enableCoreEventTrigger_rec n) cs v = Some (e, v') \<Longrightarrow> same_ids v v'" for cs v e v'
  proof (induction cs arbitrary: v)
    case (Cons i cs)
    then obtain e1 v1 where r: "enableCoreEventTrigger_rec n i v = Some (e1, v1)" by (auto split: option.splits)
    from Suc.IH[OF r] have s: "same_ids v v1" .
    show ?case using Cons r s same_ids_trans[OF s] by (auto split: if_splits)
  qed (simp add: same_ids_def)
  from Suc.prems obtain e1 v where v: "forItems (enableCoreEventTrigger_rec n) (itemsOf c w) w = Some (e1, v)"
    and "w' = v \<or> w' = modC c (\<lambda>x. x\<lparr>coreEventMuted := False\<rparr>) v"
    by (auto simp: thenDo_def split: option.splits if_splits)
  moreover have "same_ids v (modC c (\<lambda>x. x\<lparr>coreEventMuted := False\<rparr>) v)" by (simp add: same_ids_def modC_def)
  ultimately show ?case using loop[OF v(1)] same_ids_trans by blast
qed simp

lemma ids_ok_insert:
  assumes ok: "ids_ok w" and id: "id_ok (localId (comps w i))"
    and gid: "globalId (comps w i) = globalId (comps w p) @ ''/'' @ localId (comps w i)"
  shows "ids_ok (modC p (\<lambda>x. x\<lparr>items := om_insert (localId (comps w i)) i (items x)\<rparr>) w)"
proof -
  let ?w = "modC p (\<lambda>x. x\<lparr>items := om_insert (localId (comps w i)) i (items x)\<rparr>) w"
  have f: "isFolder (comps ?w x) = isFolder (comps w x)" "localId (comps ?w x) = localId (comps w x)"
    "globalId (comps ?w x) = globalId (comps w x)" for x by (simp_all add: modC_def)
  have "map_of (items (comps ?w q)) l = Some y \<Longrightarrow> map_of (items (comps w q)) l = Some y \<or> q = p \<and> l = localId (comps w i) \<and> y = i" for q l y
    by (auto simp: modC_def map_of_om_insert split: if_splits)
  then show ?thesis unfolding ids_ok_def f using ok[unfolded ids_ok_def] id gid by blast
qed

lemma ids_ok_addItem:
  assumes "ids_ok w" "id_ok (localId (comps w i))"
    "globalId (comps w i) = globalId (comps w p) @ ''/'' @ localId (comps w i)" "addItem n p (Some i) w = Some (e, w')"
  shows "ids_ok w'"
proof (cases "addItemInternal p i w")
  case (Inl er)
  then show ?thesis using assms by (simp add: addItem_def)
next
  case (Inr r)
  obtain added w1 where r: "r = (added, w1)" by (cases r)
  have w1: "ids_ok w1" using addItemInternal_items[OF Inr[unfolded r]] ids_ok_insert[OF assms(1-3)] by simp
  have n1: "same_ids w1 (notify p ev w1)" for ev by (simp add: same_ids_def notify_def)
  from assms(4) have "w' = w1 \<or> (\<exists>ev k e. enableCoreEventTrigger_rec k i (notify p ev w1) = Some (e, w'))"
    by (auto simp: addItem_def Inr r thenDo_def split: option.splits if_splits)
  with w1 n1 same_ids_enable show ?thesis by (blast intro: same_ids_ok same_ids_trans)
qed

section \<open>Properties\<close>

text \<open>C32: Removing a component removes its whole subtree: every component below it is marked removed, inactive,
  muted and empty, nothing else changes, and no core event is sent. The call returns once the depth of the tree allows.\<close>

theorem removal_takes_whole_subtree:
  assumes "acyclic_tree w" "removed_ok w c" "\<not> isComponentRemoved (comps w c)"
  shows "\<exists>n w'. (\<forall>k \<ge> n. remove k c w = Some (OPENDAQ_SUCCESS, w')) \<and> cevents w' = cevents w \<and>
    (\<forall>x. if x \<in> subtree w c
         then isComponentRemoved (comps w' x) \<and> \<not> active (comps w' x) \<and> coreEventMuted (comps w' x) \<and> itemsOf x w' = []
         else comps w' x = comps w x)"
proof -
  obtain n where "\<forall>k \<ge> n. remove k c w = Some (OPENDAQ_SUCCESS, updSet (subtree w c) gone w)"
    using remove_spec[OF assms(1), of c] assms(2,3) by (metis order_refl)
  moreover have "isComponentRemoved (gone x) \<and> \<not> active (gone x) \<and> coreEventMuted (gone x)" for x
    by (simp add: gone_def)
  ultimately show ?thesis
    by (intro exI[of _ n] exI[of _ "updSet (subtree w c) gone w"]) (simp add: itemsOf_gone)
qed


text \<open>When an item of a folder refuses to change its active state, the folder has already changed its own
  and muted its subtree, and it stays muted: later changes of the folder send no core events.\<close>

theorem failed_activation_leaves_folder_muted:
  assumes "setActive k c a w = Some (e, w')" "OPENDAQ_FAILED e" "isFolder (comps w c)" "usable (comps w c)"
    and "\<not> coreEventMuted (comps w c)"
  shows "active (comps w c) \<noteq> a \<and> active (comps w' c) = a \<and> coreEventMuted (comps w' c)"
proof -
  obtain n where k: "k = Suc n" using assms(1) by (cases k) auto
  let ?w1 = "notify c (ActiveChanged c a) (updSet {c} (setAct a) w)"
  have el: "eligible a (comps w c)"
    using assms by (auto simp: k component_setActive_usable split: if_splits)
  have w1: "active (comps ?w1 c) = a" "\<not> coreEventMuted (comps ?w1 c)" using assms(5) by (simp_all add: notify_def)
  have "setActiveRecursive (Suc n) (\<lambda>i. setActive n i a) c (itemsOf c ?w1) ?w1 = Some (e, w')"
    using assms(1,3,4) el by (simp add: k component_setActive_usable)
  then obtain e2 w2 where d: "disableCoreEventTrigger_rec (Suc n) c ?w1 = Some (e2, w2)"
    and rest: "if OPENDAQ_FAILED e2 then (e, w') = (e2, w2) else
      thenDo (forItems (\<lambda>i. setActive n i a) (itemsOf c ?w1) w2) (\<lambda>w. enableCoreEventTrigger_rec (Suc n) c w) = Some (e, w')"
    using w1(2) unfolding setActiveRecursive_def Let_def by (simp only: if_False thenDo_Some[of "disableCoreEventTrigger_rec _ _ _"]) blast
  have w2: "e2 = OPENDAQ_SUCCESS" "w2 = updSet (subtree ?w1 c) (setMuted True) ?w1"
    using setTrigger_partial[of True "Suc n" c ?w1 e2 w2] d by (simp_all add: setTrigger_disable del: setTrigger.simps disableCoreEventTrigger_rec.simps)
  obtain e3 w3 where run: "forItems (\<lambda>i. setActive n i a) (itemsOf c ?w1) w2 = Some (e3, w3)"
    and after: "if OPENDAQ_FAILED e3 then (e, w') = (e3, w3) else enableCoreEventTrigger_rec (Suc n) c w3 = Some (e, w')"
    using rest w2(1) by (simp only: failed_simps if_False thenDo_Some) blast
  have "e = OPENDAQ_SUCCESS" if "enableCoreEventTrigger_rec (Suc n) c w3 = Some (e, w')"
    using setTrigger_partial[of False "Suc n" c w3 e w'] that by (simp add: setTrigger_enable del: setTrigger.simps enableCoreEventTrigger_rec.simps)
  then have w': "w' = w3" using after assms(2) by (auto simp del: enableCoreEventTrigger_rec.simps split: if_splits)
  have m2: "all_muted w2 c" by (simp add: all_muted_def w2(2))
  have "itemsOf c ?w1 = itemsOf c w2" by (simp add: w2(2))
  then have "same_mutes a w2 w3"
    using forItems_mutes[OF setActive_mutes run] all_muted_kid[OF m2] by simp
  then show ?thesis using m2 w1 el by (auto simp: w' same_mutes_def w2(2) eligible_def)
qed

text \<open>C34: Below a top-level folder whose items carry their ids, every component is found by its global id.\<close>

theorem found_by_global_id:
  assumes "ids_ok w" "path w r ids x" "ids \<noteq> []"
    and "globalId (comps w r) = ''/'' @ localId (comps w r)" "CHR ''/'' \<notin> set (localId (comps w r))"
  shows "findComponent r (Some (globalId (comps w x))) w = (OPENDAQ_SUCCESS, Some x)"
proof -
  have "globalId (comps w x) = CHR ''/'' # localId (comps w r) @ CHR ''/'' # relativeId ids"
    using path_globalId[OF assms(2,1)] assms(3,4) by simp
  then show ?thesis
    using path_found[OF assms(2,1)] split_at_slash[OF assms(5), of "relativeId ids"] by (simp add: findComponent_def)
qed

text \<open>C35: A component made for a folder and added to it keeps the ids of the tree consistent, so that it is found
  by its global id; this relies on the local id being validated, which is only done when there is a logger.\<close>

theorem added_component_keeps_ids:
  assumes "ids_ok w" "ComponentImpl (Some (p, globalId (comps w p))) lid nm True folder intfs = Inr x"
    and "p \<noteq> i" "\<And>q l. map_of (items (comps w q)) l \<noteq> Some i"
    and "addItem n p (Some i) (modC i (\<lambda>_. x) w) = Some (e, w')"
  shows "ids_ok w'"
proof -
  let ?w = "modC i (\<lambda>_. x) w"
  have x: "localId x = lid" "id_ok lid" "globalId x = globalId (comps w p) @ ''/'' @ lid" "items x = []"
    using assms(2) by (auto simp: ComponentImpl_def Let_def id_ok_def validateComponentId_def split: if_splits)
  have "ids_ok ?w" unfolding ids_ok_def
  proof (intro allI impI)
    fix q l y assume a: "isFolder (comps ?w q)" "map_of (items (comps ?w q)) l = Some y"
    then have "q \<noteq> i" using x(4) by (auto simp: modC_def)
    moreover have "y \<noteq> i" using a \<open>q \<noteq> i\<close> assms(4)[of q l] by (auto simp: modC_def)
    ultimately show "localId (comps ?w y) = l \<and> id_ok l \<and> globalId (comps ?w y) = globalId (comps ?w q) @ ''/'' @ l"
      using a assms(1)[unfolded ids_ok_def, rule_format, of q l y] by (simp add: modC_def)
  qed
  then show ?thesis using assms(3,5) x by (intro ids_ok_addItem[of ?w i p n e w']) (simp_all add: modC_def)
qed

text \<open>A top-level component without an item of its own name is not found by its own global id: the id has no
  second part, so its name is looked up among the items instead.\<close>

theorem root_not_found_by_own_global_id:
  assumes "id_ok (localId (comps w r))" "map_of (items (comps w r)) (localId (comps w r)) = None"
  shows "findComponent r (Some (''/'' @ localId (comps w r))) w = (OPENDAQ_NOTFOUND, None)"
  using assms split_no_slash[of "localId (comps w r)"]
  by (auto simp: findComponent_def Let_def id_ok_def findComponentInternal.simps[of r])

lemma fold_lock: "set (fold (\<lambda>s. set_insert (attributeKey s)) as xs) = attributeKey ` set as \<union> set xs"
  by (induction as arbitrary: xs) (auto simp: set_insert_def)


text \<open>Locking \<^verbatim>\<open>DomainSignal\<close> or \<^verbatim>\<open>RelatedSignals\<close> by name has no effect: the names are changed to
  \<^verbatim>\<open>Domainsignal\<close> and \<^verbatim>\<open>Relatedsignals\<close>, which no setter looks for.\<close>

theorem lock_of_mixed_case_attribute_is_lost:
  assumes "lockAttributes c (Some [''DomainSignal'', ''RelatedSignals'']) w = (e, w')"
  shows "(''DomainSignal'' \<in> set (lockedAttributes (comps w' c)) \<longleftrightarrow> ''DomainSignal'' \<in> set (lockedAttributes (comps w c))) \<and>
    (''RelatedSignals'' \<in> set (lockedAttributes (comps w' c)) \<longleftrightarrow> ''RelatedSignals'' \<in> set (lockedAttributes (comps w c)))"
proof -
  have "attributeKey ''DomainSignal'' = ''Domainsignal''" "attributeKey ''RelatedSignals'' = ''Relatedsignals''"
    by code_simp+
  then show ?thesis using assms by (auto simp: lockAttributes_def modC_def set_insert_def split: if_splits)
qed

text \<open>C39: The values written for a component with a non-empty name, read into a component as the constructor makes
  it, give the same active state, visibility, name and description.\<close>

theorem saved_values_roundtrip:
  assumes "ComponentImpl pid lid nm lg folder intfs = Inr y" "cname x = Some n" "n \<noteq> []" "description x = Some d"
  shows "\<exists>obj z. serializeValues x = Inr obj \<and> updateObject obj y = Inr z \<and>
    active z = active x \<and> visible z = visible x \<and> cname z = cname x \<and> description z = description x"
proof -
  have y: "active y" "visible y" "description y = Some []"
    using assms(1) by (auto simp: ComponentImpl_def Let_def split: if_splits)
  show ?thesis using y assms(2-4)
    by (cases "active x"; cases "visible x"; cases "d = []")
       (simp_all add: serializeValues_def savedText_def updateObject_def om_has_def readBool_def readString_def)
qed

text \<open>Updating a component from saved values never activates or shows it: these values are only written when
  they are false, so a component that was switched off after saving stays off.\<close>

theorem update_never_activates:
  assumes "serializeValues x = Inr obj" "updateObject obj y = Inr z"
  shows "(active z \<longrightarrow> active y) \<and> (visible z \<longrightarrow> visible y)"
proof -
  obtain d n where dn: "savedText ''description'' (description x) = Inr d" "savedText ''name'' (cname x) = Inr n"
    and obj: "obj = (if \<not> active x then [(''active'', SavedBool (active x))] else []) @
      (if \<not> visible x then [(''visible'', SavedBool (visible x))] else []) @ d @ n"
    using assms(1) by (auto simp: serializeValues_def)
  have keys: "map_of d ''active'' = None" "map_of d ''visible'' = None" "map_of n ''active'' = None" "map_of n ''visible'' = None"
    using dn by (auto simp: savedText_def split: option.splits if_splits)
  have r: "om_has obj ''active'' \<Longrightarrow> readBool obj ''active'' = Inr False" "om_has obj ''visible'' \<Longrightarrow> readBool obj ''visible'' = Inr False"
    using keys by (auto simp: obj om_has_def readBool_def map_add_def split: if_splits option.splits)
  show ?thesis using assms(2)[unfolded updateObject_def] r
    by (cases "om_has obj ''active''"; cases "om_has obj ''visible''"; cases "om_has obj ''description''"; cases "om_has obj ''name''")
       auto
qed

section \<open>A device with one channel\<close>

definition plainComponent :: "string \<Rightarrow> string \<Rightarrow> (string, cid) omap \<Rightarrow> bool \<Rightarrow> component" where
  "plainComponent lid gid its folder = \<lparr>frozen = False, isComponentRemoved = False, cparent = None, localId = lid, globalId = gid,
     lockedAttributes = [''Visible''], visible = True, active = True, cname = Some lid, description = Some [],
     coreEventMuted = False, isFolder = folder, itemId = 0, interfaces = [0], items = its\<rparr>"

definition demoWorld :: cworld where
  "demoWorld = \<lparr>comps = (\<lambda>c. if c = 0 then plainComponent ''dev'' ''/dev'' [(''io'', 1)] True
     else if c = 1 then plainComponent ''io'' ''/dev/io'' [(''ai'', 2)] True
     else if c = 2 then plainComponent ''ai'' ''/dev/io/ai'' [] False
     else plainComponent ''x'' ''/x'' [] False), cevents = []\<rparr>"

lemma demo_items: "itemsOf c demoWorld = (if c = 0 then [1] else if c = 1 then [2] else [])"
  by (simp add: itemsOf_def demoWorld_def plainComponent_def)

lemma demo_subtree: "subtree demoWorld 0 = {0, 1, 2}"
  by (simp add: subtree_unfold[of demoWorld 0] subtree_unfold[of demoWorld "Suc 0"] subtree_unfold[of demoWorld 2] demo_items insert_commute)

lemma demo_acyclic: "acyclic_tree demoWorld"
  unfolding acyclic_tree_def
  by (rule wf_subset[OF wf_measure[of "\<lambda>x. 5 - x"]]) (auto simp: kids_def demo_items split: if_splits)

theorem removal_takes_whole_subtree_witness:
  "\<exists>n w'. remove n 0 demoWorld = Some (OPENDAQ_SUCCESS, w') \<and> isComponentRemoved (comps w' 2)"
proof -
  have "removed_ok demoWorld 0" "\<not> isComponentRemoved (comps demoWorld 0)"
    by (simp_all add: removed_ok_def demoWorld_def plainComponent_def)
  from removal_takes_whole_subtree[OF demo_acyclic this] show ?thesis using demo_subtree
    by (metis insertCI order_refl)
qed


definition frozenChild :: cworld where
  "frozenChild = modC 1 (\<lambda>x. x\<lparr>frozen := True\<rparr>) demoWorld"

theorem failed_activation_leaves_folder_muted_witness:
  "\<exists>w'. setActive 4 0 False frozenChild = Some (OPENDAQ_ERR_FROZEN, w') \<and> \<not> active (comps w' 0) \<and> coreEventMuted (comps w' 0)"
proof -
  obtain w' where r: "setActive 4 0 False frozenChild = Some (OPENDAQ_ERR_FROZEN, w')"
    by (simp add: eval_nat_numeral frozenChild_def demoWorld_def plainComponent_def modC_def component_setActive_def notify_def
        setActiveRecursive_def thenDo_def itemsOf_def)
  have "isFolder (comps frozenChild 0)" "usable (comps frozenChild 0)" "\<not> coreEventMuted (comps frozenChild 0)"
    by (simp_all add: frozenChild_def demoWorld_def plainComponent_def modC_def usable_def)
  from failed_activation_leaves_folder_muted[OF r _ this] r show ?thesis by auto
qed

lemma demo_ids: "ids_ok demoWorld" "path demoWorld 0 [''io'', ''ai''] 2"
  by (auto simp: ids_ok_def demoWorld_def plainComponent_def id_ok_def split: if_splits intro!: path.intros)

theorem found_by_global_id_witness:
  "findComponent 0 (Some ''/dev/io/ai'') demoWorld = (OPENDAQ_SUCCESS, Some 2)"
  using found_by_global_id[OF demo_ids] by (simp add: demoWorld_def plainComponent_def)

theorem added_component_keeps_ids_witness:
  "\<exists>w' x. addItem 2 0 (Some 3) (modC 3 (\<lambda>_. x) demoWorld) = Some (OPENDAQ_SUCCESS, w') \<and> ids_ok w'"
proof -
  obtain x where x: "ComponentImpl (Some (0, globalId (comps demoWorld 0))) ''fb'' None True None [0] = Inr x"
    by (simp add: ComponentImpl_def validateComponentId_def)
  then have "interfaces x = [0]" "localId x = ''fb''" "\<not> isFolder x" by (auto simp: ComponentImpl_def validateComponentId_def)
  then obtain w' where "addItem 2 0 (Some 3) (modC 3 (\<lambda>_. x) demoWorld) = Some (OPENDAQ_SUCCESS, w')"
    by (auto simp: addItem_def addItemInternal_def modC_def demoWorld_def plainComponent_def om_has_def om_insert_def
        numeral_2_eq_2 thenDo_def itemsOf_def notify_def)
  moreover from added_component_keeps_ids[OF demo_ids(1) x _ _ this] have "ids_ok w'"
    by (auto simp: demoWorld_def plainComponent_def split: if_splits)
  ultimately show ?thesis by blast
qed

theorem root_not_found_by_own_global_id_witness:
  "findComponent 0 (Some ''/dev'') demoWorld = (OPENDAQ_NOTFOUND, None)"
  using root_not_found_by_own_global_id[of demoWorld 0] by (simp add: demoWorld_def plainComponent_def id_ok_def)


theorem lock_of_mixed_case_attribute_is_lost_witness:
  "\<exists>w'. lockAttributes 0 (Some [''DomainSignal'', ''RelatedSignals'']) demoWorld = (OPENDAQ_SUCCESS, w')
    \<and> ''DomainSignal'' \<notin> set (lockedAttributes (comps w' 0))"
proof -
  obtain w' where r: "lockAttributes 0 (Some [''DomainSignal'', ''RelatedSignals'']) demoWorld = (OPENDAQ_SUCCESS, w')"
    by (simp add: lockAttributes_def demoWorld_def plainComponent_def)
  with lock_of_mixed_case_attribute_is_lost[OF r] show ?thesis by (auto simp: demoWorld_def plainComponent_def)
qed

theorem saved_values_roundtrip_witness:
  "\<exists>y obj z. ComponentImpl None ''ch'' None True None [] = Inr y \<and> serializeValues ((comps demoWorld 2)\<lparr>active := False\<rparr>) = Inr obj
    \<and> updateObject obj y = Inr z \<and> \<not> active z \<and> cname z = Some ''ai''"
proof -
  obtain y where y: "ComponentImpl None ''ch'' None True None [] = Inr y" by (simp add: ComponentImpl_def validateComponentId_def)
  have "cname ((comps demoWorld 2)\<lparr>active := False\<rparr>) = Some ''ai''" "description ((comps demoWorld 2)\<lparr>active := False\<rparr>) = Some []"
    by (simp_all add: demoWorld_def plainComponent_def)
  from saved_values_roundtrip[OF y this(1) _ this(2)] y this(1) show ?thesis by auto
qed

theorem update_never_activates_witness:
  "\<exists>obj z. serializeValues (comps demoWorld 2) = Inr obj \<and> updateObject obj ((comps demoWorld 2)\<lparr>active := False\<rparr>) = Inr z \<and> \<not> active z"
proof -
  obtain obj where o: "serializeValues (comps demoWorld 2) = Inr obj" "obj = [(''name'', SavedString ''ai'')]"
    by (simp add: demoWorld_def plainComponent_def serializeValues_def savedText_def)
  then obtain z where z: "updateObject obj ((comps demoWorld 2)\<lparr>active := False\<rparr>) = Inr z"
    by (simp add: updateObject_def om_has_def readString_def)
  from update_never_activates[OF o(1) z] o z show ?thesis by auto
qed

end
