(* ===== verification/PacketStreaming.thy ===== *)
theory PacketStreaming
  imports Packet
begin

text \<open>
  The server side of packet streaming (\<^verbatim>\<open>shared/libraries/packet_streaming\<close>): openDAQ packets
  become packet buffers (a header and a payload) in a queue from which the transport takes them.
  Small buffers carry the id of a group of consecutive buffers that the transport may copy into
  one block, and the server keeps for every group the number and the total size of its buffers.
  A data packet is sent once: later uses of it on other signals are "already sent" buffers, and
  when the packet dies on the server its id is collected for a release buffer.

  A double is its 64-bit pattern here, because no arithmetic is done on it. JSON serialization
  of event packets is a parameter. Reference counts belong to the callers, so the count that
  \<open>canReleasePacket\<close> reads is an argument, and the death of a packet is an operation of its own.
  An exception leaves the state that the code had reached, so operations return both.
\<close>

section \<open>Packets, headers and buffers\<close>

type_synonym double = "64 word"
type_synonym descriptor = "double data_descriptor"
type_synonym event = "double event_packet"

text \<open>The offset of a data packet: a number object; \<open>OffsetOther\<close> is one of another core type.\<close>

datatype offset = OffsetInt Int64 | OffsetFloat double | OffsetOther

datatype data_packet = DataPkt (pk_id: Int64) (pk_domain: "data_packet option")
  (pk_descriptor: descriptor) (pk_sampleCount: "32 word") (pk_offset: "offset option")
  (pk_raw: "8 word list option")

datatype stream_packet = StreamEvent event | StreamData data_packet | StreamOther

datatype stream_type = BufEvent | BufData | BufRelease | BufAlreadySent

definition PACKET_OFFSET_TYPE_INT :: "8 word" where "PACKET_OFFSET_TYPE_INT = 1"
definition PACKET_OFFSET_TYPE_FLOAT :: "8 word" where "PACKET_OFFSET_TYPE_FLOAT = 2"
definition PACKET_FLAG_CAN_RELEASE :: "8 word" where "PACKET_FLAG_CAN_RELEASE = 1"
definition PACKET_FLAG_OFFSET_TYPE_MASK :: "8 word" where "PACKET_FLAG_OFFSET_TYPE_MASK = 2 OR 4"
definition PACKET_FLAG_OFFSET_TYPE_SHIFT :: nat where "PACKET_FLAG_OFFSET_TYPE_SHIFT = 1"

record GenericPacketHeader =
  hd_size :: "8 word"
  hd_type :: stream_type
  hd_version :: "8 word"
  hd_flags :: "8 word"
  hd_signalId :: "32 word"
  hd_payloadSize :: "32 word"

text \<open>
  The three header structures start with the generic one; a header is read here through the
  largest of them, and the members that a shorter header lacks are 0. So is the offset union of
  a packet with no offset, which the code leaves uninitialised and never reads.
\<close>

record DataPacketHeader = GenericPacketHeader +
  hd_packetId :: Int64
  hd_domainPacketId :: Int64
  hd_sampleCount :: Int64
  hd_packetOffset :: "64 word"

definition sizeof_GenericPacketHeader :: "8 word" where "sizeof_GenericPacketHeader = 12"
definition sizeof_DataPacketHeader :: "8 word" where "sizeof_DataPacketHeader = 48"
definition sizeof_AlreadySentPacketHeader :: "8 word" where "sizeof_AlreadySentPacketHeader = 32"

lemmas sizeof_defs = sizeof_GenericPacketHeader_def sizeof_DataPacketHeader_def
  sizeof_AlreadySentPacketHeader_def

datatype payload = NoPayload | TextPayload string | BytesPayload "8 word list" | IdsPayload "Int64 list"

record StreamBuffer =
  sb_header :: DataPacketHeader
  sb_payload :: payload
  additionalSignalIds :: "32 word list"
  cacheableGroupId :: SizeT

definition NON_CACHEABLE_GROUP_ID :: SizeT where "NON_CACHEABLE_GROUP_ID = 0"

definition isCacheable :: "StreamBuffer \<Rightarrow> bool" where
  "isCacheable b \<longleftrightarrow> cacheableGroupId b \<noteq> NON_CACHEABLE_GROUP_ID"

definition StreamBuffer_init :: "DataPacketHeader \<Rightarrow> payload \<Rightarrow> SizeT \<Rightarrow> StreamBuffer" where
  "StreamBuffer_init h p g = \<lparr>sb_header = h, sb_payload = p, additionalSignalIds = [], cacheableGroupId = g\<rparr>"

text \<open>
  \<^verbatim>\<open>packetHeader->size + packetHeader->payloadSize\<close> is an addition of 32-bit unsigned numbers.
\<close>

definition bufferSize32 :: "StreamBuffer \<Rightarrow> 32 word" where
  "bufferSize32 b = ucast (hd_size (sb_header b)) + hd_payloadSize (sb_header b)"

definition bufferSize :: "StreamBuffer \<Rightarrow> SizeT" where
  "bufferSize b = ucast (bufferSize32 b)"

datatype stream_error = PacketStreamingException string | DaqException ErrCode | AssertionFailure

section \<open>The server\<close>

record PacketStreamingServer =
  sv_queue :: "StreamBuffer list"
  countOfNonCacheableBuffers :: SizeT
  cacheableBuffersGroups :: "(SizeT, SizeT \<times> SizeT) omap"
  currentCacheablePacketGroupId :: SizeT
  sv_dataDescriptors :: "32 word \<Rightarrow> descriptor option option"
  sent :: "Int64 set"
  readyForRelease :: "Int64 list"
  destructCallbacks :: "Int64 set"
  releaseThreshold :: SizeT
  cacheablePacketPayloadSizeMax :: SizeT

definition PacketStreamingServer_init :: "SizeT \<Rightarrow> SizeT \<Rightarrow> PacketStreamingServer" where
  "PacketStreamingServer_init payloadMax threshold =
     \<lparr>sv_queue = [], countOfNonCacheableBuffers = 0, cacheableBuffersGroups = [],
      currentCacheablePacketGroupId = 0, sv_dataDescriptors = (\<lambda>_. None), sent = {},
      readyForRelease = [], destructCallbacks = {}, releaseThreshold = threshold,
      cacheablePacketPayloadSizeMax = payloadMax\<rparr>"

text \<open>A call either ends normally with a value or throws; the state is what it left behind.\<close>

type_synonym ('s, 'a) outcome = "(stream_error + 'a) \<times> 's"

text \<open>The message of a failed assertion; the counters that the code appends to it are left out.\<close>

definition linearCachingAssertion :: "string \<Rightarrow> stream_error" where
  "linearCachingAssertion condition = PacketStreamingException (''Linear caching failure: '' @ condition)"

definition getNextPacketBuffer ::
  "PacketStreamingServer \<Rightarrow> (PacketStreamingServer, StreamBuffer option) outcome" where
  "getNextPacketBuffer s =
     (case sv_queue s of
       [] \<Rightarrow> (Inr None, s)
     | b # bs \<Rightarrow>
         let s1 = s\<lparr>sv_queue := bs\<rparr>; g = cacheableGroupId b in
         if isCacheable b
         then (case map_of (cacheableBuffersGroups s1) g of
                 None \<Rightarrow> (Inl (linearCachingAssertion ''it == cacheableBuffersGroups.end()''), s1)
               | Some (cnt, sz) \<Rightarrow>
                   if cnt = 0
                   then (Inl (linearCachingAssertion ''cacheableBuffersGroup.countOfPacketBuffers == 0''), s1)
                   else
                     let cnt' = cnt - 1;
                         s2 = s1\<lparr>cacheableBuffersGroups := om_assign g (cnt', sz) (cacheableBuffersGroups s1)\<rparr> in
                     if sz < bufferSize b
                     then (Inl (linearCachingAssertion ''cacheableBuffersGroup.sizeOfPacketBuffers < packetBufferSize''), s2)
                     else
                       let sz' = sz - bufferSize b;
                           s3 = s2\<lparr>cacheableBuffersGroups := om_assign g (cnt', sz') (cacheableBuffersGroups s2)\<rparr> in
                       if cnt' = 0 \<or> sz' = 0
                       then (if \<not> (cnt' = 0 \<and> sz' = 0)
                             then (Inl (linearCachingAssertion
                                    ''!(cacheableBuffersGroup.countOfPacketBuffers == 0 && cacheableBuffersGroup.sizeOfPacketBuffers == 0)''), s3)
                             else (Inr (Some b),
                                   s3\<lparr>cacheableBuffersGroups := om_erase g (cacheableBuffersGroups s3)\<rparr>))
                       else (Inr (Some b), s3))
         else (if countOfNonCacheableBuffers s1 = 0
               then (Inl (linearCachingAssertion ''countOfNonCacheableBuffers == 0''), s1)
               else (Inr (Some b),
                     s1\<lparr>countOfNonCacheableBuffers := countOfNonCacheableBuffers s1 - 1\<rparr>)))"

definition peekNextPacketBuffer :: "PacketStreamingServer \<Rightarrow> StreamBuffer option" where
  "peekNextPacketBuffer s = (case sv_queue s of [] \<Rightarrow> None | b # bs \<Rightarrow> Some b)"

definition getAvailableBuffersCount :: "PacketStreamingServer \<Rightarrow> SizeT" where
  "getAvailableBuffersCount s = of_nat (length (sv_queue s))"

definition getNonCacheableBuffersCount :: "PacketStreamingServer \<Rightarrow> SizeT" where
  "getNonCacheableBuffersCount s = countOfNonCacheableBuffers s"

definition getSizeOfCacheableBuffers :: "SizeT \<Rightarrow> PacketStreamingServer \<Rightarrow> SizeT" where
  "getSizeOfCacheableBuffers g s =
     (case map_of (cacheableBuffersGroups s) g of Some (cnt, sz) \<Rightarrow> sz | None \<Rightarrow> 0)"

definition getCountOfCacheableBuffers :: "SizeT \<Rightarrow> PacketStreamingServer \<Rightarrow> SizeT" where
  "getCountOfCacheableBuffers g s =
     (case map_of (cacheableBuffersGroups s) g of Some (cnt, sz) \<Rightarrow> cnt | None \<Rightarrow> 0)"

definition getCountOfCacheableGroups :: "PacketStreamingServer \<Rightarrow> SizeT" where
  "getCountOfCacheableGroups s = of_nat (length (cacheableBuffersGroups s))"

definition queuePacketBuffer :: "StreamBuffer \<Rightarrow> PacketStreamingServer \<Rightarrow> PacketStreamingServer" where
  "queuePacketBuffer b s =
     (let s1 =
        (if isCacheable b
         then let g = cacheableGroupId b; groups = om_insert g (0, 0) (cacheableBuffersGroups s) in
              (case map_of groups g of
                 Some (cnt, sz) \<Rightarrow>
                   s\<lparr>cacheableBuffersGroups := om_assign g (cnt + 1, sz + bufferSize b) groups\<rparr>
               | None \<Rightarrow> s)
         else s\<lparr>countOfNonCacheableBuffers := countOfNonCacheableBuffers s + 1\<rparr>)
      in s1\<lparr>sv_queue := sv_queue s1 @ [b]\<rparr>)"

definition getPacketCacheableGroupId ::
  "SizeT \<Rightarrow> PacketStreamingServer \<Rightarrow> (PacketStreamingServer, SizeT) outcome" where
  "getPacketCacheableGroupId payloadSize s =
     (if payloadSize \<le> cacheablePacketPayloadSizeMax s
      then if sv_queue s = [] \<and> cacheableBuffersGroups s \<noteq> []
           then (Inl (linearCachingAssertion ''!cacheableBuffersGroups.empty()''), s)
           else
             let c1 = (if sv_queue s = [] then 1 else currentCacheablePacketGroupId s);
                 c2 = (if sv_queue s \<noteq> [] \<and> \<not> isCacheable (last (sv_queue s)) then c1 + 1 else c1);
                 c3 = (if c2 = NON_CACHEABLE_GROUP_ID then c2 + 1 else c2)
             in (Inr c3, s\<lparr>currentCacheablePacketGroupId := c3\<rparr>)
      else (Inr NON_CACHEABLE_GROUP_ID, s))"

text \<open>The buffer is built with its group id and queued; this is how every operation below ends.\<close>

definition makeAndQueue :: "DataPacketHeader \<Rightarrow> payload \<Rightarrow> (PacketStreamingServer \<Rightarrow> PacketStreamingServer)
    \<Rightarrow> PacketStreamingServer \<Rightarrow> (PacketStreamingServer, unit) outcome" where
  "makeAndQueue h p between s =
     (case getPacketCacheableGroupId (ucast (hd_payloadSize h)) s of
        (Inl e, s1) \<Rightarrow> (Inl e, s1)
      | (Inr g, s1) \<Rightarrow> (Inr (), queuePacketBuffer (StreamBuffer_init h p g) (between s1)))"

definition generic_header :: "8 word \<Rightarrow> stream_type \<Rightarrow> 8 word \<Rightarrow> 32 word \<Rightarrow> 32 word \<Rightarrow> DataPacketHeader" where
  "generic_header sz t fl sig psz = \<lparr>hd_size = sz, hd_type = t, hd_version = 0, hd_flags = fl,
     hd_signalId = sig, hd_payloadSize = psz, hd_packetId = 0, hd_domainPacketId = 0,
     hd_sampleCount = 0, hd_packetOffset = 0\<rparr>"

definition noteDescriptor :: "32 word \<Rightarrow> event \<Rightarrow> PacketStreamingServer \<Rightarrow> PacketStreamingServer" where
  "noteDescriptor sig e s =
     (case parseDataDescriptorEventPacket e of
        Inr (valueDescriptorChanged, _, newValueDescriptor, _) \<Rightarrow>
          if valueDescriptorChanged
          then s\<lparr>sv_dataDescriptors := (sv_dataDescriptors s)(sig \<mapsto> newValueDescriptor)\<rparr> else s
      | Inl _ \<Rightarrow> s)"

definition addEventPacket :: "(event \<Rightarrow> string) \<Rightarrow> 32 word \<Rightarrow> event
    \<Rightarrow> PacketStreamingServer \<Rightarrow> (PacketStreamingServer, unit) outcome" where
  "addEventPacket ser sig e s =
     makeAndQueue
       (generic_header sizeof_GenericPacketHeader BufEvent 0 sig (of_nat (length (ser e) + 1)))
       (TextPayload (ser e))
       (\<lambda>s. if ep_eventId e = DATA_DESCRIPTOR_CHANGED then noteDescriptor sig e s else s) s"

definition canReleasePacket :: "bool \<Rightarrow> SizeT \<Rightarrow> bool" where
  "canReleasePacket CheckRefCount refCount \<longleftrightarrow> CheckRefCount \<and> refCount = 1"

definition shouldSendPacket :: "Int64 \<Rightarrow> bool \<Rightarrow> PacketStreamingServer \<Rightarrow> bool \<times> PacketStreamingServer" where
  "shouldSendPacket packetId markForRelease s =
     (let packetAlreadySent = packetId \<in> sent s;
          s1 = (if packetAlreadySent
                then (if markForRelease then s\<lparr>sent := sent s - {packetId}\<rparr> else s)
                else (if \<not> markForRelease then s\<lparr>sent := insert packetId (sent s)\<rparr> else s));
          s2 = (if \<not> markForRelease \<and> \<not> packetAlreadySent
                then s1\<lparr>destructCallbacks := insert packetId (destructCallbacks s1)\<rparr> else s1)
      in (\<not> packetAlreadySent, s2))"

text \<open>The destruct callback of a packet: runs when the last reference to the packet goes.\<close>

definition packetDestructed :: "Int64 \<Rightarrow> PacketStreamingServer \<Rightarrow> PacketStreamingServer" where
  "packetDestructed packetId s =
     (if packetId \<in> destructCallbacks s
      then let s1 = s\<lparr>destructCallbacks := destructCallbacks s - {packetId}\<rparr> in
           if packetId \<in> sent s1
           then s1\<lparr>sent := sent s1 - {packetId}, readyForRelease := readyForRelease s1 @ [packetId]\<rparr>
           else s1
      else s)"

definition setOffset :: "data_packet \<Rightarrow> DataPacketHeader \<Rightarrow> stream_error + DataPacketHeader" where
  "setOffset p h =
     (case pk_offset p of
        None \<Rightarrow> Inr h
      | Some (OffsetInt i) \<Rightarrow> Inr (h\<lparr>hd_packetOffset := i,
          hd_flags := hd_flags h + push_bit PACKET_FLAG_OFFSET_TYPE_SHIFT PACKET_OFFSET_TYPE_INT\<rparr>)
      | Some (OffsetFloat d) \<Rightarrow> Inr (h\<lparr>hd_packetOffset := d,
          hd_flags := hd_flags h + push_bit PACKET_FLAG_OFFSET_TYPE_SHIFT PACKET_OFFSET_TYPE_FLOAT\<rparr>)
      | Some OffsetOther \<Rightarrow> Inl (PacketStreamingException ''Offset type not supported''))"

definition getDomainPacketId :: "data_packet \<Rightarrow> Int64" where
  "getDomainPacketId p = (case pk_domain p of Some d \<Rightarrow> pk_id d | None \<Rightarrow> - 1)"

definition addAlreadySentPacket :: "32 word \<Rightarrow> Int64 \<Rightarrow> Int64 \<Rightarrow> bool
    \<Rightarrow> PacketStreamingServer \<Rightarrow> (PacketStreamingServer, unit) outcome" where
  "addAlreadySentPacket sig packetId domainPacketId markForRelease s =
     makeAndQueue
       ((generic_header sizeof_AlreadySentPacketHeader BufAlreadySent
           (if markForRelease then PACKET_FLAG_CAN_RELEASE else 0) sig 0)
          \<lparr>hd_packetId := packetId, hd_domainPacketId := domainPacketId\<rparr>)
       NoPayload id s"

definition addDataPacket :: "bool \<Rightarrow> SizeT \<Rightarrow> 32 word \<Rightarrow> data_packet
    \<Rightarrow> PacketStreamingServer \<Rightarrow> (PacketStreamingServer, unit) outcome" where
  "addDataPacket isPacketRValue refCount sig p s =
     (if sv_dataDescriptors s sig = None
      then (Inl (PacketStreamingException ''No signal descriptor event received''), s)
      else
        let markPacketForRelease = canReleasePacket isPacketRValue refCount;
            packetId = pk_id p;
            domainPacketId = getDomainPacketId p;
            (doSendPacket, s1) = shouldSendPacket packetId markPacketForRelease s
        in if \<not> doSendPacket
           then addAlreadySentPacket sig packetId domainPacketId markPacketForRelease s1
           else
             let psz = (case pk_raw p of None \<Rightarrow> 0 | Some bytes \<Rightarrow> of_nat (length bytes));
                 h = (generic_header sizeof_DataPacketHeader BufData
                        (if markPacketForRelease then PACKET_FLAG_CAN_RELEASE else 0) sig psz)
                       \<lparr>hd_packetId := packetId, hd_domainPacketId := domainPacketId,
                        hd_sampleCount := ucast (pk_sampleCount p)\<rparr>
             in case setOffset p h of
                  Inl e \<Rightarrow> (Inl e, s1)
                | Inr h' \<Rightarrow> makeAndQueue h'
                    (case pk_raw p of None \<Rightarrow> NoPayload | Some bytes \<Rightarrow> BytesPayload bytes) id s1)"

definition checkAndSendReleasePacket :: "bool \<Rightarrow> PacketStreamingServer \<Rightarrow> (PacketStreamingServer, unit) outcome" where
  "checkAndSendReleasePacket force s =
     (let packetsReadyForRelease = length (readyForRelease s) in
      if \<not> (force \<and> packetsReadyForRelease > 0) \<and> (of_nat packetsReadyForRelease :: SizeT) < releaseThreshold s
      then (Inr (), s)
      else makeAndQueue
             (generic_header sizeof_GenericPacketHeader BufRelease 0 (- 1) (of_nat (packetsReadyForRelease * 8)))
             (IdsPayload (readyForRelease s)) id (s\<lparr>readyForRelease := []\<rparr>))"

definition andThenRelease :: "(PacketStreamingServer, unit) outcome \<Rightarrow> (PacketStreamingServer, unit) outcome" where
  "andThenRelease r = (case r of (Inl e, s) \<Rightarrow> (Inl e, s) | (Inr _, s) \<Rightarrow> checkAndSendReleasePacket False s)"

text \<open>
  The two overloads of \<^verbatim>\<open>addDaqPacket\<close>: the packet is borrowed, or moved in (then its reference
  count decides whether it can be released at once).
\<close>

definition addDaqPacket :: "(event \<Rightarrow> string) \<Rightarrow> 32 word \<Rightarrow> stream_packet
    \<Rightarrow> PacketStreamingServer \<Rightarrow> (PacketStreamingServer, unit) outcome" where
  "addDaqPacket ser sig packet s = andThenRelease
     (case packet of
        StreamEvent e \<Rightarrow> addEventPacket ser sig e s
      | StreamData p \<Rightarrow> addDataPacket False 0 sig p s
      | StreamOther \<Rightarrow> (Inl (DaqException OPENDAQ_ERR_NOT_SUPPORTED), s))"

definition addDaqPacketMove :: "(event \<Rightarrow> string) \<Rightarrow> SizeT \<Rightarrow> 32 word \<Rightarrow> stream_packet
    \<Rightarrow> PacketStreamingServer \<Rightarrow> (PacketStreamingServer, unit) outcome" where
  "addDaqPacketMove ser refCount sig packet s = andThenRelease
     (case packet of
        StreamEvent e \<Rightarrow> addEventPacket ser sig e s
      | StreamData p \<Rightarrow> addDataPacket True refCount sig p s
      | StreamOther \<Rightarrow> (Inl (DaqException OPENDAQ_ERR_NOT_SUPPORTED), s))"


section \<open>Runs of the server\<close>

datatype srv_op =
    OpAdd "32 word" stream_packet
  | OpAddMove SizeT "32 word" stream_packet
  | OpTake
  | OpDestruct Int64
  | OpRelease bool

definition drop_value :: "('s, 'a) outcome \<Rightarrow> ('s, unit) outcome" where
  "drop_value r = (map_sum id (\<lambda>_. ()) (fst r), snd r)"

fun srv_exec :: "(event \<Rightarrow> string) \<Rightarrow> srv_op \<Rightarrow> PacketStreamingServer \<Rightarrow> (PacketStreamingServer, unit) outcome" where
  "srv_exec ser (OpAdd sig p) s = addDaqPacket ser sig p s"
| "srv_exec ser (OpAddMove n sig p) s = addDaqPacketMove ser n sig p s"
| "srv_exec ser OpTake s = drop_value (getNextPacketBuffer s)"
| "srv_exec ser (OpDestruct i) s = (Inr (), packetDestructed i s)"
| "srv_exec ser (OpRelease f) s = checkAndSendReleasePacket f s"

text \<open>The bounds within which the 64-bit counters of a server cannot wrap.\<close>

definition srv_fits :: "PacketStreamingServer \<Rightarrow> bool" where
  "srv_fits s \<longleftrightarrow> length (sv_queue s) < 2 ^ 31 \<and> unat (currentCacheablePacketGroupId s) < 2 ^ 63"

inductive srv_reach :: "(event \<Rightarrow> string) \<Rightarrow> SizeT \<Rightarrow> SizeT \<Rightarrow> PacketStreamingServer \<Rightarrow> bool"
  for ser payloadMax threshold where
  srv_init: "srv_reach ser payloadMax threshold (PacketStreamingServer_init payloadMax threshold)"
| srv_step: "srv_reach ser payloadMax threshold s \<Longrightarrow> srv_fits s \<Longrightarrow>
     srv_reach ser payloadMax threshold (snd (srv_exec ser op s))"

section \<open>Exact accounting\<close>

definition groupBuffers :: "SizeT \<Rightarrow> StreamBuffer list \<Rightarrow> StreamBuffer list" where
  "groupBuffers g q = filter (\<lambda>b. isCacheable b \<and> cacheableGroupId b = g) q"

definition groupEntry :: "SizeT \<Rightarrow> StreamBuffer list \<Rightarrow> (SizeT \<times> SizeT) option" where
  "groupEntry g q = (let bs = groupBuffers g q in
     if bs = [] then None else Some (of_nat (length bs), sum_list (map bufferSize bs)))"

text \<open>The buffers of a group stand next to each other, so the transport may copy them in one block.\<close>

fun linear :: "StreamBuffer list \<Rightarrow> bool" where
  "linear [] = True"
| "linear (b # q) = (linear q \<and> (isCacheable b \<longrightarrow>
     (\<forall>x \<in> set (dropWhile (\<lambda>x. cacheableGroupId x = cacheableGroupId b) q).
        cacheableGroupId x \<noteq> cacheableGroupId b)))"

definition sv_ok :: "PacketStreamingServer \<Rightarrow> bool" where
  "sv_ok s \<longleftrightarrow>
     countOfNonCacheableBuffers s = of_nat (length (filter (\<lambda>b. \<not> isCacheable b) (sv_queue s))) \<and>
     om_ok (cacheableBuffersGroups s) \<and>
     (\<forall>g. map_of (cacheableBuffersGroups s) g = groupEntry g (sv_queue s)) \<and>
     (\<forall>b \<in> set (sv_queue s). cacheableGroupId b \<le> currentCacheablePacketGroupId s \<and>
        (isCacheable b \<longrightarrow> bufferSize b \<noteq> 0)) \<and>
     (sv_queue s \<noteq> [] \<longrightarrow> isCacheable (last (sv_queue s)) \<longrightarrow>
        cacheableGroupId (last (sv_queue s)) = currentCacheablePacketGroupId s) \<and>
     linear (sv_queue s)"

lemma linear_ConsD:
  "linear (b # q) \<Longrightarrow> linear q"
  "linear (b # q) \<Longrightarrow> isCacheable b \<Longrightarrow>
   x \<in> set (dropWhile (\<lambda>x. cacheableGroupId x = cacheableGroupId b) q) \<Longrightarrow> cacheableGroupId x \<noteq> cacheableGroupId b"
  unfolding linear.simps by blast+

lemma linear_ConsI:
  "linear q \<Longrightarrow> (\<And>x. isCacheable b \<Longrightarrow>
   x \<in> set (dropWhile (\<lambda>x. cacheableGroupId x = cacheableGroupId b) q) \<Longrightarrow> cacheableGroupId x \<noteq> cacheableGroupId b)
   \<Longrightarrow> linear (b # q)"
  unfolding linear.simps by blast

lemma linear_snoc:
  assumes "linear q"
    and "isCacheable b \<Longrightarrow> q \<noteq> [] \<Longrightarrow>
      cacheableGroupId (last q) = cacheableGroupId b \<or> (\<forall>x \<in> set q. cacheableGroupId x \<noteq> cacheableGroupId b)"
  shows "linear (q @ [b])"
  using assms
proof (induction q)
  case Nil
  then show ?case by simp
next
  case (Cons x q)
  let ?P = "\<lambda>y. cacheableGroupId y = cacheableGroupId x"
  have "linear (q @ [b])"
    using Cons linear_ConsD(1)[OF Cons.prems(1)] by (cases "q = []") (auto simp del: linear.simps simp: linear.simps(1) linear.simps(2)[of _ "[]"])
  moreover have "cacheableGroupId y \<noteq> cacheableGroupId x"
    if "isCacheable x" "y \<in> set (dropWhile ?P (q @ [b]))" for y
  proof (cases "\<forall>z \<in> set q. ?P z")
    case True
    then show ?thesis using that by (auto simp: dropWhile_append split: if_splits)
  next
    case False
    then have app: "dropWhile ?P (q @ [b]) = dropWhile ?P q @ [b]"
      by (auto simp: dropWhile_append)
    have ne: "dropWhile ?P q \<noteq> []" and qne: "q \<noteq> []" using False by auto
    then have "last q \<in> set (dropWhile ?P q)"
      using last_in_set[OF ne] last_appendR[OF ne, of "takeWhile ?P q"] by simp
    then have "cacheableGroupId (last q) \<noteq> cacheableGroupId x"
      using linear_ConsD(2)[OF Cons.prems(1) that(1)] by blast
    then have "cacheableGroupId b \<noteq> cacheableGroupId x"
      using Cons.prems(2) that(1) qne by (cases "isCacheable b") (auto simp: isCacheable_def)
    then show ?thesis
      using that(2) linear_ConsD(2)[OF Cons.prems(1) that(1), of y] unfolding app set_append by (elim UnE) simp_all
  qed
  ultimately show ?case unfolding append_Cons by (rule linear_ConsI)
qed

lemma linear_front:
  "linear (b # q) \<Longrightarrow> isCacheable b \<Longrightarrow>
   groupBuffers (cacheableGroupId b) (b # q) = takeWhile (\<lambda>x. cacheableGroupId x = cacheableGroupId b) (b # q)"
proof -
  assume lin: "linear (b # q)" and c: "isCacheable b"
  let ?P = "\<lambda>x. cacheableGroupId x = cacheableGroupId b"
  have eq: "(isCacheable x \<and> ?P x) = ?P x" for x
    using c by (auto simp: isCacheable_def)
  have "filter ?P (takeWhile ?P q) = takeWhile ?P q"
    by (auto simp: filter_id_conv dest: set_takeWhileD)
  moreover have "filter ?P (dropWhile ?P q) = []"
    using linear_ConsD(2)[OF lin c] unfolding filter_empty_conv by blast
  ultimately have "filter ?P q = takeWhile ?P q"
    using filter_append[of ?P "takeWhile ?P q" "dropWhile ?P q"] by simp
  then show ?thesis by (simp add: groupBuffers_def eq)
qed

lemma unat_ucast_up:
  "unat (ucast (x :: 32 word) :: 64 word) = unat x"
  "unat (ucast (y :: 8 word) :: 32 word) = unat y"
  using unsigned_less[of x, where ?'a=nat] unsigned_less[of y, where ?'a=nat]
  by (simp_all add: unsigned_ucast_eq take_bit_nat_eq_self)

lemma bufferSize_lt: "unat (bufferSize b) < 2 ^ 32"
  using unsigned_less[of "bufferSize32 b", where ?'a=nat] by (simp add: bufferSize_def unat_ucast_up)


lemma groupEntry_Nil [simp]: "groupEntry g [] = None"
  by (simp add: groupEntry_def groupBuffers_def)

lemma groupEntry_snoc:
  "groupEntry g (q @ [b]) =
     (if isCacheable b \<and> cacheableGroupId b = g
      then Some (case groupEntry g q of None \<Rightarrow> (1, bufferSize b) | Some (c, z) \<Rightarrow> (c + 1, z + bufferSize b))
      else groupEntry g q)"
  by (auto simp: groupEntry_def groupBuffers_def Let_def)

lemma groupEntry_Cons:
  "groupEntry g (b # q) =
     (if isCacheable b \<and> cacheableGroupId b = g
      then Some (of_nat (Suc (length (groupBuffers g q))), bufferSize b + sum_list (map bufferSize (groupBuffers g q)))
      else groupEntry g q)"
  by (auto simp: groupEntry_def groupBuffers_def Let_def)

lemma sv_ok_queue:
  assumes ok: "sv_ok s"
    and b: "isCacheable b \<Longrightarrow> bufferSize b \<noteq> 0 \<and> cacheableGroupId b = currentCacheablePacketGroupId s"
    and adj: "isCacheable b \<Longrightarrow> sv_queue s \<noteq> [] \<Longrightarrow>
      cacheableGroupId (last (sv_queue s)) = cacheableGroupId b \<or>
      (\<forall>x \<in> set (sv_queue s). cacheableGroupId x \<noteq> cacheableGroupId b)"
  shows "sv_ok (queuePacketBuffer b s)"
proof -
  have lin: "linear (sv_queue s @ [b])"
    by (rule linear_snoc) (use ok adj in \<open>auto simp: sv_ok_def\<close>)
  show ?thesis
  proof (cases "isCacheable b")
    case True
    obtain c z where cz: "map_of (om_insert (cacheableGroupId b) (0, 0) (cacheableBuffersGroups s)) (cacheableGroupId b) = Some (c, z)"
      by (cases "map_of (cacheableBuffersGroups s) (cacheableGroupId b)") (auto simp: omap_simps om_has_def)
    have cz': "(c + 1, z + bufferSize b) =
        (case groupEntry (cacheableGroupId b) (sv_queue s) of None \<Rightarrow> (1, bufferSize b) | Some (c, z) \<Rightarrow> (c + 1, z + bufferSize b))"
      using cz ok by (auto simp: omap_simps om_has_def sv_ok_def split: if_splits option.splits)
    show ?thesis
      using ok b True lin cz cz'
      by (auto simp: sv_ok_def queuePacketBuffer_def Let_def groupEntry_snoc omap_simps om_has_def)
  next
    case False
    then show ?thesis
      using ok lin by (auto simp: sv_ok_def queuePacketBuffer_def Let_def groupEntry_snoc isCacheable_def NON_CACHEABLE_GROUP_ID_def)
  qed
qed

lemma groupBuffers_length: "length (groupBuffers g q) \<le> length q"
  by (simp add: groupBuffers_def)

lemma unat_sum_sizes:
  "length bs < 2 ^ 32 \<Longrightarrow> unat (sum_list (map bufferSize bs)) \<le> length bs * (2 ^ 32 - 1)"
proof (induction bs)
  case (Cons b bs)
  let ?t = "sum_list (map bufferSize bs)"
  have "unat ?t \<le> length bs * (2 ^ 32 - 1)" using Cons by simp
  moreover have "unat (bufferSize b) \<le> 2 ^ 32 - 1" using bufferSize_lt[of b] by simp
  moreover have "unat (bufferSize b + ?t) \<le> unat (bufferSize b) + unat ?t"
    by (simp add: unat_word_ariths(1))
  ultimately show ?case by simp
qed simp

lemma unat_sum_Cons:
  assumes "length bs < 2 ^ 31"
  shows "unat (bufferSize b + sum_list (map bufferSize bs)) = unat (bufferSize b) + unat (sum_list (map bufferSize bs))"
proof -
  have "length bs * (2 ^ 32 - 1) < 2 ^ 31 * (2 ^ 32 :: nat)"
    using assms by (intro mult_strict_mono) simp_all
  then have "unat (bufferSize b) + unat (sum_list (map bufferSize bs)) < 2 ^ 64"
    using bufferSize_lt[of b] unat_sum_sizes[of bs] assms by simp
  then show ?thesis by (simp add: unat_word_ariths(1))
qed

lemma sum_sizes_zero:
  "length bs < 2 ^ 31 \<Longrightarrow> \<forall>b \<in> set bs. bufferSize b \<noteq> 0 \<Longrightarrow>
   sum_list (map bufferSize bs) = 0 \<longleftrightarrow> bs = []"
proof (cases bs)
  case (Cons b bs')
  assume "length bs < 2 ^ 31" "\<forall>b \<in> set bs. bufferSize b \<noteq> 0"
  then have "unat (bufferSize b + sum_list (map bufferSize bs')) \<noteq> 0"
    using unat_sum_Cons[of bs' b] Cons by (simp add: unat_gt_0)
  then show ?thesis using Cons by auto
qed simp


lemma sv_ok_take:
  assumes ok: "sv_ok s" and q: "sv_queue s = b # q" and len: "length (sv_queue s) < 2 ^ 31"
  shows "fst (getNextPacketBuffer s) = Inr (Some b) \<and> sv_ok (snd (getNextPacketBuffer s)) \<and>
    sv_queue (snd (getNextPacketBuffer s)) = q \<and>
    currentCacheablePacketGroupId (snd (getNextPacketBuffer s)) = currentCacheablePacketGroupId s"
proof -
  have lin: "linear q" using ok q linear_ConsD(1) by (auto simp: sv_ok_def)
  have lastq: "q \<noteq> [] \<Longrightarrow> last (b # q) = last q" by simp
  show ?thesis
  proof (cases "isCacheable b")
    case True
    let ?g = "cacheableGroupId b" let ?bs = "groupBuffers ?g q"
    let ?sum = "sum_list (map bufferSize ?bs)"
    have n: "length ?bs < 2 ^ 31" "length ?bs < 2 ^ 64" "Suc (length ?bs) < 2 ^ 64"
      using groupBuffers_length[of ?g q] len q by simp_all
    have e: "map_of (cacheableBuffersGroups s) ?g = Some (of_nat (Suc (length ?bs)), bufferSize b + ?sum)"
      using ok q True by (simp add: sv_ok_def groupEntry_Cons)
    have ne: "(of_nat (Suc (length ?bs)) :: SizeT) \<noteq> 0"
      using of_nat64_eq_0[OF n(3)] by simp
    have ge: "\<not> bufferSize b + ?sum < bufferSize b"
      using unat_sum_Cons[OF n(1), of b] by (simp add: word_less_nat_alt)
    have nz: "\<forall>b \<in> set ?bs. bufferSize b \<noteq> 0"
      using ok q by (auto simp: sv_ok_def groupBuffers_def)
    have z: "?sum = 0 \<longleftrightarrow> ?bs = []" "(of_nat (length ?bs) :: SizeT) = 0 \<longleftrightarrow> ?bs = []"
      using sum_sizes_zero[OF n(1) nz] of_nat64_eq_0[OF n(2)] by simp_all
    have entry: "groupEntry ?g q = (if ?bs = [] then None else Some (of_nat (length ?bs), ?sum))"
      by (simp add: groupEntry_def Let_def)
    have other: "groupEntry g (b # q) = groupEntry g q" if "g \<noteq> ?g" for g
      using that by (simp add: groupEntry_Cons)
    show ?thesis
      using ok q True e ne ge z entry other lin
      by (auto simp: getNextPacketBuffer_def Let_def sv_ok_def omap_simps groupEntry_Cons)
  next
    case False
    have n: "Suc (length (filter (\<lambda>b. \<not> isCacheable b) q)) < 2 ^ 64"
      using len q by (auto intro: le_less_trans[OF length_filter_le])
    have "countOfNonCacheableBuffers s = of_nat (Suc (length (filter (\<lambda>b. \<not> isCacheable b) q)))"
      using ok q False by (simp add: sv_ok_def)
    then show ?thesis
      using ok q False of_nat64_eq_0[OF n] lin
      by (auto simp: getNextPacketBuffer_def Let_def sv_ok_def groupEntry_Cons)
  qed
qed

text \<open>What the accounting reads of a server.\<close>

definition acct :: "PacketStreamingServer \<Rightarrow> StreamBuffer list \<times> SizeT \<times> (SizeT, SizeT \<times> SizeT) omap \<times> SizeT \<times> SizeT" where
  "acct s = (sv_queue s, countOfNonCacheableBuffers s, cacheableBuffersGroups s,
     currentCacheablePacketGroupId s, cacheablePacketPayloadSizeMax s)"

lemma sv_ok_acct: "acct s = acct s' \<Longrightarrow> sv_ok s = sv_ok s'"
  by (simp add: sv_ok_def acct_def)

lemma cacheable_group_id:
  assumes ok: "sv_ok s" and bound: "unat (currentCacheablePacketGroupId s) < 2 ^ 64 - 1"
  shows "\<exists>g s'. getPacketCacheableGroupId psz s = (Inr g, s') \<and> sv_ok s' \<and>
    unat (currentCacheablePacketGroupId s') \<le> Suc (unat (currentCacheablePacketGroupId s)) \<and>
    s' = s\<lparr>currentCacheablePacketGroupId := currentCacheablePacketGroupId s'\<rparr> \<and>
    (g \<noteq> NON_CACHEABLE_GROUP_ID \<longrightarrow> psz \<le> cacheablePacketPayloadSizeMax s \<and>
       g = currentCacheablePacketGroupId s' \<and>
       (sv_queue s \<noteq> [] \<longrightarrow> cacheableGroupId (last (sv_queue s)) = g \<or>
          (\<forall>x \<in> set (sv_queue s). cacheableGroupId x \<noteq> g)))"
proof (cases "psz \<le> cacheablePacketPayloadSizeMax s")
  case False
  then show ?thesis using ok by (auto simp: getPacketCacheableGroupId_def)
next
  case True
  show ?thesis
  proof (cases "sv_queue s = []")
    case empty: True
    then have "map_of (cacheableBuffersGroups s) = Map.empty"
      using ok by (auto simp: sv_ok_def fun_eq_iff)
    then have "cacheableBuffersGroups s = []" by simp
    then show ?thesis using True empty ok
      by (auto simp: getPacketCacheableGroupId_def Let_def NON_CACHEABLE_GROUP_ID_def sv_ok_def)
  next
    case False
    let ?c = "currentCacheablePacketGroupId s"
    have c1: "unat (?c + 1) = Suc (unat ?c)"
      using bound by (simp add: unat_word_ariths(1))
    then have up: "?c < ?c + 1" "?c + 1 \<noteq> 0"
      by (simp_all add: word_less_nat_alt flip: unat_eq_zero)
    have le: "\<forall>x \<in> set (sv_queue s). cacheableGroupId x \<le> ?c"
      using ok by (auto simp: sv_ok_def)
    then have "\<forall>x \<in> set (sv_queue s). cacheableGroupId x < ?c + 1"
      using up(1) by (blast intro: le_less_trans)
    then have fresh: "\<forall>x \<in> set (sv_queue s). cacheableGroupId x \<noteq> ?c + 1 \<and> cacheableGroupId x \<le> ?c + 1"
      by (metis less_irrefl less_imp_le)
    show ?thesis
      using True False ok up c1 fresh last_in_set[OF False]
      by (auto simp: getPacketCacheableGroupId_def Let_def NON_CACHEABLE_GROUP_ID_def sv_ok_def isCacheable_def)
  qed
qed


text \<open>Headers whose size cannot wrap when the payload is small enough to be cached.\<close>

definition header_ok :: "DataPacketHeader \<Rightarrow> bool" where
  "header_ok h \<longleftrightarrow> 0 < unat (hd_size h) \<and> unat (hd_size h) \<le> 48"

lemma bufferSize_nonzero:
  assumes "header_ok h" and "(ucast (hd_payloadSize h) :: SizeT) \<le> m" and "unat m + 48 < 2 ^ 32"
  shows "bufferSize (StreamBuffer_init h p g) \<noteq> 0"
proof -
  have "unat (hd_payloadSize h) \<le> unat m"
    using assms(2) by (simp add: word_le_nat_alt unat_ucast_up)
  then have "unat (bufferSize32 (StreamBuffer_init h p g)) = unat (hd_size h) + unat (hd_payloadSize h)"
    using assms by (simp add: bufferSize32_def StreamBuffer_init_def header_ok_def unat_word_ariths(1) unat_ucast_up)
  then have "unat (bufferSize (StreamBuffer_init h p g)) \<noteq> 0"
    using assms(1) by (simp add: bufferSize_def header_ok_def unat_ucast_up)
  then show ?thesis by auto
qed

lemma acct_simps [simp]:
  "acct (s\<lparr>sent := x\<rparr>) = acct s" "acct (s\<lparr>readyForRelease := r\<rparr>) = acct s"
  "acct (s\<lparr>destructCallbacks := x\<rparr>) = acct s" "acct (s\<lparr>sv_dataDescriptors := d\<rparr>) = acct s"
  by (simp_all add: acct_def)

lemma acct_eqD:
  "acct s = acct s' \<Longrightarrow> sv_queue s = sv_queue s'"
  "acct s = acct s' \<Longrightarrow> currentCacheablePacketGroupId s = currentCacheablePacketGroupId s'"
  "acct s = acct s' \<Longrightarrow> cacheablePacketPayloadSizeMax s = cacheablePacketPayloadSizeMax s'"
  by (simp_all add: acct_def)

lemma queue_queuePacketBuffer [simp]:
  "sv_queue (queuePacketBuffer b s) = sv_queue s @ [b]"
  "sent (queuePacketBuffer b s) = sent s"
  "readyForRelease (queuePacketBuffer b s) = readyForRelease s"
  "destructCallbacks (queuePacketBuffer b s) = destructCallbacks s"
  "sv_dataDescriptors (queuePacketBuffer b s) = sv_dataDescriptors s"
  "releaseThreshold (queuePacketBuffer b s) = releaseThreshold s"
  "cacheablePacketPayloadSizeMax (queuePacketBuffer b s) = cacheablePacketPayloadSizeMax s"
  "currentCacheablePacketGroupId (queuePacketBuffer b s) = currentCacheablePacketGroupId s"
  by (auto simp: queuePacketBuffer_def Let_def split: option.splits)

text \<open>The state of a server whose counters are right and cannot wrap.\<close>

definition sv_inv :: "PacketStreamingServer \<Rightarrow> bool" where
  "sv_inv s \<longleftrightarrow> sv_ok s \<and> unat (cacheablePacketPayloadSizeMax s) + 48 < 2 ^ 32"

lemma makeAndQueue_ok:
  assumes inv: "sv_inv s" and bound: "unat (currentCacheablePacketGroupId s) < 2 ^ 64 - 1"
    and h: "header_ok h" and btw: "\<And>s. acct (between s) = acct s"
  shows "\<exists>g s1. makeAndQueue h p between s = (Inr (), queuePacketBuffer (StreamBuffer_init h p g) (between s1)) \<and>
    s1 = s\<lparr>currentCacheablePacketGroupId := currentCacheablePacketGroupId s1\<rparr> \<and>
    unat (currentCacheablePacketGroupId (between s1)) \<le> Suc (unat (currentCacheablePacketGroupId s)) \<and>
    sv_inv (snd (makeAndQueue h p between s))"
proof -
  obtain g s1 where g: "getPacketCacheableGroupId (ucast (hd_payloadSize h)) s = (Inr g, s1)" "sv_ok s1"
      "s1 = s\<lparr>currentCacheablePacketGroupId := currentCacheablePacketGroupId s1\<rparr>"
      "unat (currentCacheablePacketGroupId s1) \<le> Suc (unat (currentCacheablePacketGroupId s))"
      "g \<noteq> NON_CACHEABLE_GROUP_ID \<longrightarrow> ucast (hd_payloadSize h) \<le> cacheablePacketPayloadSizeMax s \<and>
         g = currentCacheablePacketGroupId s1 \<and>
         (sv_queue s \<noteq> [] \<longrightarrow> cacheableGroupId (last (sv_queue s)) = g \<or>
            (\<forall>x \<in> set (sv_queue s). cacheableGroupId x \<noteq> g))"
    using cacheable_group_id[OF _ bound, of "ucast (hd_payloadSize h)"] inv unfolding sv_inv_def by auto
  let ?b = "StreamBuffer_init h p g"
  have keep: "sv_queue s1 = sv_queue s" "cacheablePacketPayloadSizeMax s1 = cacheablePacketPayloadSizeMax s"
    by (subst g(3), simp)+
  have b: "cacheableGroupId ?b = g" by (simp add: StreamBuffer_init_def)
  have "sv_ok (queuePacketBuffer ?b (between s1))"
    using sv_ok_acct[OF btw[of s1]] g(2,5) acct_eqD[OF btw[of s1]] keep b inv bufferSize_nonzero[OF h]
    by (intro sv_ok_queue) (auto simp: isCacheable_def sv_inv_def)
  then show ?thesis
    using g(1,3,4) acct_eqD[OF btw[of s1]] keep inv
    by (intro exI[of _ g] exI[of _ s1]) (simp add: makeAndQueue_def sv_inv_def)
qed

lemma header_ok_simps [simp]:
  "header_ok (generic_header sizeof_GenericPacketHeader t fl sig psz)"
  "header_ok (generic_header sizeof_DataPacketHeader t fl sig psz)"
  "header_ok (generic_header sizeof_AlreadySentPacketHeader t fl sig psz)"
  "header_ok (h\<lparr>hd_packetId := i\<rparr>) = header_ok h" "header_ok (h\<lparr>hd_domainPacketId := i\<rparr>) = header_ok h"
  "header_ok (h\<lparr>hd_sampleCount := n\<rparr>) = header_ok h" "header_ok (h\<lparr>hd_packetOffset := x\<rparr>) = header_ok h"
  "header_ok (h\<lparr>hd_flags := fl\<rparr>) = header_ok h"
  by (simp_all add: header_ok_def generic_header_def sizeof_defs)


lemma acct_between [simp]:
  "acct (noteDescriptor sig e s) = acct s"
  "acct (snd (shouldSendPacket i mark s)) = acct s"
  "acct (packetDestructed i s) = acct s"
  by (auto simp: noteDescriptor_def shouldSendPacket_def packetDestructed_def Let_def split: sum.splits prod.splits)

lemma setOffset_header_ok: "setOffset p h = Inr h' \<Longrightarrow> header_ok h \<Longrightarrow> header_ok h'"
  by (auto simp: setOffset_def split: option.splits offset.splits)

text \<open>An operation keeps the accounting right, and never fails because of it.\<close>

definition good_outcome :: "PacketStreamingServer \<Rightarrow> (PacketStreamingServer, 'a) outcome \<Rightarrow> bool" where
  "good_outcome s r \<longleftrightarrow> sv_inv (snd r) \<and> (\<forall>c. fst r \<noteq> Inl (linearCachingAssertion c)) \<and>
     unat (currentCacheablePacketGroupId (snd r)) \<le> Suc (unat (currentCacheablePacketGroupId s))"

lemma good_makeAndQueue:
  assumes "sv_inv s" and "unat (currentCacheablePacketGroupId s) < 2 ^ 64 - 1" and "header_ok h"
    and "\<And>s. acct (between s) = acct s"
  shows "good_outcome s (makeAndQueue h p between s)"
  using makeAndQueue_ok[OF assms(1-3), of between p] assms(4) by (auto simp: good_outcome_def)

lemma sv_inv_acct: "acct s = acct s' \<Longrightarrow> sv_inv s = sv_inv s'"
  unfolding sv_inv_def by (simp add: sv_ok_acct[of s s'] acct_eqD(3)[of s s'])

lemma good_addEventPacket:
  "sv_inv s \<Longrightarrow> unat (currentCacheablePacketGroupId s) < 2 ^ 64 - 1 \<Longrightarrow> good_outcome s (addEventPacket ser sig e s)"
  unfolding addEventPacket_def by (rule good_makeAndQueue) simp_all

lemma good_checkAndSendReleasePacket:
  assumes "sv_inv s" and "unat (currentCacheablePacketGroupId s) < 2 ^ 64 - 1"
  shows "good_outcome s (checkAndSendReleasePacket force s)"
proof -
  have "sv_inv (s\<lparr>readyForRelease := []\<rparr>)" using assms(1) sv_inv_acct[OF acct_simps(2)] by blast
  then show ?thesis
    using assms good_makeAndQueue[of "s\<lparr>readyForRelease := []\<rparr>"]
    by (auto simp: checkAndSendReleasePacket_def Let_def good_outcome_def)
qed

lemma good_addDataPacket:
  assumes inv: "sv_inv s" and bound: "unat (currentCacheablePacketGroupId s) < 2 ^ 64 - 1"
  shows "good_outcome s (addDataPacket rv refCount sig p s)"
proof -
  let ?m = "canReleasePacket rv refCount"
  let ?s1 = "snd (shouldSendPacket (pk_id p) ?m s)"
  have same: "acct ?s1 = acct s" by simp
  have s1: "sv_inv ?s1" "unat (currentCacheablePacketGroupId ?s1) < 2 ^ 64 - 1"
    "currentCacheablePacketGroupId ?s1 = currentCacheablePacketGroupId s"
    using inv bound sv_inv_acct[OF same] acct_eqD(2)[OF same] by simp_all
  have g: "good_outcome s (makeAndQueue h pl id ?s1)" if "header_ok h" for h pl
    using good_makeAndQueue[OF s1(1,2) that, of id pl] s1(3) by (simp add: good_outcome_def)
  show ?thesis
    using inv s1 g
    by (auto simp: addDataPacket_def addAlreadySentPacket_def Let_def good_outcome_def
        linearCachingAssertion_def split_beta setOffset_def split: sum.splits option.splits offset.splits)
qed

lemma good_andThenRelease:
  assumes "good_outcome s r" and "unat (currentCacheablePacketGroupId s) < 2 ^ 63"
  shows "sv_inv (snd (andThenRelease r)) \<and> (\<forall>c. fst (andThenRelease r) \<noteq> Inl (linearCachingAssertion c))"
  using assms good_checkAndSendReleasePacket[of "snd r" False]
  by (cases r; cases "fst r") (auto simp: andThenRelease_def good_outcome_def)

lemma good_other: "sv_inv s \<Longrightarrow> good_outcome s (Inl (DaqException e), s)"
  by (simp add: good_outcome_def linearCachingAssertion_def)

lemma good_exec:
  assumes inv: "sv_inv s" and fits: "srv_fits s"
  shows "sv_inv (snd (srv_exec ser op s)) \<and> (\<forall>c. fst (srv_exec ser op s) \<noteq> Inl (linearCachingAssertion c))"
proof -
  have b: "unat (currentCacheablePacketGroupId s) < 2 ^ 63" "unat (currentCacheablePacketGroupId s) < 2 ^ 64 - 1"
    using fits by (simp_all add: srv_fits_def)
  show ?thesis
  proof (cases op)
  case OpTake
  show ?thesis
  proof (cases "sv_queue s")
    case Nil
    then show ?thesis using OpTake inv by (simp add: drop_value_def getNextPacketBuffer_def)
  next
    case (Cons b q)
    moreover have "cacheablePacketPayloadSizeMax (snd (getNextPacketBuffer s)) = cacheablePacketPayloadSizeMax s"
      by (auto simp: getNextPacketBuffer_def Let_def split: list.splits option.splits)
    ultimately show ?thesis
      using OpTake inv fits sv_ok_take[of s b q] by (auto simp: drop_value_def sv_inv_def srv_fits_def)
  qed
next
  case (OpDestruct i)
  then show ?thesis using inv sv_inv_acct[OF acct_between(3)] by simp
next
  case (OpRelease f)
  then show ?thesis
    using inv fits good_checkAndSendReleasePacket[of s f] by (auto simp: srv_fits_def good_outcome_def)
next
  case (OpAdd sig p)
  have "good_outcome s (case p of StreamEvent e \<Rightarrow> addEventPacket ser sig e s
      | StreamData p \<Rightarrow> addDataPacket False 0 sig p s | StreamOther \<Rightarrow> (Inl (DaqException OPENDAQ_ERR_NOT_SUPPORTED), s))"
    using good_addEventPacket good_addDataPacket good_other inv b by (cases p) simp_all
  from good_andThenRelease[OF this b(1)] show ?thesis using OpAdd by (simp add: addDaqPacket_def)
next
  case (OpAddMove n sig p)
  have "good_outcome s (case p of StreamEvent e \<Rightarrow> addEventPacket ser sig e s
      | StreamData p \<Rightarrow> addDataPacket True n sig p s | StreamOther \<Rightarrow> (Inl (DaqException OPENDAQ_ERR_NOT_SUPPORTED), s))"
    using good_addEventPacket good_addDataPacket good_other inv b by (cases p) simp_all
  from good_andThenRelease[OF this b(1)] show ?thesis using OpAddMove by (simp add: addDaqPacketMove_def)
  qed
qed

lemma srv_reach_inv:
  assumes "srv_reach ser m th s" and "unat m + 48 < 2 ^ 32"
  shows "sv_inv s"
  using assms
proof (induction rule: srv_reach.induct)
  case srv_init
  then show ?case
    by (simp add: sv_inv_def sv_ok_def PacketStreamingServer_init_def)
next
  case (srv_step s op)
  then show ?case using good_exec by blast
qed

text \<open>C11: Whatever sequence of packets, transfers, releases and packet deaths a streaming server has
  seen, its counters are exact: the number of buffers that must be sent one by one, and for every
  group the number and the total size of its buffers, are those of the queue; the buffers of a
  group stand next to each other in the queue; and no operation can fail with a linear caching
  failure.\<close>

theorem streaming_server_accounting:
  assumes "srv_reach ser payloadMax threshold s" and "unat payloadMax + 48 < 2 ^ 32" and "srv_fits s"
  shows "getNonCacheableBuffersCount s = of_nat (length (filter (\<lambda>b. \<not> isCacheable b) (sv_queue s))) \<and>
    getCountOfCacheableBuffers g s = of_nat (length (groupBuffers g (sv_queue s))) \<and>
    getSizeOfCacheableBuffers g s = sum_list (map bufferSize (groupBuffers g (sv_queue s))) \<and>
    linear (sv_queue s) \<and>
    fst (srv_exec ser op s) \<noteq> Inl (linearCachingAssertion condition)"
proof -
  have inv: "sv_inv s" using srv_reach_inv[OF assms(1,2)] .
  have "map_of (cacheableBuffersGroups s) g = groupEntry g (sv_queue s)"
    using inv by (simp add: sv_inv_def sv_ok_def)
  then show ?thesis
    using inv good_exec[OF inv assms(3)]
    by (auto simp: getNonCacheableBuffersCount_def getCountOfCacheableBuffers_def getSizeOfCacheableBuffers_def
        groupEntry_def Let_def sv_inv_def sv_ok_def)
qed

definition ex_server :: PacketStreamingServer where
  "ex_server = snd (srv_exec ep_eventId (OpAdd 7 (StreamEvent \<lparr>ep_eventId = ''e'', ep_dataDescriptor = None,
     ep_domainDataDescriptor = None, ep_gapDiff = None\<rparr>)) (PacketStreamingServer_init 100 10))"

theorem streaming_server_accounting_witness:
  "length (groupBuffers 1 (sv_queue ex_server)) = 1 \<and> getCountOfCacheableBuffers 1 ex_server = 1 \<and>
   getSizeOfCacheableBuffers 1 ex_server = 14 \<and> linear (sv_queue ex_server) \<and>
   fst (srv_exec ep_eventId OpTake ex_server) \<noteq> Inl (linearCachingAssertion ''x'')"
proof -
  have i: "srv_fits (PacketStreamingServer_init 100 10)" by (simp add: srv_fits_def PacketStreamingServer_init_def)
  have r: "srv_reach ep_eventId 100 10 ex_server"
    unfolding ex_server_def by (rule srv_step[OF srv_init i])
  have e: "length (sv_queue ex_server) = 1" "currentCacheablePacketGroupId ex_server = 1"
    "length (groupBuffers 1 (sv_queue ex_server)) = 1" "map bufferSize (groupBuffers 1 (sv_queue ex_server)) = [14]"
    by code_simp+
  have "srv_fits ex_server" using e by (simp add: srv_fits_def)
  from streaming_server_accounting[OF r _ this, of 1 OpTake "''x''"] e show ?thesis by simp
qed

end
