(* ===== verification/PacketStreamingClient.thy ===== *)
theory PacketStreamingClient
  imports PacketStreaming "HOL-Library.Multiset"
begin

text \<open>
  The client side of packet streaming: packet buffers become openDAQ packets again. A data
  packet whose domain packet has not arrived waits; packets that other packets may still refer to
  are kept until the server releases them.

  Packet buffers are shared: the buffer that waits for its domain packet is also found by its
  packet id, and a release or an "already sent" buffer changes it. So the received buffers are
  kept in a store and the members hold addresses.
\<close>

section \<open>The client\<close>

record PacketStreamingClient =
  cl_queue :: "(32 word \<times> stream_packet option) list"
  cl_dataDescriptors :: "32 word \<Rightarrow> descriptor option option"
  cl_domainDescriptors :: "32 word \<Rightarrow> descriptor option option"
  referencedPackets :: "(Int64, data_packet) omap"
  referencedPacketBuffers :: "(Int64, nat) omap"
  packetBuffersWaitingForDomainPackets :: "(Int64, nat list) omap"
  cl_bufs :: "StreamBuffer list"
  globalPacketId :: Int64

definition PacketStreamingClient_init :: PacketStreamingClient where
  "PacketStreamingClient_init = \<lparr>cl_queue = [], cl_dataDescriptors = (\<lambda>_. None),
     cl_domainDescriptors = (\<lambda>_. None), referencedPackets = [], referencedPacketBuffers = [],
     packetBuffersWaitingForDomainPackets = [], cl_bufs = [], globalPacketId = 0\<rparr>"

definition getNextDaqPacket :: "PacketStreamingClient \<Rightarrow> (32 word \<times> stream_packet option) \<times> PacketStreamingClient" where
  "getNextDaqPacket c =
     (case cl_queue c of [] \<Rightarrow> ((- 1, None), c) | x # xs \<Rightarrow> (x, c\<lparr>cl_queue := xs\<rparr>))"

definition areReferencesCleared :: "PacketStreamingClient \<Rightarrow> bool" where
  "areReferencesCleared c \<longleftrightarrow> referencedPacketBuffers c = [] \<and> referencedPackets c = [] \<and>
     packetBuffersWaitingForDomainPackets c = []"

definition pushPacket :: "32 word \<Rightarrow> stream_packet option \<Rightarrow> PacketStreamingClient \<Rightarrow> PacketStreamingClient" where
  "pushPacket sig p c = c\<lparr>cl_queue := cl_queue c @ [(sig, p)]\<rparr>"

definition forwardPacket :: "32 word \<Rightarrow> bool \<Rightarrow> bool \<Rightarrow> descriptor option \<Rightarrow> descriptor option
    \<Rightarrow> PacketStreamingClient \<Rightarrow> bool" where
  "forwardPacket sig valueDescriptorChanged domainDescriptorChanged newValue newDomain c =
     (let dataDesc = cl_dataDescriptors c sig; domainDesc = cl_domainDescriptors c sig in
      (valueDescriptorChanged \<and> dataDesc \<noteq> None \<and> dataDesc \<noteq> Some newValue) \<or>
      (domainDescriptorChanged \<and> domainDesc \<noteq> None \<and> domainDesc \<noteq> Some newDomain) \<or>
      dataDesc = None \<or> domainDesc = None)"

definition addEventPacketBuffer :: "(string \<Rightarrow> event result) \<Rightarrow> nat \<Rightarrow> PacketStreamingClient
    \<Rightarrow> (PacketStreamingClient, unit) outcome" where
  "addEventPacketBuffer deser a c =
     (let b = cl_bufs c ! a; sig = hd_signalId (sb_header b);
          text = (case sb_payload b of TextPayload t \<Rightarrow> t | _ \<Rightarrow> []) in
      case deser text of
        Inl e \<Rightarrow> (Inl (DaqException e), c)
      | Inr packet \<Rightarrow>
          if ep_eventId packet = DATA_DESCRIPTOR_CHANGED
          then (case parseDataDescriptorEventPacket packet of
                  Inl e \<Rightarrow> (Inl (DaqException e), c)
                | Inr (vch, dch, newValue, newDomain) \<Rightarrow>
                    let fwd = forwardPacket sig vch dch newValue newDomain c;
                        c1 = (if vch then c\<lparr>cl_dataDescriptors := (cl_dataDescriptors c)(sig \<mapsto> newValue)\<rparr> else c);
                        c2 = (if dch then c1\<lparr>cl_domainDescriptors := (cl_domainDescriptors c1)(sig \<mapsto> newDomain)\<rparr> else c1)
                    in (Inr (), if fwd then pushPacket sig (Some (StreamEvent packet)) c2 else c2))
          else (Inr (), c))"

text \<open>
  The two data packet constructors (\<^verbatim>\<open>DataPacketWithDomain\<close>, \<^verbatim>\<open>DataPacketWithExternalMemory\<close>): the
  first allocates memory when the descriptor has raw samples, which the assertion after it rules out.
\<close>

definition initPacketError :: "descriptor \<Rightarrow> bool" where
  "initPacketError d \<longleftrightarrow> dd_sampleType d = SampleType_Struct \<and>
     (ucast (dd_rawSampleSize d) :: 32 word) \<noteq> ucast (dd_sampleSize d)"

definition readOffset :: "DataPacketHeader \<Rightarrow> offset option" where
  "readOffset h =
     (let packetOffsetType = drop_bit PACKET_FLAG_OFFSET_TYPE_SHIFT (hd_flags h AND PACKET_FLAG_OFFSET_TYPE_MASK) in
      if packetOffsetType = PACKET_OFFSET_TYPE_INT then Some (OffsetInt (hd_packetOffset h))
      else if packetOffsetType = PACKET_OFFSET_TYPE_FLOAT then Some (OffsetFloat (hd_packetOffset h))
      else None)"

definition createDataPacket :: "Int64 \<Rightarrow> StreamBuffer \<Rightarrow> descriptor option \<Rightarrow> data_packet option
    \<Rightarrow> stream_error + data_packet" where
  "createDataPacket newId b valueDescriptor domPacket =
     (let h = sb_header b; n = ucast (hd_sampleCount h) :: 32 word in
      case valueDescriptor of
        None \<Rightarrow> Inl (DaqException OPENDAQ_ERR_ARGUMENT_NULL)
      | Some d \<Rightarrow>
          if initPacketError d then Inl (DaqException OPENDAQ_ERR_INVALIDPARAMETER)
          else (case sb_payload b of
                  BytesPayload bytes \<Rightarrow>
                    Inr (DataPkt newId domPacket d n (readOffset h) (Some (take (unat (hd_payloadSize h)) bytes)))
                | _ \<Rightarrow> if n * ucast (dd_rawSampleSize d) > 0 then Inl AssertionFailure
                       else Inr (DataPkt newId domPacket d n (readOffset h) None)))"

definition waitForDomain :: "Int64 \<Rightarrow> nat \<Rightarrow> PacketStreamingClient \<Rightarrow> PacketStreamingClient" where
  "waitForDomain domainPacketId a c =
     c\<lparr>packetBuffersWaitingForDomainPackets :=
         (case map_of (packetBuffersWaitingForDomainPackets c) domainPacketId of
            None \<Rightarrow> om_insert domainPacketId [a] (packetBuffersWaitingForDomainPackets c)
          | Some as \<Rightarrow> om_assign domainPacketId (as @ [a]) (packetBuffersWaitingForDomainPackets c)),
       referencedPacketBuffers :=
         om_insert (hd_packetId (sb_header (cl_bufs c ! a))) a (referencedPacketBuffers c)\<rparr>"

text \<open>
  The loop over the buffers that wait for \<open>packet\<close>; \<open>add\<close> is the recursive call of
  \<open>addDataPacketBuffer\<close>. \<open>None\<close> means that the recursion is deeper than the fuel.
\<close>

primrec processWaiting ::
  "(nat \<Rightarrow> data_packet option \<Rightarrow> PacketStreamingClient \<Rightarrow> (PacketStreamingClient, data_packet option) outcome option)
   \<Rightarrow> nat list \<Rightarrow> data_packet \<Rightarrow> PacketStreamingClient \<Rightarrow> (PacketStreamingClient, unit) outcome option" where
  "processWaiting add [] packet c = Some (Inr (), c)"
| "processWaiting add (a # as) packet c =
     (let b = cl_bufs c ! a;
          c1 = c\<lparr>referencedPacketBuffers := om_erase (hd_packetId (sb_header b)) (referencedPacketBuffers c)\<rparr>
      in case add a (Some packet) c1 of
           None \<Rightarrow> None
         | Some (Inl e, c2) \<Rightarrow> Some (Inl e, c2)
         | Some (Inr dataPacket, c2) \<Rightarrow>
             processWaiting add as packet
               (c2\<lparr>cl_queue := cl_queue c2 @
                     map (\<lambda>sigId. (sigId, map_option StreamData dataPacket)) (additionalSignalIds b)\<rparr>))"

text \<open>The domain packet that a buffer is processed with.\<close>

definition effectiveDomain :: "nat \<Rightarrow> data_packet option \<Rightarrow> PacketStreamingClient \<Rightarrow> data_packet option" where
  "effectiveDomain a domainPacket c =
     (let domainPacketId = hd_domainPacketId (sb_header (cl_bufs c ! a)) in
      if domainPacket = None \<and> 0 \<le> sint domainPacketId
      then map_of (referencedPackets c) domainPacketId else domainPacket)"

fun addDataPacketBuffer :: "nat \<Rightarrow> nat \<Rightarrow> data_packet option \<Rightarrow> PacketStreamingClient
    \<Rightarrow> (PacketStreamingClient, data_packet option) outcome option" where
  "addDataPacketBuffer 0 a domainPacket c = None"
| "addDataPacketBuffer (Suc fuel) a domainPacket c =
     (let b = cl_bufs c ! a; h = sb_header b; domainPacketId = hd_domainPacketId h; packetId = hd_packetId h;
          domPacket = effectiveDomain a domainPacket c
      in if domPacket = None \<and> 0 \<le> sint domainPacketId
         then Some (Inr None, waitForDomain domainPacketId a c)
         else
           case cl_dataDescriptors c (hd_signalId h) of
             None \<Rightarrow> Some (Inl (PacketStreamingException ''Descriptor not registered''), c)
           | Some valueDescriptor \<Rightarrow>
               (case createDataPacket (globalPacketId c) b valueDescriptor domPacket of
                  Inl e \<Rightarrow> Some (Inl e, c)
                | Inr packet \<Rightarrow>
                    let c1 = pushPacket (hd_signalId h) (Some (StreamData packet)) (c\<lparr>globalPacketId := globalPacketId c + 1\<rparr>) in
                    case (case map_of (packetBuffersWaitingForDomainPackets c1) packetId of
                            None \<Rightarrow> Some (Inr (), c1)
                          | Some as \<Rightarrow>
                              map_option (\<lambda>(r, c2). case r of Inl e \<Rightarrow> (Inl e, c2)
                                  | Inr _ \<Rightarrow> (Inr (), c2\<lparr>packetBuffersWaitingForDomainPackets :=
                                      om_erase packetId (packetBuffersWaitingForDomainPackets c2)\<rparr>))
                                (processWaiting (addDataPacketBuffer fuel) as packet c1)) of
                      None \<Rightarrow> None
                    | Some (Inl e, c2) \<Rightarrow> Some (Inl e, c2)
                    | Some (Inr _, c2) \<Rightarrow>
                        Some (Inr (Some packet),
                          if hd_flags h AND PACKET_FLAG_CAN_RELEASE = 0
                          then c2\<lparr>referencedPackets := om_insert packetId packet (referencedPackets c2)\<rparr>
                          else c2)))"

declare addDataPacketBuffer.simps(2) [simp del]

fun releasePackets :: "Int64 list \<Rightarrow> PacketStreamingClient \<Rightarrow> (PacketStreamingClient, unit) outcome" where
  "releasePackets [] c = (Inr (), c)"
| "releasePackets (packetId # ids) c =
     (if om_has (referencedPackets c) packetId
      then releasePackets ids (c\<lparr>referencedPackets := om_erase packetId (referencedPackets c)\<rparr>)
      else case map_of (referencedPacketBuffers c) packetId of
             Some a \<Rightarrow>
               let b = cl_bufs c ! a; h = sb_header b in
               releasePackets ids (c\<lparr>cl_bufs := (cl_bufs c)[a :=
                 b\<lparr>sb_header := h\<lparr>hd_flags := hd_flags h + PACKET_FLAG_CAN_RELEASE\<rparr>\<rparr>]\<rparr>)
           | None \<Rightarrow> (Inl (PacketStreamingException ''Packet not found''), c))"

definition addReleasePacketBuffer :: "nat \<Rightarrow> PacketStreamingClient \<Rightarrow> (PacketStreamingClient, unit) outcome" where
  "addReleasePacketBuffer a c =
     (let b = cl_bufs c ! a; packetCount = unat (hd_payloadSize (sb_header b)) div 8 in
      releasePackets (take packetCount (case sb_payload b of IdsPayload ids \<Rightarrow> ids | _ \<Rightarrow> [])) c)"

definition addAlreadySentPacketBuffer :: "nat \<Rightarrow> PacketStreamingClient \<Rightarrow> (PacketStreamingClient, unit) outcome" where
  "addAlreadySentPacketBuffer a c =
     (let h = sb_header (cl_bufs c ! a); sig = hd_signalId h; packetId = hd_packetId h in
      if cl_dataDescriptors c sig = None
      then (Inl (PacketStreamingException ''Descriptor not registered''), c)
      else case map_of (referencedPackets c) packetId of
          None \<Rightarrow>
            (case map_of (packetBuffersWaitingForDomainPackets c) (hd_domainPacketId h) of
               None \<Rightarrow> (Inl (PacketStreamingException ''Packet not found''), c)
             | Some as \<Rightarrow>
                 (case find (\<lambda>a'. packetId = hd_packetId (sb_header (cl_bufs c ! a'))) as of
                    None \<Rightarrow> (Inl (PacketStreamingException ''Packet not found''), c)
                  | Some a' \<Rightarrow>
                      let b' = cl_bufs c ! a' in
                      (Inr (), c\<lparr>cl_bufs := (cl_bufs c)[a' :=
                         b'\<lparr>additionalSignalIds := additionalSignalIds b' @ [sig]\<rparr>]\<rparr>)))
        | Some packet \<Rightarrow>
            let c1 = pushPacket sig (Some (StreamData packet)) c in
            (Inr (), if hd_flags h AND PACKET_FLAG_CAN_RELEASE \<noteq> 0
                     then c1\<lparr>referencedPackets := om_erase packetId (referencedPackets c1)\<rparr> else c1))"

text \<open>
  A received buffer gets the next address. Chains of waiting packets are no longer than the
  number of domain packets waited for, which is the fuel.
\<close>

definition addPacketBuffer :: "(string \<Rightarrow> event result) \<Rightarrow> StreamBuffer \<Rightarrow> PacketStreamingClient
    \<Rightarrow> (PacketStreamingClient, unit) outcome option" where
  "addPacketBuffer deser b c =
     (let a = length (cl_bufs c); c1 = c\<lparr>cl_bufs := cl_bufs c @ [b]\<rparr> in
      case hd_type (sb_header b) of
        BufEvent \<Rightarrow> Some (addEventPacketBuffer deser a c1)
      | BufData \<Rightarrow> map_option drop_value
          (addDataPacketBuffer (Suc (length (packetBuffersWaitingForDomainPackets c1))) a None c1)
      | BufRelease \<Rightarrow> Some (addReleasePacketBuffer a c1)
      | BufAlreadySent \<Rightarrow> Some (addAlreadySentPacketBuffer a c1))"


section \<open>What a packet is, on either side\<close>

text \<open>
  Packets on the client are new objects: they agree with the packets of the server in their
  samples, offset and domain, not in their ids.
\<close>

datatype view = View "view option" "32 word" "offset option" "8 word list option"

primrec content :: "data_packet \<Rightarrow> view" where
  "content (DataPkt i d desc n off raw) = View (map_option content d) n off raw"

lemma content_eq: "content p = View (map_option content (pk_domain p)) (pk_sampleCount p) (pk_offset p) (pk_raw p)"
  by (cases p) simp

text \<open>
  \<open>P i\<close> is the packet of the server with the id \<open>i\<close>, and \<open>D sig\<close> are the descriptors that the
  signal \<open>sig\<close> may have.
\<close>

definition pkt_ok :: "(Int64 \<Rightarrow> data_packet) \<Rightarrow> data_packet \<Rightarrow> bool" where
  "pkt_ok P p \<longleftrightarrow> P (pk_id p) = p \<and> 0 \<le> sint (pk_id p) \<and> pk_offset p \<noteq> Some OffsetOther \<and>
     (\<forall>bytes. pk_raw p = Some bytes \<longrightarrow> length bytes < 2 ^ 32) \<and>
     (\<forall>d. pk_domain p = Some d \<longrightarrow> P (pk_id d) = d \<and> 0 \<le> sint (pk_id d))"

definition accepts :: "descriptor \<Rightarrow> data_packet \<Rightarrow> bool" where
  "accepts d p \<longleftrightarrow> \<not> initPacketError d \<and>
     (pk_raw p = None \<longrightarrow> pk_sampleCount p * ucast (dd_rawSampleSize d) = 0)"

definition buf_match :: "(Int64 \<Rightarrow> data_packet) \<Rightarrow> (32 word \<Rightarrow> descriptor set) \<Rightarrow> StreamBuffer \<Rightarrow> bool" where
  "buf_match P D b \<longleftrightarrow> (let h = sb_header b; p = P (hd_packetId h) in
     pkt_ok P p \<and> pk_id p = hd_packetId h \<and> hd_domainPacketId h = getDomainPacketId p \<and>
     ucast (hd_sampleCount h) = pk_sampleCount p \<and> readOffset h = pk_offset p \<and>
     hd_flags h \<in> {0, 1, 2, 3, 4, 5} \<and>
     sb_payload b = (case pk_raw p of None \<Rightarrow> NoPayload | Some bytes \<Rightarrow> BytesPayload bytes) \<and>
     hd_payloadSize h = (case pk_raw p of None \<Rightarrow> 0 | Some bytes \<Rightarrow> of_nat (length bytes)) \<and>
     (\<forall>d \<in> D (hd_signalId h). accepts d p))"

abbreviation bufId :: "StreamBuffer \<Rightarrow> Int64" where
  "bufId b \<equiv> hd_packetId (sb_header b)"

definition unmarked :: "StreamBuffer \<Rightarrow> bool" where
  "unmarked b \<longleftrightarrow> hd_flags (sb_header b) AND PACKET_FLAG_CAN_RELEASE = 0"

lemma createDataPacket_match:
  assumes m: "buf_match P D b" and d: "d \<in> D (hd_signalId (sb_header b))"
    and dom: "map_option content dp = map_option content (pk_domain (P (bufId b)))"
  shows "\<exists>p. createDataPacket i b (Some d) dp = Inr p \<and> content p = content (P (bufId b))"
proof -
  let ?p = "P (bufId b)"
  have "accepts d ?p" "pkt_ok P ?p" using m d by (auto simp: buf_match_def Let_def)
  then show ?thesis
    using m dom by (cases "pk_raw ?p")
      (auto simp: createDataPacket_def buf_match_def Let_def accepts_def content_eq[of ?p] pkt_ok_def
        unsigned_of_nat take_bit_nat_eq_self word_gt_0)
qed

section \<open>The packets that wait\<close>

definition waiting :: "PacketStreamingClient \<Rightarrow> (Int64, nat list) omap" where
  "waiting c = packetBuffersWaitingForDomainPackets c"

definition itemsIn :: "Int64 set \<Rightarrow> PacketStreamingClient \<Rightarrow> nat set" where
  "itemsIn K c = {a. \<exists>k as. k \<in> K \<and> map_of (waiting c) k = Some as \<and> a \<in> set as}"

definition own :: "(Int64 \<Rightarrow> data_packet) \<Rightarrow> StreamBuffer \<Rightarrow> 32 word \<times> view" where
  "own P b = (hd_signalId (sb_header b), content (P (bufId b)))"

definition pendB :: "(Int64 \<Rightarrow> data_packet) \<Rightarrow> StreamBuffer \<Rightarrow> (32 word \<times> view) multiset" where
  "pendB P b = add_mset (own P b) (mset (map (\<lambda>sig. (sig, content (P (bufId b)))) (additionalSignalIds b)))"

definition pendL :: "(Int64 \<Rightarrow> data_packet) \<Rightarrow> StreamBuffer list \<Rightarrow> nat list \<Rightarrow> (32 word \<times> view) multiset" where
  "pendL P bufs as = sum_list (map (\<lambda>a. pendB P (bufs ! a)) as)"

definition pend :: "(Int64 \<Rightarrow> data_packet) \<Rightarrow> PacketStreamingClient \<Rightarrow> (32 word \<times> view) multiset" where
  "pend P c = pendL P (cl_bufs c) (concat (map snd (waiting c)))"

text \<open>The data packets handed to the reader so far, in order.\<close>

definition delivered :: "PacketStreamingClient \<Rightarrow> (32 word \<times> view) list" where
  "delivered c = List.map_filter
     (\<lambda>(sig, x). case x of Some (StreamData p) \<Rightarrow> Some (sig, content p) | _ \<Rightarrow> None) (cl_queue c)"

definition cl_good :: "(Int64 \<Rightarrow> data_packet) \<Rightarrow> (32 word \<Rightarrow> descriptor set) \<Rightarrow> PacketStreamingClient \<Rightarrow> bool" where
  "cl_good P D c \<longleftrightarrow>
     (\<forall>k as a. map_of (waiting c) k = Some as \<longrightarrow> a \<in> set as \<longrightarrow>
        a < length (cl_bufs c) \<and> buf_match P D (cl_bufs c ! a) \<and> 0 \<le> sint k \<and>
        hd_domainPacketId (sb_header (cl_bufs c ! a)) = k \<and>
        cl_dataDescriptors c (hd_signalId (sb_header (cl_bufs c ! a))) \<noteq> None) \<and>
     (\<forall>sig x. cl_dataDescriptors c sig = Some x \<longrightarrow> (\<exists>d \<in> D sig. x = Some d)) \<and>
     (\<forall>i p. map_of (referencedPackets c) i = Some p \<longrightarrow> content p = content (P i)) \<and>
     om_ok (waiting c) \<and> om_ok (referencedPackets c) \<and> om_ok (referencedPacketBuffers c)"

lemma delivered_simps [simp]:
  "delivered (pushPacket sig (Some (StreamData p)) c) = delivered c @ [(sig, content p)]"
  "delivered (c\<lparr>globalPacketId := i\<rparr>) = delivered c"
  "delivered (c\<lparr>referencedPackets := r\<rparr>) = delivered c"
  "delivered (c\<lparr>referencedPacketBuffers := rb\<rparr>) = delivered c"
  "delivered (c\<lparr>packetBuffersWaitingForDomainPackets := w\<rparr>) = delivered c"
  "delivered (c\<lparr>cl_bufs := bs\<rparr>) = delivered c"
  "delivered (c\<lparr>cl_queue := cl_queue c @ map (\<lambda>sigId. (sigId, Some (StreamData p))) sigs\<rparr>) =
     delivered c @ map (\<lambda>sigId. (sigId, content p)) sigs"
  by (simp_all add: delivered_def pushPacket_def List.map_filter_def comp_def)

text \<open>
  What a call may do while it resolves waiting packets: the waits for the packets \<open>K\<close> end, the
  entries \<open>I\<close> of the buffer index go, and the packets \<open>M\<close> become referenced.
\<close>

definition resolves :: "(Int64 \<Rightarrow> data_packet) \<Rightarrow> PacketStreamingClient \<Rightarrow> Int64 set \<Rightarrow> Int64 set \<Rightarrow> Int64 set
    \<Rightarrow> PacketStreamingClient \<Rightarrow> bool" where
  "resolves P c K I M c' \<longleftrightarrow>
     cl_bufs c' = cl_bufs c \<and> cl_dataDescriptors c' = cl_dataDescriptors c \<and>
     cl_domainDescriptors c' = cl_domainDescriptors c \<and>
     waiting c' = filter (\<lambda>(k, _). k \<notin> K) (waiting c) \<and>
     referencedPacketBuffers c' =
       filter (\<lambda>(i, _). i \<notin> I \<and> i \<notin> (\<lambda>a. bufId (cl_bufs c ! a)) ` itemsIn K c) (referencedPacketBuffers c) \<and>
     fst ` set (referencedPackets c') = fst ` set (referencedPackets c) \<union> M \<union>
       {bufId (cl_bufs c ! a) |a. a \<in> itemsIn K c \<and> unmarked (cl_bufs c ! a)} \<and>
     om_ok (referencedPackets c') \<and>
     (\<forall>i p. map_of (referencedPackets c') i = Some p \<longrightarrow> content p = content (P i))"

lemma map_of_filter_keys: "map_of (filter (\<lambda>(k, _). k \<notin> K) m) k = (if k \<in> K then None else map_of m k)"
  by (induction m) auto

lemma om_ok_filter: "om_ok m \<Longrightarrow> om_ok (filter Q m)"
  by (induction m) (auto simp: om_ok_def)

lemma om_erase_filter: "om_erase k m = filter (\<lambda>(i, _). i \<notin> {k}) m"
  by (induction m) (auto simp: om_erase_def)

lemma itemsIn_resolved:
  "waiting c' = filter (\<lambda>(k, _). k \<notin> K) (waiting c) \<Longrightarrow> itemsIn K2 c' = itemsIn (K2 - K) c"
  by (auto simp: itemsIn_def map_of_filter_keys split: if_splits)

lemma itemsIn_Un: "itemsIn (K \<union> K') c = itemsIn K c \<union> itemsIn (K' - K) c"
  by (auto simp: itemsIn_def)

text \<open>When a packet leaves the waiting list, no packet keeps waiting for it.\<close>

definition wait_closed :: "Int64 set \<Rightarrow> PacketStreamingClient \<Rightarrow> bool" where
  "wait_closed K c \<longleftrightarrow> (\<forall>a \<in> itemsIn K c. bufId (cl_bufs c ! a) \<in> K)"

lemma wait_closed_trans:
  assumes "resolves P c K I M c1" and "wait_closed K c" and "wait_closed K' c1"
  shows "wait_closed (K \<union> K') c"
  using assms itemsIn_resolved[of c1 K c K'] itemsIn_Un[of K K' c] by (auto simp: wait_closed_def resolves_def)

lemma resolves_trans:
  assumes "resolves P c K I M c1" and "resolves P c1 K' I' M' c2"
  shows "resolves P c (K \<union> K') (I \<union> I') (M \<union> M') c2"
proof -
  have w: "waiting c1 = filter (\<lambda>(k, _). k \<notin> K) (waiting c)" using assms(1) by (simp add: resolves_def)
  show ?thesis
    using assms unfolding resolves_def itemsIn_resolved[OF w] itemsIn_Un
    by (auto simp: image_Un intro!: filter_cong)
qed

lemma resolves_absent:
  assumes "resolves P c {} I M c'" and "map_of (waiting c) k = None"
  shows "resolves P c {k} I M c'"
proof -
  have "itemsIn {k} c = {}" "itemsIn {} c = {}" using assms(2) by (auto simp: itemsIn_def)
  moreover have "filter (\<lambda>(i, _). i \<notin> {k}) (waiting c) = waiting c"
    using assms(2) by (force simp: filter_id_conv map_of_eq_None_iff)
  ultimately show ?thesis using assms(1) by (simp add: resolves_def)
qed

lemma good_resolves: "cl_good P D c \<Longrightarrow> resolves P c K I M c' \<Longrightarrow> cl_good P D c'"
  by (auto simp: cl_good_def resolves_def map_of_filter_keys om_ok_filter split: if_splits)


lemma pendL_simps [simp]:
  "pendL P bufs [] = {#}" "pendL P bufs (a # as) = pendB P (bufs ! a) + pendL P bufs as"
  "pendL P bufs (as @ bs) = pendL P bufs as + pendL P bufs bs"
  by (simp_all add: pendL_def)

lemma pendL_erase:
  "om_ok W \<Longrightarrow> map_of W k = Some as \<Longrightarrow>
   pendL P bufs (concat (map snd W)) = pendL P bufs as + pendL P bufs (concat (map snd (om_erase k W)))"
proof (induction W)
  case (Cons x W)
  show ?case
  proof (cases "fst x = k")
    case True
    then have "\<not> om_has W k" using Cons.prems(1) by (cases x) (auto simp: om_ok_def om_has_iff)
    then show ?thesis using Cons.prems True by (cases x) (simp add: om_erase_def om_has_iff delete_idem)
  next
    case False
    then show ?thesis using Cons by (cases x) (auto simp: om_ok_def om_erase_def)
  qed
qed simp

definition rank :: "(Int64 \<Rightarrow> data_packet) \<Rightarrow> Int64 \<Rightarrow> nat" where
  "rank P i = size (P i)"

lemma size_domain: "pk_domain p = Some d \<Longrightarrow> size d < size p"
  by (cases p) simp

text \<open>A buffer that waits refers to a packet with an earlier rank, so waits form no cycles.\<close>

lemma match_domain:
  assumes "buf_match P D b" and "0 \<le> sint (hd_domainPacketId (sb_header b))"
  shows "pk_domain (P (bufId b)) = Some (P (hd_domainPacketId (sb_header b))) \<and>
    rank P (hd_domainPacketId (sb_header b)) < rank P (bufId b)"
proof (cases "pk_domain (P (bufId b))")
  case None
  then show ?thesis using assms by (simp add: buf_match_def Let_def getDomainPacketId_def)
next
  case (Some d)
  then have "P (pk_id d) = d" "hd_domainPacketId (sb_header b) = pk_id d"
    using assms(1) by (auto simp: buf_match_def Let_def getDomainPacketId_def pkt_ok_def)
  then show ?thesis using Some size_domain[OF Some] by (simp add: rank_def)
qed

lemma match_no_domain:
  assumes "buf_match P D b" and "\<not> 0 \<le> sint (hd_domainPacketId (sb_header b))"
  shows "pk_domain (P (bufId b)) = None"
proof (cases "pk_domain (P (bufId b))")
  case (Some d)
  then have "hd_domainPacketId (sb_header b) = pk_id d" "0 \<le> sint (pk_id d)"
    using assms(1) by (auto simp: buf_match_def Let_def getDomainPacketId_def pkt_ok_def)
  then show ?thesis using assms(2) by simp
qed simp

definition above :: "(Int64 \<Rightarrow> data_packet) \<Rightarrow> PacketStreamingClient \<Rightarrow> Int64 \<Rightarrow> Int64 set" where
  "above P c i = {k \<in> fst ` set (waiting c). rank P i \<le> rank P k}"

lemma above_mono: "card (above P c i) \<le> length (waiting c)"
  unfolding above_def by (rule order_trans[OF card_mono[of "fst ` set (waiting c)"]])
    (auto intro: order_trans[OF card_image_le] card_length)

definition resolved_call :: "(Int64 \<Rightarrow> data_packet) \<Rightarrow> nat \<Rightarrow> PacketStreamingClient
    \<Rightarrow> (PacketStreamingClient, data_packet option) outcome option \<Rightarrow> bool" where
  "resolved_call P a c r \<longleftrightarrow> (let b = cl_bufs c ! a in \<exists>p c' K. r = Some (Inr (Some p), c') \<and>
     content p = content (P (bufId b)) \<and>
     resolves P c K {} (if unmarked b then {bufId b} else {}) c' \<and> bufId b \<in> K \<and> wait_closed K c \<and>
     (\<forall>k \<in> K. rank P (bufId b) \<le> rank P k) \<and>
     mset (delivered c') + pend P c' = add_mset (own P b) (mset (delivered c) + pend P c))"

lemma resolved_callI:
  assumes "r = Some (Inr (Some p), c')" and "content p = content (P (bufId (cl_bufs c ! a)))"
    and "resolves P c K {} (if unmarked (cl_bufs c ! a) then {bufId (cl_bufs c ! a)} else {}) c'"
    and "bufId (cl_bufs c ! a) \<in> K" and "wait_closed K c" and "\<forall>k \<in> K. rank P (bufId (cl_bufs c ! a)) \<le> rank P k"
    and "mset (delivered c') + pend P c' = add_mset (own P (cl_bufs c ! a)) (mset (delivered c) + pend P c)"
  shows "resolved_call P a c r"
  unfolding resolved_call_def Let_def using assms by blast

definition waiter_ok :: "(Int64 \<Rightarrow> data_packet) \<Rightarrow> (32 word \<Rightarrow> descriptor set) \<Rightarrow> PacketStreamingClient \<Rightarrow> nat \<Rightarrow> bool" where
  "waiter_ok P D c a \<longleftrightarrow> buf_match P D (cl_bufs c ! a) \<and>
     cl_dataDescriptors c (hd_signalId (sb_header (cl_bufs c ! a))) \<noteq> None"

lemma resolve_loop:
  assumes add: "\<And>a x c. cl_good P D c \<Longrightarrow> waiter_ok P D c a \<Longrightarrow>
      pk_domain (P (bufId (cl_bufs c ! a))) = Some (P (hd_domainPacketId (sb_header (cl_bufs c ! a)))) \<Longrightarrow>
      content x = content (P (hd_domainPacketId (sb_header (cl_bufs c ! a)))) \<Longrightarrow>
      card (above P c (bufId (cl_bufs c ! a))) < n \<Longrightarrow> resolved_call P a c (add a (Some x) c)"
    and "cl_good P D c"
    and "\<forall>a \<in> set as. waiter_ok P D c a \<and> hd_domainPacketId (sb_header (cl_bufs c ! a)) = k"
    and "0 \<le> sint k" and "content packet = content (P k)"
    and "card {k' \<in> fst ` set (waiting c). rank P k < rank P k'} < n"
  shows "\<exists>c' K. processWaiting add as packet c = Some (Inr (), c') \<and>
    resolves P c K ((\<lambda>a. bufId (cl_bufs c ! a)) ` set as)
      {bufId (cl_bufs c ! a) |a. a \<in> set as \<and> unmarked (cl_bufs c ! a)} c' \<and>
    (\<lambda>a. bufId (cl_bufs c ! a)) ` set as \<subseteq> K \<and> wait_closed K c \<and>
    (\<forall>k' \<in> K. rank P k < rank P k') \<and>
    mset (delivered c') + pend P c' = mset (delivered c) + pendL P (cl_bufs c) as + pend P c"
  using assms(2-)
proof (induction as arbitrary: c)
  case Nil
  have "resolves P c {} {} {} c"
    using Nil.prems(1) by (auto simp: resolves_def itemsIn_def cl_good_def)
  then show ?case by (intro exI[of _ c] exI[of _ "{}"]) (simp add: wait_closed_def itemsIn_def)
next
  case (Cons a as)
  let ?b = "cl_bufs c ! a"
  let ?c1 = "c\<lparr>referencedPacketBuffers := om_erase (bufId ?b) (referencedPacketBuffers c)\<rparr>"
  have w1: "waiting ?c1 = waiting c" "pend P ?c1 = pend P c" "cl_bufs ?c1 = cl_bufs c"
    by (simp_all add: waiting_def pend_def)
  have r1: "resolves P c {} {bufId ?b} {} ?c1"
    using Cons.prems(1) by (auto simp: resolves_def itemsIn_def cl_good_def om_erase_filter waiting_def)
  have a: "waiter_ok P D ?c1 a" "hd_domainPacketId (sb_header ?b) = k"
    using Cons.prems(2) by (auto simp: waiter_ok_def)
  have dm: "pk_domain (P (bufId ?b)) = Some (P k)" "rank P k < rank P (bufId ?b)"
    using match_domain[of P D ?b] a Cons.prems(3) by (auto simp: waiter_ok_def)
  have "card (above P ?c1 (bufId ?b)) \<le> card {k' \<in> fst ` set (waiting c). rank P k < rank P k'}"
    using dm(2) w1(1) unfolding above_def by (intro card_mono) auto
  then have "card (above P ?c1 (bufId ?b)) < n" using Cons.prems(5) by simp
  then have "resolved_call P a ?c1 (add a (Some packet) ?c1)"
    using add[of ?c1 a packet] good_resolves[OF Cons.prems(1) r1] a dm Cons.prems(4) by simp
  then obtain p c2 K where p: "add a (Some packet) ?c1 = Some (Inr (Some p), c2)"
      "content p = content (P (bufId ?b))"
      "resolves P ?c1 K {} (if unmarked ?b then {bufId ?b} else {}) c2"
      "\<forall>k \<in> K. rank P (bufId ?b) \<le> rank P k"
      "mset (delivered c2) + pend P c2 = add_mset (own P ?b) (mset (delivered c) + pend P c)"
      "bufId ?b \<in> K" "wait_closed K ?c1"
    unfolding resolved_call_def Let_def w1 by auto
  let ?c3 = "c2\<lparr>cl_queue := cl_queue c2 @ map (\<lambda>sigId. (sigId, Some (StreamData p))) (additionalSignalIds ?b)\<rparr>"
  have r3: "resolves P c K {bufId ?b} (if unmarked ?b then {bufId ?b} else {}) ?c3"
    using resolves_trans[OF r1 p(3)] by (simp add: resolves_def waiting_def)
  have b3: "cl_bufs ?c3 = cl_bufs c" "cl_dataDescriptors ?c3 = cl_dataDescriptors c"
    "waiting ?c3 = filter (\<lambda>(k, _). k \<notin> K) (waiting c)"
    using r3 by (simp_all add: resolves_def)
  have "card {k' \<in> fst ` set (waiting ?c3). rank P k < rank P k'} \<le> card {k' \<in> fst ` set (waiting c). rank P k < rank P k'}"
    unfolding b3(3) by (intro card_mono) auto
  then have "card {k' \<in> fst ` set (waiting ?c3). rank P k < rank P k'} < n" using Cons.prems(5) by simp
  then obtain c4 K' where c4: "processWaiting add as packet ?c3 = Some (Inr (), c4)"
      "resolves P ?c3 K' ((\<lambda>a. bufId (cl_bufs c ! a)) ` set as)
        {bufId (cl_bufs c ! a) |a. a \<in> set as \<and> unmarked (cl_bufs c ! a)} c4"
      "\<forall>k' \<in> K'. rank P k < rank P k'"
      "(\<lambda>a. bufId (cl_bufs c ! a)) ` set as \<subseteq> K'" "wait_closed K' ?c3"
      "mset (delivered c4) + pend P c4 = mset (delivered ?c3) + pendL P (cl_bufs c) as + pend P ?c3"
    using Cons.IH[OF good_resolves[OF Cons.prems(1) r3]] Cons.prems(2-4) b3 by (auto simp: waiter_ok_def)
  have pend3: "pend P ?c3 = pend P c2" by (simp add: pend_def waiting_def)
  have cnt: "mset (delivered c4) + pend P c4 = mset (delivered c) + pendL P (cl_bufs c) (a # as) + pend P c"
    using c4(6) p(5) p(2) unfolding pend3 by (simp add: pendB_def ac_simps)
  have ms: "(if unmarked ?b then {bufId ?b} else {}) \<union> {bufId (cl_bufs c ! a) |a. a \<in> set as \<and> unmarked (cl_bufs c ! a)} =
      {bufId (cl_bufs c ! a') |a'. a' \<in> set (a # as) \<and> unmarked (cl_bufs c ! a')}"
    by auto
  have "resolves P c (K \<union> K') ((\<lambda>a. bufId (cl_bufs c ! a)) ` set (a # as))
      {bufId (cl_bufs c ! a') |a'. a' \<in> set (a # as) \<and> unmarked (cl_bufs c ! a')} c4"
    using resolves_trans[OF r3 c4(2)] unfolding ms by simp
  moreover have "processWaiting add (a # as) packet c = Some (Inr (), c4)"
    using p(1) c4(1) by simp
  moreover have "\<forall>k' \<in> K \<union> K'. rank P k < rank P k'"
    using p(4) c4(3) dm(2) by (auto intro: less_le_trans)
  moreover have "wait_closed (K \<union> K') c"
    using p(7) c4(5) by (intro wait_closed_trans[OF r3]) (simp_all add: wait_closed_def itemsIn_def w1)
  moreover have "(\<lambda>a. bufId (cl_bufs c ! a)) ` set (a # as) \<subseteq> K \<union> K'" using p(6) c4(4) by auto
  ultimately show ?case using cnt by blast
qed


lemma resolve:
  assumes "cl_good P D c" and "waiter_ok P D c a"
    and "card (above P c (bufId (cl_bufs c ! a))) < n"
    and "\<not> (effectiveDomain a domainPacket c = None \<and> 0 \<le> sint (hd_domainPacketId (sb_header (cl_bufs c ! a))))"
    and "map_option content (effectiveDomain a domainPacket c) = map_option content (pk_domain (P (bufId (cl_bufs c ! a))))"
  shows "resolved_call P a c (addDataPacketBuffer n a domainPacket c)"
  using assms
proof (induction n arbitrary: a domainPacket c)
  case (Suc n)
  let ?b = "cl_bufs c ! a" let ?id = "bufId ?b" let ?sig = "hd_signalId (sb_header ?b)"
  obtain d where d: "cl_dataDescriptors c ?sig = Some (Some d)" "d \<in> D ?sig"
    using Suc.prems(1,2) by (fastforce simp: cl_good_def waiter_ok_def)
  obtain p where p: "createDataPacket (globalPacketId c) ?b (Some d) (effectiveDomain a domainPacket c) = Inr p"
      "content p = content (P ?id)"
    using createDataPacket_match[of P D ?b d] d(2) Suc.prems(2,5) by (fastforce simp: waiter_ok_def)
  let ?c1 = "pushPacket ?sig (Some (StreamData p)) (c\<lparr>globalPacketId := globalPacketId c + 1\<rparr>)"
  let ?m = "if unmarked ?b then {?id} else {}"
  have r1: "resolves P c {} {} {} ?c1"
    using Suc.prems(1) by (auto simp: resolves_def itemsIn_def cl_good_def pushPacket_def waiting_def)
  have same: "waiting ?c1 = waiting c" "cl_bufs ?c1 = cl_bufs c" "pend P ?c1 = pend P c"
    "cl_dataDescriptors ?c1 = cl_dataDescriptors c"
    by (simp_all add: waiting_def pushPacket_def pend_def)
  let ?fin = "\<lambda>c2. if unmarked ?b then c2\<lparr>referencedPackets := om_insert ?id p (referencedPackets c2)\<rparr> else c2"
  have fin: "delivered (?fin c2) = delivered c2" "pend P (?fin c2) = pend P c2" for c2
    by (simp_all add: pend_def waiting_def)
  have insert: "resolves P c K I (M \<union> ?m) (?fin c2)"
    if "resolves P c K I M c2" for K I M c2
    using that p(2) by (auto simp: resolves_def waiting_def om_insert_def om_has_iff om_ok_def split: if_splits)
  have run: "addDataPacketBuffer (Suc n) a domainPacket c =
     (case (case map_of (waiting ?c1) ?id of
              None \<Rightarrow> Some (Inr (), ?c1)
            | Some as \<Rightarrow>
                map_option (\<lambda>(r, c2). case r of Inl e \<Rightarrow> (Inl e, c2)
                    | Inr _ \<Rightarrow> (Inr (), c2\<lparr>packetBuffersWaitingForDomainPackets := om_erase ?id (waiting c2)\<rparr>))
                  (processWaiting (addDataPacketBuffer n) as p ?c1)) of
        None \<Rightarrow> None
      | Some (Inl e, c2) \<Rightarrow> Some (Inl e, c2)
      | Some (Inr _, c2) \<Rightarrow> Some (Inr (Some p),
          if unmarked ?b then c2\<lparr>referencedPackets := om_insert ?id p (referencedPackets c2)\<rparr> else c2))"
    using d(1) p(1) unfolding unmarked_def waiting_def addDataPacketBuffer.simps Let_def if_not_P[OF Suc.prems(4)]
    by (simp del: processWaiting.simps)
  show ?case
  proof (cases "map_of (waiting c) ?id")
    case None
    then have noitems: "resolves P c {?id} {} {} ?c1" by (rule resolves_absent[OF r1])
    show ?thesis
    proof (rule resolved_callI)
      show "addDataPacketBuffer (Suc n) a domainPacket c = Some (Inr (Some p), ?fin ?c1)"
        using run None same(1) by simp
      show "resolves P c {?id} {} ?m (?fin ?c1)" using insert[OF noitems] by simp
      show "mset (delivered (?fin ?c1)) + pend P (?fin ?c1) = add_mset (own P ?b) (mset (delivered c) + pend P c)"
        using fin[of ?c1] same p(2) by (simp add: own_def)
      show "wait_closed {?id} c" using None by (simp add: wait_closed_def itemsIn_def)
    qed (use p(2) in simp_all)
  next
    case (Some as)
    let ?K0 = "{k' \<in> fst ` set (waiting c). rank P ?id < rank P k'}"
    have "?id \<in> above P c ?id" "?id \<notin> ?K0" "?K0 \<subseteq> above P c ?id"
      using Some by (force simp: above_def dest: map_of_SomeD)+
    then have "card ?K0 < card (above P c ?id)"
      by (intro psubset_card_mono) (auto simp: above_def)
    then have fuel: "card {k' \<in> fst ` set (waiting ?c1). rank P ?id < rank P k'} < n"
      using Suc.prems(3) unfolding same by simp
    have ws: "\<forall>a \<in> set as. waiter_ok P D ?c1 a \<and> hd_domainPacketId (sb_header (cl_bufs ?c1 ! a)) = ?id"
      using Suc.prems(1) Some unfolding waiter_ok_def same by (auto simp: cl_good_def)
    have "0 \<le> sint ?id" using Suc.prems(2) by (auto simp: waiter_ok_def buf_match_def Let_def pkt_ok_def)
    moreover have "resolved_call P a c (addDataPacketBuffer n a (Some x) c)"
      if "cl_good P D c" "waiter_ok P D c a"
        "pk_domain (P (bufId (cl_bufs c ! a))) = Some (P (hd_domainPacketId (sb_header (cl_bufs c ! a))))"
        "content x = content (P (hd_domainPacketId (sb_header (cl_bufs c ! a))))"
        "card (above P c (bufId (cl_bufs c ! a))) < n" for a x c
      using that by (intro Suc.IH) (simp_all add: effectiveDomain_def Let_def)
    ultimately obtain c2 K where c2: "processWaiting (addDataPacketBuffer n) as p ?c1 = Some (Inr (), c2)"
        "resolves P ?c1 K ((\<lambda>a. bufId (cl_bufs c ! a)) ` set as)
          {bufId (cl_bufs c ! a) |a. a \<in> set as \<and> unmarked (cl_bufs c ! a)} c2"
        "\<forall>k' \<in> K. rank P ?id < rank P k'"
        "(\<lambda>a. bufId (cl_bufs c ! a)) ` set as \<subseteq> K" "wait_closed K ?c1"
        "mset (delivered c2) + pend P c2 = mset (delivered ?c1) + pendL P (cl_bufs c) as + pend P ?c1"
      using resolve_loop[of P D n "addDataPacketBuffer n" ?c1 as ?id p] good_resolves[OF Suc.prems(1) r1] ws fuel p(2)
      unfolding same by blast
    let ?c3 = "c2\<lparr>packetBuffersWaitingForDomainPackets := om_erase ?id (waiting c2)\<rparr>"
    have r2: "resolves P c K ((\<lambda>a. bufId (cl_bufs c ! a)) ` set as)
          {bufId (cl_bufs c ! a) |a. a \<in> set as \<and> unmarked (cl_bufs c ! a)} c2"
      using resolves_trans[OF r1 c2(2)] by simp
    have "?id \<notin> K" using c2(3) by auto
    then have items: "itemsIn (insert ?id K) c = itemsIn K c \<union> set as"
      using Some by (auto simp: itemsIn_def)
    have r3: "resolves P c (insert ?id K) {} {} ?c3"
      using r2 unfolding resolves_def items
      by (auto simp: waiting_def om_erase_filter image_Un intro!: filter_cong)
    have w2: "map_of (waiting c2) ?id = Some as" "om_ok (waiting c2)" "cl_bufs c2 = cl_bufs c"
      using r2 Some \<open>?id \<notin> K\<close> Suc.prems(1) by (auto simp: resolves_def map_of_filter_keys cl_good_def om_ok_filter)
    have cnt: "mset (delivered ?c3) + pend P ?c3 = add_mset (own P ?b) (mset (delivered c) + pend P c)"
      using c2(6) pendL_erase[OF w2(2,1), of P "cl_bufs c2"] w2(3) p(2) same
      by (simp add: pend_def waiting_def own_def)
    show ?thesis
    proof (rule resolved_callI)
      show "addDataPacketBuffer (Suc n) a domainPacket c = Some (Inr (Some p), ?fin ?c3)"
        using run Some same(1) c2(1) by simp
      show "resolves P c (insert ?id K) {} ?m (?fin ?c3)" using insert[OF r3] by simp
      show "mset (delivered (?fin ?c3)) + pend P (?fin ?c3) = add_mset (own P ?b) (mset (delivered c) + pend P c)"
        using fin[of ?c3] cnt by simp
      show "wait_closed (insert ?id K) c"
      proof -
        have "itemsIn K ?c1 = itemsIn K c" by (simp add: itemsIn_def same)
        then show ?thesis using c2(4,5) unfolding wait_closed_def items same by auto
      qed
    qed (use p(2) c2(3) in auto)
  qed
qed simp

end
