(* ===== verification/PacketStreamingLink.thy ===== *)
theory PacketStreamingLink
  imports PacketStreamingClient
begin

text \<open>
  A packet streaming server and its client at the two ends of a first-in first-out transport.
  \<open>link_reach\<close> are the states they can reach when packets are added, die and are released in any
  order and buffers are transferred one at a time; the history obeys reference counting: a packet
  that has died or was moved out with its last reference is not used again, neither itself nor as
  the domain packet of another one. The theorems say that the client accepts every buffer, that
  no data packet is lost, duplicated or altered, and that packets whose domain packets come first
  are delivered in the order they were added.
\<close>

section \<open>Histories\<close>

record stream_link =
  lk_server :: PacketStreamingServer
  lk_client :: PacketStreamingClient
  lk_dead :: "Int64 set"
  lk_log :: "(32 word \<times> view) list"
  lk_ordered :: bool

definition link_init :: "SizeT \<Rightarrow> SizeT \<Rightarrow> stream_link" where
  "link_init payloadMax threshold = \<lparr>lk_server = PacketStreamingServer_init payloadMax threshold,
     lk_client = PacketStreamingClient_init, lk_dead = {}, lk_log = [], lk_ordered = True\<rparr>"

definition link_fits :: "PacketStreamingServer \<Rightarrow> bool" where
  "link_fits s \<longleftrightarrow> srv_fits s \<and> length (readyForRelease s) < 2 ^ 29"

text \<open>Events the client can read, and whose descriptors are among those expected of the signal.\<close>

definition event_ok :: "(event \<Rightarrow> string) \<Rightarrow> (string \<Rightarrow> event result) \<Rightarrow> (32 word \<Rightarrow> descriptor set)
    \<Rightarrow> 32 word \<Rightarrow> event \<Rightarrow> bool" where
  "event_ok ser deser D sig e \<longleftrightarrow> deser (ser e) = Inr e \<and>
     (\<forall>d. ep_dataDescriptor e = Some d \<longrightarrow> d \<noteq> NullDataDescriptor \<and> d \<in> D sig)"

definition data_ok :: "(Int64 \<Rightarrow> data_packet) \<Rightarrow> (32 word \<Rightarrow> descriptor set) \<Rightarrow> Int64 set
    \<Rightarrow> 32 word \<Rightarrow> data_packet \<Rightarrow> bool" where
  "data_ok P D dead sig p \<longleftrightarrow> pkt_ok P p \<and> pk_id p \<notin> dead \<and>
     (\<forall>d. pk_domain p = Some d \<longrightarrow> pk_id d \<notin> dead) \<and> (\<forall>d \<in> D sig. accepts d p)"

definition domain_sent :: "data_packet \<Rightarrow> PacketStreamingServer \<Rightarrow> bool" where
  "domain_sent p s \<longleftrightarrow> (case pk_domain p of None \<Rightarrow> True | Some d \<Rightarrow> pk_id d \<in> sent s)"

text \<open>\<open>move\<close>: the packet is moved in by a caller that holds \<open>refCount\<close> references to it.\<close>

definition add_data :: "(event \<Rightarrow> string) \<Rightarrow> bool \<Rightarrow> SizeT \<Rightarrow> 32 word \<Rightarrow> data_packet
    \<Rightarrow> PacketStreamingServer \<Rightarrow> (PacketStreamingServer, unit) outcome" where
  "add_data ser move refCount sig p s =
     (if move then addDaqPacketMove ser refCount sig (StreamData p) s
      else addDaqPacket ser sig (StreamData p) s)"

inductive link_reach :: "(event \<Rightarrow> string) \<Rightarrow> (string \<Rightarrow> event result) \<Rightarrow> (Int64 \<Rightarrow> data_packet)
    \<Rightarrow> (32 word \<Rightarrow> descriptor set) \<Rightarrow> SizeT \<Rightarrow> SizeT \<Rightarrow> stream_link \<Rightarrow> bool"
  for ser deser P D payloadMax threshold where
  link_start: "link_reach ser deser P D payloadMax threshold (link_init payloadMax threshold)"
| link_event: "link_reach ser deser P D payloadMax threshold l \<Longrightarrow> link_fits (lk_server l) \<Longrightarrow>
    event_ok ser deser D sig e \<Longrightarrow>
    addDaqPacket ser sig (StreamEvent e) (lk_server l) = (r, s') \<Longrightarrow>
    link_reach ser deser P D payloadMax threshold (l\<lparr>lk_server := s'\<rparr>)"
| link_data: "link_reach ser deser P D payloadMax threshold l \<Longrightarrow> link_fits (lk_server l) \<Longrightarrow>
    data_ok P D (lk_dead l) sig p \<Longrightarrow>
    add_data ser move refCount sig p (lk_server l) = (Inr (), s') \<Longrightarrow>
    link_reach ser deser P D payloadMax threshold (l\<lparr>lk_server := s',
      lk_dead := (if canReleasePacket move refCount then insert (pk_id p) (lk_dead l) else lk_dead l),
      lk_log := lk_log l @ [(sig, content p)],
      lk_ordered := (lk_ordered l \<and> domain_sent p (lk_server l))\<rparr>)"
| link_destruct: "link_reach ser deser P D payloadMax threshold l \<Longrightarrow> i \<notin> lk_dead l \<Longrightarrow>
    link_reach ser deser P D payloadMax threshold
      (l\<lparr>lk_server := packetDestructed i (lk_server l), lk_dead := insert i (lk_dead l)\<rparr>)"
| link_release: "link_reach ser deser P D payloadMax threshold l \<Longrightarrow> link_fits (lk_server l) \<Longrightarrow>
    checkAndSendReleasePacket force (lk_server l) = (r, s') \<Longrightarrow>
    link_reach ser deser P D payloadMax threshold (l\<lparr>lk_server := s'\<rparr>)"
| link_transfer: "link_reach ser deser P D payloadMax threshold l \<Longrightarrow> link_fits (lk_server l) \<Longrightarrow>
    getNextPacketBuffer (lk_server l) = (Inr (Some b), s') \<Longrightarrow>
    addPacketBuffer deser b (lk_client l) = Some (r, c') \<Longrightarrow>
    link_reach ser deser P D payloadMax threshold (l\<lparr>lk_server := s', lk_client := c'\<rparr>)"

text \<open>The client once everything that is on its way has arrived; \<open>None\<close> if it rejects a buffer.\<close>

fun settle :: "(string \<Rightarrow> event result) \<Rightarrow> StreamBuffer list \<Rightarrow> PacketStreamingClient \<Rightarrow> PacketStreamingClient option" where
  "settle deser [] c = Some c"
| "settle deser (b # bs) c =
     (case addPacketBuffer deser b c of Some (Inr _, c') \<Rightarrow> settle deser bs c' | _ \<Rightarrow> None)"

lemma settle_snoc:
  "settle deser bs c = Some c1 \<Longrightarrow> settle deser (bs @ [b]) c = settle deser [b] c1"
  by (induction bs arbitrary: c) (auto split: option.splits sum.splits)

section \<open>Agreement of the two sides\<close>

definition items :: "PacketStreamingClient \<Rightarrow> nat list" where
  "items c = concat (map snd (waiting c))"

definition itemIds :: "PacketStreamingClient \<Rightarrow> Int64 list" where
  "itemIds c = map (\<lambda>a. bufId (cl_bufs c ! a)) (items c)"

definition refIds :: "PacketStreamingClient \<Rightarrow> Int64 set" where
  "refIds c = fst ` set (referencedPackets c)"

definition openIds :: "PacketStreamingClient \<Rightarrow> Int64 set" where
  "openIds c = {bufId (cl_bufs c ! a) |a. a \<in> set (items c) \<and> unmarked (cl_bufs c ! a)}"

definition index_ok :: "PacketStreamingClient \<Rightarrow> bool" where
  "index_ok c \<longleftrightarrow> (\<forall>i a. map_of (referencedPacketBuffers c) i = Some a \<longleftrightarrow>
     a \<in> set (items c) \<and> bufId (cl_bufs c ! a) = i)"

definition agree :: "(Int64 \<Rightarrow> data_packet) \<Rightarrow> (32 word \<Rightarrow> descriptor set) \<Rightarrow> (32 word \<Rightarrow> descriptor option option)
    \<Rightarrow> Int64 set \<Rightarrow> Int64 list \<Rightarrow> Int64 set \<Rightarrow> (32 word \<times> view) list \<Rightarrow> bool \<Rightarrow> PacketStreamingClient \<Rightarrow> bool" where
  "agree P D descs snt ready dead log ordered c \<longleftrightarrow>
     cl_good P D c \<and> cl_dataDescriptors c = descs \<and>
     distinct (itemIds c) \<and> index_ok c \<and>
     refIds c \<inter> fst ` set (waiting c) = {} \<and> refIds c \<inter> set (itemIds c) = {} \<and>
     snt \<union> set ready \<subseteq> refIds c \<union> openIds c \<and>
     refIds c \<union> set (itemIds c) \<subseteq> snt \<union> dead \<and>
     snt \<inter> dead = {} \<and> set ready \<subseteq> dead \<and> distinct ready \<and>
     mset (delivered c) + pend P c = mset log \<and>
     (ordered \<longrightarrow> waiting c = [] \<and> delivered c = log \<and> refIds c = snt \<union> set ready)"

definition link_inv :: "(string \<Rightarrow> event result) \<Rightarrow> (Int64 \<Rightarrow> data_packet) \<Rightarrow> (32 word \<Rightarrow> descriptor set)
    \<Rightarrow> stream_link \<Rightarrow> bool" where
  "link_inv deser P D l \<longleftrightarrow> (let s = lk_server l in
     sv_inv s \<and> sent s \<subseteq> destructCallbacks s \<and>
     (\<exists>c. settle deser (sv_queue s) (lk_client l) = Some c \<and>
        agree P D (sv_dataDescriptors s) (sent s) (readyForRelease s) (lk_dead l) (lk_log l) (lk_ordered l) c))"


lemma items_iff:
  "om_ok (waiting c) \<Longrightarrow> a \<in> set (items c) \<longleftrightarrow> (\<exists>k as. map_of (waiting c) k = Some as \<and> a \<in> set as)"
  by (simp add: items_def om_ok_def map_of_eq_Some_iff Bex_def split_paired_Ex)

lemma good_items:
  assumes "cl_good P D c" and "a \<in> set (items c)"
  shows "a < length (cl_bufs c)" and "buf_match P D (cl_bufs c ! a)"
    and "\<exists>as. map_of (waiting c) (hd_domainPacketId (sb_header (cl_bufs c ! a))) = Some as \<and> a \<in> set as"
proof -
  obtain k as where "map_of (waiting c) k = Some as" "a \<in> set as"
    using assms items_iff[of c a] by (auto simp: cl_good_def)
  then show "a < length (cl_bufs c)" and "buf_match P D (cl_bufs c ! a)"
    and "\<exists>as. map_of (waiting c) (hd_domainPacketId (sb_header (cl_bufs c ! a))) = Some as \<and> a \<in> set as"
    using assms(1) by (auto simp: cl_good_def)
qed

lemma itemIds_inj:
  "distinct (itemIds c) \<Longrightarrow> a \<in> set (items c) \<Longrightarrow> a' \<in> set (items c) \<Longrightarrow>
   bufId (cl_bufs c ! a) = bufId (cl_bufs c ! a') \<longleftrightarrow> a = a'"
  by (auto simp: itemIds_def distinct_map inj_on_def)

text \<open>
  A change of the buffer store keeps the agreement when it leaves the waiting buffers their ids,
  signals and domain packets.
\<close>

definition same_waiting :: "PacketStreamingClient \<Rightarrow> StreamBuffer list \<Rightarrow> bool" where
  "same_waiting c bufs \<longleftrightarrow> length (cl_bufs c) \<le> length bufs \<and> (\<forall>a \<in> set (items c).
     let h = sb_header (cl_bufs c ! a); h' = sb_header (bufs ! a) in
     hd_packetId h' = hd_packetId h \<and> hd_domainPacketId h' = hd_domainPacketId h \<and> hd_signalId h' = hd_signalId h)"

lemma waiting_bufs [simp]: "waiting (c\<lparr>cl_bufs := bufs\<rparr>) = waiting c" "items (c\<lparr>cl_bufs := bufs\<rparr>) = items c"
  "refIds (c\<lparr>cl_bufs := bufs\<rparr>) = refIds c"
  by (simp_all add: waiting_def items_def refIds_def)

lemma good_bufs:
  assumes "cl_good P D c" and "same_waiting c bufs" and "\<forall>a \<in> set (items c). buf_match P D (bufs ! a)"
  shows "cl_good P D (c\<lparr>cl_bufs := bufs\<rparr>)"
proof -
  have "om_ok (waiting c)" using assms(1) by (simp add: cl_good_def)
  then have it: "map_of (waiting c) k = Some as \<Longrightarrow> a \<in> set as \<Longrightarrow> a \<in> set (items c)" for k as a
    by (auto simp: items_iff)
  show ?thesis
    using assms it unfolding cl_good_def same_waiting_def Let_def by (auto; fastforce)
qed

lemma itemIds_bufs: "same_waiting c bufs \<Longrightarrow> itemIds (c\<lparr>cl_bufs := bufs\<rparr>) = itemIds c"
  by (auto simp: itemIds_def same_waiting_def Let_def)

lemma index_bufs: "same_waiting c bufs \<Longrightarrow> index_ok c \<Longrightarrow> index_ok (c\<lparr>cl_bufs := bufs\<rparr>)"
  by (auto simp: index_ok_def same_waiting_def Let_def)

lemma agree_recv:
  assumes "agree P D descs snt ready dead log ord c"
  shows "agree P D descs snt ready dead log ord (c\<lparr>cl_bufs := cl_bufs c @ [b]\<rparr>)"
proof -
  have g: "cl_good P D c" using assms by (simp add: agree_def)
  have nth: "a \<in> set (items c) \<Longrightarrow> (cl_bufs c @ [b]) ! a = cl_bufs c ! a" for a
    using good_items(1)[OF g] by (simp add: nth_append)
  have sw: "same_waiting c (cl_bufs c @ [b])" by (simp add: same_waiting_def nth)
  have "openIds (c\<lparr>cl_bufs := cl_bufs c @ [b]\<rparr>) = openIds c" unfolding openIds_def by (force simp: nth)
  moreover have "pend P (c\<lparr>cl_bufs := cl_bufs c @ [b]\<rparr>) = pend P c"
    unfolding pend_def pendL_def waiting_bufs using nth[unfolded items_def]
    by (intro arg_cong[of _ _ sum_list] map_cong) simp_all
  moreover have "cl_good P D (c\<lparr>cl_bufs := cl_bufs c @ [b]\<rparr>)"
    using good_items(2)[OF g] by (intro good_bufs[OF g sw]) (simp add: nth)
  ultimately show ?thesis
    using assms itemIds_bufs[OF sw] index_bufs[OF sw] by (simp add: agree_def)
qed

section \<open>Events\<close>

lemma agree_event:
  assumes ag: "agree P D descs snt ready dead log ord c" and ok: "event_ok ser deser D sig e"
    and b: "sb_header b = generic_header sz BufEvent fl sig psz" "sb_payload b = TextPayload (ser e)"
  shows "\<exists>c'. addPacketBuffer deser b c = Some (Inr (), c') \<and>
    agree P D (if ep_eventId e = DATA_DESCRIPTOR_CHANGED \<and> ep_dataDescriptor e \<noteq> None
               then descs(sig \<mapsto> ep_dataDescriptor e) else descs) snt ready dead log ord c'"
proof -
  let ?c1 = "c\<lparr>cl_bufs := cl_bufs c @ [b]\<rparr>"
  have ag1: "agree P D descs snt ready dead log ord ?c1" by (rule agree_recv[OF ag])
  have d: "deser (ser e) = Inr e" "\<And>d. ep_dataDescriptor e = Some d \<Longrightarrow> d \<noteq> NullDataDescriptor \<and> d \<in> D sig"
    using ok by (auto simp: event_ok_def)
  have upd: "agree P D (descs(sig \<mapsto> ep_dataDescriptor e)) snt ready dead log ord
      (?c1\<lparr>cl_dataDescriptors := (cl_dataDescriptors ?c1)(sig \<mapsto> ep_dataDescriptor e)\<rparr>)"
    if "ep_dataDescriptor e \<noteq> None"
    using ag1 d(2) that unfolding agree_def cl_good_def index_ok_def itemIds_def items_def refIds_def openIds_def
      waiting_def pend_def delivered_def by auto
  have frame: "agree P D ds snt ready dead log ord (x\<lparr>cl_domainDescriptors := dd\<rparr>) = agree P D ds snt ready dead log ord x"
    "agree P D ds snt ready dead log ord (pushPacket sig (Some (StreamEvent e)) x) = agree P D ds snt ready dead log ord x"
    for ds x dd
    unfolding agree_def cl_good_def index_ok_def itemIds_def items_def refIds_def openIds_def
      waiting_def pend_def delivered_def pushPacket_def List.map_filter_def by simp_all
  show ?thesis
    using ag1 d upd b
    by (cases "ep_dataDescriptor e"; cases "ep_domainDataDescriptor e")
       (auto simp: addPacketBuffer_def addEventPacketBuffer_def generic_header_def Let_def frame
         parseDataDescriptorEventPacket_def)
qed


section \<open>Releases\<close>

definition mark_buffer :: "StreamBuffer \<Rightarrow> StreamBuffer" where
  "mark_buffer b = b\<lparr>sb_header := (sb_header b)\<lparr>hd_flags := hd_flags (sb_header b) + PACKET_FLAG_CAN_RELEASE\<rparr>\<rparr>"

lemma mark_buffer_simps [simp]:
  "bufId (mark_buffer b) = bufId b" "hd_signalId (sb_header (mark_buffer b)) = hd_signalId (sb_header b)"
  "hd_domainPacketId (sb_header (mark_buffer b)) = hd_domainPacketId (sb_header b)"
  "pendB P (mark_buffer b) = pendB P b"
  by (simp_all add: mark_buffer_def pendB_def own_def)

lemma mark_buffer_match:
  assumes "buf_match P D b" and "unmarked b"
  shows "buf_match P D (mark_buffer b)" and "\<not> unmarked (mark_buffer b)"
proof -
  have fl: "hd_flags (sb_header b) \<in> {0, 2, 4}"
    using assms by (auto simp: buf_match_def Let_def unmarked_def PACKET_FLAG_CAN_RELEASE_def)
  then have "readOffset (sb_header (mark_buffer b)) = readOffset (sb_header b)"
    by (auto simp: readOffset_def mark_buffer_def Let_def PACKET_FLAG_CAN_RELEASE_def
        PACKET_FLAG_OFFSET_TYPE_MASK_def PACKET_FLAG_OFFSET_TYPE_SHIFT_def PACKET_OFFSET_TYPE_INT_def
        PACKET_OFFSET_TYPE_FLOAT_def)
  then show "buf_match P D (mark_buffer b)"
    using assms(1) fl by (auto simp: buf_match_def Let_def mark_buffer_def PACKET_FLAG_CAN_RELEASE_def)
  show "\<not> unmarked (mark_buffer b)"
    using fl by (auto simp: unmarked_def mark_buffer_def PACKET_FLAG_CAN_RELEASE_def)
qed

lemma pend_bufs:
  assumes "\<And>a. a \<in> set (items c) \<Longrightarrow> pendB P (bufs ! a) = pendB P (cl_bufs c ! a)"
  shows "pend P (c\<lparr>cl_bufs := bufs\<rparr>) = pend P c"
  unfolding pend_def pendL_def waiting_bufs using assms[unfolded items_def]
  by (intro arg_cong[of _ _ sum_list] map_cong) simp_all

lemma agree_release_buffer:
  assumes ag: "agree P D descs snt (i # ids) dead log ord c" and a: "map_of (referencedPacketBuffers c) i = Some a"
    and notref: "i \<notin> refIds c"
  shows "agree P D descs snt ids dead log ord (c\<lparr>cl_bufs := (cl_bufs c)[a := mark_buffer (cl_bufs c ! a)]\<rparr>)"
proof -
  let ?bufs = "(cl_bufs c)[a := mark_buffer (cl_bufs c ! a)]"
  have g: "cl_good P D c" and dist: "distinct (itemIds c)" and ix: "index_ok c" using ag by (auto simp: agree_def)
  have it: "a \<in> set (items c)" "bufId (cl_bufs c ! a) = i" using ix a by (auto simp: index_ok_def)
  have un: "unmarked (cl_bufs c ! a)"
  proof -
    have "i \<in> openIds c" using ag notref by (auto simp: agree_def)
    then obtain a' where "a' \<in> set (items c)" "bufId (cl_bufs c ! a') = i" "unmarked (cl_bufs c ! a')"
      by (auto simp: openIds_def)
    then show ?thesis using itemIds_inj[OF dist it(1), of a'] it(2) by auto
  qed
  note m = mark_buffer_match[OF good_items(2)[OF g it(1)] un]
  have nth: "?bufs ! a' = (if a' = a then mark_buffer (cl_bufs c ! a) else cl_bufs c ! a')" if "a' \<in> set (items c)" for a'
    using good_items(1)[OF g that] by simp
  have sw: "same_waiting c ?bufs" by (simp add: same_waiting_def nth Let_def)
  have op: "openIds (c\<lparr>cl_bufs := ?bufs\<rparr>) = openIds c - {i}"
  proof -
    have "{a' \<in> set (items c). unmarked (?bufs ! a')} = {a' \<in> set (items c). unmarked (cl_bufs c ! a')} - {a}"
      using nth m(2) by (auto split: if_splits)
    moreover have "bufId (?bufs ! a') = bufId (cl_bufs c ! a')" if "a' \<in> set (items c)" for a'
      using nth[OF that] by simp
    ultimately show ?thesis
      using it itemIds_inj[OF dist it(1)] unfolding openIds_def by (fastforce simp del: nth_list_update_eq)
  qed
  have g': "cl_good P D (c\<lparr>cl_bufs := ?bufs\<rparr>)"
    using good_items(2)[OF g] m(1) by (intro good_bufs[OF g sw]) (simp add: nth)
  have p': "pend P (c\<lparr>cl_bufs := ?bufs\<rparr>) = pend P c" by (rule pend_bufs) (simp add: nth)
  have "ord \<longrightarrow> False" using ag it(1) by (auto simp: agree_def items_def)
  then show ?thesis
    using ag g' p' op itemIds_bufs[OF sw] index_bufs[OF sw ix] notref by (auto simp: agree_def)
qed

lemma agree_release_packet:
  assumes ag: "agree P D descs snt (i # ids) dead log ord c" and ref: "om_has (referencedPackets c) i"
  shows "agree P D descs snt ids dead log ord (c\<lparr>referencedPackets := om_erase i (referencedPackets c)\<rparr>)"
proof -
  let ?c = "c\<lparr>referencedPackets := om_erase i (referencedPackets c)\<rparr>"
  have same: "waiting ?c = waiting c" "items ?c = items c" "itemIds ?c = itemIds c" "openIds ?c = openIds c"
    "pend P ?c = pend P c" "index_ok ?c = index_ok c"
    by (simp_all add: waiting_def items_def itemIds_def openIds_def pend_def index_ok_def)
  have r: "refIds ?c = refIds c - {i}" by (auto simp: refIds_def om_erase_filter)
  have "cl_good P D ?c"
    using ag same(1) by (auto simp: agree_def cl_good_def omap_simps)
  moreover have "i \<in> refIds c" using ref by (auto simp: refIds_def om_has_iff)
  moreover have "i \<notin> openIds c" using ag \<open>i \<in> refIds c\<close> by (auto simp: agree_def openIds_def itemIds_def)
  ultimately show ?thesis using ag by (auto simp: agree_def same r)
qed

lemma agree_release:
  "agree P D descs snt ids dead log ord c \<Longrightarrow>
   \<exists>c'. releasePackets ids c = (Inr (), c') \<and> agree P D descs snt [] dead log ord c'"
proof (induction ids arbitrary: c)
  case (Cons i ids)
  show ?case
  proof (cases "om_has (referencedPackets c) i")
    case True
    then show ?thesis using Cons.IH[OF agree_release_packet[OF Cons.prems True]] by simp
  next
    case False
    then have nr: "i \<notin> refIds c" by (simp add: refIds_def om_has_iff)
    then have "i \<in> openIds c" using Cons.prems by (auto simp: agree_def)
    then obtain a where "map_of (referencedPacketBuffers c) i = Some a"
      using Cons.prems by (auto simp: agree_def index_ok_def openIds_def)
    then show ?thesis
      using Cons.IH[OF agree_release_buffer[OF Cons.prems _ nr]] False by (simp add: Let_def mark_buffer_def)
  qed
qed simp

lemma agree_release_recv:
  assumes ag: "agree P D descs snt ready dead log ord c" and len: "length ready < 2 ^ 29"
    and b: "sb_header b = generic_header sz BufRelease fl sig (of_nat (length ready * 8))" "sb_payload b = IdsPayload ready"
  shows "\<exists>c'. addPacketBuffer deser b c = Some (Inr (), c') \<and> agree P D descs snt [] dead log ord c'"
proof -
  have "unat (of_nat (length ready * 8) :: 32 word) div 8 = length ready"
    using len by (simp add: unsigned_of_nat take_bit_nat_eq_self del: of_nat_mult)
  then show ?thesis
    using agree_release[OF agree_recv[OF ag, of b]] b
    by (auto simp: addPacketBuffer_def addReleasePacketBuffer_def generic_header_def Let_def)
qed


section \<open>Packets that were sent before\<close>

lemma sum_list_one:
  fixes f :: "'a \<Rightarrow> 'b multiset"
  assumes "distinct as" and "a \<in> set as" and "\<forall>x \<in> set as. x \<noteq> a \<longrightarrow> f x = g x" and "f a = add_mset y (g a)"
  shows "sum_list (map f as) = add_mset y (sum_list (map g as))"
  using assms
proof (induction as)
  case (Cons x as)
  show ?case
  proof (cases "x = a")
    case True
    then have "map f as = map g as" using Cons.prems(1,3) by auto
    then show ?thesis using True Cons.prems(4) by (simp cong: map_cong)
  next
    case False
    then show ?thesis using Cons by simp
  qed
qed simp

definition add_signal :: "32 word \<Rightarrow> StreamBuffer \<Rightarrow> StreamBuffer" where
  "add_signal sig b = b\<lparr>additionalSignalIds := additionalSignalIds b @ [sig]\<rparr>"

lemma add_signal_simps [simp]:
  "sb_header (add_signal sig b) = sb_header b"
  "buf_match P D (add_signal sig b) = buf_match P D b" "unmarked (add_signal sig b) = unmarked b"
  "pendB P (add_signal sig b) = add_mset (sig, content (P (bufId b))) (pendB P b)"
  by (simp_all add: add_signal_def buf_match_def Let_def unmarked_def pendB_def own_def)

lemma agree_add_signal:
  assumes ag: "agree P D descs snt ready dead log ord c" and a: "a \<in> set (items c)"
  shows "agree P D descs snt ready dead (log @ [(sig, content (P (bufId (cl_bufs c ! a))))]) ord
    (c\<lparr>cl_bufs := (cl_bufs c)[a := add_signal sig (cl_bufs c ! a)]\<rparr>)"
proof -
  let ?bufs = "(cl_bufs c)[a := add_signal sig (cl_bufs c ! a)]"
  have g: "cl_good P D c" and dist: "distinct (itemIds c)" and ix: "index_ok c" using ag by (auto simp: agree_def)
  have nth: "?bufs ! a' = (if a' = a then add_signal sig (cl_bufs c ! a) else cl_bufs c ! a')" if "a' \<in> set (items c)" for a'
    using good_items(1)[OF g that] by simp
  have sw: "same_waiting c ?bufs" by (simp add: same_waiting_def nth Let_def)
  have op: "openIds (c\<lparr>cl_bufs := ?bufs\<rparr>) = openIds c"
  proof -
    have "unmarked (?bufs ! a') = unmarked (cl_bufs c ! a')" "bufId (?bufs ! a') = bufId (cl_bufs c ! a')"
      if "a' \<in> set (items c)" for a'
      using nth[OF that] by simp_all
    then show ?thesis unfolding openIds_def by force
  qed
  have g': "cl_good P D (c\<lparr>cl_bufs := ?bufs\<rparr>)"
    using good_items(2)[OF g] by (intro good_bufs[OF g sw]) (simp add: nth a)
  have p': "pend P (c\<lparr>cl_bufs := ?bufs\<rparr>) = add_mset (sig, content (P (bufId (cl_bufs c ! a)))) (pend P c)"
    unfolding pend_def pendL_def waiting_bufs
  proof (rule sum_list_one[where a = a])
    show "distinct (concat (map snd (waiting c)))"
      using dist by (auto simp: itemIds_def items_def distinct_map)
  qed (use a nth in \<open>auto simp: items_def\<close>)
  have "\<not> ord" using ag a by (auto simp: agree_def items_def)
  then show ?thesis
    using ag g' p' op itemIds_bufs[OF sw] index_bufs[OF sw ix] by (simp add: agree_def)
qed

lemma agree_push:
  assumes ag: "agree P D descs snt ready dead log ord c" and "content q = v"
  shows "agree P D descs snt ready dead (log @ [(sig, v)]) ord (pushPacket sig (Some (StreamData q)) c)"
proof -
  let ?c = "pushPacket sig (Some (StreamData q)) c"
  have "waiting ?c = waiting c" "items ?c = items c" "itemIds ?c = itemIds c" "openIds ?c = openIds c"
    "pend P ?c = pend P c" "index_ok ?c = index_ok c" "refIds ?c = refIds c" "cl_good P D ?c = cl_good P D c"
    "cl_dataDescriptors ?c = cl_dataDescriptors c"
    by (simp_all add: waiting_def items_def itemIds_def openIds_def pend_def index_ok_def refIds_def pushPacket_def cl_good_def)
  then show ?thesis using assms by (simp add: agree_def)
qed

lemma agree_forget:
  assumes "agree P D descs snt ready dead log ord c" and "i \<in> snt"
  shows "agree P D descs (snt - {i}) ready (insert i dead) log (ord \<and> i \<notin> refIds c) c"
  using assms by (auto simp: agree_def)

text \<open>Dropping a referenced packet: the same as its release.\<close>

lemma agree_drop:
  assumes ag: "agree P D descs snt ready dead log ord c" and i: "i \<in> snt" and ref: "om_has (referencedPackets c) i"
  shows "agree P D descs (snt - {i}) ready (insert i dead) log ord (c\<lparr>referencedPackets := om_erase i (referencedPackets c)\<rparr>)"
proof -
  have "agree P D descs (snt - {i}) (i # ready) (insert i dead) log ord c"
    using assms by (auto simp: agree_def)
  then show ?thesis by (rule agree_release_packet[OF _ ref])
qed

lemma agree_already_sent:
  assumes ag: "agree P D descs snt ready dead log ord c" and p: "pkt_ok P p" "pk_id p \<in> snt" "descs sig \<noteq> None"
    and b: "sb_header b = (generic_header sz BufAlreadySent (if m then PACKET_FLAG_CAN_RELEASE else 0) sig psz)
              \<lparr>hd_packetId := pk_id p, hd_domainPacketId := getDomainPacketId p\<rparr>"
  shows "\<exists>c'. addPacketBuffer deser b c = Some (Inr (), c') \<and>
    agree P D descs (if m then snt - {pk_id p} else snt) ready (if m then insert (pk_id p) dead else dead)
      (log @ [(sig, content p)]) ord c'"
proof -
  let ?c1 = "c\<lparr>cl_bufs := cl_bufs c @ [b]\<rparr>"
  have ag1: "agree P D descs snt ready dead log ord ?c1" by (rule agree_recv[OF ag])
  have Pp: "P (pk_id p) = p" using p(1) by (simp add: pkt_ok_def)
  have desc: "cl_dataDescriptors ?c1 sig \<noteq> None" using ag p(3) by (simp add: agree_def)
  show ?thesis
  proof (cases "map_of (referencedPackets ?c1) (pk_id p)")
    case (Some q)
    have "content q = content p" using ag1 Some Pp by (auto simp: agree_def cl_good_def)
    note ag2 = agree_push[OF ag1 this, of sig]
    have ref: "om_has (referencedPackets (pushPacket sig (Some (StreamData q)) ?c1)) (pk_id p)"
      using Some by (simp add: om_has_def pushPacket_def)
    show ?thesis
      using ag2 agree_drop[OF ag2 p(2) ref] b desc Some
      by (auto simp: addPacketBuffer_def addAlreadySentPacketBuffer_def generic_header_def Let_def
          PACKET_FLAG_CAN_RELEASE_def)
  next
    case None
    then have "pk_id p \<notin> refIds ?c1" by (simp add: refIds_def map_of_eq_None_iff)
    then obtain a where a: "a \<in> set (items ?c1)" "bufId (cl_bufs ?c1 ! a) = pk_id p"
      using ag1 p(2) by (auto simp: agree_def openIds_def)
    have g: "cl_good P D ?c1" and dist: "distinct (itemIds ?c1)" using ag1 by (simp_all add: agree_def)
    have "hd_domainPacketId (sb_header (cl_bufs ?c1 ! a)) = getDomainPacketId p"
      using good_items(2)[OF g a(1)] a(2) Pp by (simp add: buf_match_def Let_def)
    then obtain as where as: "map_of (waiting ?c1) (getDomainPacketId p) = Some as" "a \<in> set as"
      using good_items(3)[OF g a(1)] by auto
    have sub: "a' \<in> set (items ?c1)" if "a' \<in> set as" for a'
      using items_iff[of ?c1 a'] g as(1) that by (auto simp: cl_good_def)
    have "find (\<lambda>a'. pk_id p = bufId (cl_bufs ?c1 ! a')) as = Some a"
    proof (cases "find (\<lambda>a'. pk_id p = bufId (cl_bufs ?c1 ! a')) as")
      case None
      then show ?thesis using as(2) a(2) by (auto simp: find_None_iff)
    next
      case (Some a')
      then have a': "a' \<in> set as" "bufId (cl_bufs ?c1 ! a') = pk_id p" by (auto simp: find_Some_iff)
      then show ?thesis using itemIds_inj[OF dist a(1) sub[OF a'(1)]] a(2) Some by simp
    qed
    then have run: "addPacketBuffer deser b c = Some (Inr (), ?c1\<lparr>cl_bufs := (cl_bufs ?c1)[a := add_signal sig (cl_bufs ?c1 ! a)]\<rparr>)"
      using b desc None as(1)
      by (auto simp: addPacketBuffer_def addAlreadySentPacketBuffer_def generic_header_def Let_def waiting_def add_signal_def)
    have "\<not> ord" using ag1 a(1) by (auto simp: agree_def items_def)
    then show ?thesis
      using run agree_add_signal[OF ag1 a(1), of sig] agree_forget[OF agree_add_signal[OF ag1 a(1), of sig] p(2)] a(2) Pp
      by auto
  qed
qed


section \<open>New data packets\<close>

lemma mset_items_assign:
  "om_ok W \<Longrightarrow> map_of W k = Some as \<Longrightarrow>
   mset (concat (map snd (om_assign k (as @ [a]) W))) = add_mset a (mset (concat (map snd W)))"
proof (induction W)
  case (Cons x W)
  then show ?case by (cases x) (auto simp: om_assign_def om_ok_def)
qed simp

lemma mset_items_wait:
  assumes "om_ok (waiting c)"
  shows "mset (items (waitForDomain k a c)) = add_mset a (mset (items c))"
proof (cases "map_of (waiting c) k")
  case None
  then show ?thesis by (simp add: items_def waitForDomain_def waiting_def om_insert_def om_has_def)
next
  case (Some as)
  then show ?thesis
    using mset_items_assign[OF assms Some] by (simp add: items_def waitForDomain_def waiting_def)
qed

lemma pendL_mset: "mset as = mset bs \<Longrightarrow> pendL P bufs as = pendL P bufs bs"
  unfolding pendL_def by (metis mset_map sum_mset_sum_list)

lemma waitForDomain_simps [simp]:
  "cl_bufs (waitForDomain k a c) = cl_bufs c" "referencedPackets (waitForDomain k a c) = referencedPackets c"
  "cl_dataDescriptors (waitForDomain k a c) = cl_dataDescriptors c"
  "delivered (waitForDomain k a c) = delivered c" "refIds (waitForDomain k a c) = refIds c"
  by (simp_all add: waitForDomain_def refIds_def delivered_def)

lemma map_of_wait:
  "map_of (waiting (waitForDomain k a c)) =
     (map_of (waiting c))(k \<mapsto> (case map_of (waiting c) k of None \<Rightarrow> [a] | Some as \<Rightarrow> as @ [a]))"
  by (auto simp: waitForDomain_def waiting_def omap_simps om_has_def split: option.splits)

lemma good_wait:
  assumes g: "cl_good P D c" and a: "a < length (cl_bufs c)" "waiter_ok P D c a"
    and k: "hd_domainPacketId (sb_header (cl_bufs c ! a)) = k" "0 \<le> sint k"
  shows "cl_good P D (waitForDomain k a c)"
proof -
  have "om_ok (waiting (waitForDomain k a c))" "om_ok (referencedPacketBuffers (waitForDomain k a c))"
    using g by (auto simp: waitForDomain_def waiting_def cl_good_def split: option.splits)
  then show ?thesis
    using assms unfolding cl_good_def map_of_wait waitForDomain_simps
    by (auto simp: waiter_ok_def split: if_splits option.splits)
qed

lemma agree_wait:
  assumes ag: "agree P D descs snt ready dead log ord c"
    and a: "a < length (cl_bufs c)" "a \<notin> set (items c)" "waiter_ok P D c a" "additionalSignalIds (cl_bufs c ! a) = []"
    and k: "hd_domainPacketId (sb_header (cl_bufs c ! a)) = k" "0 \<le> sint k" "k \<notin> refIds c"
    and i: "bufId (cl_bufs c ! a) = i" "i \<notin> snt" "i \<notin> dead"
  shows "agree P D descs (if unmarked (cl_bufs c ! a) then insert i snt else snt) ready
    (if unmarked (cl_bufs c ! a) then dead else insert i dead) (log @ [own P (cl_bufs c ! a)]) False (waitForDomain k a c)"
proof -
  let ?c = "waitForDomain k a c"
  have g: "cl_good P D c" and ok: "om_ok (waiting c)" using ag by (auto simp: agree_def cl_good_def)
  have ms: "mset (items ?c) = add_mset a (mset (items c))" by (rule mset_items_wait[OF ok])
  then have st: "set (items ?c) = insert a (set (items c))" by (metis set_mset_add_mset_insert set_mset_mset)
  have new: "i \<notin> refIds c" "i \<notin> set (itemIds c)" using ag i by (auto simp: agree_def)
  have ids: "mset (itemIds ?c) = add_mset i (mset (itemIds c))"
    using ms i(1) by (simp add: itemIds_def)
  then have dist: "distinct (itemIds ?c)"
    using ag new(2) mset_eq_imp_distinct_iff[of "itemIds ?c" "i # itemIds c"] by (simp add: agree_def)
  have sids: "set (itemIds ?c) = insert i (set (itemIds c))" using ids by (metis set_mset_add_mset_insert set_mset_mset)
  have op: "openIds ?c = (if unmarked (cl_bufs c ! a) then insert i (openIds c) else openIds c)"
    using i(1) by (auto simp: openIds_def st)
  have noidx: "map_of (referencedPacketBuffers c) i = None"
    using ag new(2) by (cases "map_of (referencedPacketBuffers c) i") (auto simp: agree_def index_ok_def itemIds_def)
  have other: "bufId (cl_bufs c ! a') \<noteq> i" if "a' \<in> set (items c)" for a'
    using new(2) that by (force simp: itemIds_def)
  have ix: "index_ok ?c"
    using ag noidx other i(1) unfolding index_ok_def st waitForDomain_simps
    by (auto simp: agree_def index_ok_def waitForDomain_def omap_simps om_has_def)
  have pe: "pend P ?c = add_mset (own P (cl_bufs c ! a)) (pend P c)"
    using pendL_mset[of "items ?c" "a # items c" P "cl_bufs c"] ms a(4)
    by (simp add: pend_def items_def pendB_def)
  have keys: "fst ` set (waiting ?c) = insert k (fst ` set (waiting c))"
    using map_of_wait[of k a c] by (metis dom_fun_upd dom_map_of_conv_image_fst option.distinct(1))
  show ?thesis
    using ag good_wait[OF g a(1,3) k(1,2)] dist ix op sids pe keys new k(3) i(2,3)
    unfolding agree_def by (auto split: if_splits)
qed


lemma no_wait_delivered:
  assumes "waiting c = []" and "addDataPacketBuffer (Suc n) a dp c = Some (Inr (Some p), c')"
  shows "delivered c' = delivered c @ [(hd_signalId (sb_header (cl_bufs c ! a)), content p)]"
proof -
  have w: "packetBuffersWaitingForDomainPackets (pushPacket sig q (c\<lparr>globalPacketId := i\<rparr>)) = []" for sig q i
    using assms(1) by (simp add: waiting_def pushPacket_def)
  show ?thesis
    using assms(2) unfolding addDataPacketBuffer.simps Let_def w
    by (auto split: if_splits option.splits sum.splits)
qed

lemma distinct_concat_filter:
  "distinct (map f (concat (map snd W))) \<Longrightarrow> distinct (map f (concat (map snd (filter Q W))))"
  by (induction W) auto

lemma agree_resolve:
  assumes ag: "agree P D descs snt ready dead log ord c"
    and r: "resolved_call P a c (Some (Inr (Some p), c'))" and a: "a \<notin> set (items c)"
    and i: "bufId (cl_bufs c ! a) = i" "i \<notin> snt" "i \<notin> dead"
    and o: "waiting c = [] \<Longrightarrow> delivered c' = delivered c @ [own P (cl_bufs c ! a)]"
  shows "agree P D descs (if unmarked (cl_bufs c ! a) then insert i snt else snt) ready
    (if unmarked (cl_bufs c ! a) then dead else insert i dead) (log @ [own P (cl_bufs c ! a)]) ord c'"
proof -
  let ?m = "if unmarked (cl_bufs c ! a) then {i} else {}"
  obtain K where K: "resolves P c K {} ?m c'" "i \<in> K" "wait_closed K c"
      "mset (delivered c') + pend P c' = add_mset (own P (cl_bufs c ! a)) (mset (delivered c) + pend P c)"
    using r i(1) by (auto simp: resolved_call_def Let_def)
  have g: "cl_good P D c" and ok: "om_ok (waiting c)" and dist: "distinct (itemIds c)" and ix: "index_ok c"
    using ag by (auto simp: agree_def cl_good_def)
  have g': "cl_good P D c'" by (rule good_resolves[OF g K(1)])
  have bufs: "cl_bufs c' = cl_bufs c" and w: "waiting c' = filter (\<lambda>(k, _). k \<notin> K) (waiting c)"
    using K(1) by (auto simp: resolves_def)
  have new: "i \<notin> refIds c" "i \<notin> set (itemIds c)" using ag i by (auto simp: agree_def)
  have inK: "itemsIn K c \<subseteq> set (items c)" using items_iff[OF ok] by (auto simp: itemsIn_def)
  have uniq: "k = k'" if "map_of (waiting c) k = Some as" "x \<in> set as" "map_of (waiting c) k' = Some as'" "x \<in> set as'" for x k k' as as'
  proof -
    have "hd_domainPacketId (sb_header (cl_bufs c ! x)) = k" "hd_domainPacketId (sb_header (cl_bufs c ! x)) = k'"
      using that g unfolding cl_good_def by blast+
    then show ?thesis by simp
  qed
  have st: "set (items c') = set (items c) - itemsIn K c"
  proof -
    have "om_ok (waiting c')" using g' by (simp add: cl_good_def)
    then show ?thesis using items_iff[OF ok] uniq by (auto simp: items_iff w map_of_filter_keys itemsIn_def split: if_splits; metis)
  qed
  have dist': "distinct (itemIds c')"
    using dist unfolding itemIds_def items_def bufs w by (rule distinct_concat_filter)
  let ?id = "\<lambda>x. bufId (cl_bufs c ! x)"
  have inj: "?id x = ?id y \<longleftrightarrow> x = y" if "x \<in> set (items c)" "y \<in> set (items c)" for x y
    by (rule itemIds_inj[OF dist that])
  have sids: "set (itemIds c') = ?id ` (set (items c) - itemsIn K c)" "set (itemIds c) = ?id ` set (items c)"
    by (simp_all add: itemIds_def bufs st)
  have refs: "refIds c' = refIds c \<union> ?m \<union> {?id x |x. x \<in> itemsIn K c \<and> unmarked (cl_bufs c ! x)}"
    using K(1) unfolding resolves_def refIds_def by blast
  have op: "openIds c' = {?id x |x. x \<in> set (items c) - itemsIn K c \<and> unmarked (cl_bufs c ! x)}"
    by (simp add: openIds_def bufs st)
  have rb: "referencedPacketBuffers c' = filter (\<lambda>(j, _). j \<notin> ?id ` itemsIn K c) (referencedPacketBuffers c)"
    using K(1) by (simp add: resolves_def)
  have ix': "index_ok c'"
    using ix inj inK unfolding index_ok_def rb map_of_filter_keys st bufs by (auto simp: subset_iff)
  have keys: "fst ` set (waiting c') = fst ` set (waiting c) - K" by (force simp: w)
  have disj1: "refIds c' \<inter> fst ` set (waiting c') = {}"
    using ag K(2,3) unfolding refs keys by (auto simp: agree_def wait_closed_def)
  have disj2: "refIds c' \<inter> set (itemIds c') = {}"
    using ag new inj inK unfolding refs sids by (auto simp: agree_def sids)
  have "openIds c \<subseteq> {?id x |x. x \<in> itemsIn K c \<and> unmarked (cl_bufs c ! x)} \<union> openIds c'"
    unfolding openIds_def bufs st by blast
  moreover have "snt \<union> set ready \<subseteq> refIds c \<union> openIds c" using ag by (simp add: agree_def)
  ultimately have sup: "snt \<union> set ready \<union> ?m \<subseteq> refIds c' \<union> openIds c'"
    unfolding refs by blast
  have bound: "refIds c' \<union> set (itemIds c') \<subseteq> snt \<union> dead \<union> {i}"
  proof -
    have "refIds c \<union> ?id ` set (items c) \<subseteq> snt \<union> dead" using ag sids(2) by (simp add: agree_def)
    moreover have "{?id x |x. x \<in> itemsIn K c \<and> unmarked (cl_bufs c ! x)} \<subseteq> ?id ` set (items c)" using inK by blast
    ultimately show ?thesis unfolding refs sids by (auto split: if_splits)
  qed
  have none: "waiting c = [] \<Longrightarrow> itemsIn K c = {}" by (simp add: itemsIn_def)
  have ordered: "ord \<longrightarrow> waiting c' = [] \<and> delivered c' = log @ [own P (cl_bufs c ! a)] \<and> refIds c' = snt \<union> set ready \<union> ?m"
    using ag o none by (auto simp: agree_def w refs)
  have cnt: "mset (delivered c') + pend P c' = mset (log @ [own P (cl_bufs c ! a)])"
    using ag K(4) by (simp add: agree_def)
  have "cl_dataDescriptors c' = descs" using ag K(1) by (simp add: agree_def resolves_def)
  then show ?thesis
    using ag g' dist' ix' disj1 disj2 sup bound ordered cnt i(2,3) unfolding agree_def
    by (cases "unmarked (cl_bufs c ! a)") auto
qed


lemma agree_new_data:
  assumes ag: "agree P D descs snt ready dead log ord c"
    and p: "P (pk_id p) = p" "pk_id p \<notin> snt" "pk_id p \<notin> dead" "descs sig \<noteq> None"
    and b: "buf_match P D b" "hd_type (sb_header b) = BufData" "bufId b = pk_id p" "hd_signalId (sb_header b) = sig"
      "additionalSignalIds b = []" "unmarked b = (\<not> m)"
    and ord: "ord' \<Longrightarrow> ord \<and> (\<forall>d. pk_domain p = Some d \<longrightarrow> pk_id d \<in> snt)"
  shows "\<exists>c'. addPacketBuffer deser b c = Some (Inr (), c') \<and>
    agree P D descs (if m then snt else insert (pk_id p) snt) ready (if m then insert (pk_id p) dead else dead)
      (log @ [(sig, content p)]) ord' c'"
proof -
  let ?a = "length (cl_bufs c)" let ?c1 = "c\<lparr>cl_bufs := cl_bufs c @ [b]\<rparr>"
  let ?n = "Suc (length (waiting ?c1))" let ?k = "hd_domainPacketId (sb_header b)"
  have ag1: "agree P D descs snt ready dead log ord ?c1" by (rule agree_recv[OF ag])
  have g: "cl_good P D ?c1" using ag1 by (simp add: agree_def)
  have at: "cl_bufs ?c1 ! ?a = b" by simp
  have fresh: "?a \<notin> set (items ?c1)" using good_items(1)[of P D c ?a] ag by (auto simp: agree_def)
  have w: "waiter_ok P D ?c1 ?a" using ag p(4) b by (simp add: waiter_ok_def agree_def)
  have own: "own P b = (sig, content p)" using b p(1) by (simp add: own_def)
  have weak: "agree P D ds sn r dd lg ord' x" if "agree P D ds sn r dd lg ord x" for ds sn r dd lg x
    using that ord by (auto simp: agree_def)
  have run: "addPacketBuffer deser b c = map_option drop_value (addDataPacketBuffer ?n ?a None ?c1)"
    using b(2) by (simp add: addPacketBuffer_def Let_def waiting_def)
  show ?thesis
  proof (cases "effectiveDomain ?a None ?c1 = None \<and> 0 \<le> sint ?k")
    case True
    then have nr: "map_of (referencedPackets c) ?k = None" by (auto simp: effectiveDomain_def Let_def)
    then have k: "?k \<notin> refIds ?c1" by (simp add: refIds_def map_of_eq_None_iff)
    have "\<not> ord'"
    proof
      assume "ord'"
      moreover have "pk_domain p = Some (P ?k)" using match_domain[OF b(1)] True p(1) b(3) by simp
      moreover have "pk_id (P ?k) = ?k"
        using b(1,3) p(1) \<open>pk_domain p = Some (P ?k)\<close> by (simp add: buf_match_def Let_def getDomainPacketId_def)
      ultimately have "ord" "?k \<in> snt" using ord by auto
      then show False using ag1 k by (auto simp: agree_def)
    qed
    moreover have "addDataPacketBuffer ?n ?a None ?c1 = Some (Inr None, waitForDomain ?k ?a ?c1)"
      unfolding addDataPacketBuffer.simps Let_def at using True by simp
    ultimately show ?thesis
      using agree_wait[OF ag1 _ fresh w, of ?k "pk_id p"] k True p(2,3) b(3,5,6) own run
      by (auto simp: drop_value_def)
  next
    case False
    have "map_option content (effectiveDomain ?a None ?c1) = map_option content (pk_domain (P (bufId b)))"
    proof (cases "0 \<le> sint ?k")
      case True
      then obtain q where q: "effectiveDomain ?a None ?c1 = Some q" "map_of (referencedPackets c) ?k = Some q"
        using False by (auto simp: effectiveDomain_def)
      then have "content q = content (P ?k)" using ag by (auto simp: agree_def cl_good_def)
      then show ?thesis using q(1) match_domain[OF b(1) True] by simp
    next
      case no: False
      then show ?thesis using match_no_domain[OF b(1) no] by (simp add: effectiveDomain_def)
    qed
    moreover have "card (above P ?c1 (bufId b)) < ?n"
      using above_mono[of P ?c1 "bufId b"] by simp
    ultimately have "resolved_call P ?a ?c1 (addDataPacketBuffer ?n ?a None ?c1)"
      using resolve[OF g w, of ?n None] False unfolding at by blast
    moreover from this obtain q c' where q: "addDataPacketBuffer ?n ?a None ?c1 = Some (Inr (Some q), c')"
        "content q = content (P (bufId b))"
      by (auto simp: resolved_call_def Let_def)
    ultimately have "resolved_call P ?a ?c1 (Some (Inr (Some q), c'))" by simp
    from agree_resolve[OF ag1 this fresh] no_wait_delivered[OF _ q(1)] q(2) p b(3,4,6) own
    have "agree P D descs (if m then snt else insert (pk_id p) snt) ready (if m then insert (pk_id p) dead else dead)
        (log @ [(sig, content p)]) ord c'"
      unfolding at by auto
    then show ?thesis using weak run q(1) by (auto simp: drop_value_def)
  qed
qed


section \<open>Steps of the link\<close>

definition sync :: "(string \<Rightarrow> event result) \<Rightarrow> (Int64 \<Rightarrow> data_packet) \<Rightarrow> (32 word \<Rightarrow> descriptor set)
    \<Rightarrow> Int64 set \<Rightarrow> (32 word \<times> view) list \<Rightarrow> bool \<Rightarrow> PacketStreamingClient \<Rightarrow> PacketStreamingServer \<Rightarrow> bool" where
  "sync deser P D dead log ord c0 s \<longleftrightarrow> sent s \<subseteq> destructCallbacks s \<and>
     (\<exists>c. settle deser (sv_queue s) c0 = Some c \<and>
        agree P D (sv_dataDescriptors s) (sent s) (readyForRelease s) dead log ord c)"

lemma link_inv_iff:
  "link_inv deser P D l \<longleftrightarrow> sv_inv (lk_server l) \<and>
     sync deser P D (lk_dead l) (lk_log l) (lk_ordered l) (lk_client l) (lk_server l)"
  by (simp add: link_inv_def sync_def Let_def)

text \<open>A queued buffer that the settled client accepts.\<close>

lemma sync_queue:
  assumes "settle deser (sv_queue s) c0 = Some c" and "addPacketBuffer deser b c = Some (Inr (), c')"
    and "sv_queue s' = sv_queue s @ [b]" and "sent s' \<subseteq> destructCallbacks s'"
    and "agree P D (sv_dataDescriptors s') (sent s') (readyForRelease s') dead log ord c'"
  shows "sync deser P D dead log ord c0 s'"
  using assms settle_snoc[OF assms(1), of b] by (auto simp: sync_def)

lemma StreamBuffer_init_simps [simp]:
  "sb_header (StreamBuffer_init h p g) = h" "sb_payload (StreamBuffer_init h p g) = p"
  "additionalSignalIds (StreamBuffer_init h p g) = []"
  by (simp_all add: StreamBuffer_init_def)

lemma sync_release:
  assumes inv: "sv_inv s" and bound: "unat (currentCacheablePacketGroupId s) < 2 ^ 64 - 1"
    and sy: "sync deser P D dead log ord c0 s" and len: "length (readyForRelease s) < 2 ^ 29"
  shows "sync deser P D dead log ord c0 (snd (checkAndSendReleasePacket force s))"
proof (cases "\<not> (force \<and> length (readyForRelease s) > 0) \<and> (of_nat (length (readyForRelease s)) :: SizeT) < releaseThreshold s")
  case True
  then show ?thesis using sy by (simp add: checkAndSendReleasePacket_def)
next
  case False
  let ?s0 = "s\<lparr>readyForRelease := []\<rparr>"
  let ?h = "generic_header sizeof_GenericPacketHeader BufRelease 0 (- 1) (of_nat (length (readyForRelease s) * 8))"
  have "sv_inv ?s0" using inv sv_inv_acct[OF acct_simps(2)] by blast
  then obtain g s1 where m: "makeAndQueue ?h (IdsPayload (readyForRelease s)) id ?s0 =
        (Inr (), queuePacketBuffer (StreamBuffer_init ?h (IdsPayload (readyForRelease s)) g) (id s1))"
      "s1 = ?s0\<lparr>currentCacheablePacketGroupId := currentCacheablePacketGroupId s1\<rparr>"
    using makeAndQueue_ok[of ?s0 ?h id "IdsPayload (readyForRelease s)"] bound by auto
  let ?b = "StreamBuffer_init ?h (IdsPayload (readyForRelease s)) g"
  obtain c where c: "settle deser (sv_queue s) c0 = Some c"
      "agree P D (sv_dataDescriptors s) (sent s) (readyForRelease s) dead log ord c"
    using sy by (auto simp: sync_def)
  obtain c' where c': "addPacketBuffer deser ?b c = Some (Inr (), c')"
      "agree P D (sv_dataDescriptors s) (sent s) [] dead log ord c'"
    using agree_release_recv[OF c(2) len StreamBuffer_init_simps(1,2)] by blast
  have s1: "sv_queue s1 = sv_queue s" "sent s1 = sent s" "readyForRelease s1 = []" "sv_dataDescriptors s1 = sv_dataDescriptors s"
    "destructCallbacks s1 = destructCallbacks s"
    by (subst m(2), simp)+
  have "snd (checkAndSendReleasePacket force s) = queuePacketBuffer ?b s1"
    using m(1) unfolding checkAndSendReleasePacket_def Let_def if_not_P[OF False] by simp
  then show ?thesis
    using sync_queue[OF c(1) c'(1), of "queuePacketBuffer ?b s1"] c'(2) sy s1 by (simp add: sync_def)
qed

lemma sync_event:
  assumes inv: "sv_inv s" and bound: "unat (currentCacheablePacketGroupId s) < 2 ^ 64 - 1"
    and sy: "sync deser P D dead log ord c0 s" and ok: "event_ok ser deser D sig e"
  shows "fst (addEventPacket ser sig e s) = Inr () \<and> sync deser P D dead log ord c0 (snd (addEventPacket ser sig e s)) \<and>
    readyForRelease (snd (addEventPacket ser sig e s)) = readyForRelease s"
proof -
  let ?h = "generic_header sizeof_GenericPacketHeader BufEvent 0 sig (of_nat (length (ser e) + 1))"
  let ?f = "\<lambda>s. if ep_eventId e = DATA_DESCRIPTOR_CHANGED then noteDescriptor sig e s else s"
  have btw: "acct (?f s) = acct s" for s by simp
  obtain g s1 where m: "addEventPacket ser sig e s = (Inr (), queuePacketBuffer (StreamBuffer_init ?h (TextPayload (ser e)) g) (?f s1))"
      "s1 = s\<lparr>currentCacheablePacketGroupId := currentCacheablePacketGroupId s1\<rparr>"
    using makeAndQueue_ok[where between = ?f and h = ?h and p = "TextPayload (ser e)", OF inv bound header_ok_simps(1) btw,
        folded addEventPacket_def]
    by (elim exE conjE) (rule that)
  let ?b = "StreamBuffer_init ?h (TextPayload (ser e)) g"
  obtain c where c: "settle deser (sv_queue s) c0 = Some c"
      "agree P D (sv_dataDescriptors s) (sent s) (readyForRelease s) dead log ord c"
    using sy by (auto simp: sync_def)
  have "sb_header ?b = generic_header sizeof_GenericPacketHeader BufEvent 0 sig (of_nat (length (ser e) + 1))"
    "sb_payload ?b = TextPayload (ser e)" by simp_all
  from agree_event[OF c(2) ok this] obtain c' where c': "addPacketBuffer deser ?b c = Some (Inr (), c')"
      "agree P D (if ep_eventId e = DATA_DESCRIPTOR_CHANGED \<and> ep_dataDescriptor e \<noteq> None
         then (sv_dataDescriptors s)(sig \<mapsto> ep_dataDescriptor e) else sv_dataDescriptors s)
        (sent s) (readyForRelease s) dead log ord c'" by blast
  have s1: "sv_queue (?f s1) = sv_queue s" "sent (?f s1) = sent s" "readyForRelease (?f s1) = readyForRelease s"
    "destructCallbacks (?f s1) = destructCallbacks s"
    by (subst m(2), simp add: noteDescriptor_def split: sum.splits prod.splits)+
  have d: "sv_dataDescriptors (?f s1) = (if ep_eventId e = DATA_DESCRIPTOR_CHANGED \<and> ep_dataDescriptor e \<noteq> None
         then (sv_dataDescriptors s)(sig \<mapsto> ep_dataDescriptor e) else sv_dataDescriptors s)"
  proof -
    have "sv_dataDescriptors s1 = sv_dataDescriptors s" by (subst m(2), simp)
    then show ?thesis using ok by (auto simp: noteDescriptor_def parseDataDescriptorEventPacket_def Let_def event_ok_def)
  qed
  have "sync deser P D dead log ord c0 (queuePacketBuffer ?b (?f s1))"
    by (rule sync_queue[OF c(1) c'(1)]) (use c'(2) sy s1 d in \<open>simp_all add: sync_def\<close>)
  then show ?thesis unfolding m(1) using s1 by simp
qed


lemma server_buffer_match:
  assumes p: "pkt_ok P p" and acc: "\<forall>d \<in> D sig. accepts d p"
    and h: "setOffset p ((generic_header sizeof_DataPacketHeader BufData (if m then PACKET_FLAG_CAN_RELEASE else 0) sig
              (case pk_raw p of None \<Rightarrow> 0 | Some bytes \<Rightarrow> of_nat (length bytes)))
              \<lparr>hd_packetId := pk_id p, hd_domainPacketId := getDomainPacketId p, hd_sampleCount := ucast (pk_sampleCount p)\<rparr>) = Inr h"
  shows "buf_match P D (StreamBuffer_init h (case pk_raw p of None \<Rightarrow> NoPayload | Some bytes \<Rightarrow> BytesPayload bytes) g) \<and>
    hd_type h = BufData \<and> hd_packetId h = pk_id p \<and> hd_signalId h = sig \<and>
    (hd_flags h AND PACKET_FLAG_CAN_RELEASE = 0) = (\<not> m)"
proof -
  have "ucast (ucast (pk_sampleCount p) :: Int64) = pk_sampleCount p"
    by (rule bit_word_eqI) (simp add: bit_simps)
  moreover have "P (pk_id p) = p" using p by (simp add: pkt_ok_def)
  ultimately have static: "buf_match P D (StreamBuffer_init h' (case pk_raw p of None \<Rightarrow> NoPayload | Some bytes \<Rightarrow> BytesPayload bytes) g)"
    if "hd_packetId h' = pk_id p" "hd_domainPacketId h' = getDomainPacketId p" "hd_sampleCount h' = ucast (pk_sampleCount p)"
      "hd_signalId h' = sig" "hd_payloadSize h' = (case pk_raw p of None \<Rightarrow> 0 | Some bytes \<Rightarrow> of_nat (length bytes))"
      "readOffset h' = pk_offset p" "hd_flags h' \<in> {0, 1, 2, 3, 4, 5}" for h'
    using that p acc unfolding buf_match_def Let_def by simp
  note flags = readOffset_def Let_def PACKET_FLAG_CAN_RELEASE_def PACKET_FLAG_OFFSET_TYPE_MASK_def
    PACKET_FLAG_OFFSET_TYPE_SHIFT_def PACKET_OFFSET_TYPE_INT_def PACKET_OFFSET_TYPE_FLOAT_def
  show ?thesis
  proof (cases "pk_offset p")
    case None
    then show ?thesis using h static[of h] by (cases m) (auto simp: setOffset_def generic_header_def flags)
  next
    case (Some x)
    then show ?thesis
      using h p static[of h]
      by (cases m; cases x) (auto simp: setOffset_def generic_header_def flags pkt_ok_def)
  qed
qed


lemma makeAndQueue_id:
  assumes "sv_inv s" and "unat (currentCacheablePacketGroupId s) < 2 ^ 64 - 1" and "header_ok h"
  obtains g s' where "makeAndQueue h pl id s = (Inr (), s')" "sv_queue s' = sv_queue s @ [StreamBuffer_init h pl g]"
    "sent s' = sent s" "readyForRelease s' = readyForRelease s" "destructCallbacks s' = destructCallbacks s"
    "sv_dataDescriptors s' = sv_dataDescriptors s"
proof -
  obtain g s1 where m: "makeAndQueue h pl id s = (Inr (), queuePacketBuffer (StreamBuffer_init h pl g) (id s1))"
      "s1 = s\<lparr>currentCacheablePacketGroupId := currentCacheablePacketGroupId s1\<rparr>"
    using makeAndQueue_ok[OF assms, of id pl] by auto
  have s1: "sv_queue s1 = sv_queue s" "sent s1 = sent s" "readyForRelease s1 = readyForRelease s"
    "destructCallbacks s1 = destructCallbacks s" "sv_dataDescriptors s1 = sv_dataDescriptors s"
    by (subst m(2), simp)+
  show ?thesis by (rule that[OF m(1), of g]) (simp_all add: s1)
qed

lemma shouldSendPacket_simps [simp]:
  "fst (shouldSendPacket i m s) = (i \<notin> sent s)"
  "sent (snd (shouldSendPacket i m s)) = (if m then sent s - {i} else insert i (sent s))"
  "readyForRelease (snd (shouldSendPacket i m s)) = readyForRelease s"
  "sv_dataDescriptors (snd (shouldSendPacket i m s)) = sv_dataDescriptors s"
  "destructCallbacks (snd (shouldSendPacket i m s)) =
     (if \<not> m \<and> i \<notin> sent s then insert i (destructCallbacks s) else destructCallbacks s)"
  by (auto simp: shouldSendPacket_def Let_def)

lemma setOffset_total: "pk_offset p \<noteq> Some OffsetOther \<Longrightarrow> \<exists>h'. setOffset p h = Inr h'"
  by (cases "pk_offset p"; cases "the (pk_offset p)") (auto simp: setOffset_def)

lemma sync_data:
  assumes inv: "sv_inv s" and bound: "unat (currentCacheablePacketGroupId s) < 2 ^ 64 - 1"
    and sy: "sync deser P D dead log ord c0 s" and ok: "data_ok P D dead sig p"
    and run: "addDataPacket rv n sig p s = (r, s')" "r = Inr () \<or> sv_dataDescriptors s sig \<noteq> None"
  shows "r = Inr () \<and> readyForRelease s' = readyForRelease s \<and>
    sync deser P D (if canReleasePacket rv n then insert (pk_id p) dead else dead) (log @ [(sig, content p)])
      (ord \<and> domain_sent p s) c0 s'"
proof -
  let ?m = "canReleasePacket rv n" let ?i = "pk_id p" let ?s1 = "snd (shouldSendPacket ?i ?m s)"
  have same: "acct ?s1 = acct s" by simp
  have s1: "sv_inv ?s1" "unat (currentCacheablePacketGroupId ?s1) < 2 ^ 64 - 1"
    using inv bound sv_inv_acct[OF same] acct_eqD(2)[OF same] by simp_all
  have q1: "sv_queue ?s1 = sv_queue s" by (rule acct_eqD(1)[OF same])
  obtain c where c: "settle deser (sv_queue s) c0 = Some c"
      "agree P D (sv_dataDescriptors s) (sent s) (readyForRelease s) dead log ord c"
    using sy by (auto simp: sync_def)
  have cb: "sent s \<subseteq> destructCallbacks s" using sy by (simp add: sync_def)
  have d: "sv_dataDescriptors s sig \<noteq> None" using run by (auto simp: addDataPacket_def split: if_splits)
  have p: "pkt_ok P p" "?i \<notin> dead" "P ?i = p" "\<forall>d \<in> D sig. accepts d p" using ok by (auto simp: data_ok_def pkt_ok_def)
  have weak: "agree P D ds sn r dd lg (ord \<and> x) y" if "agree P D ds sn r dd lg ord y" for ds sn r dd lg x y
    using that by (auto simp: agree_def)
  show ?thesis
  proof (cases "?i \<in> sent s")
    case True
    let ?h = "(generic_header sizeof_AlreadySentPacketHeader BufAlreadySent (if ?m then PACKET_FLAG_CAN_RELEASE else 0) sig 0)
          \<lparr>hd_packetId := ?i, hd_domainPacketId := getDomainPacketId p\<rparr>"
    have h: "header_ok ?h" by simp
    obtain g s2 where s2: "makeAndQueue ?h NoPayload id ?s1 = (Inr (), s2)" "sv_queue s2 = sv_queue s @ [StreamBuffer_init ?h NoPayload g]"
        "sent s2 = sent ?s1" "readyForRelease s2 = readyForRelease s" "destructCallbacks s2 = destructCallbacks ?s1"
        "sv_dataDescriptors s2 = sv_dataDescriptors s"
      using makeAndQueue_id[OF s1 h, of NoPayload] q1 by (metis shouldSendPacket_simps(3,4))
    have rs: "(r, s') = (Inr (), s2)"
      using run(1) True d s2(1) by (simp add: addDataPacket_def addAlreadySentPacket_def Let_def split_beta)
    obtain c' where c': "addPacketBuffer deser (StreamBuffer_init ?h NoPayload g) c = Some (Inr (), c')"
        "agree P D (sv_dataDescriptors s) (if ?m then sent s - {?i} else sent s) (readyForRelease s)
           (if ?m then insert ?i dead else dead) (log @ [(sig, content p)]) ord c'"
      using agree_already_sent[OF c(2) p(1) True d StreamBuffer_init_simps(1)] by blast
    have "sync deser P D (if ?m then insert ?i dead else dead) (log @ [(sig, content p)]) (ord \<and> domain_sent p s) c0 s2"
      by (rule sync_queue[OF c(1) c'(1) s2(2)])
         (use weak[OF c'(2)] s2 True cb in \<open>auto simp: insert_absorb\<close>)
    then show ?thesis using rs s2(4) by simp
  next
    case False
    let ?h = "(generic_header sizeof_DataPacketHeader BufData (if ?m then PACKET_FLAG_CAN_RELEASE else 0) sig
          (case pk_raw p of None \<Rightarrow> 0 | Some bytes \<Rightarrow> of_nat (length bytes)))
          \<lparr>hd_packetId := ?i, hd_domainPacketId := getDomainPacketId p, hd_sampleCount := ucast (pk_sampleCount p)\<rparr>"
    let ?pl = "case pk_raw p of None \<Rightarrow> NoPayload | Some bytes \<Rightarrow> BytesPayload bytes"
    obtain h where h: "setOffset p ?h = Inr h"
      using setOffset_total[of p ?h] p(1) by (auto simp: pkt_ok_def)
    have hok: "header_ok h" using setOffset_header_ok[OF h] by simp
    obtain g s2 where s2: "makeAndQueue h ?pl id ?s1 = (Inr (), s2)" "sv_queue s2 = sv_queue s @ [StreamBuffer_init h ?pl g]"
        "sent s2 = sent ?s1" "readyForRelease s2 = readyForRelease s" "destructCallbacks s2 = destructCallbacks ?s1"
        "sv_dataDescriptors s2 = sv_dataDescriptors s"
      using makeAndQueue_id[OF s1 hok, of ?pl] q1 by (metis shouldSendPacket_simps(3,4))
    have rs: "(r, s') = (Inr (), s2)"
      using run(1) False d s2(1) h by (simp add: addDataPacket_def Let_def split_beta)
    let ?b = "StreamBuffer_init h ?pl g"
    note bm = server_buffer_match[where D = D and sig = sig and m = ?m and g = g, OF p(1,4) h]
    have ordered: "ord \<and> (\<forall>d. pk_domain p = Some d \<longrightarrow> pk_id d \<in> sent s)" if "ord \<and> domain_sent p s"
      using that by (auto simp: domain_sent_def)
    obtain c' where c': "addPacketBuffer deser ?b c = Some (Inr (), c')"
        "agree P D (sv_dataDescriptors s) (if ?m then sent s else insert ?i (sent s)) (readyForRelease s)
           (if ?m then insert ?i dead else dead) (log @ [(sig, content p)]) (ord \<and> domain_sent p s) c'"
      using agree_new_data[where b = ?b and m = ?m and ord' = "ord \<and> domain_sent p s" and deser = deser, OF c(2) p(3) False p(2) d] bm ordered
      unfolding StreamBuffer_init_simps unmarked_def by blast
    have "sync deser P D (if ?m then insert ?i dead else dead) (log @ [(sig, content p)]) (ord \<and> domain_sent p s) c0 s2"
      by (rule sync_queue[OF c(1) c'(1) s2(2)]) (use c'(2) s2 False cb in auto)
    then show ?thesis using rs s2(4) by simp
  qed
qed


lemma sync_destruct:
  assumes sy: "sync deser P D dead log ord c0 s" and i: "i \<notin> dead"
  shows "sync deser P D (insert i dead) log ord c0 (packetDestructed i s)"
proof (cases "i \<in> sent s")
  case True
  then have e: "packetDestructed i s = s\<lparr>destructCallbacks := destructCallbacks s - {i}, sent := sent s - {i},
      readyForRelease := readyForRelease s @ [i]\<rparr>"
    using sy by (auto simp: packetDestructed_def sync_def)
  have "i \<notin> set (readyForRelease s)" using sy i by (auto simp: sync_def agree_def)
  then show ?thesis using sy True i unfolding e by (auto simp: sync_def agree_def)
next
  case False
  have "sv_queue (packetDestructed i s) = sv_queue s" "sent (packetDestructed i s) = sent s"
    "readyForRelease (packetDestructed i s) = readyForRelease s" "sv_dataDescriptors (packetDestructed i s) = sv_dataDescriptors s"
    "destructCallbacks s - {i} \<subseteq> destructCallbacks (packetDestructed i s)"
    using False by (auto simp: packetDestructed_def Let_def)
  then show ?thesis using sy False by (auto simp: sync_def agree_def)
qed

lemma getNextPacketBuffer_frame:
  "sent (snd (getNextPacketBuffer s)) = sent s" "readyForRelease (snd (getNextPacketBuffer s)) = readyForRelease s"
  "destructCallbacks (snd (getNextPacketBuffer s)) = destructCallbacks s"
  "sv_dataDescriptors (snd (getNextPacketBuffer s)) = sv_dataDescriptors s"
  by (auto simp: getNextPacketBuffer_def Let_def split: list.splits option.splits)

lemma sync_transfer:
  assumes inv: "sv_inv s" and fits: "srv_fits s" and sy: "sync deser P D dead log ord c0 s"
    and take: "getNextPacketBuffer s = (Inr (Some b), s')"
  shows "\<exists>c1. addPacketBuffer deser b c0 = Some (Inr (), c1) \<and> sync deser P D dead log ord c1 s'"
proof (cases "sv_queue s")
  case Nil
  then show ?thesis using take by (simp add: getNextPacketBuffer_def)
next
  case (Cons b' q)
  then have "b' = b" "sv_queue s' = q"
    using sv_ok_take[OF _ Cons] inv fits take by (auto simp: sv_inv_def srv_fits_def)
  moreover have "sent s' = sent s" "readyForRelease s' = readyForRelease s" "destructCallbacks s' = destructCallbacks s"
    "sv_dataDescriptors s' = sv_dataDescriptors s"
    using getNextPacketBuffer_frame[of s] take by simp_all
  ultimately show ?thesis
    using sy Cons by (auto simp: sync_def split: option.splits sum.splits)
qed

lemma link_reach_inv:
  assumes "link_reach ser deser P D m th l" and "unat m + 48 < 2 ^ 32"
  shows "link_inv deser P D l"
  using assms
proof (induction rule: link_reach.induct)
  case link_start
  then show ?case
    by (simp add: link_inv_iff sv_inv_def sv_ok_def sync_def link_init_def PacketStreamingServer_init_def
        PacketStreamingClient_init_def agree_def cl_good_def waiting_def itemIds_def items_def index_ok_def
        refIds_def openIds_def pend_def delivered_def List.map_filter_def)
next
  case (link_event l sig e r s')
  let ?s = "lk_server l"
  have inv: "sv_inv ?s" and sy: "sync deser P D (lk_dead l) (lk_log l) (lk_ordered l) (lk_client l) ?s"
    using link_event by (auto simp: link_inv_iff)
  have b: "unat (currentCacheablePacketGroupId ?s) < 2 ^ 63" "length (readyForRelease ?s) < 2 ^ 29" "srv_fits ?s"
    using link_event.hyps by (auto simp: link_fits_def srv_fits_def)
  let ?r1 = "addEventPacket ser sig e ?s"
  have 1: "fst ?r1 = Inr ()" "sync deser P D (lk_dead l) (lk_log l) (lk_ordered l) (lk_client l) (snd ?r1)"
    "readyForRelease (snd ?r1) = readyForRelease ?s" "good_outcome ?s ?r1"
    using sync_event[OF inv _ sy link_event.hyps(3)] good_addEventPacket[OF inv] b by simp_all
  have "s' = snd (checkAndSendReleasePacket False (snd ?r1))"
    using link_event.hyps(4) 1(1) by (cases ?r1) (auto simp: addDaqPacket_def andThenRelease_def)
  moreover have "sync deser P D (lk_dead l) (lk_log l) (lk_ordered l) (lk_client l) (snd (checkAndSendReleasePacket False (snd ?r1)))"
    using 1 b by (intro sync_release) (auto simp: good_outcome_def)
  moreover have "sv_inv s'" using good_exec[OF inv b(3), of ser "OpAdd sig (StreamEvent e)"] link_event.hyps(4) by simp
  ultimately show ?case by (simp add: link_inv_iff)
next
  case (link_data l sig p move refCount s')
  let ?s = "lk_server l"
  have inv: "sv_inv ?s" and sy: "sync deser P D (lk_dead l) (lk_log l) (lk_ordered l) (lk_client l) ?s"
    using link_data by (auto simp: link_inv_iff)
  have b: "unat (currentCacheablePacketGroupId ?s) < 2 ^ 63" "length (readyForRelease ?s) < 2 ^ 29" "srv_fits ?s"
    using link_data.hyps by (auto simp: link_fits_def srv_fits_def)
  let ?r1 = "addDataPacket move (if move then refCount else 0) sig p ?s"
  have rel: "andThenRelease ?r1 = (Inr (), s')"
    using link_data.hyps(4) by (cases move) (simp_all add: add_data_def addDaqPacket_def addDaqPacketMove_def)
  then have f: "fst ?r1 = Inr ()" "s' = snd (checkAndSendReleasePacket False (snd ?r1))"
    by (cases ?r1; cases "fst ?r1"; simp add: andThenRelease_def)+
  have m: "canReleasePacket move (if move then refCount else 0) = canReleasePacket move refCount"
    by (simp add: canReleasePacket_def)
  have run: "addDataPacket move (if move then refCount else 0) sig p ?s = (Inr (), snd ?r1)"
    using f(1) by (cases ?r1) simp
  let ?dead = "if canReleasePacket move refCount then insert (pk_id p) (lk_dead l) else lk_dead l"
  have 1: "readyForRelease (snd ?r1) = readyForRelease ?s"
    "sync deser P D ?dead (lk_log l @ [(sig, content p)]) (lk_ordered l \<and> domain_sent p ?s) (lk_client l) (snd ?r1)"
    "good_outcome ?s ?r1"
    using sync_data[OF inv _ sy link_data.hyps(3) run] good_addDataPacket[OF inv] b unfolding m by simp_all
  have "sync deser P D ?dead (lk_log l @ [(sig, content p)]) (lk_ordered l \<and> domain_sent p ?s) (lk_client l) s'"
    unfolding f(2) using 1 b by (intro sync_release) (auto simp: good_outcome_def)
  moreover have "sv_inv s'"
    using good_andThenRelease[OF 1(3) b(1)] rel by simp
  ultimately show ?case by (simp add: link_inv_iff)
next
  case (link_destruct l i)
  then show ?case
    using sync_destruct[of deser P D "lk_dead l"] sv_inv_acct[OF acct_between(3), of i "lk_server l"] by (simp add: link_inv_iff)
next
  case (link_release l force r s')
  let ?s = "lk_server l"
  have inv: "sv_inv ?s" and sy: "sync deser P D (lk_dead l) (lk_log l) (lk_ordered l) (lk_client l) ?s"
    using link_release by (auto simp: link_inv_iff)
  have b: "unat (currentCacheablePacketGroupId ?s) < 2 ^ 64 - 1" "length (readyForRelease ?s) < 2 ^ 29" "srv_fits ?s"
    using link_release.hyps by (auto simp: link_fits_def srv_fits_def)
  show ?case
    using sync_release[OF inv b(1) sy b(2), of force] good_exec[OF inv b(3), of ser "OpRelease force"] link_release.hyps(3)
    by (simp add: link_inv_iff)
next
  case (link_transfer l b s' r c')
  let ?s = "lk_server l"
  have inv: "sv_inv ?s" and sy: "sync deser P D (lk_dead l) (lk_log l) (lk_ordered l) (lk_client l) ?s"
    using link_transfer by (auto simp: link_inv_iff)
  have fits: "srv_fits ?s" using link_transfer.hyps by (simp add: link_fits_def)
  have "sv_inv s'" using good_exec[OF inv fits, of ser OpTake] link_transfer.hyps(3) by (simp add: drop_value_def)
  then show ?case
    using sync_transfer[OF inv fits sy link_transfer.hyps(3)] link_transfer.hyps(4) by (auto simp: link_inv_iff)
qed


section \<open>The guarantees of packet streaming\<close>

text \<open>A small run for the examples: a value packet and its domain packet, on signals 7 and 8.\<close>

definition ex_descriptor :: descriptor where
  "ex_descriptor = \<lparr>dd_name = ''v'', dd_sampleType = SampleType_Int8, dd_rule = Some ExplicitRule,
     dd_sampleSize = 1, dd_rawSampleSize = 1\<rparr>"

definition ex_event :: event where
  "ex_event = \<lparr>ep_eventId = DATA_DESCRIPTOR_CHANGED, ep_dataDescriptor = Some ex_descriptor,
     ep_domainDataDescriptor = Some ex_descriptor, ep_gapDiff = None\<rparr>"

definition ex_domain :: data_packet where
  "ex_domain = DataPkt 1 None ex_descriptor 2 (Some (OffsetInt 100)) (Some [1, 2])"

definition ex_value :: data_packet where
  "ex_value = DataPkt 2 (Some ex_domain) ex_descriptor 2 None (Some [7, 9])"

definition ex_packets :: "Int64 \<Rightarrow> data_packet" where
  "ex_packets i = (if i = 1 then ex_domain else ex_value)"

definition ex_ser :: "event \<Rightarrow> string" where
  "ex_ser e = ep_eventId e"

definition ex_deser :: "string \<Rightarrow> event result" where
  "ex_deser t = Inr ex_event"

definition step_event :: "32 word \<Rightarrow> stream_link \<Rightarrow> stream_link" where
  "step_event sig l = l\<lparr>lk_server := snd (addDaqPacket ex_ser sig (StreamEvent ex_event) (lk_server l))\<rparr>"

definition step_data :: "bool \<Rightarrow> SizeT \<Rightarrow> 32 word \<Rightarrow> data_packet \<Rightarrow> stream_link \<Rightarrow> stream_link" where
  "step_data move refCount sig p l = l\<lparr>lk_server := snd (add_data ex_ser move refCount sig p (lk_server l)),
      lk_dead := (if canReleasePacket move refCount then insert (pk_id p) (lk_dead l) else lk_dead l),
      lk_log := lk_log l @ [(sig, content p)],
      lk_ordered := (lk_ordered l \<and> domain_sent p (lk_server l))\<rparr>"

definition step_destruct :: "Int64 \<Rightarrow> stream_link \<Rightarrow> stream_link" where
  "step_destruct i l = l\<lparr>lk_server := packetDestructed i (lk_server l), lk_dead := insert i (lk_dead l)\<rparr>"

definition step_release :: "stream_link \<Rightarrow> stream_link" where
  "step_release l = l\<lparr>lk_server := snd (checkAndSendReleasePacket True (lk_server l))\<rparr>"

definition ex_ready :: stream_link where
  "ex_ready = step_event 8 (step_event 7 (link_init 100 10))"

abbreviation ex_reach :: "stream_link \<Rightarrow> bool" where
  "ex_reach \<equiv> link_reach ex_ser ex_deser ex_packets (\<lambda>_. {ex_descriptor}) 100 10"

lemma ex_fits:
  "length (sv_queue s) = k \<Longrightarrow> k < 10 \<Longrightarrow> currentCacheablePacketGroupId s = g \<Longrightarrow> g < 10 \<Longrightarrow>
   length (readyForRelease s) = r \<Longrightarrow> r < 10 \<Longrightarrow> link_fits s"
proof -
  assume a: "length (sv_queue s) = k" "k < 10" "currentCacheablePacketGroupId s = g" "g < 10"
    "length (readyForRelease s) = r" "r < 10"
  then have "unat g < 10" by (simp add: word_less_nat_alt)
  then show ?thesis using a by (simp add: link_fits_def srv_fits_def)
qed

lemma ex_ready_reach: "ex_reach ex_ready"
proof -
  have ok: "event_ok ex_ser ex_deser (\<lambda>_. {ex_descriptor}) sig ex_event" for sig
    by (simp add: event_ok_def ex_deser_def ex_event_def ex_descriptor_def NullDataDescriptor_def)
  have f0: "link_fits (lk_server (link_init 100 10))"
    by (rule ex_fits[where k = 0 and g = 0 and r = 0]) code_simp+
  have f1: "link_fits (lk_server (step_event 7 (link_init 100 10)))"
    by (rule ex_fits[where k = 1 and g = 1 and r = 0]) code_simp+
  have ev: "ex_reach l \<Longrightarrow> link_fits (lk_server l) \<Longrightarrow> ex_reach (step_event sig l)" for sig l
    unfolding step_event_def by (rule link_event[OF _ _ ok prod.collapse[symmetric]])
  show ?thesis unfolding ex_ready_def by (rule ev[OF ev[OF link_start f0] f1])
qed

lemma ex_ready_fits: "link_fits (lk_server ex_ready)"
  by (rule ex_fits[where k = 2 and g = 1 and r = 0]) code_simp+

lemma ex_step_data:
  assumes "ex_reach l" and "link_fits (lk_server l)" and "data_ok ex_packets (\<lambda>_. {ex_descriptor}) (lk_dead l) sig p"
    and "fst (add_data ex_ser move n sig p (lk_server l)) = Inr ()"
  shows "ex_reach (step_data move n sig p l)"
  unfolding step_data_def by (rule link_data[OF assms(1-3)]) (use assms(4) in \<open>simp add: prod_eq_iff\<close>)

lemma ex_data_ok:
  "data_ok ex_packets (\<lambda>_. {ex_descriptor}) dead sig ex_value \<longleftrightarrow> 2 \<notin> dead \<and> 1 \<notin> dead"
  "data_ok ex_packets (\<lambda>_. {ex_descriptor}) dead sig ex_domain \<longleftrightarrow> 1 \<notin> dead"
  by (auto simp: data_ok_def pkt_ok_def ex_packets_def ex_value_def ex_domain_def accepts_def initPacketError_def
      ex_descriptor_def)

definition ex_value_first :: stream_link where
  "ex_value_first = step_data False 0 8 ex_domain (step_data False 0 7 ex_value ex_ready)"

definition ex_domain_first :: stream_link where
  "ex_domain_first = step_data True 1 7 ex_value (step_data False 0 8 ex_domain ex_ready)"

lemma ex_value_first_reach: "ex_reach ex_value_first"
proof -
  have f: "link_fits (lk_server (step_data False 0 7 ex_value ex_ready))"
    by (rule ex_fits[where k = 3 and g = 1 and r = 0]) code_simp+
  have d: "lk_dead ex_ready = {}" "lk_dead (step_data False 0 7 ex_value ex_ready) = {}"
    by (simp_all add: ex_ready_def step_event_def step_data_def link_init_def canReleasePacket_def)
  have r: "fst (add_data ex_ser False 0 7 ex_value (lk_server ex_ready)) = Inr ()"
    "fst (add_data ex_ser False 0 8 ex_domain (lk_server (step_data False 0 7 ex_value ex_ready))) = Inr ()"
    by code_simp+
  have "ex_reach (step_data False 0 7 ex_value ex_ready)"
    by (rule ex_step_data[OF ex_ready_reach ex_ready_fits _ r(1)]) (simp add: ex_data_ok d)
  from ex_step_data[OF this f _ r(2)] show ?thesis
    unfolding ex_value_first_def by (simp add: ex_data_ok d)
qed

lemma ex_domain_first_reach: "ex_reach ex_domain_first"
proof -
  have f: "link_fits (lk_server (step_data False 0 8 ex_domain ex_ready))"
    by (rule ex_fits[where k = 3 and g = 1 and r = 0]) code_simp+
  have d: "lk_dead ex_ready = {}" "lk_dead (step_data False 0 8 ex_domain ex_ready) = {}"
    by (simp_all add: ex_ready_def step_event_def step_data_def link_init_def canReleasePacket_def)
  have r: "fst (add_data ex_ser False 0 8 ex_domain (lk_server ex_ready)) = Inr ()"
    "fst (add_data ex_ser True 1 7 ex_value (lk_server (step_data False 0 8 ex_domain ex_ready))) = Inr ()"
    by code_simp+
  have "ex_reach (step_data False 0 8 ex_domain ex_ready)"
    by (rule ex_step_data[OF ex_ready_reach ex_ready_fits _ r(1)]) (simp add: ex_data_ok d)
  from ex_step_data[OF this f _ r(2)] show ?thesis
    unfolding ex_domain_first_def by (simp add: ex_data_ok d)
qed

text \<open>C9: In every state that a packet streaming server and its client can reach, under any
  interleaving of added packets, dying packets, releases and transfers, the client accepts every
  buffer that is still on its way (it never throws and its recursion over waiting packets ends),
  and the data packets handed to the reader together with those that still wait for their domain
  packet are exactly the packets added on the server, each on its signal and as often as it was
  added, with the same samples, offset and domain packet.\<close>

theorem stream_conserves_packets:
  assumes "link_reach ser deser P D payloadMax threshold l" and "unat payloadMax + 48 < 2 ^ 32"
  shows "\<exists>c. settle deser (sv_queue (lk_server l)) (lk_client l) = Some c \<and>
    mset (delivered c) + pend P c = mset (lk_log l)"
  using link_reach_inv[OF assms] by (auto simp: link_inv_iff sync_def agree_def)

theorem stream_conserves_packets_witness:
  "\<exists>c. settle ex_deser (sv_queue (lk_server ex_value_first)) (lk_client ex_value_first) = Some c \<and>
    mset (delivered c) + pend ex_packets c = mset (lk_log ex_value_first)"
  using stream_conserves_packets[OF ex_value_first_reach] by simp

text \<open>C10: When every data packet is added after its domain packet and while that is still
  referenced, the client hands out the data packets in exactly the order in which they were added;
  nothing waits, and once all packets have died on the server and have been released, the client
  keeps no reference to any packet.\<close>

theorem stream_keeps_order:
  assumes "link_reach ser deser P D payloadMax threshold l" and "unat payloadMax + 48 < 2 ^ 32"
    and "lk_ordered l"
  shows "\<exists>c. settle deser (sv_queue (lk_server l)) (lk_client l) = Some c \<and> delivered c = lk_log l \<and>
    (sent (lk_server l) = {} \<and> readyForRelease (lk_server l) = [] \<longrightarrow> areReferencesCleared c)"
proof -
  obtain c where c: "settle deser (sv_queue (lk_server l)) (lk_client l) = Some c"
      "agree P D (sv_dataDescriptors (lk_server l)) (sent (lk_server l)) (readyForRelease (lk_server l))
         (lk_dead l) (lk_log l) (lk_ordered l) c"
    using link_reach_inv[OF assms(1,2)] by (auto simp: link_inv_iff sync_def)
  then have w: "waiting c = []" "delivered c = lk_log l" "refIds c = sent (lk_server l) \<union> set (readyForRelease (lk_server l))"
    using assms(3) by (auto simp: agree_def)
  have "index_ok c" using c(2) by (simp add: agree_def)
  then have "map_of (referencedPacketBuffers c) = Map.empty"
    using w(1) by (auto simp: index_ok_def items_def fun_eq_iff)
  then show ?thesis
    using c(1) w by (auto simp: areReferencesCleared_def waiting_def refIds_def)
qed

theorem stream_keeps_order_witness:
  "lk_ordered ex_domain_first \<and>
   (\<exists>c. settle ex_deser (sv_queue (lk_server ex_domain_first)) (lk_client ex_domain_first) = Some c \<and>
      delivered c = lk_log ex_domain_first)"
proof -
  have o: "lk_ordered ex_domain_first" by code_simp
  then show ?thesis using stream_keeps_order[OF ex_domain_first_reach _ o] by auto
qed

section \<open>Limits of the protocol\<close>

text \<open>
  A packet that waits on the client while the server passes it on for the last time keeps its
  release flag off: the flag of the "already sent" buffer is read only when the packet has been
  delivered. The server has then forgotten the packet, and the client keeps it for ever.
\<close>

definition ex_leak :: stream_link where
  "ex_leak = step_data True 1 8 ex_domain (step_data True 1 8 ex_value (step_data False 0 7 ex_value ex_ready))"

theorem release_of_waiting_packet_is_lost:
  "sent (lk_server ex_leak) = {} \<and> readyForRelease (lk_server ex_leak) = [] \<and> lk_dead ex_leak = {1, 2} \<and>
   map_option areReferencesCleared (settle ex_deser (sv_queue (lk_server ex_leak)) (lk_client ex_leak)) = Some False"
proof (intro conjI)
  show "sent (lk_server ex_leak) = {}" by code_simp
  show "readyForRelease (lk_server ex_leak) = []" by code_simp
  show "lk_dead ex_leak = {1, 2}"
    by (simp add: ex_leak_def step_data_def step_event_def ex_ready_def link_init_def canReleasePacket_def
        ex_domain_def ex_value_def)
  show "map_option areReferencesCleared (settle ex_deser (sv_queue (lk_server ex_leak)) (lk_client ex_leak)) = Some False"
    by code_simp
qed

text \<open>
  A data packet that waits for its domain packet is built with the descriptor its signal has when
  the domain packet arrives, and delivered after the event that announced it.
\<close>

definition named_event :: "string \<Rightarrow> event" where
  "named_event n = \<lparr>ep_eventId = DATA_DESCRIPTOR_CHANGED, ep_dataDescriptor = Some (ex_descriptor\<lparr>dd_name := n\<rparr>),
     ep_domainDataDescriptor = Some ex_descriptor, ep_gapDiff = None\<rparr>"

definition named_ser :: "event \<Rightarrow> string" where
  "named_ser e = (case ep_dataDescriptor e of Some d \<Rightarrow> dd_name d | None \<Rightarrow> [])"

definition named_deser :: "string \<Rightarrow> event result" where
  "named_deser t = Inr (named_event t)"

definition ex_overtaken :: PacketStreamingServer where
  "ex_overtaken = fold (\<lambda>(sig, p) s. snd (addDaqPacket named_ser sig p s))
     [(7, StreamEvent (named_event ''old'')), (8, StreamEvent (named_event ''time'')), (7, StreamData ex_value),
      (7, StreamEvent (named_event ''new'')), (8, StreamData ex_domain)]
     (PacketStreamingServer_init 100 10)"

definition seen :: "PacketStreamingClient \<Rightarrow> (32 word \<times> string) list" where
  "seen c = map (\<lambda>(sig, x). (sig, case x of Some (StreamData p) \<Rightarrow> ''data '' @ dd_name (pk_descriptor p)
     | Some (StreamEvent e) \<Rightarrow> ''event '' @ named_ser e | _ \<Rightarrow> [])) (cl_queue c)"

theorem descriptor_overtakes_waiting_packet:
  "map_option seen (settle named_deser (sv_queue ex_overtaken) PacketStreamingClient_init) =
     Some [(7, ''event old''), (8, ''event time''), (7, ''event new''), (8, ''data time''), (7, ''data new'')]"
  by code_simp

text \<open>
  An offset of an unsupported type is detected only after the packet has been recorded as sent,
  so the packet is announced as "already sent" the next time although it never was.
\<close>

theorem unsupported_offset_marks_packet_sent:
  assumes "sv_dataDescriptors s sig \<noteq> None" and "pk_offset p = Some OffsetOther" and "pk_id p \<notin> sent s"
  shows "fst (addDataPacket False n sig p s) = Inl (PacketStreamingException ''Offset type not supported'') \<and>
    pk_id p \<in> sent (snd (addDataPacket False n sig p s)) \<and>
    sv_queue (snd (addDataPacket False n sig p s)) = sv_queue s"
  using assms by (simp add: addDataPacket_def Let_def split_beta setOffset_def canReleasePacket_def
      acct_eqD(1)[OF acct_between(2)])

text \<open>
  The client trusts the ids it receives: when a peer sends a packet that is its own domain packet
  and then another one with the same id, the recursion over the waiting packets never ends.
\<close>

theorem self_domain_recursion_never_ends:
  assumes "waiting c = [(i, [a])]" and "bufId (cl_bufs c ! a) = i"
    and "cl_dataDescriptors c (hd_signalId (sb_header (cl_bufs c ! a))) = Some (Some d)" and "\<not> initPacketError d"
    and "sb_payload (cl_bufs c ! a) = BytesPayload bytes"
  shows "addDataPacketBuffer n a (Some x) c = None"
  using assms
proof (induction n arbitrary: x c)
  case (Suc n)
  let ?b = "cl_bufs c ! a"
  obtain p where p: "createDataPacket (globalPacketId c) ?b (Some d) (Some x) = Inr p"
    using Suc.prems(4,5) by (auto simp: createDataPacket_def Let_def)
  let ?c1 = "pushPacket (hd_signalId (sb_header ?b)) (Some (StreamData p)) (c\<lparr>globalPacketId := globalPacketId c + 1\<rparr>)"
  let ?c2 = "?c1\<lparr>referencedPacketBuffers := om_erase i (referencedPacketBuffers ?c1)\<rparr>"
  have "addDataPacketBuffer n a (Some p) ?c2 = None"
    by (rule Suc.IH) (use Suc.prems in \<open>simp_all add: waiting_def pushPacket_def\<close>)
  then have "processWaiting (addDataPacketBuffer n) [a] p ?c1 = None"
    using Suc.prems(2) by (simp add: pushPacket_def)
  then show ?case
    using Suc.prems p by (simp add: addDataPacketBuffer.simps effectiveDomain_def Let_def waiting_def pushPacket_def)
qed simp

end
