(* ===== verification/NativeTransport.thy ===== *)
theory NativeTransport
  imports PacketStreamingClient "HOL-Library.Code_Target_Nat"
begin

text \<open>
  The native streaming transport (\<^verbatim>\<open>shared/libraries/native_streaming_protocol\<close>): messages are a
  32-bit transport header with the type and the size of the payload, and the payload. This
  theory has the bytes: the transport header, the memory of packet headers and payloads as it is
  copied to the wire, and the packet buffer that the receiver makes of it.

  Integers are copied in the byte order of the machine; the model is a little-endian one. The
  four bytes between the generic part of a header and its 64-bit members are padding, which the
  code leaves uninitialised: they are a parameter.
\<close>

section \<open>Bytes\<close>

type_synonym byte = "8 word"

fun to_le :: "nat \<Rightarrow> nat \<Rightarrow> byte list" where
  "to_le 0 v = []"
| "to_le (Suc n) v = of_nat v # to_le n (v div 256)"

fun of_le :: "byte list \<Rightarrow> nat" where
  "of_le [] = 0"
| "of_le (b # bs) = unat b + 256 * of_le bs"

lemma length_to_le [simp]: "length (to_le n v) = n"
  by (induction n arbitrary: v) auto

lemma to_le_Nil [simp]: "to_le n v = [] \<longleftrightarrow> n = 0"
  by (cases n) simp_all

lemma of_to_le: "of_le (to_le n v) = v mod 256 ^ n"
proof (induction n arbitrary: v)
  case (Suc n)
  have "v mod 256 ^ Suc n = v mod 256 + 256 * (v div 256 mod 256 ^ n)"
    by (simp add: mod_mult2_eq)
  then show ?case by (simp add: Suc unsigned_of_nat take_bit_eq_mod)
qed simp

lemma of_le_word [simp]:
  "of_le (to_le 1 (unat (a :: 8 word))) = unat a"
  "of_le (to_le 4 (unat (b :: 32 word))) = unat b"
  "of_le (to_le 2 (unat (c :: 16 word))) = unat c"
  "of_le (to_le 8 (unat (d :: 64 word))) = unat d"
  using unsigned_less[of a, where ?'a = nat] unsigned_less[of b, where ?'a = nat]
    unsigned_less[of c, where ?'a = nat] unsigned_less[of d, where ?'a = nat]
  by (simp_all add: of_to_le)

definition bytes_of_string :: "string \<Rightarrow> byte list" where
  "bytes_of_string s = map (\<lambda>c. of_nat (of_char c)) s"

definition string_of_bytes :: "byte list \<Rightarrow> string" where
  "string_of_bytes bs = map (\<lambda>b. char_of (unat b)) bs"

lemma length_bytes_of_string [simp]: "length (bytes_of_string s) = length s"
  by (simp add: bytes_of_string_def)

lemma unat_of_char [simp]: "unat (of_nat (of_char c) :: byte) = of_char c"
  using of_char_of[of "of_char c :: nat"] by (simp add: unsigned_of_nat take_bit_eq_mod)

lemma string_of_bytes_of_string [simp]: "string_of_bytes (bytes_of_string s) = s"
  by (simp add: string_of_bytes_def bytes_of_string_def comp_def)

lemma string_of_bytes_append [simp]: "string_of_bytes (a @ b) = string_of_bytes a @ string_of_bytes b"
  by (simp add: string_of_bytes_def)

section \<open>The transport header\<close>

datatype PayloadType =
    PAYLOAD_TYPE_STREAMING_PACKET
  | PAYLOAD_TYPE_STREAMING_SIGNAL_AVAILABLE
  | PAYLOAD_TYPE_STREAMING_SIGNAL_UNAVAILABLE
  | PAYLOAD_TYPE_STREAMING_SIGNAL_SUBSCRIBE_COMMAND
  | PAYLOAD_TYPE_STREAMING_SIGNAL_UNSUBSCRIBE_COMMAND
  | PAYLOAD_TYPE_STREAMING_PROTOCOL_INIT_DONE
  | PAYLOAD_TYPE_STREAMING_SIGNAL_SUBSCRIBE_ACK
  | PAYLOAD_TYPE_STREAMING_SIGNAL_UNSUBSCRIBE_ACK
  | PAYLOAD_TYPE_CONFIGURATION_PACKET
  | PAYLOAD_TYPE_TRANSPORT_LAYER_PROPERTIES
  | PAYLOAD_TYPE_STREAMING_PROTOCOL_INIT_REQUEST
  | PAYLOAD_TYPE_INVALID

text \<open>The last constructor stands for the numbers that the enumeration does not list.\<close>

fun payloadTypeCode :: "PayloadType \<Rightarrow> 32 word" where
  "payloadTypeCode PAYLOAD_TYPE_STREAMING_PACKET = 1"
| "payloadTypeCode PAYLOAD_TYPE_STREAMING_SIGNAL_AVAILABLE = 2"
| "payloadTypeCode PAYLOAD_TYPE_STREAMING_SIGNAL_UNAVAILABLE = 3"
| "payloadTypeCode PAYLOAD_TYPE_STREAMING_SIGNAL_SUBSCRIBE_COMMAND = 4"
| "payloadTypeCode PAYLOAD_TYPE_STREAMING_SIGNAL_UNSUBSCRIBE_COMMAND = 5"
| "payloadTypeCode PAYLOAD_TYPE_STREAMING_PROTOCOL_INIT_DONE = 6"
| "payloadTypeCode PAYLOAD_TYPE_STREAMING_SIGNAL_SUBSCRIBE_ACK = 7"
| "payloadTypeCode PAYLOAD_TYPE_STREAMING_SIGNAL_UNSUBSCRIBE_ACK = 8"
| "payloadTypeCode PAYLOAD_TYPE_CONFIGURATION_PACKET = 9"
| "payloadTypeCode PAYLOAD_TYPE_TRANSPORT_LAYER_PROPERTIES = 10"
| "payloadTypeCode PAYLOAD_TYPE_STREAMING_PROTOCOL_INIT_REQUEST = 11"
| "payloadTypeCode PAYLOAD_TYPE_INVALID = 0"

definition allPayloadTypes :: "PayloadType list" where
  "allPayloadTypes =
     [PAYLOAD_TYPE_STREAMING_PACKET, PAYLOAD_TYPE_STREAMING_SIGNAL_AVAILABLE,
      PAYLOAD_TYPE_STREAMING_SIGNAL_UNAVAILABLE, PAYLOAD_TYPE_STREAMING_SIGNAL_SUBSCRIBE_COMMAND,
      PAYLOAD_TYPE_STREAMING_SIGNAL_UNSUBSCRIBE_COMMAND, PAYLOAD_TYPE_STREAMING_PROTOCOL_INIT_DONE,
      PAYLOAD_TYPE_STREAMING_SIGNAL_SUBSCRIBE_ACK, PAYLOAD_TYPE_STREAMING_SIGNAL_UNSUBSCRIBE_ACK,
      PAYLOAD_TYPE_CONFIGURATION_PACKET, PAYLOAD_TYPE_TRANSPORT_LAYER_PROPERTIES,
      PAYLOAD_TYPE_STREAMING_PROTOCOL_INIT_REQUEST]"

definition payloadTypeOf :: "32 word \<Rightarrow> PayloadType" where
  "payloadTypeOf n = (case find (\<lambda>t. payloadTypeCode t = n) allPayloadTypes of
     Some t \<Rightarrow> t | None \<Rightarrow> PAYLOAD_TYPE_INVALID)"

definition PAYLOAD_TYPE_MASK :: "32 word" where "PAYLOAD_TYPE_MASK = 0xF0000000"
definition PAYLOAD_SIZE_MASK :: "32 word" where "PAYLOAD_SIZE_MASK = 0x0FFFFFFF"
definition PAYLOAD_TYPE_SHIFT :: nat where "PAYLOAD_TYPE_SHIFT = 28"
definition PAYLOAD_SIZE_SHIFT :: nat where "PAYLOAD_SIZE_SHIFT = 0"
definition PACKED_HEADER_SIZE :: SizeT where "PACKED_HEADER_SIZE = 4"
definition MAX_PAYLOAD_SIZE :: SizeT where "MAX_PAYLOAD_SIZE = ucast PAYLOAD_SIZE_MASK"

record TransportHeader =
  th_payloadType :: PayloadType
  th_payloadSize :: SizeT
  packedHeader :: "32 word"

definition TransportHeader_make :: "PayloadType \<Rightarrow> SizeT \<Rightarrow> TransportHeader" where
  "TransportHeader_make t sz = \<lparr>th_payloadType = t, th_payloadSize = sz,
     packedHeader = ucast (((push_bit PAYLOAD_SIZE_SHIFT sz) AND ucast PAYLOAD_SIZE_MASK) OR
       ucast (push_bit PAYLOAD_TYPE_SHIFT (payloadTypeCode t) AND PAYLOAD_TYPE_MASK))\<rparr>"

definition TransportHeader_unpack :: "32 word \<Rightarrow> TransportHeader" where
  "TransportHeader_unpack packed = \<lparr>
     th_payloadType = payloadTypeOf (drop_bit PAYLOAD_TYPE_SHIFT (packed AND PAYLOAD_TYPE_MASK)),
     th_payloadSize = ucast (drop_bit PAYLOAD_SIZE_SHIFT (packed AND PAYLOAD_SIZE_MASK)),
     packedHeader = packed\<rparr>"

lemma payloadTypeOf_code: "payloadTypeOf (payloadTypeCode t) = t"
  by (cases t) (simp_all add: payloadTypeOf_def allPayloadTypes_def)

lemma masks: "PAYLOAD_SIZE_MASK = mask 28" "PAYLOAD_TYPE_MASK = push_bit 28 (mask 4)"
  by (simp_all add: PAYLOAD_SIZE_MASK_def PAYLOAD_TYPE_MASK_def mask_eq_exp_minus_1)

lemma MAX_PAYLOAD_SIZE_mask: "MAX_PAYLOAD_SIZE = mask 28" "unat MAX_PAYLOAD_SIZE = 2 ^ 28 - 1"
  by (simp_all add: MAX_PAYLOAD_SIZE_def PAYLOAD_SIZE_MASK_def mask_eq_exp_minus_1)

lemma packed_eq:
  "packedHeader (TransportHeader_make t sz) = ucast (take_bit 28 sz) OR push_bit 28 (payloadTypeCode t)"
  by (simp add: TransportHeader_make_def masks PAYLOAD_SIZE_SHIFT_def PAYLOAD_TYPE_SHIFT_def)
     (rule bit_word_eqI, auto simp: bit_simps)

lemma code_lt: "take_bit 4 (payloadTypeCode t) = payloadTypeCode t"
  by (cases t) simp_all

text \<open>The transport header carries the type and the size of a payload that is not too long.\<close>

lemma transport_header_roundtrip:
  assumes "sz \<le> MAX_PAYLOAD_SIZE"
  shows "th_payloadType (TransportHeader_unpack (packedHeader (TransportHeader_make t sz))) = t"
    and "th_payloadSize (TransportHeader_unpack (packedHeader (TransportHeader_make t sz))) = sz"
proof -
  let ?p = "packedHeader (TransportHeader_make t sz)"
  have sz: "take_bit 28 sz = sz"
    using assms MAX_PAYLOAD_SIZE_mask(2)
    by (intro word_unat_eq_iff[THEN iffD2]) (simp add: word_le_nat_alt unsigned_take_bit_eq take_bit_nat_eq_self)
  have "drop_bit 28 (?p AND PAYLOAD_TYPE_MASK) = take_bit 4 (payloadTypeCode t)"
    unfolding packed_eq masks by (rule bit_word_eqI) (auto simp: bit_simps)
  then show "th_payloadType (TransportHeader_unpack ?p) = t"
    by (simp add: TransportHeader_unpack_def PAYLOAD_TYPE_SHIFT_def code_lt payloadTypeOf_code)
  have "(ucast (?p AND PAYLOAD_SIZE_MASK) :: SizeT) = take_bit 28 sz"
    unfolding packed_eq masks by (rule bit_word_eqI) (auto simp: bit_simps)
  then show "th_payloadSize (TransportHeader_unpack ?p) = sz"
    by (simp add: TransportHeader_unpack_def PAYLOAD_SIZE_SHIFT_def sz)
qed

section \<open>The memory of a packet buffer\<close>

fun streamTypeCode :: "stream_type \<Rightarrow> byte" where
  "streamTypeCode BufEvent = 0"
| "streamTypeCode BufData = 1"
| "streamTypeCode BufRelease = 2"
| "streamTypeCode BufAlreadySent = 3"

definition streamTypeOf :: "byte \<Rightarrow> stream_type option" where
  "streamTypeOf n = find (\<lambda>t. streamTypeCode t = n) [BufEvent, BufData, BufRelease, BufAlreadySent]"

lemma streamTypeOf_code [simp]: "streamTypeOf (streamTypeCode t) = Some t"
  by (cases t) (simp_all add: streamTypeOf_def)

text \<open>The layout of the header structures; a shorter header is the beginning of the longest.\<close>

definition header_memory :: "byte list \<Rightarrow> DataPacketHeader \<Rightarrow> byte list" where
  "header_memory pad h =
     [hd_size h, streamTypeCode (hd_type h), hd_version h, hd_flags h] @
     to_le 4 (unat (hd_signalId h)) @ to_le 4 (unat (hd_payloadSize h)) @ pad @
     to_le 8 (unat (hd_packetId h)) @ to_le 8 (unat (hd_domainPacketId h)) @
     to_le 8 (unat (hd_sampleCount h)) @ to_le 8 (unat (hd_packetOffset h))"

definition payload_memory :: "payload \<Rightarrow> byte list" where
  "payload_memory p = (case p of
     NoPayload \<Rightarrow> []
   | TextPayload t \<Rightarrow> bytes_of_string t @ [0]
   | BytesPayload bs \<Rightarrow> bs
   | IdsPayload ids \<Rightarrow> concat (map (\<lambda>i. to_le 8 (unat i)) ids))"

text \<open>
  The exceptions of this layer, and those it passes on: of packet streaming, of the configuration
  protocol, of \<^verbatim>\<open>std::unordered_map::at\<close> and of calling an empty \<^verbatim>\<open>std::function\<close>. \<open>NoReturn\<close> is not an
  exception: it is the outcome of a call that never returns, and nothing catches it.
\<close>

datatype native_exn = NativeStreamingProtocolException string | OtherException stream_error | OutOfRange
  | ConfigFailure string | BadFunctionCall | NoReturn

text \<open>
  \<open>copyHeadersToBuffer\<close>: the bytes that it writes. The size of the message is a sum of 32-bit
  numbers before it is compared with the limit.
\<close>

definition copyHeadersToBuffer :: "byte list \<Rightarrow> StreamBuffer \<Rightarrow> native_exn + byte list" where
  "copyHeadersToBuffer pad b =
     (let payloadSize = bufferSize b in
      if payloadSize > MAX_PAYLOAD_SIZE
      then Inl (NativeStreamingProtocolException ''Size of message payload exceeds limit'')
      else Inr (to_le 4 (unat (packedHeader (TransportHeader_make PAYLOAD_TYPE_STREAMING_PACKET payloadSize))) @
                take (unat (hd_size (sb_header b))) (header_memory pad (sb_header b))))"

definition copyPayload :: "StreamBuffer \<Rightarrow> byte list" where
  "copyPayload b = take (unat (hd_payloadSize (sb_header b))) (payload_memory (sb_payload b))"

definition createAndPushPacketBufferTasks :: "byte list \<Rightarrow> StreamBuffer \<Rightarrow> byte list list \<Rightarrow> native_exn + byte list list" where
  "createAndPushPacketBufferTasks pad b tasks =
     (case copyHeadersToBuffer pad b of
        Inl e \<Rightarrow> Inl e
      | Inr headers \<Rightarrow>
          Inr (tasks @ [headers] @ (if hd_payloadSize (sb_header b) > 0 then [copyPayload b] else [])))"

section \<open>The packet buffer that is received\<close>

record wire_buffer =
  wb_header :: "byte list"
  wb_payload :: "byte list option"

definition le_at :: "nat \<Rightarrow> nat \<Rightarrow> byte list \<Rightarrow> nat" where
  "le_at off n bs = of_le (take n (drop off bs))"

text \<open>
  The received header read through the header structures. The code reads them at fixed offsets,
  whatever the length of the memory that was received; members beyond it are 0 here.
\<close>

definition header_of_memory :: "byte list \<Rightarrow> DataPacketHeader option" where
  "header_of_memory bs =
     map_option (\<lambda>t. \<lparr>hd_size = of_nat (le_at 0 1 bs), hd_type = t, hd_version = of_nat (le_at 2 1 bs),
       hd_flags = of_nat (le_at 3 1 bs), hd_signalId = of_nat (le_at 4 4 bs),
       hd_payloadSize = of_nat (le_at 8 4 bs), hd_packetId = of_nat (le_at 16 8 bs),
       hd_domainPacketId = of_nat (le_at 24 8 bs), hd_sampleCount = of_nat (le_at 32 8 bs),
       hd_packetOffset = of_nat (le_at 40 8 bs)\<rparr>)
     (streamTypeOf (of_nat (le_at 1 1 bs)))"

fun ids_of_memory :: "byte list \<Rightarrow> Int64 list" where
  "ids_of_memory bs = (if length bs < 8 then [] else of_nat (of_le (take 8 bs)) # ids_of_memory (drop 8 bs))"

declare ids_of_memory.simps [simp del]

text \<open>What the client reads in the payload, by the type of the buffer; an event is a C string.\<close>

definition payload_of_memory :: "stream_type \<Rightarrow> byte list option \<Rightarrow> payload" where
  "payload_of_memory t mem = (case mem of
     None \<Rightarrow> NoPayload
   | Some bs \<Rightarrow> (case t of
       BufEvent \<Rightarrow> TextPayload (string_of_bytes (takeWhile (\<lambda>b. b \<noteq> 0) bs))
     | BufData \<Rightarrow> BytesPayload bs
     | BufRelease \<Rightarrow> IdsPayload (ids_of_memory bs)
     | BufAlreadySent \<Rightarrow> NoPayload))"

definition received :: "wire_buffer \<Rightarrow> StreamBuffer option" where
  "received w = map_option (\<lambda>h. StreamBuffer_init h (payload_of_memory (hd_type h) (wb_payload w)) NON_CACHEABLE_GROUP_ID)
     (header_of_memory (wb_header w))"

text \<open>The buffers that a packet streaming server makes.\<close>

definition made :: "StreamBuffer \<Rightarrow> bool" where
  "made b = (let h = sb_header b in additionalSignalIds b = [] \<and>
     (case (hd_type h, sb_payload b) of
        (BufEvent, TextPayload t) \<Rightarrow> hd_size h = 12 \<and> hd_payloadSize h = of_nat (length t + 1) \<and>
          hd_packetId h = 0 \<and> hd_domainPacketId h = 0 \<and> hd_sampleCount h = 0 \<and> hd_packetOffset h = 0
      | (BufData, NoPayload) \<Rightarrow> hd_size h = 48 \<and> hd_payloadSize h = 0
      | (BufData, BytesPayload bs) \<Rightarrow> hd_size h = 48 \<and> hd_payloadSize h = of_nat (length bs)
      | (BufRelease, IdsPayload ids) \<Rightarrow> hd_size h = 12 \<and> hd_payloadSize h = of_nat (length ids * 8) \<and>
          hd_packetId h = 0 \<and> hd_domainPacketId h = 0 \<and> hd_sampleCount h = 0 \<and> hd_packetOffset h = 0
      | (BufAlreadySent, NoPayload) \<Rightarrow> hd_size h = 32 \<and> hd_payloadSize h = 0 \<and>
          hd_sampleCount h = 0 \<and> hd_packetOffset h = 0
      | _ \<Rightarrow> False))"

text \<open>The payload is short enough for a message, and the text of an event has no NUL in it.\<close>

definition sendable :: "StreamBuffer \<Rightarrow> bool" where
  "sendable b \<longleftrightarrow> length (payload_memory (sb_payload b)) + 48 < 2 ^ 28 \<and>
     (case sb_payload b of TextPayload t \<Rightarrow> CHR 0x00 \<notin> set t | _ \<Rightarrow> True)"

text \<open>The same buffer on the other side: not in a group, and empty raw data is no data.\<close>

definition wire_view :: "StreamBuffer \<Rightarrow> StreamBuffer" where
  "wire_view b = StreamBuffer_init (sb_header b)
     (case sb_payload b of BytesPayload [] \<Rightarrow> NoPayload | IdsPayload [] \<Rightarrow> NoPayload | p \<Rightarrow> p) NON_CACHEABLE_GROUP_ID"

lemma length_ids_memory [simp]: "length (concat (map (\<lambda>i. to_le 8 (unat (i :: Int64))) ids)) = 8 * length ids"
  by (induction ids) simp_all

lemma ids_of_ids_memory [simp]: "ids_of_memory (concat (map (\<lambda>i. to_le 8 (unat i)) ids)) = ids"
  by (induction ids) (subst ids_of_memory.simps, simp)+

lemma bytes_of_string_no_nul: "CHR 0x00 \<notin> set t \<Longrightarrow> takeWhile (\<lambda>b. b \<noteq> 0) (bytes_of_string t @ [0]) = bytes_of_string t"
proof -
  assume nul: "CHR 0x00 \<notin> set t"
  have "(of_nat (of_char c) :: byte) \<noteq> 0" if "c \<in> set t" for c
  proof
    assume "(of_nat (of_char c) :: byte) = 0"
    then have "(of_char c :: nat) = 0" using unat_of_char[of c] by simp
    then have "c = char_of (0 :: nat)" by (metis char_of_char)
    then have "c = CHR 0x00" by (simp add: char_of_def)
    with nul that show False by simp
  qed
  then show ?thesis unfolding bytes_of_string_def by (subst takeWhile_append2) auto
qed


lemma payload_length:
  assumes "made b" and "sendable b"
  shows "unat (hd_payloadSize (sb_header b)) = length (payload_memory (sb_payload b))"
  using assms by (auto simp: made_def sendable_def Let_def payload_memory_def unsigned_of_nat take_bit_nat_eq_self
      simp del: of_nat_Suc of_nat_add of_nat_mult split: stream_type.splits payload.splits)

lemma header_length:
  assumes "made b" and "length pad = 4"
  shows "length (take (unat (hd_size (sb_header b))) (header_memory pad (sb_header b))) = unat (hd_size (sb_header b))"
    and "unat (hd_size (sb_header b)) \<in> {12, 32, 48}"
  using assms by (auto simp: made_def Let_def header_memory_def split: stream_type.splits payload.splits)

lemma bufferSize_made:
  assumes "made b" and "sendable b"
  shows "unat (bufferSize b) = unat (hd_size (sb_header b)) + length (payload_memory (sb_payload b))"
    and "bufferSize b \<le> MAX_PAYLOAD_SIZE"
proof -
  have hs: "unat (hd_size (sb_header b)) \<le> 48" using header_length(2)[OF assms(1), of "[0,0,0,0]"] by auto
  have "unat (bufferSize32 b) = unat (hd_size (sb_header b)) + unat (hd_payloadSize (sb_header b))"
    using hs payload_length[OF assms] assms(2)
    by (simp add: bufferSize32_def unat_word_ariths(1) unat_ucast_up sendable_def)
  then show eq: "unat (bufferSize b) = unat (hd_size (sb_header b)) + length (payload_memory (sb_payload b))"
    using payload_length[OF assms] by (simp add: bufferSize_def unat_ucast_up)
  show "bufferSize b \<le> MAX_PAYLOAD_SIZE"
    using eq hs assms(2) by (simp add: word_le_nat_alt MAX_PAYLOAD_SIZE_mask(2) sendable_def)
qed

text \<open>The header is read back from its memory.\<close>

lemma le_at_header:
  assumes "length pad = 4"
  shows "le_at 0 1 (header_memory pad h) = unat (hd_size h)"
    and "le_at 1 1 (header_memory pad h) = unat (streamTypeCode (hd_type h))"
    and "le_at 2 1 (header_memory pad h) = unat (hd_version h)"
    and "le_at 3 1 (header_memory pad h) = unat (hd_flags h)"
    and "le_at 4 4 (header_memory pad h) = unat (hd_signalId h)"
    and "le_at 8 4 (header_memory pad h) = unat (hd_payloadSize h)"
    and "le_at 16 8 (header_memory pad h) = unat (hd_packetId h)"
    and "le_at 24 8 (header_memory pad h) = unat (hd_domainPacketId h)"
    and "le_at 32 8 (header_memory pad h) = unat (hd_sampleCount h)"
    and "le_at 40 8 (header_memory pad h) = unat (hd_packetOffset h)"
  using assms by (simp_all add: le_at_def header_memory_def)

lemma le_at_take:
  "off + n \<le> k \<Longrightarrow> le_at off n (take k bs) = le_at off n bs"
  "k \<le> off \<Longrightarrow> le_at off n (take k bs) = 0"
  by (simp_all add: le_at_def drop_take min_def)

lemma header_read_back:
  assumes "made b" and "length pad = 4"
  shows "header_of_memory (take (unat (hd_size (sb_header b))) (header_memory pad (sb_header b))) = Some (sb_header b)"
proof -
  let ?h = "sb_header b"
  note defs = header_of_memory_def le_at_take le_at_header[OF assms(2), simplified]
  consider "hd_size ?h = 12" "hd_packetId ?h = 0" "hd_domainPacketId ?h = 0" "hd_sampleCount ?h = 0" "hd_packetOffset ?h = 0"
    | "hd_size ?h = 32" "hd_sampleCount ?h = 0" "hd_packetOffset ?h = 0" | "hd_size ?h = 48"
    using assms(1) by (auto simp: made_def Let_def split: stream_type.splits payload.splits)
  then show ?thesis by cases (simp_all add: defs)
qed

lemma received_copy:
  assumes "made b" and "sendable b" and "length pad = 4"
  shows "received \<lparr>wb_header = take (unat (hd_size (sb_header b))) (header_memory pad (sb_header b)),
     wb_payload = (if hd_payloadSize (sb_header b) > 0 then Some (copyPayload b) else None)\<rparr> = Some (wire_view b)"
proof -
  have c: "copyPayload b = payload_memory (sb_payload b)"
    using payload_length[OF assms(1,2)] by (simp add: copyPayload_def)
  have "hd_payloadSize (sb_header b) > 0 \<longleftrightarrow> payload_memory (sb_payload b) \<noteq> []"
    using payload_length[OF assms(1,2)] by (metis length_greater_0_conv unat_gt_0 word_gt_0)
  then show ?thesis
    using assms(1,2) header_read_back[OF assms(1,3)] c
    by (auto simp: received_def wire_view_def made_def Let_def payload_of_memory_def payload_memory_def
        sendable_def bytes_of_string_no_nul split: stream_type.splits payload.splits list.splits)
qed

section \<open>Servers only make such buffers\<close>

definition all_made :: "PacketStreamingServer \<Rightarrow> bool" where
  "all_made s \<longleftrightarrow> (\<forall>b \<in> set (sv_queue s). made b)"

lemma all_made_makeAndQueue:
  assumes "all_made s" and "\<And>s. sv_queue (between s) = sv_queue s" and "\<And>g. made (StreamBuffer_init h p g)"
  shows "all_made (snd (makeAndQueue h p between s))"
  using assms
  by (auto simp: all_made_def makeAndQueue_def getPacketCacheableGroupId_def Let_def split: sum.splits prod.splits if_splits)

lemma made_headers [simp]:
  "made (StreamBuffer_init (generic_header sizeof_GenericPacketHeader BufEvent fl sig (of_nat (length t + 1))) (TextPayload t) g)"
  "made (StreamBuffer_init (generic_header sizeof_GenericPacketHeader BufRelease fl sig (of_nat (length ids * 8))) (IdsPayload ids) g)"
  "made (StreamBuffer_init ((generic_header sizeof_AlreadySentPacketHeader BufAlreadySent fl sig 0)
     \<lparr>hd_packetId := i, hd_domainPacketId := d\<rparr>) NoPayload g)"
  by (simp_all add: made_def Let_def StreamBuffer_init_def generic_header_def sizeof_defs)

lemma made_data:
  assumes "setOffset p ((generic_header sizeof_DataPacketHeader BufData fl sig
     (case pk_raw p of None \<Rightarrow> 0 | Some bytes \<Rightarrow> of_nat (length bytes)))\<lparr>hd_packetId := i, hd_domainPacketId := d, hd_sampleCount := n\<rparr>) = Inr h"
  shows "made (StreamBuffer_init h (case pk_raw p of None \<Rightarrow> NoPayload | Some bytes \<Rightarrow> BytesPayload bytes) g)"
  using assms
  by (auto simp: made_def Let_def StreamBuffer_init_def generic_header_def sizeof_defs setOffset_def
      split: option.splits offset.splits)

lemma queue_shouldSendPacket [simp]: "sv_queue (snd (shouldSendPacket i m s)) = sv_queue s"
  by (simp add: shouldSendPacket_def Let_def)

lemma queue_noteDescriptor [simp]: "sv_queue (noteDescriptor sig e s) = sv_queue s"
  by (simp add: noteDescriptor_def split: sum.splits prod.splits)

lemma all_made_addDataPacket: "all_made s \<Longrightarrow> all_made (snd (addDataPacket rv n sig p s))"
proof -
  assume s: "all_made s"
  have q: "all_made (snd (shouldSendPacket i m s))" for i m using s by (simp add: all_made_def)
  show ?thesis
    using s q unfolding addDataPacket_def Let_def
    by (auto simp: addAlreadySentPacket_def id_def intro!: all_made_makeAndQueue made_data
        split: sum.splits prod.splits; metis snd_conv)
qed

lemma all_made_checkAndSendReleasePacket:
  "all_made s \<Longrightarrow> all_made (snd (checkAndSendReleasePacket f s))"
  unfolding checkAndSendReleasePacket_def Let_def
  by (auto intro!: all_made_makeAndQueue simp del: of_nat_mult) (simp_all add: all_made_def)

lemma all_made_andThenRelease: "all_made (snd r) \<Longrightarrow> all_made (snd (andThenRelease r))"
  by (auto simp: andThenRelease_def all_made_checkAndSendReleasePacket split: sum.splits prod.splits)

lemma all_made_addEventPacket: "all_made s \<Longrightarrow> all_made (snd (addEventPacket ser sig e s))"
  unfolding addEventPacket_def by (rule all_made_makeAndQueue) (rule made_headers | simp)+

lemma all_made_getNext: "all_made s \<Longrightarrow> all_made (snd (getNextPacketBuffer s))"
  by (auto simp: all_made_def getNextPacketBuffer_def Let_def split: list.splits option.splits prod.splits if_splits)

lemma all_made_exec: "all_made s \<Longrightarrow> all_made (snd (srv_exec ser op s))"
proof (cases op)
  case (OpAdd sig p)
  assume "all_made s"
  then show ?thesis unfolding OpAdd srv_exec.simps addDaqPacket_def
    by (intro all_made_andThenRelease)
       (auto simp: all_made_addEventPacket all_made_addDataPacket split: stream_packet.splits)
next
  case (OpAddMove n sig p)
  assume "all_made s"
  then show ?thesis unfolding OpAddMove srv_exec.simps addDaqPacketMove_def
    by (intro all_made_andThenRelease)
       (auto simp: all_made_addEventPacket all_made_addDataPacket split: stream_packet.splits)
next
  case (OpDestruct i)
  assume "all_made s"
  then show ?thesis unfolding OpDestruct
    by (simp add: all_made_def packetDestructed_def Let_def)
qed (simp_all add: all_made_getNext drop_value_def all_made_checkAndSendReleasePacket)

lemma srv_reach_all_made: "srv_reach ser payloadMax threshold s \<Longrightarrow> all_made s"
  by (induction rule: srv_reach.induct)
     (simp_all add: all_made_exec, simp add: all_made_def PacketStreamingServer_init_def)

end
