(* ===== verification/ConfigPacket.thy ===== *)
theory ConfigPacket
  imports NativeTransport
begin

text \<open>
  The packets of the configuration protocol (\<^verbatim>\<open>shared/libraries/config_protocol\<close>): a header of 16
  bytes, packed, and a payload; the requests and replies are made and parsed here. Ownership of
  the memory (copied, captured or owned) is not modelled: a packet is a value. The two unused
  bytes of the header are left uninitialised by the code and are a parameter.
\<close>

section \<open>The packet\<close>

type_synonym config_packet_type = byte

definition GetProtocolInfo :: config_packet_type where "GetProtocolInfo = 0x80"
definition UpgradeProtocol :: config_packet_type where "UpgradeProtocol = 0x81"
definition Rpc :: config_packet_type where "Rpc = 0x82"
definition ServerNotification :: config_packet_type where "ServerNotification = 0x83"
definition InvalidRequest :: config_packet_type where "InvalidRequest = 0x84"
definition NoReplyRpc :: config_packet_type where "NoReplyRpc = 0x85"
definition ConnectionRejected :: config_packet_type where "ConnectionRejected = 0x86"

lemmas config_types = GetProtocolInfo_def UpgradeProtocol_def Rpc_def ServerNotification_def
  InvalidRequest_def NoReplyRpc_def ConnectionRejected_def

record ConfigPacketHeader =
  ch_headerSize :: byte
  ch_type :: config_packet_type
  ch_unused :: "byte list"
  ch_payloadSize :: "32 word"
  ch_id :: "64 word"

record ConfigPacketBuffer =
  cp_header :: ConfigPacketHeader
  cp_payload :: "byte list"

definition sizeof_ConfigPacketHeader :: nat where "sizeof_ConfigPacketHeader = 16"
definition MAX_PACKET_BUFFER_SIZE :: nat where "MAX_PACKET_BUFFER_SIZE = 0x0FFFFFFF"

text \<open>\<open>InvalidMemoryAccess\<close> is a read beyond the memory of the packet.\<close>

datatype config_error = ConfigProtocolException string | InvalidMemoryAccess

definition allocateHeaderAndPayload :: "byte list \<Rightarrow> nat \<Rightarrow> config_error + ConfigPacketHeader" where
  "allocateHeaderAndPayload unused psz =
     (if sizeof_ConfigPacketHeader + psz > MAX_PACKET_BUFFER_SIZE
      then Inl (ConfigProtocolException ''Configuration protocol packet buffer size exceeds limit'')
      else Inr \<lparr>ch_headerSize = of_nat sizeof_ConfigPacketHeader, ch_type = 0, ch_unused = unused,
                ch_payloadSize = of_nat psz, ch_id = 0\<rparr>)"

definition ConfigPacketBuffer_make ::
  "byte list \<Rightarrow> config_packet_type \<Rightarrow> 64 word \<Rightarrow> byte list \<Rightarrow> config_error + ConfigPacketBuffer" where
  "ConfigPacketBuffer_make unused packetType i payload =
     (case allocateHeaderAndPayload unused (length payload) of
        Inl e \<Rightarrow> Inl e
      | Inr h \<Rightarrow> Inr \<lparr>cp_header = h\<lparr>ch_type := packetType, ch_id := i\<rparr>, cp_payload = payload\<rparr>)"

definition getPacketType :: "ConfigPacketBuffer \<Rightarrow> config_packet_type" where
  "getPacketType p = ch_type (cp_header p)"

definition getPayloadSize :: "ConfigPacketBuffer \<Rightarrow> nat" where
  "getPayloadSize p = unat (ch_payloadSize (cp_header p))"

definition getConfigPacketId :: "ConfigPacketBuffer \<Rightarrow> 64 word" where
  "getConfigPacketId p = ch_id (cp_header p)"

section \<open>Requests and replies\<close>

definition createGetProtocolInfoRequest :: "byte list \<Rightarrow> 64 word \<Rightarrow> config_error + ConfigPacketBuffer" where
  "createGetProtocolInfoRequest unused i = ConfigPacketBuffer_make unused GetProtocolInfo i []"

text \<open>A \<^verbatim>\<open>std::set\<close> of versions is the list of its elements in increasing order.\<close>

definition createGetProtocolInfoReply ::
  "byte list \<Rightarrow> 64 word \<Rightarrow> 16 word \<Rightarrow> 16 word list \<Rightarrow> config_error + ConfigPacketBuffer" where
  "createGetProtocolInfoReply unused i currentVersion supportedVersions =
     (case allocateHeaderAndPayload unused (2 + 2 + length supportedVersions * 2) of
        Inl e \<Rightarrow> Inl e
      | Inr h \<Rightarrow> Inr \<lparr>cp_header = h\<lparr>ch_type := GetProtocolInfo, ch_id := i\<rparr>,
          cp_payload = to_le 2 (unat currentVersion) @
            to_le 2 (unat (of_nat (length supportedVersions) :: 16 word)) @
            concat (map (\<lambda>v. to_le 2 (unat v)) supportedVersions)\<rparr>)"

definition checkPacket :: "config_packet_type \<Rightarrow> (nat \<Rightarrow> bool) \<Rightarrow> ConfigPacketBuffer \<Rightarrow> config_error option" where
  "checkPacket t valid p =
     (if getPacketType p \<noteq> t then Some (ConfigProtocolException ''Invalid packet type'')
      else if \<not> valid (getPayloadSize p) then Some (ConfigProtocolException ''Invalid payload'')
      else None)"

definition parseProtocolInfoRequest :: "ConfigPacketBuffer \<Rightarrow> config_error + unit" where
  "parseProtocolInfoRequest p =
     (case checkPacket GetProtocolInfo (\<lambda>n. n = 0) p of Some e \<Rightarrow> Inl e | None \<Rightarrow> Inr ())"

fun readVersions :: "nat \<Rightarrow> byte list \<Rightarrow> 16 word list \<Rightarrow> config_error + 16 word list" where
  "readVersions 0 bs vs = Inr vs"
| "readVersions (Suc n) bs vs =
     (if length bs < 2 then Inl InvalidMemoryAccess
      else readVersions n (drop 2 bs) (insort_insert (of_nat (of_le (take 2 bs))) vs))"

definition parseProtocolInfoReply ::
  "ConfigPacketBuffer \<Rightarrow> 16 word list \<Rightarrow> config_error + (16 word \<times> 16 word list)" where
  "parseProtocolInfoReply p supportedVersions =
     (case checkPacket GetProtocolInfo (\<lambda>n. \<not> n < 2 + 2) p of
        Some e \<Rightarrow> Inl e
      | None \<Rightarrow>
          let payload = cp_payload p; currentVersion = of_nat (le_at 0 2 payload); verCount = le_at 2 2 payload in
          (case readVersions verCount (drop 4 payload) supportedVersions of
             Inl e \<Rightarrow> Inl e | Inr vs \<Rightarrow> Inr (currentVersion, vs)))"

definition createUpgradeProtocolRequest :: "byte list \<Rightarrow> 64 word \<Rightarrow> 16 word \<Rightarrow> config_error + ConfigPacketBuffer" where
  "createUpgradeProtocolRequest unused i version =
     ConfigPacketBuffer_make unused UpgradeProtocol i (to_le 2 (unat version))"

definition parseProtocolUpgradeRequest :: "ConfigPacketBuffer \<Rightarrow> config_error + 16 word" where
  "parseProtocolUpgradeRequest p =
     (case checkPacket UpgradeProtocol (\<lambda>n. n = 2) p of
        Some e \<Rightarrow> Inl e | None \<Rightarrow> Inr (of_nat (le_at 0 2 (cp_payload p))))"

definition createUpgradeProtocolReply :: "byte list \<Rightarrow> 64 word \<Rightarrow> bool \<Rightarrow> config_error + ConfigPacketBuffer" where
  "createUpgradeProtocolReply unused i success =
     ConfigPacketBuffer_make unused UpgradeProtocol i [if success then 1 else 0]"

definition parseProtocolUpgradeReply :: "ConfigPacketBuffer \<Rightarrow> config_error + bool" where
  "parseProtocolUpgradeReply p =
     (case checkPacket UpgradeProtocol (\<lambda>n. n = 1) p of
        Some e \<Rightarrow> Inl e | None \<Rightarrow> Inr (le_at 0 1 (cp_payload p) \<noteq> 0))"

definition createRpcRequestOrReply :: "byte list \<Rightarrow> 64 word \<Rightarrow> string \<Rightarrow> config_error + ConfigPacketBuffer" where
  "createRpcRequestOrReply unused i json = ConfigPacketBuffer_make unused Rpc i (bytes_of_string json)"

definition createInvalidRequestReply :: "byte list \<Rightarrow> 64 word \<Rightarrow> config_error + ConfigPacketBuffer" where
  "createInvalidRequestReply unused i = ConfigPacketBuffer_make unused InvalidRequest i []"

definition createServerNotification :: "byte list \<Rightarrow> string \<Rightarrow> config_error + ConfigPacketBuffer" where
  "createServerNotification unused json = ConfigPacketBuffer_make unused ServerNotification (- 1) (bytes_of_string json)"

definition createNoReplyRpcRequest :: "byte list \<Rightarrow> string \<Rightarrow> config_error + ConfigPacketBuffer" where
  "createNoReplyRpcRequest unused json = ConfigPacketBuffer_make unused NoReplyRpc (- 1) (bytes_of_string json)"

definition createConnectionRejectedReply :: "byte list \<Rightarrow> 64 word \<Rightarrow> string \<Rightarrow> config_error + ConfigPacketBuffer" where
  "createConnectionRejectedReply unused i json = ConfigPacketBuffer_make unused ConnectionRejected i (bytes_of_string json)"

definition parseInvalidRequestReply :: "ConfigPacketBuffer \<Rightarrow> config_error + unit" where
  "parseInvalidRequestReply p =
     (case checkPacket InvalidRequest (\<lambda>n. n = 0) p of Some e \<Rightarrow> Inl e | None \<Rightarrow> Inr ())"

text \<open>The four parsers of a JSON payload differ in the packet type only.\<close>

definition parseJson :: "config_packet_type \<Rightarrow> ConfigPacketBuffer \<Rightarrow> config_error + string" where
  "parseJson t p =
     (case checkPacket t (\<lambda>n. n \<noteq> 0) p of
        Some e \<Rightarrow> Inl e | None \<Rightarrow> Inr (string_of_bytes (take (getPayloadSize p) (cp_payload p))))"

definition parseRpcRequestOrReply :: "ConfigPacketBuffer \<Rightarrow> config_error + string" where
  "parseRpcRequestOrReply p = parseJson Rpc p"

definition parseServerNotification :: "ConfigPacketBuffer \<Rightarrow> config_error + string" where
  "parseServerNotification p = parseJson ServerNotification p"

definition parseNoReplyRpcRequest :: "ConfigPacketBuffer \<Rightarrow> config_error + string" where
  "parseNoReplyRpcRequest p = parseJson NoReplyRpc p"

definition parseConnectionRejectedReply :: "ConfigPacketBuffer \<Rightarrow> config_error + string" where
  "parseConnectionRejectedReply p = parseJson ConnectionRejected p"

section \<open>The memory of a packet\<close>

definition config_memory :: "ConfigPacketBuffer \<Rightarrow> byte list" where
  "config_memory p = (let h = cp_header p in
     [ch_headerSize h, ch_type h] @ ch_unused h @ to_le 4 (unat (ch_payloadSize h)) @ to_le 8 (unat (ch_id h)) @
     cp_payload p)"

definition config_of_memory :: "byte list \<Rightarrow> ConfigPacketBuffer" where
  "config_of_memory bs = \<lparr>cp_header = \<lparr>ch_headerSize = of_nat (le_at 0 1 bs), ch_type = of_nat (le_at 1 1 bs),
     ch_unused = take 2 (drop 2 bs), ch_payloadSize = of_nat (le_at 4 4 bs), ch_id = of_nat (le_at 8 8 bs)\<rparr>,
     cp_payload = drop 16 bs\<rparr>"

text \<open>A packet as the code makes them.\<close>

definition config_ok :: "ConfigPacketBuffer \<Rightarrow> bool" where
  "config_ok p \<longleftrightarrow> ch_headerSize (cp_header p) = of_nat sizeof_ConfigPacketHeader \<and> length (ch_unused (cp_header p)) = 2 \<and>
     getPayloadSize p = length (cp_payload p) \<and>
     sizeof_ConfigPacketHeader + length (cp_payload p) \<le> MAX_PACKET_BUFFER_SIZE"

lemma config_memory_parts:
  assumes "length (ch_unused (cp_header p)) = 2"
  shows "le_at 0 1 (config_memory p) = unat (ch_headerSize (cp_header p))"
    and "le_at 1 1 (config_memory p) = unat (ch_type (cp_header p))"
    and "take 2 (drop 2 (config_memory p)) = ch_unused (cp_header p)"
    and "le_at 4 4 (config_memory p) = unat (ch_payloadSize (cp_header p))"
    and "le_at 8 8 (config_memory p) = unat (ch_id (cp_header p))"
    and "drop 16 (config_memory p) = cp_payload p"
    and "length (config_memory p) = 16 + length (cp_payload p)"
  using assms by (simp_all add: le_at_def config_memory_def Let_def)

lemma config_memory_roundtrip: "config_ok p \<Longrightarrow> config_of_memory (config_memory p) = p"
  by (simp add: config_of_memory_def config_memory_parts config_ok_def del: One_nat_def)

lemma make_ok:
  "ConfigPacketBuffer_make unused t i payload =
    (if sizeof_ConfigPacketHeader + length payload > MAX_PACKET_BUFFER_SIZE
     then Inl (ConfigProtocolException ''Configuration protocol packet buffer size exceeds limit'')
     else Inr \<lparr>cp_header = \<lparr>ch_headerSize = 16, ch_type = t, ch_unused = unused,
       ch_payloadSize = of_nat (length payload), ch_id = i\<rparr>, cp_payload = payload\<rparr>)"
  by (simp add: ConfigPacketBuffer_make_def allocateHeaderAndPayload_def sizeof_ConfigPacketHeader_def)

lemma getPayloadSize_make:
  "n \<le> MAX_PACKET_BUFFER_SIZE \<Longrightarrow> getPayloadSize \<lparr>cp_header = \<lparr>ch_headerSize = x, ch_type = t, ch_unused = u,
     ch_payloadSize = of_nat n, ch_id = i\<rparr>, cp_payload = pl\<rparr> = n"
  by (simp add: getPayloadSize_def MAX_PACKET_BUFFER_SIZE_def unsigned_of_nat take_bit_nat_eq_self)

lemma config_ok_make:
  "ConfigPacketBuffer_make unused t i payload = Inr p \<Longrightarrow> length unused = 2 \<Longrightarrow> config_ok p"
  by (auto simp: make_ok config_ok_def sizeof_ConfigPacketHeader_def getPayloadSize_make split: if_splits)

lemma readVersions_all:
  "readVersions (length vs) (concat (map (\<lambda>v. to_le 2 (unat v)) vs)) us = Inr (fold insort_insert vs us)"
  by (induction vs arbitrary: us) (simp_all add: numeral_2_eq_2[symmetric] del: to_le.simps)

lemma insort_insert_last:
  "\<forall>u \<in> set us. u < v \<Longrightarrow> insort_insert v us = us @ [v :: 'a :: linorder]"
proof -
  assume lt: "\<forall>u \<in> set us. u < v"
  have "insort v us = us @ [v]" using lt by (induction us) auto
  moreover have "v \<notin> set us" using lt by auto
  ultimately show ?thesis by (simp add: insort_insert_key_def)
qed

lemma fold_insort_insert_sorted:
  "sorted vs \<Longrightarrow> distinct vs \<Longrightarrow> (\<forall>u \<in> set us. \<forall>v \<in> set vs. u < v) \<Longrightarrow>
   fold insort_insert vs us = us @ (vs :: 'a :: linorder list)"
proof (induction vs arbitrary: us)
  case (Cons v vs)
  have "fold insort_insert vs (us @ [v]) = (us @ [v]) @ vs"
    using Cons.prems by (intro Cons.IH) (auto simp: order.strict_iff_order)
  then show ?case using Cons.prems by (simp add: insort_insert_last)
qed simp

lemma info_reply_roundtrip:
  assumes "sorted vs" and "distinct vs" and "length vs < 2 ^ 16"
    and "createGetProtocolInfoReply unused i v vs = Inr p"
  shows "parseProtocolInfoReply p [] = Inr (v, vs)"
proof -
  have psz: "getPayloadSize p = 4 + length vs * 2"
    using assms(4) getPayloadSize_make[of "4 + length vs * 2"]
    by (auto simp: createGetProtocolInfoReply_def allocateHeaderAndPayload_def sizeof_ConfigPacketHeader_def
        simp del: of_nat_add split: if_splits)
  have t: "getPacketType p = GetProtocolInfo" and pl: "cp_payload p = to_le 2 (unat v) @
      to_le 2 (unat (of_nat (length vs) :: 16 word)) @ concat (map (\<lambda>v. to_le 2 (unat v)) vs)"
    using assms(4) by (auto simp: createGetProtocolInfoReply_def allocateHeaderAndPayload_def getPacketType_def split: if_splits)
  have n: "unat (of_nat (length vs) :: 16 word) = length vs"
    using assms(3) by (simp add: unsigned_of_nat take_bit_nat_eq_self)
  have le: "of_le (to_le 2 (length vs)) = length vs" using assms(3) by (simp add: of_to_le)
  show ?thesis
    unfolding parseProtocolInfoReply_def pl le_at_def
    using psz t readVersions_all[of vs "[]"] fold_insort_insert_sorted[OF assms(1,2), of "[]"]
    by (simp add: checkPacket_def n Let_def le)
qed


lemma config_roundtrips:
  assumes "length unused = 2"
  shows "sorted vs \<Longrightarrow> distinct vs \<Longrightarrow> length vs < 2 ^ 16 \<Longrightarrow> createGetProtocolInfoReply unused i v vs = Inr p1 \<Longrightarrow>
      parseProtocolInfoReply p1 [] = Inr (v, vs) \<and> getConfigPacketId p1 = i"
    and "createUpgradeProtocolRequest unused i v = Inr p2 \<Longrightarrow>
      parseProtocolUpgradeRequest p2 = Inr v \<and> parseProtocolUpgradeReply p2 = Inl (ConfigProtocolException ''Invalid payload'')"
    and "createUpgradeProtocolReply unused i ok = Inr p3 \<Longrightarrow>
      parseProtocolUpgradeReply p3 = Inr ok \<and> parseProtocolUpgradeRequest p3 = Inl (ConfigProtocolException ''Invalid payload'')"
    and "createRpcRequestOrReply unused i json = Inr p4 \<Longrightarrow> json \<noteq> [] \<Longrightarrow>
      parseRpcRequestOrReply p4 = Inr json \<and> parseServerNotification p4 = Inl (ConfigProtocolException ''Invalid packet type'') \<and>
      config_of_memory (config_memory p4) = p4"
    and "createServerNotification unused json = Inr p5 \<Longrightarrow> json \<noteq> [] \<Longrightarrow> parseServerNotification p5 = Inr json"
    and "createNoReplyRpcRequest unused json = Inr p6 \<Longrightarrow> json \<noteq> [] \<Longrightarrow> parseNoReplyRpcRequest p6 = Inr json"
    and "createConnectionRejectedReply unused i json = Inr p7 \<Longrightarrow> json \<noteq> [] \<Longrightarrow>
      parseConnectionRejectedReply p7 = Inr json"
  subgoal
    using info_reply_roundtrip[of vs unused i v p1]
    by (auto simp: createGetProtocolInfoReply_def getConfigPacketId_def split: sum.splits)
  subgoal by (auto simp: createUpgradeProtocolRequest_def make_ok parseProtocolUpgradeRequest_def parseProtocolUpgradeReply_def
        checkPacket_def getPacketType_def getPayloadSize_def le_at_def split: if_splits)
  subgoal by (auto simp: createUpgradeProtocolReply_def make_ok parseProtocolUpgradeRequest_def parseProtocolUpgradeReply_def
        checkPacket_def getPacketType_def getPayloadSize_def le_at_def split: if_splits)
  subgoal using config_memory_roundtrip[of p4] config_ok_make[of unused Rpc i "bytes_of_string json" p4] assms
    by (auto simp: createRpcRequestOrReply_def make_ok parseRpcRequestOrReply_def parseServerNotification_def parseJson_def
        checkPacket_def getPacketType_def getPayloadSize_make config_types split: if_splits)
  by (auto simp: createServerNotification_def createNoReplyRpcRequest_def createConnectionRejectedReply_def make_ok
      parseServerNotification_def parseNoReplyRpcRequest_def parseConnectionRejectedReply_def parseJson_def
      checkPacket_def getPacketType_def getPayloadSize_make split: if_splits)



text \<open>
  The parser of the information reply trusts the number of versions in the payload: a reply that
  announces more versions than it has makes it read past the end of the packet.
\<close>

theorem info_reply_reads_past_end:
  "\<exists>p. config_ok p \<and> parseProtocolInfoReply p [] = Inl InvalidMemoryAccess"
  by (rule exI[of _ "\<lparr>cp_header = \<lparr>ch_headerSize = 16, ch_type = GetProtocolInfo, ch_unused = [0, 0],
        ch_payloadSize = 4, ch_id = 0\<rparr>, cp_payload = [1, 0, 1, 0]\<rparr>"])
     (simp add: config_ok_def parseProtocolInfoReply_def checkPacket_def getPacketType_def getPayloadSize_def
       le_at_def sizeof_ConfigPacketHeader_def MAX_PACKET_BUFFER_SIZE_def)

end
