(* ===== verification/NativeSession.thy ===== *)
theory NativeSession
  imports ConfigPacket
begin

text \<open>
  The session handlers of native streaming: \<^verbatim>\<open>base_session_handler.cpp\<close>,
  \<^verbatim>\<open>client_session_handler.cpp\<close> and \<^verbatim>\<open>server_session_handler.cpp\<close>. A handler sends messages by
  scheduling write tasks (blocks of bytes) on the session, and reads by read tasks: the session
  collects the number of bytes a task asks for, calls it with them, and gets the next task.

  The session itself belongs to another library: it is represented by what the handlers rely
  on, namely that a task is called with exactly the bytes it asked for (\<open>well_served\<close>). The
  callbacks of a handler are functions on an environment of any type and may throw, so what they
  change (and what is written to the session) is part of that environment. Deadlines and the
  activity timer are not modelled, and of an error message only the part written in the source.
\<close>

section \<open>Handlers\<close>

type_synonym ('e, 'a) act = "'e \<Rightarrow> (native_exn + 'a) \<times> 'e"

definition act_return :: "'a \<Rightarrow> ('e, 'a) act" where "act_return x e = (Inr x, e)"

definition act_throw :: "native_exn \<Rightarrow> ('e, 'a) act" where "act_throw x e = (Inl x, e)"

definition act_bind :: "('e, 'a) act \<Rightarrow> ('a \<Rightarrow> ('e, 'b) act) \<Rightarrow> ('e, 'b) act" where
  "act_bind m f e = (case m e of (Inl x, e') \<Rightarrow> (Inl x, e') | (Inr a, e') \<Rightarrow> f a e')"

lemmas act_defs = act_return_def act_throw_def act_bind_def

text \<open>The callbacks and the virtual methods of a handler; an unset callback is \<open>None\<close>.\<close>

record ('e, 'sig, 'props) session_handler =
  configPacketReceivedHandler :: "(ConfigPacketBuffer \<Rightarrow> ('e, unit) act) option"
  packetBufferReceivedHandler :: "(wire_buffer \<Rightarrow> ('e, unit) act) option"
  errorHandler :: "string \<Rightarrow> ('e, unit) act"
  signalReceivedHandler :: "(32 word \<Rightarrow> string \<Rightarrow> string option \<Rightarrow> bool \<Rightarrow> string \<Rightarrow> ('e, unit) act) option"
  subscriptionAckHandler :: "(32 word \<Rightarrow> bool \<Rightarrow> string \<Rightarrow> ('e, unit) act) option"
  findSignalHandler :: "(string \<Rightarrow> ('e, 'sig) act) option"
  signalSubscriptionHandler :: "(32 word \<Rightarrow> 'sig \<Rightarrow> bool \<Rightarrow> string \<Rightarrow> ('e, bool) act) option"
  streamingInitDoneHandler :: "('e, unit) act"
  streamingInitHandler :: "('e, unit) act option"
  transportLayerPropsHandler :: "('props \<Rightarrow> ('e, unit) act) option"
  deserializeProps :: "string \<Rightarrow> 'props option"
  hasUserAccessToSignal :: "'sig \<Rightarrow> 'e \<Rightarrow> bool"
  getClientId :: "'e \<Rightarrow> string"
  getGlobalId :: "'sig \<Rightarrow> string"
  serializeSignal :: "'sig \<Rightarrow> string"
  scheduleWrite :: "byte list list \<Rightarrow> ('e, unit) act"

section \<open>Sending\<close>

definition calculatePayloadSize :: "byte list list \<Rightarrow> native_exn + SizeT" where
  "calculatePayloadSize tasks =
     (let result = foldl (\<lambda>r t. r + of_nat (length t)) 0 tasks in
      if result > MAX_PAYLOAD_SIZE
      then Inl (NativeStreamingProtocolException ''Size of message payload exceeds limit'') else Inr result)"

definition createWriteHeaderTask :: "PayloadType \<Rightarrow> SizeT \<Rightarrow> byte list" where
  "createWriteHeaderTask t sz = to_le 4 (unat (packedHeader (TransportHeader_make t sz)))"

definition createWriteStringTask :: "string \<Rightarrow> byte list" where
  "createWriteStringTask s = bytes_of_string s"

definition createWriteNumberTask :: "'a :: len word \<Rightarrow> byte list" where
  "createWriteNumberTask n = to_le (LENGTH('a) div 8) (unat n)"

text \<open>How every message with a payload is finished and scheduled.\<close>

definition scheduleMessage :: "('e, 'sig, 'props) session_handler \<Rightarrow> PayloadType \<Rightarrow> byte list list \<Rightarrow> ('e, unit) act" where
  "scheduleMessage H t tasks =
     (case calculatePayloadSize tasks of
        Inl x \<Rightarrow> act_throw x
      | Inr sz \<Rightarrow> scheduleWrite H (createWriteHeaderTask t sz # tasks))"

definition sendConfigurationPacket :: "('e, 'sig, 'props) session_handler \<Rightarrow> ConfigPacketBuffer \<Rightarrow> ('e, unit) act" where
  "sendConfigurationPacket H p =
     scheduleMessage H PAYLOAD_TYPE_CONFIGURATION_PACKET
       (if getPayloadSize p > 0
        then [take 16 (config_memory p), take (getPayloadSize p) (drop 16 (config_memory p))]
        else [take 16 (config_memory p)])"

definition sendPacketBuffer :: "('e, 'sig, 'props) session_handler \<Rightarrow> byte list \<Rightarrow> StreamBuffer \<Rightarrow> ('e, unit) act" where
  "sendPacketBuffer H pad b =
     (case createAndPushPacketBufferTasks pad b [] of Inl x \<Rightarrow> act_throw x | Inr tasks \<Rightarrow> scheduleWrite H tasks)"

definition schedulePacketBufferWriteTasks :: "('e, 'sig, 'props) session_handler \<Rightarrow> byte list list \<Rightarrow> ('e, unit) act" where
  "schedulePacketBufferWriteTasks H tasks = scheduleWrite H tasks"

definition sendSignalSubscribe :: "('e, 'sig, 'props) session_handler \<Rightarrow> 32 word \<Rightarrow> string \<Rightarrow> ('e, unit) act" where
  "sendSignalSubscribe H numericId stringId =
     scheduleMessage H PAYLOAD_TYPE_STREAMING_SIGNAL_SUBSCRIBE_COMMAND
       [createWriteNumberTask numericId, createWriteStringTask stringId]"

definition sendSignalUnsubscribe :: "('e, 'sig, 'props) session_handler \<Rightarrow> 32 word \<Rightarrow> string \<Rightarrow> ('e, unit) act" where
  "sendSignalUnsubscribe H numericId stringId =
     scheduleMessage H PAYLOAD_TYPE_STREAMING_SIGNAL_UNSUBSCRIBE_COMMAND
       [createWriteNumberTask numericId, createWriteStringTask stringId]"

definition sendSignalAvailable :: "('e, 'sig, 'props) session_handler \<Rightarrow> 32 word \<Rightarrow> 'sig \<Rightarrow> ('e, unit) act" where
  "sendSignalAvailable H numericId signal e =
     (if \<not> hasUserAccessToSignal H signal e then act_return () e
      else let stringId = getGlobalId H signal in
        if length stringId > 65535
        then act_throw (NativeStreamingProtocolException ''Size of signal string id exceeds limit'') e
        else scheduleMessage H PAYLOAD_TYPE_STREAMING_SIGNAL_AVAILABLE
          [createWriteNumberTask numericId, createWriteNumberTask (of_nat (length stringId) :: 16 word),
           createWriteStringTask stringId, createWriteStringTask (serializeSignal H signal)] e)"

definition sendSignalUnavailable :: "('e, 'sig, 'props) session_handler \<Rightarrow> 32 word \<Rightarrow> 'sig \<Rightarrow> ('e, unit) act" where
  "sendSignalUnavailable H numericId signal e =
     (if \<not> hasUserAccessToSignal H signal e then act_return () e
      else scheduleMessage H PAYLOAD_TYPE_STREAMING_SIGNAL_UNAVAILABLE
          [createWriteNumberTask numericId, createWriteStringTask (getGlobalId H signal)] e)"

definition sendSubscribingDone :: "('e, 'sig, 'props) session_handler \<Rightarrow> 32 word \<Rightarrow> ('e, unit) act" where
  "sendSubscribingDone H numericId =
     scheduleMessage H PAYLOAD_TYPE_STREAMING_SIGNAL_SUBSCRIBE_ACK [createWriteNumberTask numericId]"

definition sendUnsubscribingDone :: "('e, 'sig, 'props) session_handler \<Rightarrow> 32 word \<Rightarrow> ('e, unit) act" where
  "sendUnsubscribingDone H numericId =
     scheduleMessage H PAYLOAD_TYPE_STREAMING_SIGNAL_UNSUBSCRIBE_ACK [createWriteNumberTask numericId]"

definition sendTransportLayerProperties :: "('e, 'sig, 'props) session_handler \<Rightarrow> string \<Rightarrow> ('e, unit) act" where
  "sendTransportLayerProperties H serializedProperties =
     scheduleMessage H PAYLOAD_TYPE_TRANSPORT_LAYER_PROPERTIES [createWriteStringTask serializedProperties]"

definition sendStreamingRequest :: "('e, 'sig, 'props) session_handler \<Rightarrow> ('e, unit) act" where
  "sendStreamingRequest H = scheduleWrite H [createWriteHeaderTask PAYLOAD_TYPE_STREAMING_PROTOCOL_INIT_REQUEST 0]"

definition sendStreamingInitDone :: "('e, 'sig, 'props) session_handler \<Rightarrow> ('e, unit) act" where
  "sendStreamingInitDone H = scheduleWrite H [createWriteHeaderTask PAYLOAD_TYPE_STREAMING_PROTOCOL_INIT_DONE 0]"

section \<open>Reading\<close>

datatype reader =
    RdHeader | RdSignalAvailable | RdSignalUnavailable | RdPacketBuffer | RdSignalSubscribedAck
  | RdSignalUnsubscribedAck | RdSignalSubscribe | RdSignalUnsubscribe | RdConfigurationPacket
  | RdTransportLayerProperties | RdDiscardPayload

datatype ReadTask = ReadStop | ReadTask reader SizeT

definition createReadHeaderTask :: ReadTask where
  "createReadHeaderTask = ReadTask RdHeader PACKED_HEADER_SIZE"

definition createReadStopTask :: ReadTask where
  "createReadStopTask = ReadStop"

definition discardPayload :: "byte list \<Rightarrow> ('e, ReadTask) act" where
  "discardPayload data = act_return createReadHeaderTask"

text \<open>\<open>None\<close> is the exception that \<open>copyData\<close> and \<open>getStringFromData\<close> throw.\<close>

definition copyData :: "byte list \<Rightarrow> nat \<Rightarrow> nat \<Rightarrow> byte list option" where
  "copyData data bytesToCopy sourceOffset =
     (if bytesToCopy + sourceOffset > length data then None
      else Some (take bytesToCopy (drop sourceOffset data)))"

definition getStringFromData :: "byte list \<Rightarrow> nat \<Rightarrow> nat \<Rightarrow> string option" where
  "getStringFromData data stringSize sourceOffset =
     (if stringSize + sourceOffset > length data then None
      else Some (string_of_bytes (take stringSize (drop sourceOffset data))))"

definition copyNumber :: "byte list \<Rightarrow> nat \<Rightarrow> ('a :: len word) option" where
  "copyNumber data sourceOffset =
     map_option (\<lambda>bs. of_nat (of_le bs)) (copyData data (LENGTH('a) div 8) sourceOffset)"

definition protocolError :: "('e, 'sig, 'props) session_handler \<Rightarrow> string \<Rightarrow> ReadTask \<Rightarrow> ('e, ReadTask) act" where
  "protocolError H method next =
     act_bind (errorHandler H (''Protocol error - '' @ method @ '' - '')) (\<lambda>_. act_return next)"

definition thenReadHeader :: "('e, unit) act \<Rightarrow> ('e, ReadTask) act" where
  "thenReadHeader m = act_bind m (\<lambda>_. act_return createReadHeaderTask)"

definition readConfigurationPacket :: "('e, 'sig, 'props) session_handler \<Rightarrow> byte list \<Rightarrow> ('e, ReadTask) act" where
  "readConfigurationPacket H data =
     (case configPacketReceivedHandler H of
        None \<Rightarrow> discardPayload data
      | Some cb \<Rightarrow>
          let failed = protocolError H ''readConfigurationPacket'' createReadHeaderTask in
          case copyData data 1 0 of
            None \<Rightarrow> failed
          | Some hs \<Rightarrow>
              if of_le hs \<noteq> 16 then act_return createReadHeaderTask
              else (case copyData data 16 0 of
                      None \<Rightarrow> failed
                    | Some header \<Rightarrow>
                        let psz = le_at 4 4 header in
                        if psz > 0
                        then (case copyData data psz 16 of
                                None \<Rightarrow> failed
                              | Some payload \<Rightarrow> thenReadHeader (cb (config_of_memory (header @ payload))))
                        else thenReadHeader (cb (config_of_memory header))))"

definition readPacketBuffer :: "('e, 'sig, 'props) session_handler \<Rightarrow> byte list \<Rightarrow> ('e, ReadTask) act" where
  "readPacketBuffer H data =
     (case packetBufferReceivedHandler H of
        None \<Rightarrow> discardPayload data
      | Some cb \<Rightarrow>
          let failed = protocolError H ''readPacket'' createReadStopTask in
          case copyData data 1 0 of
            None \<Rightarrow> failed
          | Some hs \<Rightarrow>
              let headerSize = of_le hs in
              if headerSize < unat sizeof_GenericPacketHeader then act_return createReadHeaderTask
              else (case copyData data headerSize 0 of
                      None \<Rightarrow> failed
                    | Some header \<Rightarrow>
                        let psz = le_at 8 4 header in
                        if psz > 0
                        then (case copyData data psz headerSize of
                                None \<Rightarrow> failed
                              | Some payload \<Rightarrow> thenReadHeader (cb \<lparr>wb_header = header, wb_payload = Some payload\<rparr>))
                        else thenReadHeader (cb \<lparr>wb_header = header, wb_payload = None\<rparr>)))"

definition readSignalAvailable :: "('e, 'sig, 'props) session_handler \<Rightarrow> byte list \<Rightarrow> ('e, ReadTask) act" where
  "readSignalAvailable H data =
     (case signalReceivedHandler H of
        None \<Rightarrow> discardPayload data
      | Some cb \<Rightarrow>
          let failed = protocolError H ''readSignalAvailable'' createReadStopTask in
          case copyNumber data 0 of
            None \<Rightarrow> failed
          | Some numericId \<Rightarrow>
              (case (copyNumber data 4 :: 16 word option) of
                 None \<Rightarrow> failed
               | Some idSize \<Rightarrow>
                   (case getStringFromData data (unat idSize) 6 of
                      None \<Rightarrow> failed
                    | Some stringId \<Rightarrow>
                        (case getStringFromData data (length data - (6 + unat idSize)) (6 + unat idSize) of
                           None \<Rightarrow> failed
                         | Some serialized \<Rightarrow>
                             (\<lambda>e. thenReadHeader (cb numericId stringId (Some serialized) True (getClientId H e)) e)))))"

text \<open>The payload of four messages is a numeric id and a string.\<close>

definition readIdAndString :: "byte list \<Rightarrow> (32 word \<times> string) option" where
  "readIdAndString data =
     (case copyNumber data 0 of
        None \<Rightarrow> None
      | Some numericId \<Rightarrow> map_option (Pair numericId) (getStringFromData data (length data - 4) 4))"

definition readSignalUnavailable :: "('e, 'sig, 'props) session_handler \<Rightarrow> byte list \<Rightarrow> ('e, ReadTask) act" where
  "readSignalUnavailable H data =
     (case signalReceivedHandler H of
        None \<Rightarrow> discardPayload data
      | Some cb \<Rightarrow>
          (case readIdAndString data of
             None \<Rightarrow> protocolError H ''readSignalUnavailable'' createReadStopTask
           | Some (numericId, stringId) \<Rightarrow>
               (\<lambda>e. thenReadHeader (cb numericId stringId None False (getClientId H e)) e)))"

definition readSignalSubscribedAck :: "('e, 'sig, 'props) session_handler \<Rightarrow> byte list \<Rightarrow> ('e, ReadTask) act" where
  "readSignalSubscribedAck H data =
     (case subscriptionAckHandler H of
        None \<Rightarrow> discardPayload data
      | Some cb \<Rightarrow>
          (case copyNumber data 0 of
             None \<Rightarrow> protocolError H ''readSignalSubscribedAck'' createReadStopTask
           | Some numericId \<Rightarrow> (\<lambda>e. thenReadHeader (cb numericId True (getClientId H e)) e)))"

definition readSignalUnsubscribedAck :: "('e, 'sig, 'props) session_handler \<Rightarrow> byte list \<Rightarrow> ('e, ReadTask) act" where
  "readSignalUnsubscribedAck H data =
     (case subscriptionAckHandler H of
        None \<Rightarrow> discardPayload data
      | Some cb \<Rightarrow>
          (case copyNumber data 0 of
             None \<Rightarrow> protocolError H ''readSignalUnsubscribedAck'' createReadStopTask
           | Some numericId \<Rightarrow> (\<lambda>e. thenReadHeader (cb numericId False (getClientId H e)) e)))"

text \<open>The second \<^verbatim>\<open>try\<close> block of the two subscription commands: protocol exceptions end here.\<close>

definition changeSubscription :: "('e, 'sig, 'props) session_handler \<Rightarrow> (string \<Rightarrow> ('e, 'sig) act)
    \<Rightarrow> (32 word \<Rightarrow> 'sig \<Rightarrow> bool \<Rightarrow> string \<Rightarrow> ('e, bool) act) \<Rightarrow> 32 word \<Rightarrow> string \<Rightarrow> bool \<Rightarrow> ('e, ReadTask) act" where
  "changeSubscription H lookup change numericId stringId subscribe e =
     (case act_bind (lookup stringId) (\<lambda>signal e1.
             if \<not> hasUserAccessToSignal H signal e1 then act_return () e1
             else act_bind (change numericId signal subscribe (getClientId H e1))
               (\<lambda>done. if \<not> done then act_return ()
                       else if subscribe then sendSubscribingDone H numericId else sendUnsubscribingDone H numericId) e1) e of
        (Inl (NativeStreamingProtocolException m), e') \<Rightarrow> act_return createReadHeaderTask e'
      | (Inl x, e') \<Rightarrow> act_throw x e'
      | (Inr _, e') \<Rightarrow> act_return createReadHeaderTask e')"

definition readSignalSubscribe :: "('e, 'sig, 'props) session_handler \<Rightarrow> byte list \<Rightarrow> ('e, ReadTask) act" where
  "readSignalSubscribe H data =
     (case (signalSubscriptionHandler H, findSignalHandler H) of
        (Some change, Some lookup) \<Rightarrow>
          (case readIdAndString data of
             None \<Rightarrow> protocolError H ''readSignalSubscribe'' createReadStopTask
           | Some (numericId, stringId) \<Rightarrow> changeSubscription H lookup change numericId stringId True)
      | _ \<Rightarrow> discardPayload data)"

definition readSignalUnsubscribe :: "('e, 'sig, 'props) session_handler \<Rightarrow> byte list \<Rightarrow> ('e, ReadTask) act" where
  "readSignalUnsubscribe H data =
     (case (signalSubscriptionHandler H, findSignalHandler H) of
        (Some change, Some lookup) \<Rightarrow>
          (case readIdAndString data of
             None \<Rightarrow> protocolError H ''readSignalUnsubscribe'' createReadStopTask
           | Some (numericId, stringId) \<Rightarrow> changeSubscription H lookup change numericId stringId False)
      | _ \<Rightarrow> discardPayload data)"

definition readTransportLayerProperties :: "('e, 'sig, 'props) session_handler \<Rightarrow> byte list \<Rightarrow> ('e, ReadTask) act" where
  "readTransportLayerProperties H data =
     (case getStringFromData data (length data) 0 of
        None \<Rightarrow> protocolError H ''readTransportLayerProperties'' createReadStopTask
      | Some serialized \<Rightarrow>
          (case (transportLayerPropsHandler H, deserializeProps H serialized) of
             (Some cb, Some props) \<Rightarrow> thenReadHeader (cb props)
           | _ \<Rightarrow> act_return createReadHeaderTask))"

definition readHeader_client :: "('e, 'sig, 'props) session_handler \<Rightarrow> byte list \<Rightarrow> ('e, ReadTask) act" where
  "readHeader_client H data =
     (let header = TransportHeader_unpack (of_nat (of_le (take 4 data))); sz = th_payloadSize header in
      case th_payloadType header of
        PAYLOAD_TYPE_STREAMING_SIGNAL_AVAILABLE \<Rightarrow> act_return (ReadTask RdSignalAvailable sz)
      | PAYLOAD_TYPE_STREAMING_SIGNAL_UNAVAILABLE \<Rightarrow> act_return (ReadTask RdSignalUnavailable sz)
      | PAYLOAD_TYPE_STREAMING_PACKET \<Rightarrow> act_return (ReadTask RdPacketBuffer sz)
      | PAYLOAD_TYPE_STREAMING_PROTOCOL_INIT_DONE \<Rightarrow> thenReadHeader (streamingInitDoneHandler H)
      | PAYLOAD_TYPE_STREAMING_SIGNAL_SUBSCRIBE_ACK \<Rightarrow> act_return (ReadTask RdSignalSubscribedAck sz)
      | PAYLOAD_TYPE_STREAMING_SIGNAL_UNSUBSCRIBE_ACK \<Rightarrow> act_return (ReadTask RdSignalUnsubscribedAck sz)
      | PAYLOAD_TYPE_STREAMING_SIGNAL_SUBSCRIBE_COMMAND \<Rightarrow> act_return (ReadTask RdSignalSubscribe sz)
      | PAYLOAD_TYPE_STREAMING_SIGNAL_UNSUBSCRIBE_COMMAND \<Rightarrow> act_return (ReadTask RdSignalUnsubscribe sz)
      | PAYLOAD_TYPE_CONFIGURATION_PACKET \<Rightarrow> act_return (ReadTask RdConfigurationPacket sz)
      | _ \<Rightarrow> act_return (ReadTask RdDiscardPayload sz))"

definition readHeader_server :: "('e, 'sig, 'props) session_handler \<Rightarrow> byte list \<Rightarrow> ('e, ReadTask) act" where
  "readHeader_server H data =
     (let header = TransportHeader_unpack (of_nat (of_le (take 4 data))); sz = th_payloadSize header in
      case th_payloadType header of
        PAYLOAD_TYPE_STREAMING_SIGNAL_SUBSCRIBE_COMMAND \<Rightarrow> act_return (ReadTask RdSignalSubscribe sz)
      | PAYLOAD_TYPE_STREAMING_SIGNAL_UNSUBSCRIBE_COMMAND \<Rightarrow> act_return (ReadTask RdSignalUnsubscribe sz)
      | PAYLOAD_TYPE_CONFIGURATION_PACKET \<Rightarrow> act_return (ReadTask RdConfigurationPacket sz)
      | PAYLOAD_TYPE_TRANSPORT_LAYER_PROPERTIES \<Rightarrow> act_return (ReadTask RdTransportLayerProperties sz)
      | PAYLOAD_TYPE_STREAMING_PACKET \<Rightarrow> act_return (ReadTask RdPacketBuffer sz)
      | PAYLOAD_TYPE_STREAMING_PROTOCOL_INIT_REQUEST \<Rightarrow>
          (case streamingInitHandler H of
             Some cb \<Rightarrow> thenReadHeader cb | None \<Rightarrow> act_return createReadHeaderTask)
      | PAYLOAD_TYPE_STREAMING_SIGNAL_SUBSCRIBE_ACK \<Rightarrow> act_return (ReadTask RdSignalSubscribedAck sz)
      | PAYLOAD_TYPE_STREAMING_SIGNAL_UNSUBSCRIBE_ACK \<Rightarrow> act_return (ReadTask RdSignalUnsubscribedAck sz)
      | PAYLOAD_TYPE_STREAMING_SIGNAL_AVAILABLE \<Rightarrow> act_return (ReadTask RdSignalAvailable sz)
      | PAYLOAD_TYPE_STREAMING_SIGNAL_UNAVAILABLE \<Rightarrow> act_return (ReadTask RdSignalUnavailable sz)
      | _ \<Rightarrow> act_return (ReadTask RdDiscardPayload sz))"

datatype role = ClientSide | ServerSide

fun callReader :: "role \<Rightarrow> ('e, 'sig, 'props) session_handler \<Rightarrow> reader \<Rightarrow> byte list \<Rightarrow> ('e, ReadTask) act" where
  "callReader role H RdHeader data =
     (case role of ClientSide \<Rightarrow> readHeader_client H data | ServerSide \<Rightarrow> readHeader_server H data)"
| "callReader role H RdSignalAvailable data = readSignalAvailable H data"
| "callReader role H RdSignalUnavailable data = readSignalUnavailable H data"
| "callReader role H RdPacketBuffer data = readPacketBuffer H data"
| "callReader role H RdSignalSubscribedAck data = readSignalSubscribedAck H data"
| "callReader role H RdSignalUnsubscribedAck data = readSignalUnsubscribedAck H data"
| "callReader role H RdSignalSubscribe data = readSignalSubscribe H data"
| "callReader role H RdSignalUnsubscribe data = readSignalUnsubscribe H data"
| "callReader role H RdConfigurationPacket data = readConfigurationPacket H data"
| "callReader role H RdTransportLayerProperties data = readTransportLayerProperties H data"
| "callReader role H RdDiscardPayload data = discardPayload data"

section \<open>A session\<close>

text \<open>The blocks that the session delivers, one per read task; a stopped session reads no more.\<close>

fun session_run :: "role \<Rightarrow> ('e, 'sig, 'props) session_handler \<Rightarrow> ReadTask \<Rightarrow> byte list list \<Rightarrow> ('e, ReadTask) act" where
  "session_run role H t [] e = (Inr t, e)"
| "session_run role H ReadStop (c # cs) e = (Inr ReadStop, e)"
| "session_run role H (ReadTask r n) (c # cs) e =
     act_bind (callReader role H r c) (\<lambda>t. session_run role H t cs) e"

text \<open>Each block has the length that the task waiting for it asked for.\<close>

fun well_served :: "role \<Rightarrow> ('e, 'sig, 'props) session_handler \<Rightarrow> ReadTask \<Rightarrow> byte list list \<Rightarrow> 'e \<Rightarrow> bool" where
  "well_served role H t [] e = True"
| "well_served role H ReadStop (c # cs) e = False"
| "well_served role H (ReadTask r n) (c # cs) e =
     (length c = unat n \<and>
      (case callReader role H r c e of (Inl _, _) \<Rightarrow> cs = [] | (Inr t, e') \<Rightarrow> well_served role H t cs e'))"

section \<open>Messages\<close>

text \<open>What is sent, without the bytes.\<close>

datatype message =
    MsgPacket wire_buffer
  | MsgAvailable "32 word" string string
  | MsgUnavailable "32 word" string
  | MsgSubscribe "32 word" string
  | MsgUnsubscribe "32 word" string
  | MsgSubscribeAck "32 word"
  | MsgUnsubscribeAck "32 word"
  | MsgConfig ConfigPacketBuffer
  | MsgProperties string
  | MsgInitDone
  | MsgInitRequest

fun message_type :: "message \<Rightarrow> PayloadType" where
  "message_type (MsgPacket w) = PAYLOAD_TYPE_STREAMING_PACKET"
| "message_type (MsgAvailable i s j) = PAYLOAD_TYPE_STREAMING_SIGNAL_AVAILABLE"
| "message_type (MsgUnavailable i s) = PAYLOAD_TYPE_STREAMING_SIGNAL_UNAVAILABLE"
| "message_type (MsgSubscribe i s) = PAYLOAD_TYPE_STREAMING_SIGNAL_SUBSCRIBE_COMMAND"
| "message_type (MsgUnsubscribe i s) = PAYLOAD_TYPE_STREAMING_SIGNAL_UNSUBSCRIBE_COMMAND"
| "message_type (MsgSubscribeAck i) = PAYLOAD_TYPE_STREAMING_SIGNAL_SUBSCRIBE_ACK"
| "message_type (MsgUnsubscribeAck i) = PAYLOAD_TYPE_STREAMING_SIGNAL_UNSUBSCRIBE_ACK"
| "message_type (MsgConfig p) = PAYLOAD_TYPE_CONFIGURATION_PACKET"
| "message_type (MsgProperties s) = PAYLOAD_TYPE_TRANSPORT_LAYER_PROPERTIES"
| "message_type MsgInitDone = PAYLOAD_TYPE_STREAMING_PROTOCOL_INIT_DONE"
| "message_type MsgInitRequest = PAYLOAD_TYPE_STREAMING_PROTOCOL_INIT_REQUEST"

fun message_payload :: "message \<Rightarrow> byte list" where
  "message_payload (MsgPacket w) = wb_header w @ (case wb_payload w of None \<Rightarrow> [] | Some bs \<Rightarrow> bs)"
| "message_payload (MsgAvailable i s j) =
     to_le 4 (unat i) @ to_le 2 (length s) @ bytes_of_string s @ bytes_of_string j"
| "message_payload (MsgUnavailable i s) = to_le 4 (unat i) @ bytes_of_string s"
| "message_payload (MsgSubscribe i s) = to_le 4 (unat i) @ bytes_of_string s"
| "message_payload (MsgUnsubscribe i s) = to_le 4 (unat i) @ bytes_of_string s"
| "message_payload (MsgSubscribeAck i) = to_le 4 (unat i)"
| "message_payload (MsgUnsubscribeAck i) = to_le 4 (unat i)"
| "message_payload (MsgConfig p) = config_memory p"
| "message_payload (MsgProperties s) = bytes_of_string s"
| "message_payload MsgInitDone = []"
| "message_payload MsgInitRequest = []"

definition message_bytes :: "message \<Rightarrow> byte list" where
  "message_bytes m = createWriteHeaderTask (message_type m) (of_nat (length (message_payload m))) @ message_payload m"

fun header_only :: "role \<Rightarrow> message \<Rightarrow> bool" where
  "header_only ClientSide MsgInitDone = True"
| "header_only ServerSide MsgInitRequest = True"
| "header_only role m = False"

definition wb_ok :: "wire_buffer \<Rightarrow> bool" where
  "wb_ok w \<longleftrightarrow> 12 \<le> length (wb_header w) \<and> length (wb_header w) = le_at 0 1 (wb_header w) \<and>
     (case wb_payload w of None \<Rightarrow> le_at 8 4 (wb_header w) = 0
      | Some bs \<Rightarrow> bs \<noteq> [] \<and> le_at 8 4 (wb_header w) = length bs)"

text \<open>Messages that the code can send, and that the other side waits for.\<close>

fun message_ok :: "role \<Rightarrow> message \<Rightarrow> bool" where
  "message_ok role (MsgPacket w) = wb_ok w"
| "message_ok role (MsgAvailable i s j) = (length s \<le> 65535)"
| "message_ok role (MsgConfig p) = config_ok p"
| "message_ok role (MsgProperties s) = (s \<noteq> [])"
| "message_ok role MsgInitDone = (role = ClientSide)"
| "message_ok role MsgInitRequest = (role = ServerSide)"
| "message_ok role m = True"

definition message_fits :: "message \<Rightarrow> bool" where
  "message_fits m \<longleftrightarrow> length (message_payload m) < 2 ^ 28"

text \<open>The callbacks that a message leads to.\<close>

fun message_effect :: "role \<Rightarrow> ('e, 'sig, 'props) session_handler \<Rightarrow> message \<Rightarrow> ('e, unit) act" where
  "message_effect role H (MsgPacket w) =
     (case packetBufferReceivedHandler H of None \<Rightarrow> act_return () | Some cb \<Rightarrow> cb w)"
| "message_effect role H (MsgAvailable i s j) =
     (case signalReceivedHandler H of None \<Rightarrow> act_return ()
      | Some cb \<Rightarrow> (\<lambda>e. cb i s (Some j) True (getClientId H e) e))"
| "message_effect role H (MsgUnavailable i s) =
     (case signalReceivedHandler H of None \<Rightarrow> act_return ()
      | Some cb \<Rightarrow> (\<lambda>e. cb i s None False (getClientId H e) e))"
| "message_effect role H (MsgSubscribe i s) =
     (case (signalSubscriptionHandler H, findSignalHandler H) of
        (Some change, Some lookup) \<Rightarrow> act_bind (changeSubscription H lookup change i s True) (\<lambda>_. act_return ())
      | _ \<Rightarrow> act_return ())"
| "message_effect role H (MsgUnsubscribe i s) =
     (case (signalSubscriptionHandler H, findSignalHandler H) of
        (Some change, Some lookup) \<Rightarrow> act_bind (changeSubscription H lookup change i s False) (\<lambda>_. act_return ())
      | _ \<Rightarrow> act_return ())"
| "message_effect role H (MsgSubscribeAck i) =
     (case subscriptionAckHandler H of None \<Rightarrow> act_return () | Some cb \<Rightarrow> (\<lambda>e. cb i True (getClientId H e) e))"
| "message_effect role H (MsgUnsubscribeAck i) =
     (case subscriptionAckHandler H of None \<Rightarrow> act_return () | Some cb \<Rightarrow> (\<lambda>e. cb i False (getClientId H e) e))"
| "message_effect role H (MsgConfig p) =
     (case configPacketReceivedHandler H of None \<Rightarrow> act_return () | Some cb \<Rightarrow> cb p)"
| "message_effect role H (MsgProperties s) =
     (case (role, transportLayerPropsHandler H, deserializeProps H s) of
        (ServerSide, Some cb, Some props) \<Rightarrow> cb props | _ \<Rightarrow> act_return ())"
| "message_effect role H MsgInitDone = streamingInitDoneHandler H"
| "message_effect role H MsgInitRequest =
     (case streamingInitHandler H of None \<Rightarrow> act_return () | Some cb \<Rightarrow> cb)"

primrec deliver_all :: "role \<Rightarrow> ('e, 'sig, 'props) session_handler \<Rightarrow> message list \<Rightarrow> ('e, unit) act" where
  "deliver_all role H [] = act_return ()"
| "deliver_all role H (m # ms) = act_bind (message_effect role H m) (\<lambda>_. deliver_all role H ms)"

fun message_reader :: "role \<Rightarrow> message \<Rightarrow> reader" where
  "message_reader role (MsgPacket w) = RdPacketBuffer"
| "message_reader role (MsgAvailable i s j) = RdSignalAvailable"
| "message_reader role (MsgUnavailable i s) = RdSignalUnavailable"
| "message_reader role (MsgSubscribe i s) = RdSignalSubscribe"
| "message_reader role (MsgUnsubscribe i s) = RdSignalUnsubscribe"
| "message_reader role (MsgSubscribeAck i) = RdSignalSubscribedAck"
| "message_reader role (MsgUnsubscribeAck i) = RdSignalUnsubscribedAck"
| "message_reader role (MsgConfig p) = RdConfigurationPacket"
| "message_reader ServerSide (MsgProperties s) = RdTransportLayerProperties"
| "message_reader role m = RdDiscardPayload"

subsection \<open>Reading one message\<close>

lemma length_header_task [simp]: "length (createWriteHeaderTask t sz) = 4"
  by (simp add: createWriteHeaderTask_def)

lemma read_header_task:
  assumes "sz \<le> MAX_PAYLOAD_SIZE"
  shows "th_payloadType (TransportHeader_unpack (of_nat (of_le (take 4 (createWriteHeaderTask t sz))))) = t"
    and "th_payloadSize (TransportHeader_unpack (of_nat (of_le (take 4 (createWriteHeaderTask t sz))))) = sz"
  by (simp_all add: createWriteHeaderTask_def transport_header_roundtrip[OF assms])

lemma fits_size: "message_fits m \<Longrightarrow> (of_nat (length (message_payload m)) :: SizeT) \<le> MAX_PAYLOAD_SIZE"
  "message_fits m \<Longrightarrow> unat (of_nat (length (message_payload m)) :: SizeT) = length (message_payload m)"
  by (simp_all add: message_fits_def word_le_nat_alt MAX_PAYLOAD_SIZE_mask(2) unsigned_of_nat take_bit_nat_eq_self)

lemma header_message:
  assumes "message_fits m" and "message_ok role m"
  shows "callReader role H RdHeader (createWriteHeaderTask (message_type m) (of_nat (length (message_payload m)))) =
    (if header_only role m then thenReadHeader (message_effect role H m)
     else act_return (ReadTask (message_reader role m) (of_nat (length (message_payload m)))))"
  using assms read_header_task[OF fits_size(1)[OF assms(1)], of "message_type m"]
  by (cases m; cases role)
     (auto simp: readHeader_client_def readHeader_server_def Let_def thenReadHeader_def act_defs fun_eq_iff split: option.splits)

lemma copyData_simps [simp]:
  "copyData data n 0 = (if n \<le> length data then Some (take n data) else None)"
  by (auto simp: copyData_def)

lemma copyNumber_id [simp]:
  "(copyNumber (to_le 4 (unat i) @ r) 0 :: 32 word option) = Some i"
  "(copyNumber (to_le 4 (unat i)) 0 :: 32 word option) = Some i"
  by (simp_all add: copyNumber_def)

lemma readIdAndString_eq: "readIdAndString (to_le 4 (unat i) @ bytes_of_string s) = Some (i, s)"
  by (simp add: readIdAndString_def getStringFromData_def)

lemma read_available:
  assumes "length s \<le> 65535"
  shows "readSignalAvailable H (message_payload (MsgAvailable i s j)) = thenReadHeader (message_effect role H (MsgAvailable i s j))"
proof -
  let ?d = "message_payload (MsgAvailable i s j)"
  have l: "of_le (to_le 2 (length s)) = length s" using assms by (simp add: of_to_le)
  have n: "(copyNumber ?d 4 :: 16 word option) = Some (of_nat (length s))"
    by (simp add: copyNumber_def copyData_def l)
  have u: "unat (of_nat (length s) :: 16 word) = length s"
    using assms by (simp add: unsigned_of_nat take_bit_nat_eq_self)
  have "getStringFromData ?d (length s) 6 = Some s"
    "getStringFromData ?d (length ?d - (6 + length s)) (6 + length s) = Some j"
    by (simp_all add: getStringFromData_def)
  then show ?thesis
    using n u by (simp add: readSignalAvailable_def Let_def discardPayload_def thenReadHeader_def act_defs fun_eq_iff
      split: option.splits del: message_payload.simps) (simp add: thenReadHeader_def act_defs)
qed

lemma read_packet:
  assumes "wb_ok w"
  shows "readPacketBuffer H (message_payload (MsgPacket w)) = thenReadHeader (message_effect role H (MsgPacket w))"
proof -
  let ?h = "wb_header w" and ?d = "message_payload (MsgPacket w)"
  have ne: "?h \<noteq> []" and s: "of_le (take 1 ?h) = length ?h" "12 \<le> length ?h"
    using assms by (auto simp: wb_ok_def le_at_def)
  have d: "take 1 ?d = take 1 ?h" "1 \<le> length ?d" "take (length ?h) ?d = ?h" "length ?h \<le> length ?d" using ne by (cases ?h; simp)+
  have sz: "unat sizeof_GenericPacketHeader = 12" by (simp add: sizeof_GenericPacketHeader_def)
  show ?thesis
  proof (cases "wb_payload w")
    case None
    have w: "\<lparr>wb_header = ?h, wb_payload = None\<rparr> = w" using None by simp
    show ?thesis
      using assms s d sz None unfolding readPacketBuffer_def
      by (simp add: w Let_def wb_ok_def discardPayload_def thenReadHeader_def act_defs fun_eq_iff split: option.splits del: message_payload.simps)
  next
    case (Some bs)
    have w: "\<lparr>wb_header = ?h, wb_payload = Some bs\<rparr> = w" using Some by simp
    have "copyData ?d (length bs) (length ?h) = Some bs" using Some by (simp add: copyData_def)
    then show ?thesis
      using assms s d sz Some unfolding readPacketBuffer_def
      by (simp add: w Let_def wb_ok_def discardPayload_def thenReadHeader_def act_defs fun_eq_iff split: option.splits del: message_payload.simps)
  qed
qed

lemma read_config:
  assumes "config_ok p"
  shows "readConfigurationPacket H (message_payload (MsgConfig p)) = thenReadHeader (message_effect role H (MsgConfig p))"
proof -
  let ?d = "config_memory p" and ?n = "length (cp_payload p)"
  have u: "length (ch_unused (cp_header p)) = 2" and n: "le_at 4 4 ?d = ?n"
    using assms by (auto simp: config_ok_def config_memory_parts getPayloadSize_def)
  note parts = config_memory_parts[OF u]
  have d: "16 \<le> length ?d" "of_le (take 1 ?d) = 16" "take 16 ?d @ cp_payload p = ?d"
    using parts assms append_take_drop_id[of 16 ?d] by (simp_all add: le_at_def config_ok_def sizeof_ConfigPacketHeader_def)
  have c: "copyData ?d ?n 16 = Some (cp_payload p)" using parts by (simp add: copyData_def)
  have z: "take 16 ?d = ?d" if "cp_payload p = []" using parts that by simp
  show ?thesis
    using d c n z config_memory_roundtrip[OF assms] parts unfolding readConfigurationPacket_def
    by (auto simp: Let_def le_at_take discardPayload_def thenReadHeader_def act_defs fun_eq_iff split: option.splits)
qed

lemma changeSubscription_ends:
  "changeSubscription H lookup change i s sub = thenReadHeader (act_bind (changeSubscription H lookup change i s sub) (\<lambda>_. act_return ()))"
  by (auto simp: changeSubscription_def thenReadHeader_def act_defs fun_eq_iff split: sum.splits prod.splits native_exn.splits)

lemma payload_message:
  assumes "message_ok role m" and "\<not> header_only role m"
  shows "callReader role H (message_reader role m) (message_payload m) = thenReadHeader (message_effect role H m)"
proof (cases m)
  case (MsgPacket w)
  then show ?thesis using assms read_packet[of w H] by simp
next
  case (MsgAvailable i s j)
  then show ?thesis using assms read_available[of s H i j] by simp
next
  case (MsgConfig p)
  then show ?thesis using assms read_config[of p H] by simp
next
  case (MsgProperties s)
  then show ?thesis
    by (cases role) (auto simp: readTransportLayerProperties_def getStringFromData_def discardPayload_def thenReadHeader_def
        act_defs fun_eq_iff split: option.splits)
next
  case (MsgSubscribe i s)
  then show ?thesis
    using changeSubscription_ends[of H]
    by (auto simp: readSignalSubscribe_def readIdAndString_eq discardPayload_def thenReadHeader_def act_return_def
        act_bind_def fun_eq_iff split: option.splits)
next
  case (MsgUnsubscribe i s)
  then show ?thesis
    using changeSubscription_ends[of H]
    by (auto simp: readSignalUnsubscribe_def readIdAndString_eq discardPayload_def thenReadHeader_def act_return_def
        act_bind_def fun_eq_iff split: option.splits)
qed (use assms in \<open>auto simp: readSignalUnavailable_def readSignalSubscribedAck_def readSignalUnsubscribedAck_def
      readIdAndString_eq discardPayload_def thenReadHeader_def act_defs fun_eq_iff split: option.splits\<close>)

lemma payload_nonempty: "message_ok role m \<Longrightarrow> \<not> header_only role m \<Longrightarrow> message_payload m \<noteq> []"
  by (cases m; cases role) (auto simp: wb_ok_def config_memory_def Let_def bytes_of_string_def)

subsection \<open>Reading a stream of messages\<close>

text \<open>The session either delivers the whole stream or a callback throws before.\<close>

definition all_read :: "(native_exn + ReadTask) \<times> 'e \<Rightarrow> byte list \<Rightarrow> bool" where
  "all_read r rest \<longleftrightarrow> rest = [] \<or> (\<exists>x. fst r = Inl x)"

lemma session_block:
  assumes "well_served role H (ReadTask r n) cs e" and "concat cs @ rest = block @ tl_bytes" and "length block = unat n"
    and "block \<noteq> []" and "all_read (session_run role H (ReadTask r n) cs e) rest"
  obtains cs' where "cs = block # cs'" and "concat cs' @ rest = tl_bytes"
proof (cases cs)
  case Nil
  then show ?thesis using assms(2,4,5) by (auto simp: all_read_def)
next
  case (Cons c cs')
  then have "length c = length block" using assms(1,3) by simp
  then have "c = block" "concat cs' @ rest = tl_bytes" using assms(2) Cons by auto
  then show ?thesis using that Cons by blast
qed

lemma act_bind_thenReadHeader:
  "act_bind (thenReadHeader m) f = act_bind m (\<lambda>_. f createReadHeaderTask)"
  by (auto simp: thenReadHeader_def act_defs fun_eq_iff split: sum.splits prod.splits)

lemma act_bind_return [simp]: "act_bind (act_return x) f = f x"
  by (simp add: act_defs fun_eq_iff)

lemma act_bind_assoc: "act_bind (act_bind m f) g = act_bind m (\<lambda>x. act_bind (f x) g)"
  by (auto simp: act_defs fun_eq_iff split: sum.splits prod.splits)

lemma PACKED_HEADER_SIZE_4 [simp]: "unat PACKED_HEADER_SIZE = 4"
  by (simp add: PACKED_HEADER_SIZE_def)

lemma session_delivers:
  assumes "\<And>m. m \<in> set ms \<Longrightarrow> message_ok role m \<and> message_fits m"
    and "well_served role H createReadHeaderTask cs e" and "concat cs @ rest = concat (map message_bytes ms)"
    and "all_read (session_run role H createReadHeaderTask cs e) rest"
  shows "session_run role H createReadHeaderTask cs e = thenReadHeader (deliver_all role H ms) e"
  using assms
proof (induction ms arbitrary: cs e)
  case Nil
  then show ?case
    by (cases cs) (auto simp: createReadHeaderTask_def thenReadHeader_def act_defs)
next
  case (Cons m ms)
  let ?h = "createWriteHeaderTask (message_type m) (of_nat (length (message_payload m)))"
  let ?tail = "concat (map message_bytes ms)"
  have ok: "message_ok role m" "message_fits m" using Cons.prems(1) by auto
  have IH: "session_run role H createReadHeaderTask cs' e' = thenReadHeader (deliver_all role H ms) e'"
    if "well_served role H createReadHeaderTask cs' e'" "concat cs' @ rest = ?tail"
      "all_read (session_run role H createReadHeaderTask cs' e') rest" for cs' e'
    using Cons.IH[OF _ that] Cons.prems(1) by simp
  have eq: "concat cs @ rest = ?h @ (message_payload m @ ?tail)"
    using Cons.prems(3) by (simp add: message_bytes_def[of m])
  obtain cs1 where cs: "cs = ?h # cs1" and rest: "concat cs1 @ rest = message_payload m @ ?tail"
    using session_block[OF Cons.prems(2)[unfolded createReadHeaderTask_def] eq _ _
        Cons.prems(4)[unfolded createReadHeaderTask_def]] length_header_task
    by (metis PACKED_HEADER_SIZE_4 list.size(3) zero_neq_numeral)
  have after: "act_bind (message_effect role H m) (\<lambda>_. session_run role H createReadHeaderTask cs') e' =
      thenReadHeader (deliver_all role H (m # ms)) e'"
    if w: "case thenReadHeader (message_effect role H m) e' of (Inl _, _) \<Rightarrow> cs' = []
         | (Inr t, e'') \<Rightarrow> well_served role H t cs' e''"
      and c: "concat cs' @ rest = ?tail"
      and a: "all_read (act_bind (message_effect role H m) (\<lambda>_. session_run role H createReadHeaderTask cs') e') rest" for cs' e'
  proof (cases "message_effect role H m e'")
    case (Pair r e'')
    then show ?thesis
      using w a IH[OF _ c, of e'']
      by (cases r) (auto simp: thenReadHeader_def act_defs all_read_def)
  qed
  show ?case
  proof (cases "header_only role m")
    case True
    then have "message_payload m = []" by (cases "(role, m)" rule: header_only.cases) auto
    then show ?thesis
      using True after[of cs1 e] Cons.prems(2,4) rest header_message[OF ok(2,1), of H]
      by (simp add: cs createReadHeaderTask_def[symmetric] act_bind_thenReadHeader)
         (simp add: createReadHeaderTask_def act_bind_thenReadHeader)
  next
    case False
    let ?t = "ReadTask (message_reader role m) (of_nat (length (message_payload m)))"
    have hd: "callReader role H RdHeader ?h = act_return ?t" using header_message[OF ok(2,1), of H] False by simp
    have run: "session_run role H createReadHeaderTask cs e = session_run role H ?t cs1 e"
      "well_served role H ?t cs1 e"
      using Cons.prems(2) hd by (simp_all add: cs createReadHeaderTask_def) (simp add: act_defs)
    obtain cs2 where cs1: "cs1 = message_payload m # cs2" and rest2: "concat cs2 @ rest = ?tail"
      using run Cons.prems(4) rest fits_size(2)[OF ok(2)] payload_nonempty[OF ok(1) False]
      by (elim session_block[where block = "message_payload m"]) auto
    show ?thesis
      using after[of cs2 e] run Cons.prems(4) rest2 payload_message[OF ok(1) False, of H]
      by (simp add: cs1 act_bind_thenReadHeader)
  qed
qed

section \<open>Sending a stream of messages\<close>

datatype 'sig outgoing =
    CallAvailable "32 word" 'sig
  | CallUnavailable "32 word" 'sig
  | CallSubscribe "32 word" string
  | CallUnsubscribe "32 word" string
  | CallSubscribingDone "32 word"
  | CallUnsubscribingDone "32 word"
  | CallConfiguration ConfigPacketBuffer
  | CallProperties string
  | CallInitDone
  | CallInitRequest
  | CallPacket StreamBuffer

fun send_call :: "('e, 'sig, 'props) session_handler \<Rightarrow> byte list \<Rightarrow> 'sig outgoing \<Rightarrow> ('e, unit) act" where
  "send_call S pad (CallAvailable i sg) = sendSignalAvailable S i sg"
| "send_call S pad (CallUnavailable i sg) = sendSignalUnavailable S i sg"
| "send_call S pad (CallSubscribe i s) = sendSignalSubscribe S i s"
| "send_call S pad (CallUnsubscribe i s) = sendSignalUnsubscribe S i s"
| "send_call S pad (CallSubscribingDone i) = sendSubscribingDone S i"
| "send_call S pad (CallUnsubscribingDone i) = sendUnsubscribingDone S i"
| "send_call S pad (CallConfiguration p) = sendConfigurationPacket S p"
| "send_call S pad (CallProperties s) = sendTransportLayerProperties S s"
| "send_call S pad CallInitDone = sendStreamingInitDone S"
| "send_call S pad CallInitRequest = sendStreamingRequest S"
| "send_call S pad (CallPacket b) = sendPacketBuffer S pad b"

primrec send_calls :: "('e, 'sig, 'props) session_handler \<Rightarrow> byte list \<Rightarrow> 'sig outgoing list \<Rightarrow> ('e, unit) act" where
  "send_calls S pad [] = act_return ()"
| "send_calls S pad (c # cs) = act_bind (send_call S pad c) (\<lambda>_. send_calls S pad cs)"

definition buffer_message :: "byte list \<Rightarrow> StreamBuffer \<Rightarrow> message" where
  "buffer_message pad b = MsgPacket \<lparr>
     wb_header = take (unat (hd_size (sb_header b))) (header_memory pad (sb_header b)),
     wb_payload = (if hd_payloadSize (sb_header b) > 0 then Some (copyPayload b) else None)\<rparr>"

fun call_message :: "('e, 'sig, 'props) session_handler \<Rightarrow> byte list \<Rightarrow> 'sig outgoing \<Rightarrow> message" where
  "call_message S pad (CallAvailable i sg) = MsgAvailable i (getGlobalId S sg) (serializeSignal S sg)"
| "call_message S pad (CallUnavailable i sg) = MsgUnavailable i (getGlobalId S sg)"
| "call_message S pad (CallSubscribe i s) = MsgSubscribe i s"
| "call_message S pad (CallUnsubscribe i s) = MsgUnsubscribe i s"
| "call_message S pad (CallSubscribingDone i) = MsgSubscribeAck i"
| "call_message S pad (CallUnsubscribingDone i) = MsgUnsubscribeAck i"
| "call_message S pad (CallConfiguration p) = MsgConfig p"
| "call_message S pad (CallProperties s) = MsgProperties s"
| "call_message S pad CallInitDone = MsgInitDone"
| "call_message S pad CallInitRequest = MsgInitRequest"
| "call_message S pad (CallPacket b) = buffer_message pad b"

text \<open>
  The calls that lead to a message the other side takes: the user may read the signal, a buffer
  is one that a packet server made, and everything is within the limits of the protocol.
\<close>

definition call_ok :: "role \<Rightarrow> ('e, 'sig, 'props) session_handler \<Rightarrow> byte list \<Rightarrow> 'sig outgoing \<Rightarrow> 'e \<Rightarrow> bool" where
  "call_ok role S pad c e = (case c of
     CallPacket b \<Rightarrow> made b \<and> sendable b
   | CallAvailable i sg \<Rightarrow> hasUserAccessToSignal S sg e \<and> message_ok role (call_message S pad c) \<and> message_fits (call_message S pad c)
   | CallUnavailable i sg \<Rightarrow> hasUserAccessToSignal S sg e \<and> message_fits (call_message S pad c)
   | _ \<Rightarrow> message_ok role (call_message S pad c) \<and> message_fits (call_message S pad c))"

lemma foldl_sizes:
  "foldl (\<lambda>r t. r + of_nat (length t)) (of_nat n :: SizeT) tasks = of_nat (n + length (concat tasks))"
  by (induction tasks arbitrary: n) (simp_all add: add.assoc flip: of_nat_add)

lemma calculatePayloadSize_fits:
  "length (concat tasks) < 2 ^ 28 \<Longrightarrow> calculatePayloadSize tasks = Inr (of_nat (length (concat tasks)))"
  using foldl_sizes[of 0 tasks]
  by (simp add: calculatePayloadSize_def word_less_nat_alt MAX_PAYLOAD_SIZE_mask(2) unsigned_of_nat take_bit_nat_eq_self
      not_less)

lemma scheduleMessage_bytes:
  assumes "message_type m = t" and "concat tasks = message_payload m" and "message_fits m"
  shows "\<exists>ts. scheduleMessage S t tasks e = scheduleWrite S ts e \<and> concat ts = message_bytes m"
  using assms calculatePayloadSize_fits[of tasks]
  by (auto simp: scheduleMessage_def message_fits_def message_bytes_def)

lemma wb_ok_buffer:
  assumes "made b" and "sendable b" and "length pad = 4"
  shows "message_ok role (buffer_message pad b)" and "message_fits (buffer_message pad b)"
    and "length (message_payload (buffer_message pad b)) = unat (bufferSize b)"
proof -
  let ?h = "take (unat (hd_size (sb_header b))) (header_memory pad (sb_header b))"
  note hl = header_length[OF assms(1,3)]
  have pl: "length (copyPayload b) = unat (hd_payloadSize (sb_header b))"
    using payload_length[OF assms(1,2)] by (simp add: copyPayload_def)
  have at: "le_at 0 1 ?h = unat (hd_size (sb_header b))" "le_at 8 4 ?h = unat (hd_payloadSize (sb_header b))"
    using hl(2) by (auto simp: le_at_take le_at_header[OF assms(3)] simp del: One_nat_def)
  show "message_ok role (buffer_message pad b)"
    unfolding buffer_message_def message_ok.simps wb_ok_def
    using hl at pl by (auto simp: word_gt_0 unsigned_eq_0_iff simp del: One_nat_def)
  show l: "length (message_payload (buffer_message pad b)) = unat (bufferSize b)"
    using bufferSize_made(1)[OF assms(1,2)] hl(1) pl payload_length[OF assms(1,2)]
    by (auto simp: buffer_message_def word_gt_0)
  show "message_fits (buffer_message pad b)"
    using l bufferSize_made(2)[OF assms(1,2)] by (simp add: message_fits_def word_le_nat_alt MAX_PAYLOAD_SIZE_mask(2))
qed

lemma pushed_tasks:
  assumes "made b" and "sendable b" and "length pad = 4"
  shows "\<exists>ts. createAndPushPacketBufferTasks pad b tasks = Inr (tasks @ ts) \<and> concat ts = message_bytes (buffer_message pad b)"
  using bufferSize_made(2)[OF assms(1,2)] wb_ok_buffer(3)[OF assms]
  by (auto simp: createAndPushPacketBufferTasks_def copyHeadersToBuffer_def Let_def not_less message_bytes_def
      createWriteHeaderTask_def) (simp_all add: buffer_message_def)

lemma config_tasks:
  assumes "config_ok p"
  shows "concat (if getPayloadSize p > 0
     then [take 16 (config_memory p), take (getPayloadSize p) (drop 16 (config_memory p))]
     else [take 16 (config_memory p)]) = config_memory p"
proof -
  have u: "length (ch_unused (cp_header p)) = 2" "getPayloadSize p = length (cp_payload p)"
    using assms by (auto simp: config_ok_def)
  then show ?thesis
    using append_take_drop_id[of 16 "config_memory p"] config_memory_parts(6,7)[OF u(1)] by auto
qed

lemma send_call_bytes:
  assumes "call_ok role S pad c e" and "length pad = 4"
  shows "message_ok role (call_message S pad c)" and "message_fits (call_message S pad c)"
    and "\<exists>ts. send_call S pad c e = scheduleWrite S ts e \<and> concat ts = message_bytes (call_message S pad c)"
proof -
  show "message_ok role (call_message S pad c)" and "message_fits (call_message S pad c)"
    using assms wb_ok_buffer by (auto simp: call_ok_def split: outgoing.splits)
  show "\<exists>ts. send_call S pad c e = scheduleWrite S ts e \<and> concat ts = message_bytes (call_message S pad c)"
  proof (cases c)
    case (CallAvailable i sg)
    have u: "unat (of_nat (length (getGlobalId S sg)) :: 16 word) = length (getGlobalId S sg)"
      using assms by (simp add: CallAvailable call_ok_def unsigned_of_nat take_bit_nat_eq_self)
    show ?thesis
      using assms u scheduleMessage_bytes[of "call_message S pad c" _ "[createWriteNumberTask i,
          createWriteNumberTask (of_nat (length (getGlobalId S sg)) :: 16 word),
          createWriteStringTask (getGlobalId S sg), createWriteStringTask (serializeSignal S sg)]" S]
      by (auto simp: CallAvailable call_ok_def sendSignalAvailable_def Let_def createWriteNumberTask_def createWriteStringTask_def)
  next
    case (CallConfiguration p)
    show ?thesis
      unfolding CallConfiguration send_call.simps sendConfigurationPacket_def call_message.simps
      by (rule scheduleMessage_bytes) (use assms config_tasks[of p] in \<open>auto simp: CallConfiguration call_ok_def\<close>)
  next
    case (CallPacket b)
    show ?thesis
      using assms pushed_tasks[of b pad "[]"] by (auto simp: CallPacket call_ok_def sendPacketBuffer_def)
  next
    case CallInitDone
    show ?thesis by (auto simp: CallInitDone sendStreamingInitDone_def message_bytes_def)
  next
    case CallInitRequest
    show ?thesis by (auto simp: CallInitRequest sendStreamingRequest_def message_bytes_def)
  qed (use assms in \<open>auto simp: call_ok_def sendSignalUnavailable_def sendSignalSubscribe_def sendSignalUnsubscribe_def
      sendSubscribingDone_def sendUnsubscribingDone_def sendTransportLayerProperties_def createWriteNumberTask_def
      createWriteStringTask_def intro!: scheduleMessage_bytes\<close>)
qed

subsection \<open>The session as an interface\<close>

text \<open>
  What the handlers rely on: tasks are written in the order they are scheduled. The environment
  of the writing side is seen through \<open>written\<close>, the bytes handed to the session.
\<close>

locale session_writer =
  fixes S :: "('e, 'sig, 'props) session_handler" and written :: "'e \<Rightarrow> byte list" and pad :: "byte list"
  assumes scheduleWrite_appends: "\<exists>e'. scheduleWrite S ts e = (Inr (), e') \<and> written e' = written e @ concat ts"
    and access_unchanged: "scheduleWrite S ts e = (r, e') \<Longrightarrow> hasUserAccessToSignal S sg e' = hasUserAccessToSignal S sg e"
    and pad_length: "length pad = 4"
begin

lemma send_call_appends:
  assumes "call_ok role S pad c e"
  shows "\<exists>e'. send_call S pad c e = (Inr (), e') \<and> written e' = written e @ message_bytes (call_message S pad c) \<and>
    (\<forall>d. call_ok role S pad d e' = call_ok role S pad d e)"
proof -
  obtain ts where ts: "send_call S pad c e = scheduleWrite S ts e" "concat ts = message_bytes (call_message S pad c)"
    using send_call_bytes(3)[OF assms pad_length] by blast
  obtain e' where e': "scheduleWrite S ts e = (Inr (), e')" "written e' = written e @ concat ts"
    using scheduleWrite_appends by blast
  have "call_ok role S pad d e' = call_ok role S pad d e" for d
    using access_unchanged[OF e'(1)] by (auto simp: call_ok_def split: outgoing.splits)
  then show ?thesis using ts e' by auto
qed

lemma send_calls_append:
  assumes "\<forall>c \<in> set calls. call_ok role S pad c e"
  shows "\<exists>e'. send_calls S pad calls e = (Inr (), e') \<and>
    written e' = written e @ concat (map (\<lambda>c. message_bytes (call_message S pad c)) calls)"
  using assms
proof (induction calls arbitrary: e)
  case Nil
  then show ?case by (simp add: act_defs)
next
  case (Cons c cs)
  have "call_ok role S pad c e" using Cons.prems by simp
  then obtain e1 where "send_call S pad c e = (Inr (), e1)" "written e1 = written e @ message_bytes (call_message S pad c)"
      "\<forall>d. call_ok role S pad d e1 = call_ok role S pad d e"
    using send_call_appends by blast
  moreover have "\<forall>d \<in> set cs. call_ok role S pad d e1" using Cons.prems calculation(3) by simp
  ultimately show ?case using Cons.IH[of e1] by (auto simp: act_bind_def)
qed

lemma messages_arrive:
  assumes "\<forall>c \<in> set calls. call_ok role S pad c e" and "written e = []"
    and "send_calls S pad calls e = (r, e1)"
    and "well_served role H createReadHeaderTask cs e0" and "concat cs @ rest = written e1"
    and "all_read (session_run role H createReadHeaderTask cs e0) rest"
  shows "r = Inr () \<and>
    session_run role H createReadHeaderTask cs e0 = thenReadHeader (deliver_all role H (map (call_message S pad) calls)) e0"
proof -
  have "r = Inr ()" and w: "written e1 = concat (map message_bytes (map (call_message S pad) calls))"
    using send_calls_append[OF assms(1)] assms(2,3) by (auto simp: comp_def)
  moreover have "session_run role H createReadHeaderTask cs e0 = thenReadHeader (deliver_all role H (map (call_message S pad) calls)) e0"
    by (rule session_delivers[OF _ assms(4) _ assms(6)])
       (use assms(1,5) w send_call_bytes(1,2)[of role S pad _ e, OF _ pad_length] in auto)
  ultimately show ?thesis by simp
qed

end

section \<open>Handlers as they are constructed\<close>

text \<open>
  The constructor and the default virtual methods of the base class: no configuration and no
  packet callback, every signal accessible, an empty client id. The signal accessors and the
  session are arguments.
\<close>

definition BaseSessionHandler_init :: "(byte list list \<Rightarrow> ('e, unit) act) \<Rightarrow> ('sig \<Rightarrow> string) \<Rightarrow> ('sig \<Rightarrow> string)
    \<Rightarrow> (string \<Rightarrow> 'props option) \<Rightarrow> (string \<Rightarrow> ('e, unit) act)
    \<Rightarrow> (32 word \<Rightarrow> string \<Rightarrow> string option \<Rightarrow> bool \<Rightarrow> string \<Rightarrow> ('e, unit) act) option
    \<Rightarrow> (32 word \<Rightarrow> bool \<Rightarrow> string \<Rightarrow> ('e, unit) act) option \<Rightarrow> (string \<Rightarrow> ('e, 'sig) act) option
    \<Rightarrow> (32 word \<Rightarrow> 'sig \<Rightarrow> bool \<Rightarrow> string \<Rightarrow> ('e, bool) act) option \<Rightarrow> ('e, 'sig, 'props) session_handler" where
  "BaseSessionHandler_init write globalId serialize deserialize onError onSignal onAck onFind onSubscription =
     \<lparr>configPacketReceivedHandler = None, packetBufferReceivedHandler = None, errorHandler = onError,
      signalReceivedHandler = onSignal, subscriptionAckHandler = onAck, findSignalHandler = onFind,
      signalSubscriptionHandler = onSubscription, streamingInitDoneHandler = act_return (),
      streamingInitHandler = None, transportLayerPropsHandler = None, deserializeProps = deserialize,
      hasUserAccessToSignal = (\<lambda>_ _. True), getClientId = (\<lambda>_. []), getGlobalId = globalId,
      serializeSignal = serialize, scheduleWrite = write\<rparr>"

definition ClientSessionHandler_init :: "('e, unit) act \<Rightarrow> ('e, 'sig, 'props) session_handler \<Rightarrow> ('e, 'sig, 'props) session_handler" where
  "ClientSessionHandler_init onInitDone base = base\<lparr>streamingInitDoneHandler := onInitDone\<rparr>"

text \<open>\<open>mayRead\<close> is the verdict of the permission manager of a signal on the user of the session.\<close>

definition ServerSessionHandler_init :: "('sig \<Rightarrow> 'e \<Rightarrow> bool) \<Rightarrow> ('e \<Rightarrow> string) \<Rightarrow> ('e, 'sig, 'props) session_handler
    \<Rightarrow> ('e, 'sig, 'props) session_handler" where
  "ServerSessionHandler_init mayRead clientId base =
     base\<lparr>transportLayerPropsHandler := None, hasUserAccessToSignal := mayRead, getClientId := clientId\<rparr>"

definition setConfigPacketReceivedHandler where
  "setConfigPacketReceivedHandler cb H = H\<lparr>configPacketReceivedHandler := Some cb\<rparr>"

definition setPacketBufferReceivedHandler where
  "setPacketBufferReceivedHandler cb H = H\<lparr>packetBufferReceivedHandler := Some cb\<rparr>"

definition setTransportLayerPropsHandler where
  "setTransportLayerPropsHandler cb H = H\<lparr>transportLayerPropsHandler := Some cb\<rparr>"

definition setStreamingInitHandler where
  "setStreamingInitHandler cb H = H\<lparr>streamingInitHandler := Some cb\<rparr>"

text \<open>A session that records the tasks it is given satisfies the interface.\<close>

definition record_write :: "byte list list \<Rightarrow> (byte list list, unit) act" where
  "record_write ts e = (Inr (), e @ ts)"

definition recorder :: "('sig \<Rightarrow> string) \<Rightarrow> ('sig \<Rightarrow> string) \<Rightarrow> (byte list list, 'sig, 'props) session_handler" where
  "recorder globalId serialize =
     BaseSessionHandler_init record_write globalId serialize (\<lambda>_. None) (\<lambda>_. act_return ()) None None None None"

interpretation recording: session_writer "recorder globalId serialize" concat "[0, 0, 0, 0]"
  for globalId serialize
  by unfold_locales (auto simp: recorder_def BaseSessionHandler_init_def record_write_def)

text \<open>C16: Messages arrive as they were sent. If a session handler makes any sequence of send calls
  within the limits of the protocol, none of them throws, and the handler on the other side,
  given the written bytes in blocks of the sizes it asks for, makes exactly the callbacks that
  belong to the sent messages, in the same order and with the same ids, strings, configuration
  packets and packet buffers; it ends waiting for the next header or with the exception of a
  callback.\<close>

theorem native_messages_arrive:
  assumes "\<And>ts e. scheduleWrite S ts e = (Inr (), e @ ts)"
    and "\<And>sg e e'. hasUserAccessToSignal S sg e = hasUserAccessToSignal S sg e'"
    and "length pad = 4" and "\<forall>c \<in> set calls. call_ok role S pad c []"
    and "send_calls S pad calls [] = (r, tasks)"
    and "well_served role H createReadHeaderTask blocks e" and "concat blocks @ rest = concat tasks"
    and "all_read (session_run role H createReadHeaderTask blocks e) rest"
  shows "r = Inr () \<and>
    session_run role H createReadHeaderTask blocks e =
      thenReadHeader (deliver_all role H (map (call_message S pad) calls)) e"
proof -
  have "session_writer S concat pad"
    by (rule session_writer.intro) (simp add: assms(1), rule assms(2), rule assms(3))
  from session_writer.messages_arrive[OF this, of calls role "[]" r tasks H blocks e rest] assms(4-8)
  show ?thesis by simp
qed

text \<open>A server that writes down what it is called with.\<close>

definition ex_receiver :: "(message list, string, unit) session_handler" where
  "ex_receiver = setStreamingInitHandler (\<lambda>e. (Inr (), e @ [MsgInitRequest]))
     (ServerSessionHandler_init (\<lambda>_ _. True) (\<lambda>_. ''c'')
       (BaseSessionHandler_init (\<lambda>_. act_return ()) id id (\<lambda>_. None) (\<lambda>_. act_return ())
         (Some (\<lambda>i s j a cl e. (Inr (), e @ [case j of Some x \<Rightarrow> MsgAvailable i s x | None \<Rightarrow> MsgUnavailable i s])))
         None (Some (\<lambda>s e. (Inr s, e))) (Some (\<lambda>i s sub cl e. (Inr True, e @ [if sub then MsgSubscribe i s else MsgUnsubscribe i s])))))"

definition ex_calls :: "string outgoing list" where
  "ex_calls = [CallInitRequest, CallSubscribe 5 ''ab'']"

definition ex_blocks :: "byte list list" where
  "ex_blocks = [[0, 0, 0, 176], [6, 0, 0, 64], [5, 0, 0, 0, 97, 98]]"

theorem native_messages_arrive_witness:
  "session_run ServerSide ex_receiver createReadHeaderTask ex_blocks [] =
     (Inr createReadHeaderTask, [MsgInitRequest, MsgSubscribe 5 ''ab''])"
proof -
  let ?S = "recorder id id :: (byte list list, string, unit) session_handler" and ?pad = "[0, 0, 0, 0]"
  have ok: "\<forall>c \<in> set ex_calls. call_ok ServerSide ?S ?pad c []"
    by (simp add: ex_calls_def call_ok_def recorder_def BaseSessionHandler_init_def message_fits_def)
  have sent: "fst (send_calls ?S ?pad ex_calls []) = Inr ()"
    "concat (snd (send_calls ?S ?pad ex_calls [])) = concat ex_blocks" by code_simp+
  have served: "well_served ServerSide ex_receiver createReadHeaderTask ex_blocks []" by code_simp
  have effect: "thenReadHeader (deliver_all ServerSide ex_receiver (map (call_message ?S ?pad) ex_calls)) [] =
      (Inr createReadHeaderTask, [MsgInitRequest, MsgSubscribe 5 ''ab''])" by code_simp
  obtain tasks where "send_calls ?S ?pad ex_calls [] = (Inr (), tasks)" "concat tasks = concat ex_blocks"
    using sent by (metis prod.collapse)
  with native_messages_arrive[of ?S ?pad ex_calls ServerSide "Inr ()" tasks ex_receiver ex_blocks "[]" "[]"] ok served effect
  show ?thesis by (simp add: recorder_def BaseSessionHandler_init_def record_write_def all_read_def)
qed

end
