(* ===== verification/WriteTasks.thy ===== *)
theory WriteTasks
  imports NativeSession
begin

text \<open>
  How the streaming manager (\<^verbatim>\<open>streaming_manager.cpp\<close>) turns the queue of a packet streaming server
  into write tasks: a group of cacheable buffers is copied into one linear block, any other
  buffer is written as a block for the headers and a block for the payload. The time stamps of
  the buffers are not modelled.
\<close>

section \<open>Write tasks\<close>

definition managerCachingAssertion :: "string \<Rightarrow> native_exn" where
  "managerCachingAssertion condition = NativeStreamingProtocolException (''Linear caching failure: '' @ condition)"

text \<open>\<^verbatim>\<open>memcpy\<close> into the linear block.\<close>

definition write_at :: "byte list \<Rightarrow> SizeT \<Rightarrow> byte list \<Rightarrow> byte list" where
  "write_at buf pos bs = take (unat pos) buf @ bs @ drop (unat pos + length bs) buf"

definition packetMessageSize :: "StreamBuffer \<Rightarrow> SizeT" where
  "packetMessageSize b = PACKED_HEADER_SIZE + ucast (hd_size (sb_header b)) + ucast (hd_payloadSize (sb_header b))"

fun cacheBuffers :: "byte list \<Rightarrow> SizeT \<Rightarrow> SizeT \<Rightarrow> nat \<Rightarrow> SizeT \<Rightarrow> byte list \<Rightarrow> PacketStreamingServer
    \<Rightarrow> (native_exn + (SizeT \<times> byte list)) \<times> PacketStreamingServer" where
  "cacheBuffers pad groupId linearSize 0 pos buf s = (Inr (pos, buf), s)"
| "cacheBuffers pad groupId linearSize (Suc n) pos buf s =
     (case getNextPacketBuffer s of
        (Inl e, s1) \<Rightarrow> (Inl (OtherException e), s1)
      | (Inr None, s1) \<Rightarrow> (Inl (managerCachingAssertion ''packetBufferPtr == nullptr''), s1)
      | (Inr (Some b), s1) \<Rightarrow>
          if groupId \<noteq> cacheableGroupId b
          then (Inl (managerCachingAssertion ''cacheableGroupId != packetBufferPtr->cacheableGroupId''), s1)
          else if linearSize < pos + packetMessageSize b
          then (Inl (managerCachingAssertion ''linearCacheBufferSize < linearBufferCurPos + packetBufferSize''), s1)
          else (case copyHeadersToBuffer pad b of
                  Inl x \<Rightarrow> (Inl x, s1)
                | Inr headers \<Rightarrow>
                    let psz = hd_payloadSize (sb_header b);
                        buf1 = write_at buf pos headers;
                        pos1 = pos + PACKED_HEADER_SIZE + ucast (hd_size (sb_header b));
                        buf2 = (if psz > 0 then write_at buf1 pos1 (copyPayload b) else buf1)
                    in cacheBuffers pad groupId linearSize n (pos1 + ucast psz) buf2 s1))"

definition cachePacketsToLinearBuffer :: "byte list \<Rightarrow> SizeT \<Rightarrow> PacketStreamingServer
    \<Rightarrow> (native_exn + byte list) \<times> PacketStreamingServer" where
  "cachePacketsToLinearBuffer pad groupId s =
     (let countOfCacheableBuffer = getCountOfCacheableBuffers groupId s;
          sizeOfCacheableBuffers = getSizeOfCacheableBuffers groupId s;
          linearSize = PACKED_HEADER_SIZE * countOfCacheableBuffer + sizeOfCacheableBuffers in
      if getAvailableBuffersCount s < countOfCacheableBuffer
      then (Inl (managerCachingAssertion ''buffersAvailable < countOfCacheableBuffer''), s)
      else (case cacheBuffers pad groupId linearSize (unat countOfCacheableBuffer) 0
                   (replicate (unat linearSize) 0) s of
              (Inl x, s1) \<Rightarrow> (Inl x, s1)
            | (Inr (pos, buf), s1) \<Rightarrow>
                if pos \<noteq> linearSize
                then (Inl (managerCachingAssertion ''linearBufferCurPos != linearCacheBufferSize''), s1)
                else (Inr buf, s1)))"

text \<open>
  The loop takes at least one buffer per round as long as the group counters are right; the fuel
  is the number of rounds and \<open>None\<close> means that it did not suffice.
\<close>

fun getStreamingWriteTasks :: "nat \<Rightarrow> byte list \<Rightarrow> byte list list \<Rightarrow> PacketStreamingServer
    \<Rightarrow> ((native_exn + byte list list) \<times> PacketStreamingServer) option" where
  "getStreamingWriteTasks 0 pad tasks s = None"
| "getStreamingWriteTasks (Suc fuel) pad tasks s =
     (case peekNextPacketBuffer s of
        None \<Rightarrow> Some (Inr tasks, s)
      | Some b \<Rightarrow>
          if isCacheable b
          then (case cachePacketsToLinearBuffer pad (cacheableGroupId b) s of
                  (Inl x, s1) \<Rightarrow> Some (Inl x, s1)
                | (Inr task, s1) \<Rightarrow> getStreamingWriteTasks fuel pad (tasks @ [task]) s1)
          else (case getNextPacketBuffer s of
                  (Inl e, s1) \<Rightarrow> Some (Inl (OtherException e), s1)
                | (Inr None, s1) \<Rightarrow> Some (Inl OutOfRange, s1)
                | (Inr (Some b'), s1) \<Rightarrow>
                    (case createAndPushPacketBufferTasks pad b' tasks of
                       Inl x \<Rightarrow> Some (Inl x, s1)
                     | Inr tasks' \<Rightarrow> getStreamingWriteTasks fuel pad tasks' s1)))"

section \<open>The tasks are the queue\<close>

definition buffer_bytes :: "byte list \<Rightarrow> StreamBuffer \<Rightarrow> byte list" where
  "buffer_bytes pad b = message_bytes (buffer_message pad b)"

text \<open>A server whose queue can be sent.\<close>

definition sv_sendable :: "PacketStreamingServer \<Rightarrow> bool" where
  "sv_sendable s \<longleftrightarrow> sv_ok s \<and> length (sv_queue s) < 2 ^ 31 \<and> (\<forall>b \<in> set (sv_queue s). made b \<and> sendable b)"

lemma sv_sendable_take:
  assumes "sv_sendable s" and "sv_queue s = b # q"
  shows "\<exists>s1. getNextPacketBuffer s = (Inr (Some b), s1) \<and> sv_sendable s1 \<and> sv_queue s1 = q"
proof -
  obtain r s1 where r: "getNextPacketBuffer s = (r, s1)" by fastforce
  show ?thesis
    using sv_ok_take[of s b q] assms by (auto simp: sv_sendable_def r)
qed

lemma buffer_bytes_split:
  assumes "made b" and "sendable b" and "length pad = 4"
  shows "\<exists>headers. copyHeadersToBuffer pad b = Inr headers \<and>
      length headers = 4 + unat (hd_size (sb_header b)) \<and>
      buffer_bytes pad b = headers @ (if hd_payloadSize (sb_header b) > 0 then copyPayload b else [])"
    and "length (copyPayload b) = unat (hd_payloadSize (sb_header b))"
    and "length (buffer_bytes pad b) = 4 + unat (bufferSize b)"
    and "unat (bufferSize b) = unat (hd_size (sb_header b)) + unat (hd_payloadSize (sb_header b))"
proof -
  show "\<exists>headers. copyHeadersToBuffer pad b = Inr headers \<and>
      length headers = 4 + unat (hd_size (sb_header b)) \<and>
      buffer_bytes pad b = headers @ (if hd_payloadSize (sb_header b) > 0 then copyPayload b else [])"
    using bufferSize_made(2)[OF assms(1,2)] header_length(1)[OF assms(1,3)] wb_ok_buffer(3)[OF assms]
    by (auto simp: copyHeadersToBuffer_def Let_def not_less buffer_bytes_def message_bytes_def createWriteHeaderTask_def)
       (simp_all add: buffer_message_def)
  show "length (copyPayload b) = unat (hd_payloadSize (sb_header b))"
    using payload_length[OF assms(1,2)] by (simp add: copyPayload_def)
  show "length (buffer_bytes pad b) = 4 + unat (bufferSize b)"
    using wb_ok_buffer(3)[OF assms] by (simp add: buffer_bytes_def message_bytes_def)
  show "unat (bufferSize b) = unat (hd_size (sb_header b)) + unat (hd_payloadSize (sb_header b))"
    using bufferSize_made(1)[OF assms(1,2)] payload_length[OF assms(1,2)] by simp
qed

lemma write_at_twice:
  assumes "unat q = unat p + length a" and "unat p + length a + length b \<le> length buf"
  shows "write_at (write_at buf p a) q b = write_at buf p (a @ b)"
proof -
  have "a = []" if "length buf \<le> unat p" using assms(2) that by (simp flip: length_0_conv)
  then show ?thesis using assms by (auto simp: write_at_def min_def ac_simps)
qed

lemma unat_message_size:
  assumes "made b" and "sendable b" and "unat pos + 4 + unat (bufferSize b) < 2 ^ 64"
  shows "unat (pos + packetMessageSize b) = unat pos + 4 + unat (bufferSize b)"
    and "unat (pos + PACKED_HEADER_SIZE + ucast (hd_size (sb_header b))) = unat pos + 4 + unat (hd_size (sb_header b))"
    and "pos + PACKED_HEADER_SIZE + ucast (hd_size (sb_header b)) + ucast (hd_payloadSize (sb_header b)) =
      pos + packetMessageSize b"
proof -
  note sz = buffer_bytes_split(4)[OF assms(1,2), of "[0, 0, 0, 0]"]
  have u8: "unat (ucast (hd_size (sb_header b)) :: SizeT) = unat (hd_size (sb_header b))"
    using unsigned_less[of "hd_size (sb_header b)", where ?'a = nat]
    by (simp add: unsigned_ucast_eq take_bit_nat_eq_self)
  show "unat (pos + packetMessageSize b) = unat pos + 4 + unat (bufferSize b)"
    using assms(3) sz u8 by (simp add: packetMessageSize_def unat_word_ariths(1) unat_ucast_up)
  show "unat (pos + PACKED_HEADER_SIZE + ucast (hd_size (sb_header b))) = unat pos + 4 + unat (hd_size (sb_header b))"
    using assms(3) sz u8 by (simp add: unat_word_ariths(1))
qed (simp add: packetMessageSize_def)

lemma cacheBuffers_group:
  assumes "length pad = 4" and "sv_sendable s" and "sv_queue s = bs @ q"
    and "\<forall>b \<in> set bs. cacheableGroupId b = g"
    and "unat pos + length (concat (map (buffer_bytes pad) bs)) \<le> unat linearSize"
    and "length buf = unat linearSize"
  shows "\<exists>pos' s1. cacheBuffers pad g linearSize (length bs) pos buf s =
      (Inr (pos', write_at buf pos (concat (map (buffer_bytes pad) bs))), s1) \<and>
    unat pos' = unat pos + length (concat (map (buffer_bytes pad) bs)) \<and> sv_sendable s1 \<and> sv_queue s1 = q"
  using assms(2-6)
proof (induction bs arbitrary: pos buf s)
  case Nil
  then show ?case by (simp add: write_at_def)
next
  case (Cons b bs)
  let ?rest = "concat (map (buffer_bytes pad) bs)" and ?psz = "hd_payloadSize (sb_header b)"
  have q: "sv_queue s = b # (bs @ q)" using Cons.prems(2) by simp
  then have b: "made b" "sendable b" using Cons.prems(1) by (auto simp: sv_sendable_def)
  obtain s1 where s1: "getNextPacketBuffer s = (Inr (Some b), s1)" "sv_sendable s1" "sv_queue s1 = bs @ q"
    using sv_sendable_take[OF Cons.prems(1) q] by blast
  note split = buffer_bytes_split[OF b assms(1)]
  obtain headers where h: "copyHeadersToBuffer pad b = Inr headers" "length headers = 4 + unat (hd_size (sb_header b))"
      "buffer_bytes pad b = headers @ (if ?psz > 0 then copyPayload b else [])"
    using split(1) by blast
  have fits: "unat pos + 4 + unat (bufferSize b) + length ?rest \<le> unat linearSize"
    using Cons.prems(4) split(3) by simp
  then have lt: "unat pos + 4 + unat (bufferSize b) < 2 ^ 64"
    using unsigned_less[of linearSize, where ?'a = nat] by simp
  let ?pos1 = "pos + PACKED_HEADER_SIZE + ucast (hd_size (sb_header b)) :: SizeT"
  let ?pos2 = "?pos1 + ucast ?psz"
  note u = unat_message_size[OF b lt]
  have u2: "unat ?pos2 = unat pos + 4 + unat (bufferSize b)" unfolding u(3) by (rule u(1))
  have nlt: "\<not> linearSize < pos + packetMessageSize b"
    using u(1) fits by (simp add: word_less_nat_alt)
  let ?buf2 = "if ?psz > 0 then write_at (write_at buf pos headers) ?pos1 (copyPayload b) else write_at buf pos headers"
  have buf2: "?buf2 = write_at buf pos (buffer_bytes pad b)"
    using h(2,3) write_at_twice[of ?pos1 pos headers "copyPayload b" buf] u(2) split(2,4) fits Cons.prems(5) by simp
  have len2: "length (write_at buf pos (buffer_bytes pad b)) = unat linearSize"
    using fits split(3) Cons.prems(5) by (simp add: write_at_def)
  have step: "cacheBuffers pad g linearSize (length (b # bs)) pos buf s =
      cacheBuffers pad g linearSize (length bs) ?pos2 (write_at buf pos (buffer_bytes pad b)) s1"
    using s1(1) h(1) nlt Cons.prems(3) buf2 by (simp add: Let_def)
  have "unat ?pos2 + length ?rest \<le> unat linearSize" using u2 fits by simp
  from Cons.IH[OF s1(2,3) _ this len2] Cons.prems(3)
  obtain pos' s2 where r: "cacheBuffers pad g linearSize (length bs) ?pos2 (write_at buf pos (buffer_bytes pad b)) s1 =
      (Inr (pos', write_at (write_at buf pos (buffer_bytes pad b)) ?pos2 ?rest), s2)"
      "unat pos' = unat ?pos2 + length ?rest" "sv_sendable s2" "sv_queue s2 = q" by auto
  have "write_at (write_at buf pos (buffer_bytes pad b)) ?pos2 ?rest =
      write_at buf pos (concat (map (buffer_bytes pad) (b # bs)))"
    using write_at_twice[of ?pos2 pos "buffer_bytes pad b" ?rest buf] u2 split(3) fits Cons.prems(5) by simp
  then show ?case using step r u2 split(3) by simp
qed

lemma unat_sum_sizes_exact:
  "length bs < 2 ^ 31 \<Longrightarrow> unat (sum_list (map bufferSize bs)) = sum_list (map (\<lambda>b. unat (bufferSize b)) bs)"
proof (induction bs)
  case (Cons b bs)
  then show ?case using unat_sum_Cons[of bs b] by simp
qed simp

lemma group_counts:
  assumes "sv_sendable s"
  shows "getCountOfCacheableBuffers g s = of_nat (length (groupBuffers g (sv_queue s)))"
    and "getSizeOfCacheableBuffers g s = sum_list (map bufferSize (groupBuffers g (sv_queue s)))"
  using assms
  by (auto simp: sv_sendable_def sv_ok_def getCountOfCacheableBuffers_def getSizeOfCacheableBuffers_def groupEntry_def Let_def)

lemma linear_size:
  assumes "length pad = 4" and "length bs < 2 ^ 31" and "\<forall>b \<in> set bs. made b \<and> sendable b"
  shows "unat (PACKED_HEADER_SIZE * of_nat (length bs) + sum_list (map bufferSize bs)) =
    length (concat (map (buffer_bytes pad) bs))"
proof -
  have "length (concat (map (buffer_bytes pad) bs)) = 4 * length bs + sum_list (map (\<lambda>b. unat (bufferSize b)) bs)"
    using assms(3) by (induction bs) (simp_all add: buffer_bytes_split(3)[OF _ _ assms(1)])
  moreover have n: "unat (of_nat (length bs) :: SizeT) = length bs"
    using assms(2) by (simp add: unsigned_of_nat take_bit_nat_eq_self)
  moreover have "length bs * (2 ^ 32 - 1) < 2 ^ 31 * (2 ^ 32 :: nat)"
    using assms(2) by (intro mult_strict_mono) simp_all
  then have "sum_list (map (\<lambda>b. unat (bufferSize b)) bs) < 2 ^ 63"
    using unat_sum_sizes[of bs] unat_sum_sizes_exact[OF assms(2)] assms(2) by simp
  ultimately show ?thesis
    using assms(2) by (simp add: unat_word_ariths(1,2) unat_sum_sizes_exact[OF assms(2)])
qed

lemma cache_group:
  assumes "length pad = 4" and "sv_sendable s" and "sv_queue s = b # q" and "isCacheable b"
  shows "\<exists>bs q' s1. sv_queue s = bs @ q' \<and> bs \<noteq> [] \<and>
    cachePacketsToLinearBuffer pad (cacheableGroupId b) s = (Inr (concat (map (buffer_bytes pad) bs)), s1) \<and>
    sv_sendable s1 \<and> sv_queue s1 = q'"
proof -
  let ?g = "cacheableGroupId b" let ?P = "\<lambda>x. cacheableGroupId x = ?g"
  let ?bs = "takeWhile ?P (sv_queue s)" and ?q = "dropWhile ?P (sv_queue s)"
  have "linear (b # q)" using assms(2) unfolding sv_sendable_def sv_ok_def assms(3) by blast
  then have grp: "groupBuffers ?g (sv_queue s) = ?bs"
    unfolding assms(3) by (rule linear_front[OF _ assms(4)])
  have len: "length ?bs \<le> length (sv_queue s)" "length (sv_queue s) < 2 ^ 31"
    using length_takeWhile_le assms(2) by (auto simp: sv_sendable_def)
  have made: "\<forall>b \<in> set ?bs. made b \<and> sendable b" "\<forall>b \<in> set ?bs. cacheableGroupId b = ?g"
    using assms(2) by (auto simp: sv_sendable_def dest: set_takeWhileD)
  let ?c = "concat (map (buffer_bytes pad) ?bs)"
  let ?L = "PACKED_HEADER_SIZE * of_nat (length ?bs) + sum_list (map bufferSize ?bs)"
  have L: "unat ?L = length ?c" using linear_size[OF assms(1) _ made(1)] len by simp
  obtain pos s1 where r: "cacheBuffers pad ?g ?L (length ?bs) 0 (replicate (unat ?L) 0) s =
      (Inr (pos, write_at (replicate (unat ?L) 0) 0 ?c), s1)" "unat pos = length ?c" "sv_sendable s1" "sv_queue s1 = ?q"
    using cacheBuffers_group[OF assms(1,2) _ made(2), of ?q 0 ?L "replicate (unat ?L) 0"] L by auto
  have pos: "pos = ?L" using r(2) L by (simp add: word_unat_eq_iff)
  have w: "write_at (replicate (unat ?L) 0) 0 ?c = ?c" using L by (simp add: write_at_def)
  have u: "unat (of_nat (length ?bs) :: SizeT) = length ?bs" "unat (of_nat (length (sv_queue s)) :: SizeT) = length (sv_queue s)"
    using len by (simp_all add: unsigned_of_nat take_bit_nat_eq_self)
  have "cachePacketsToLinearBuffer pad ?g s = (Inr ?c, s1)"
    unfolding cachePacketsToLinearBuffer_def group_counts[OF assms(2)] grp getAvailableBuffersCount_def Let_def
    using r(1) pos w u len(1) by (simp add: word_less_nat_alt)
  then show ?thesis
    using r(3,4) assms(3) by (intro exI[of _ ?bs] exI[of _ ?q] exI[of _ s1]) (simp add: takeWhile_dropWhile_id)
qed

lemma write_tasks_drain:
  assumes "length pad = 4"
  shows "sv_sendable s \<Longrightarrow> length (sv_queue s) < fuel \<Longrightarrow>
    \<exists>ts s1. getStreamingWriteTasks fuel pad tasks s = Some (Inr (tasks @ ts), s1) \<and>
      concat ts = concat (map (buffer_bytes pad) (sv_queue s)) \<and> sv_sendable s1 \<and> sv_queue s1 = []"
proof (induction fuel arbitrary: tasks s)
  case (Suc fuel)
  show ?case
  proof (cases "sv_queue s")
    case Nil
    then show ?thesis using Suc.prems by (simp add: peekNextPacketBuffer_def)
  next
    case (Cons b q)
    show ?thesis
    proof (cases "isCacheable b")
      case True
      obtain bs q' s1 where g: "sv_queue s = bs @ q'" "bs \<noteq> []"
          "cachePacketsToLinearBuffer pad (cacheableGroupId b) s = (Inr (concat (map (buffer_bytes pad) bs)), s1)"
          "sv_sendable s1" "sv_queue s1 = q'"
        using cache_group[OF assms Suc.prems(1) Cons True] by blast
      then have "length (sv_queue s1) < fuel" using Suc.prems(2) by (cases bs) auto
      from Suc.IH[OF g(4) this, of "tasks @ [concat (map (buffer_bytes pad) bs)]"]
      obtain ts s2 where r: "getStreamingWriteTasks fuel pad (tasks @ [concat (map (buffer_bytes pad) bs)]) s1 =
          Some (Inr ((tasks @ [concat (map (buffer_bytes pad) bs)]) @ ts), s2)"
          "concat ts = concat (map (buffer_bytes pad) q')" "sv_sendable s2" "sv_queue s2 = []" using g(5) by blast
      have "getStreamingWriteTasks (Suc fuel) pad tasks s =
          getStreamingWriteTasks fuel pad (tasks @ [concat (map (buffer_bytes pad) bs)]) s1"
        using Cons True g(3) by (simp add: peekNextPacketBuffer_def)
      then show ?thesis using r g(1)
        by (intro exI[of _ "concat (map (buffer_bytes pad) bs) # ts"] exI[of _ s2]) simp
    next
      case False
      obtain s1 where s1: "getNextPacketBuffer s = (Inr (Some b), s1)" "sv_sendable s1" "sv_queue s1 = q"
        using sv_sendable_take[OF Suc.prems(1) Cons] by blast
      have "made b" "sendable b" using Suc.prems(1) Cons by (auto simp: sv_sendable_def)
      then obtain ts where "createAndPushPacketBufferTasks pad b tasks = Inr (tasks @ ts)" "concat ts = buffer_bytes pad b"
        using pushed_tasks[OF _ _ assms] by (metis buffer_bytes_def)
      moreover have "length (sv_queue s1) < fuel" using Suc.prems(2) Cons s1(3) by simp
      from Suc.IH[OF s1(2) this, of "tasks @ ts"]
      obtain ts' s2 where "getStreamingWriteTasks fuel pad (tasks @ ts) s1 = Some (Inr ((tasks @ ts) @ ts'), s2)"
          "concat ts' = concat (map (buffer_bytes pad) q)" "sv_sendable s2" "sv_queue s2 = []" using s1(3) by blast
      ultimately show ?thesis using Cons False s1
        by (intro exI[of _ "ts @ ts'"] exI[of _ s2]) (simp add: peekNextPacketBuffer_def)
    qed
  qed
qed simp

lemma srv_reach_sendable:
  assumes "srv_reach ser payloadMax threshold s" and "unat payloadMax + 48 < 2 ^ 32" and "srv_fits s"
    and "\<forall>b \<in> set (sv_queue s). sendable b"
  shows "sv_sendable s"
  using srv_reach_inv[OF assms(1,2)] srv_reach_all_made[OF assms(1)] assms(3,4)
  by (auto simp: sv_sendable_def sv_inv_def srv_fits_def all_made_def)

text \<open>C12: The write tasks that the streaming manager makes of the queue of a packet streaming
  server carry the queue: in every reachable state whose buffers fit into messages, the loop over
  the queue ends without a linear caching failure, empties the queue, and when the bytes of its
  tasks reach a client session handler in the blocks that it asks for, the packet buffers handed
  to the client are the buffers of the queue, in order, each with its header and payload.\<close>

theorem write_tasks_carry_queue:
  assumes "srv_reach ser payloadMax threshold s" and "unat payloadMax + 48 < 2 ^ 32" and "srv_fits s"
    and "\<forall>b \<in> set (sv_queue s). sendable b" and "length pad = 4" and "length (sv_queue s) < fuel"
    and "packetBufferReceivedHandler H = Some (\<lambda>w (e :: StreamBuffer option list). (Inr (), e @ [received w]))"
  shows "\<exists>tasks s'. getStreamingWriteTasks fuel pad [] s = Some (Inr tasks, s') \<and> sv_queue s' = [] \<and>
    (\<forall>blocks. well_served ClientSide H createReadHeaderTask blocks [] \<and> concat blocks = concat tasks \<longrightarrow>
      session_run ClientSide H createReadHeaderTask blocks [] =
        (Inr createReadHeaderTask, map (\<lambda>b. Some (wire_view b)) (sv_queue s)))"
proof -
  have ok: "sv_sendable s" by (rule srv_reach_sendable[OF assms(1-4)])
  have bb: "buffer_bytes pad = (\<lambda>b. message_bytes (buffer_message pad b))" by (simp add: fun_eq_iff buffer_bytes_def)
  obtain tasks s' where t: "getStreamingWriteTasks fuel pad [] s = Some (Inr tasks, s')" "sv_queue s' = []"
      "concat tasks = concat (map message_bytes (map (buffer_message pad) (sv_queue s)))"
    using write_tasks_drain[OF assms(5) ok assms(6), of "[]"]
    by (auto simp: bb comp_def)
  have good: "message_ok ClientSide m \<and> message_fits m" if "m \<in> set (map (buffer_message pad) (sv_queue s))" for m
    using that ok wb_ok_buffer(1,2)[OF _ _ assms(5)] by (auto simp: sv_sendable_def)
  have "\<forall>b \<in> set q. made b \<and> sendable b \<Longrightarrow>
      deliver_all ClientSide H (map (buffer_message pad) q) e = (Inr (), e @ map (\<lambda>b. Some (wire_view b)) q)" for q e
    using received_copy[OF _ _ assms(5)]
    by (induction q arbitrary: e) (auto simp: act_defs buffer_message_def assms(7))
  then have "thenReadHeader (deliver_all ClientSide H (map (buffer_message pad) (sv_queue s))) [] =
      (Inr createReadHeaderTask, map (\<lambda>b. Some (wire_view b)) (sv_queue s))"
    using ok by (simp add: sv_sendable_def thenReadHeader_def act_defs)
  then show ?thesis
    using t session_delivers[OF good, where ms = "map (buffer_message pad) (sv_queue s)" and H = H and e = "[]" and rest = "[]"] by (auto simp: all_read_def)
qed

definition ex_collector :: "(StreamBuffer option list, unit, unit) session_handler" where
  "ex_collector = setPacketBufferReceivedHandler (\<lambda>w e. (Inr (), e @ [received w]))
     (BaseSessionHandler_init (\<lambda>_. act_return ()) (\<lambda>_. []) (\<lambda>_. []) (\<lambda>_. None) (\<lambda>_. act_return ()) None None None None)"

definition ex_wire :: "byte list list" where
  "ex_wire = [[14, 0, 0, 16], [12, 0, 0, 0, 7, 0, 0, 0, 2, 0, 0, 0, 101, 0]]"

theorem write_tasks_carry_queue_witness:
  "length (sv_queue ex_server) = 1 \<and>
   session_run ClientSide ex_collector createReadHeaderTask ex_wire [] =
     (Inr createReadHeaderTask, map (\<lambda>b. Some (wire_view b)) (sv_queue ex_server))"
proof -
  have i: "srv_fits (PacketStreamingServer_init 100 10)" by (simp add: srv_fits_def PacketStreamingServer_init_def)
  have r: "srv_reach ep_eventId 100 10 ex_server"
    unfolding ex_server_def by (rule srv_step[OF srv_init i])
  have e: "length (sv_queue ex_server) = 1" "currentCacheablePacketGroupId ex_server = 1"
    "list_all (\<lambda>b. sb_payload b = TextPayload ''e'') (sv_queue ex_server)" by code_simp+
  have fits: "srv_fits ex_server" using e by (simp add: srv_fits_def)
  have send: "\<forall>b \<in> set (sv_queue ex_server). sendable b"
    using e(3) by (auto simp: list_all_iff sendable_def payload_memory_def)
  have tasks: "map_option (\<lambda>r. case fst r of Inr ts \<Rightarrow> concat ts | _ \<Rightarrow> []) (getStreamingWriteTasks 2 [0, 0, 0, 0] [] ex_server) =
      Some (concat ex_wire)" by code_simp
  have served: "well_served ClientSide ex_collector createReadHeaderTask ex_wire []" by code_simp
  have h: "packetBufferReceivedHandler ex_collector = Some (\<lambda>w e. (Inr (), e @ [received w]))"
    by (simp add: ex_collector_def setPacketBufferReceivedHandler_def)
  show ?thesis
    using write_tasks_carry_queue[OF r _ fits send _ _ h, of "[0, 0, 0, 0]" 2] e(1) tasks served by auto
qed

end
