(* ===== verification/StreamingManager.thy ===== *)
theory StreamingManager
  imports WriteTasks
begin

text \<open>
  The streaming manager of the native streaming server (\<^verbatim>\<open>streaming_manager.cpp\<close>): which signals
  and clients are registered, who subscribed to what, and the packet streaming server and client
  of every registered client.

  Hash maps and hash sets are ordered here by insertion; where the code iterates over one, the
  order is not specified. A packet server is reached through a shared pointer that no other
  component keeps, so it is a value in the manager. The reference count that a moved packet has
  when a server looks at it is an argument, by client. The mutex makes every operation atomic.
  Callbacks act on an environment of their own.
\<close>

section \<open>The manager\<close>

record 'sig RegisteredServerSignal =
  daqSignal :: 'sig
  numericId :: "32 word"
  subscribedClientsIds :: "string list"
  lastDataDescriptorParam :: "descriptor option"
  lastDomainDescriptorParam :: "descriptor option"

record RegisteredClientSignal =
  cs_signalStringId :: string
  cs_signalNumericId :: "32 word"
  cs_clientId :: string

record 'sig StreamingManager =
  signalNumericIdCounter :: "32 word"
  registeredSignals :: "(string, 'sig RegisteredServerSignal) omap"
  packetStreamingServers :: "(string, PacketStreamingServer) omap"
  streamingClientsIds :: "string list"
  packetStreamingClients :: "(string, PacketStreamingClient) omap"
  registeredClientSignals :: "(string, RegisteredClientSignal) omap"

definition StreamingManager_init :: "'sig StreamingManager" where
  "StreamingManager_init = \<lparr>signalNumericIdCounter = 0, registeredSignals = [], packetStreamingServers = [],
     streamingClientsIds = [], packetStreamingClients = [], registeredClientSignals = []\<rparr>"

definition RegisteredServerSignal_init :: "'sig \<Rightarrow> 32 word \<Rightarrow> 'sig RegisteredServerSignal" where
  "RegisteredServerSignal_init signal i = \<lparr>daqSignal = signal, numericId = i, subscribedClientsIds = [],
     lastDataDescriptorParam = None, lastDomainDescriptorParam = None\<rparr>"

text \<open>Of an exception message only the part that does not depend on the arguments.\<close>

definition notRegistered :: "string \<Rightarrow> native_exn" where
  "notRegistered what = NativeStreamingProtocolException (what @ '' - signal is not registered in streaming'')"

section \<open>Signals\<close>

definition registerSignal :: "('sig \<Rightarrow> string) \<Rightarrow> 'sig \<Rightarrow> ('sig StreamingManager, 32 word) act" where
  "registerSignal globalId signal m =
     (let sid = globalId signal in
      if om_has (registeredSignals m) sid
      then (Inl (NativeStreamingProtocolException ''Signal is already registered''), m)
      else let i = signalNumericIdCounter m + 1 in
        (Inr i, m\<lparr>signalNumericIdCounter := i,
                  registeredSignals := om_insert sid (RegisteredServerSignal_init signal i) (registeredSignals m)\<rparr>))"

definition removeSignal :: "('sig \<Rightarrow> string) \<Rightarrow> 'sig \<Rightarrow> ('sig StreamingManager, unit) act" where
  "removeSignal globalId signal m =
     (if om_has (registeredSignals m) (globalId signal)
      then (Inr (), m\<lparr>registeredSignals := om_erase (globalId signal) (registeredSignals m)\<rparr>)
      else (Inl (notRegistered ''Can't remove''), m))"

definition isSignalSubscribed :: "('sig \<Rightarrow> string) \<Rightarrow> 'sig \<Rightarrow> 'sig StreamingManager \<Rightarrow> native_exn + bool" where
  "isSignalSubscribed globalId signal m =
     (case map_of (registeredSignals m) (globalId signal) of
        Some rs \<Rightarrow> Inr (subscribedClientsIds rs \<noteq> [])
      | None \<Rightarrow> Inl (notRegistered ''Can't check subscriptions''))"

definition findSignalNumericId :: "('sig \<Rightarrow> string) \<Rightarrow> 'sig \<Rightarrow> 'sig StreamingManager \<Rightarrow> native_exn + 32 word" where
  "findSignalNumericId globalId signal m =
     (case map_of (registeredSignals m) (globalId signal) of
        Some rs \<Rightarrow> Inr (numericId rs) | None \<Rightarrow> Inl (notRegistered ''Can't find numeric ID''))"

definition findRegisteredSignal :: "string \<Rightarrow> 'sig StreamingManager \<Rightarrow> native_exn + 'sig" where
  "findRegisteredSignal sid m =
     (case map_of (registeredSignals m) sid of
        Some rs \<Rightarrow> Inr (daqSignal rs) | None \<Rightarrow> Inl (notRegistered ''Can't find openDAQ signal''))"

text \<open>The result is a \<^verbatim>\<open>std::map\<close>: increasing numeric ids, and of equal ids the first one inserted.\<close>

definition getRegisteredSignals :: "'sig StreamingManager \<Rightarrow> (32 word \<times> 'sig) list" where
  "getRegisteredSignals m =
     sort_key fst (foldl (\<lambda>l (sid, rs). om_insert (numericId rs) (daqSignal rs) l) [] (registeredSignals m))"

definition getRegisteredClientsIds :: "'sig StreamingManager \<Rightarrow> string list" where
  "getRegisteredClientsIds m = streamingClientsIds m"

definition getPacketServerIfRegistered :: "string \<Rightarrow> 'sig StreamingManager \<Rightarrow> native_exn + PacketStreamingServer option" where
  "getPacketServerIfRegistered clientId m =
     (if clientId \<in> set (streamingClientsIds m)
      then (case map_of (packetStreamingServers m) clientId of None \<Rightarrow> Inl OutOfRange | Some s \<Rightarrow> Inr (Some s))
      else Inr None)"

section \<open>Clients\<close>

definition registerClient :: "string \<Rightarrow> bool \<Rightarrow> SizeT \<Rightarrow> SizeT \<Rightarrow> ('sig StreamingManager, unit) act" where
  "registerClient clientId reconnected packetStreamingReleaseThreshold cacheableMax m =
     (if clientId \<in> set (streamingClientsIds m)
      then (Inl (NativeStreamingProtocolException ''Client is already registered''), m)
      else
        let servers1 = (if \<not> reconnected then om_erase clientId (packetStreamingServers m) else packetStreamingServers m);
            clients1 = (if \<not> reconnected then om_erase clientId (packetStreamingClients m) else packetStreamingClients m)
        in (Inr (), m\<lparr>streamingClientsIds := streamingClientsIds m @ [clientId],
              packetStreamingServers := om_insert clientId
                (PacketStreamingServer_init cacheableMax packetStreamingReleaseThreshold) servers1,
              packetStreamingClients := om_insert clientId PacketStreamingClient_init clients1\<rparr>))"

definition removeSignalSubscriberNoLock :: "string \<Rightarrow> string \<Rightarrow> ('sig StreamingManager, bool) act" where
  "removeSignalSubscriberNoLock sid clientId m =
     (case map_of (registeredSignals m) sid of
        None \<Rightarrow> (Inl (notRegistered ''Can't remove subscriber''), m)
      | Some rs \<Rightarrow>
          if clientId \<in> set (subscribedClientsIds rs)
          then let subscribers = remove1 clientId (subscribedClientsIds rs) in
            (Inr (subscribers = []),
             m\<lparr>registeredSignals := om_assign sid (rs\<lparr>subscribedClientsIds := subscribers\<rparr>) (registeredSignals m)\<rparr>)
          else (Inr False, m))"

definition removeSignalSubscriber :: "string \<Rightarrow> string \<Rightarrow> ('sig StreamingManager, bool) act" where
  "removeSignalSubscriber sid clientId = removeSignalSubscriberNoLock sid clientId"

text \<open>The loop over the registered signals in \<open>unregisterClient\<close>.\<close>

primrec unsubscribeFromAll :: "string \<Rightarrow> string list \<Rightarrow> ('sig StreamingManager, 'sig list) act" where
  "unsubscribeFromAll clientId [] m = (Inr [], m)"
| "unsubscribeFromAll clientId (sid # sids) m =
     (case removeSignalSubscriberNoLock sid clientId m of
        (Inl x, m1) \<Rightarrow> (Inl x, m1)
      | (Inr wasLast, m1) \<Rightarrow>
          (case unsubscribeFromAll clientId sids m1 of
             (Inl x, m2) \<Rightarrow> (Inl x, m2)
           | (Inr signals, m2) \<Rightarrow>
               (Inr (if wasLast then (case map_of (registeredSignals m1) sid of Some rs \<Rightarrow> [daqSignal rs] | None \<Rightarrow> []) @ signals
                     else signals), m2)))"

definition unregisterClient :: "string \<Rightarrow> ('sig StreamingManager, 'sig list) act" where
  "unregisterClient clientId m =
     (if clientId \<in> set (streamingClientsIds m)
      then unsubscribeFromAll clientId (map fst (registeredSignals m))
             (m\<lparr>streamingClientsIds := remove1 clientId (streamingClientsIds m),
                packetStreamingServers := om_erase clientId (packetStreamingServers m),
                packetStreamingClients := om_erase clientId (packetStreamingClients m)\<rparr>)
      else (Inr [], m))"

section \<open>Packets\<close>

text \<open>Every buffer that is ready goes to the callback.\<close>

lemma getNext_shrinks:
  "getNextPacketBuffer s = (Inr (Some b), s1) \<Longrightarrow> length (sv_queue s1) < length (sv_queue s)"
  by (auto simp: getNextPacketBuffer_def Let_def split: list.splits option.splits prod.splits if_splits)

function drainBuffers :: "(StreamBuffer \<Rightarrow> ('e, unit) act) \<Rightarrow> PacketStreamingServer \<Rightarrow> 'e
    \<Rightarrow> (native_exn + unit) \<times> PacketStreamingServer \<times> 'e" where
  "drainBuffers send s e =
     (case getNextPacketBuffer s of
        (Inl x, s1) \<Rightarrow> (Inl (OtherException x), s1, e)
      | (Inr None, s1) \<Rightarrow> (Inr (), s1, e)
      | (Inr (Some b), s1) \<Rightarrow>
          (case send b e of (Inl x, e1) \<Rightarrow> (Inl x, s1, e1) | (Inr _, e1) \<Rightarrow> drainBuffers send s1 e1))"
  by pat_completeness auto
termination
  by (relation "measure (\<lambda>(send, s, e). length (sv_queue s))") (auto dest: getNext_shrinks[OF sym])

declare drainBuffers.simps [simp del]

type_synonym 'e send_cb = "string \<Rightarrow> StreamBuffer \<Rightarrow> ('e, unit) act"

definition setServer :: "string \<Rightarrow> PacketStreamingServer \<Rightarrow> 'sig StreamingManager \<Rightarrow> 'sig StreamingManager" where
  "setServer clientId s m = m\<lparr>packetStreamingServers := om_assign clientId s (packetStreamingServers m)\<rparr>"

definition pushToPacketStreamingServer :: "(event \<Rightarrow> string) \<Rightarrow> SizeT \<Rightarrow> 32 word \<Rightarrow> stream_packet
    \<Rightarrow> PacketStreamingServer \<Rightarrow> (PacketStreamingServer, unit) outcome" where
  "pushToPacketStreamingServer ser refCount i packet s = addDaqPacketMove ser refCount i packet s"

definition sendDaqPacket :: "(event \<Rightarrow> string) \<Rightarrow> SizeT \<Rightarrow> 'e send_cb \<Rightarrow> string \<Rightarrow> stream_packet \<Rightarrow> 32 word
    \<Rightarrow> ('sig StreamingManager \<times> 'e, unit) act" where
  "sendDaqPacket ser refCount send clientId packet i = (\<lambda>(m, e).
     case map_of (packetStreamingServers m) clientId of
       None \<Rightarrow> (Inl OutOfRange, (m, e))
     | Some s \<Rightarrow>
         (case pushToPacketStreamingServer ser refCount i packet s of
            (Inl x, s1) \<Rightarrow> (Inl (OtherException x), (setServer clientId s1 m, e))
          | (Inr _, s1) \<Rightarrow>
              (case drainBuffers (send clientId) s1 e of (r, s2, e2) \<Rightarrow> (r, (setServer clientId s2 m, e2)))))"

text \<open>The descriptors that a later subscriber is initialised with.\<close>

definition noteDescriptorParams :: "stream_packet \<Rightarrow> 'sig RegisteredServerSignal \<Rightarrow> 'sig RegisteredServerSignal" where
  "noteDescriptorParams packet rs =
     (case packet of
        StreamEvent ev \<Rightarrow>
          if ep_eventId ev = DATA_DESCRIPTOR_CHANGED
          then rs\<lparr>lastDataDescriptorParam := (if ep_dataDescriptor ev \<noteq> None then ep_dataDescriptor ev else lastDataDescriptorParam rs),
                  lastDomainDescriptorParam := (if ep_domainDataDescriptor ev \<noteq> None then ep_domainDataDescriptor ev else lastDomainDescriptorParam rs)\<rparr>
          else rs
      | _ \<Rightarrow> rs)"

primrec sendToClients :: "(event \<Rightarrow> string) \<Rightarrow> (string \<Rightarrow> SizeT) \<Rightarrow> 'e send_cb \<Rightarrow> stream_packet \<Rightarrow> 32 word \<Rightarrow> string list
    \<Rightarrow> ('sig StreamingManager \<times> 'e, unit) act" where
  "sendToClients ser refs send packet i [] = act_return ()"
| "sendToClients ser refs send packet i (c # cs) =
     act_bind (sendDaqPacket ser (refs c) send c packet i) (\<lambda>_. sendToClients ser refs send packet i cs)"

definition sendPacketToSubscribers :: "(event \<Rightarrow> string) \<Rightarrow> (string \<Rightarrow> SizeT) \<Rightarrow> 'e send_cb \<Rightarrow> string \<Rightarrow> stream_packet
    \<Rightarrow> ('sig StreamingManager \<times> 'e, unit) act" where
  "sendPacketToSubscribers ser refs send sid packet = (\<lambda>(m, e).
     case map_of (registeredSignals m) sid of
       None \<Rightarrow> (Inl (notRegistered ''Can't send packet''), (m, e))
     | Some rs \<Rightarrow>
         let m1 = m\<lparr>registeredSignals := om_assign sid (noteDescriptorParams packet rs) (registeredSignals m)\<rparr> in
         sendToClients ser refs send packet (numericId rs) (subscribedClientsIds rs) (m1, e))"

text \<open>In \<open>processPackets\<close> only the last subscriber is given the packet itself.\<close>

definition pushToClient :: "(event \<Rightarrow> string) \<Rightarrow> (string \<Rightarrow> SizeT) \<Rightarrow> bool \<Rightarrow> stream_packet \<Rightarrow> 32 word \<Rightarrow> string
    \<Rightarrow> ('sig StreamingManager, unit) act" where
  "pushToClient ser refs isLast packet i clientId m =
     (case map_of (packetStreamingServers m) clientId of
        None \<Rightarrow> (Inl OutOfRange, m)
      | Some s \<Rightarrow>
          (case (if isLast then pushToPacketStreamingServer ser (refs clientId) i packet s else addDaqPacket ser i packet s) of
             (Inl x, s1) \<Rightarrow> (Inl (OtherException x), setServer clientId s1 m)
           | (Inr _, s1) \<Rightarrow> (Inr (), setServer clientId s1 m)))"

fun pushToClients :: "(event \<Rightarrow> string) \<Rightarrow> (string \<Rightarrow> SizeT) \<Rightarrow> stream_packet \<Rightarrow> 32 word \<Rightarrow> string list
    \<Rightarrow> ('sig StreamingManager, unit) act" where
  "pushToClients ser refs packet i [] = act_return ()"
| "pushToClients ser refs packet i (c # cs) =
     act_bind (pushToClient ser refs (cs = []) packet i c) (\<lambda>_. pushToClients ser refs packet i cs)"

primrec processSignalPackets :: "(event \<Rightarrow> string) \<Rightarrow> (string \<Rightarrow> SizeT) \<Rightarrow> string \<Rightarrow> stream_packet list
    \<Rightarrow> ('sig StreamingManager, unit) act" where
  "processSignalPackets ser refs sid [] = act_return ()"
| "processSignalPackets ser refs sid (p # ps) =
     act_bind (\<lambda>m. case map_of (registeredSignals m) sid of
         None \<Rightarrow> (Inl (notRegistered ''Can't process packet''), m)
       | Some rs \<Rightarrow>
           pushToClients ser refs p (numericId rs) (subscribedClientsIds rs)
             (m\<lparr>registeredSignals := om_assign sid (noteDescriptorParams p rs) (registeredSignals m)\<rparr>))
       (\<lambda>_. processSignalPackets ser refs sid ps)"

text \<open>The packets of a signal are given by index and count in one vector.\<close>

primrec processPackets :: "(event \<Rightarrow> string) \<Rightarrow> (string \<Rightarrow> SizeT) \<Rightarrow> (string \<times> int \<times> int) list \<Rightarrow> stream_packet list
    \<Rightarrow> ('sig StreamingManager, unit) act" where
  "processPackets ser refs [] packets = act_return ()"
| "processPackets ser refs (d # ds) packets =
     act_bind (\<lambda>m. case d of (sid, index, cnt) \<Rightarrow>
         if om_has (registeredSignals m) sid
         then processSignalPackets ser refs sid (map (\<lambda>i. packets ! nat i) [index..index + cnt - 1]) m
         else (Inl (notRegistered ''Can't process packet''), m))
       (\<lambda>_. processPackets ser refs ds packets)"

section \<open>Subscriptions\<close>

definition registerSignalSubscriber :: "(event \<Rightarrow> string) \<Rightarrow> (string \<Rightarrow> SizeT) \<Rightarrow> 'e send_cb \<Rightarrow> string \<Rightarrow> string
    \<Rightarrow> ('sig StreamingManager \<times> 'e, bool) act" where
  "registerSignalSubscriber ser refs send sid clientId = (\<lambda>(m, e).
     case map_of (registeredSignals m) sid of
       None \<Rightarrow> (Inl (notRegistered ''Can't register subscriber''), (m, e))
     | Some rs \<Rightarrow>
         if clientId \<in> set (subscribedClientsIds rs) then (Inr False, (m, e))
         else
           let first = (subscribedClientsIds rs = []);
               add = (\<lambda>m. m\<lparr>registeredSignals := om_assign sid
                        (rs\<lparr>subscribedClientsIds := subscribedClientsIds rs @ [clientId]\<rparr>) (registeredSignals m)\<rparr>)
           in if \<not> first \<and> lastDataDescriptorParam rs \<noteq> None
              then (case sendDaqPacket ser (refs clientId) send clientId
                           (StreamEvent \<lparr>ep_eventId = DATA_DESCRIPTOR_CHANGED, ep_dataDescriptor = lastDataDescriptorParam rs,
                              ep_domainDataDescriptor = lastDomainDescriptorParam rs, ep_gapDiff = None\<rparr>) (numericId rs) (m, e) of
                      (Inl x, (m1, e1)) \<Rightarrow> (Inl x, (m1, e1))
                    | (Inr _, (m1, e1)) \<Rightarrow> (Inr first, (add m1, e1)))
              else (Inr first, (add m, e)))"

section \<open>Signals of clients\<close>

definition registerClientSignal :: "32 word \<Rightarrow> string \<Rightarrow> string \<Rightarrow> 'sig StreamingManager \<Rightarrow> 'sig StreamingManager" where
  "registerClientSignal i sid clientId m =
     m\<lparr>registeredClientSignals := om_insert sid
         \<lparr>cs_signalStringId = sid, cs_signalNumericId = i, cs_clientId = clientId\<rparr> (registeredClientSignals m)\<rparr>"

definition unregisterClientSignal :: "32 word \<Rightarrow> string \<Rightarrow> string \<Rightarrow> 'sig StreamingManager \<Rightarrow> 'sig StreamingManager" where
  "unregisterClientSignal i sid clientId m =
     m\<lparr>registeredClientSignals := om_erase sid (registeredClientSignals m)\<rparr>"

text \<open>The loop erases the signals of the client one by one and calls back for each.\<close>

fun eraseClientSignals :: "string \<Rightarrow> (string \<Rightarrow> ('e, unit) act) \<Rightarrow> (string, RegisteredClientSignal) omap
    \<Rightarrow> (string, RegisteredClientSignal) omap \<Rightarrow> 'e \<Rightarrow> (native_exn + unit) \<times> (string, RegisteredClientSignal) omap \<times> 'e" where
  "eraseClientSignals clientId cb kept [] e = (Inr (), kept, e)"
| "eraseClientSignals clientId cb kept ((sid, rs) # l) e =
     (if cs_clientId rs = clientId
      then (case cb (cs_signalStringId rs) e of
              (Inl x, e1) \<Rightarrow> (Inl x, kept @ (sid, rs) # l, e1)
            | (Inr _, e1) \<Rightarrow> eraseClientSignals clientId cb kept l e1)
      else eraseClientSignals clientId cb (kept @ [(sid, rs)]) l e)"

definition unregisterClientSignals :: "string \<Rightarrow> (string \<Rightarrow> ('e, unit) act) \<Rightarrow> ('sig StreamingManager \<times> 'e, unit) act" where
  "unregisterClientSignals clientId cb = (\<lambda>(m, e).
     case eraseClientSignals clientId cb [] (registeredClientSignals m) e of
       (r, l, e1) \<Rightarrow> (r, (m\<lparr>registeredClientSignals := l\<rparr>, e1)))"

definition findClientSignal :: "string \<Rightarrow> 32 word \<Rightarrow> 'sig StreamingManager \<Rightarrow> RegisteredClientSignal option" where
  "findClientSignal clientId i m =
     map_option snd (find (\<lambda>(sid, rs). cs_clientId rs = clientId \<and> cs_signalNumericId rs = i) (registeredClientSignals m))"

definition handleClientSignalSubscribeAck :: "32 word \<Rightarrow> bool \<Rightarrow> string \<Rightarrow> (string \<Rightarrow> bool \<Rightarrow> ('e, unit) act)
    \<Rightarrow> ('sig StreamingManager \<times> 'e, unit) act" where
  "handleClientSignalSubscribeAck i subscribed clientId cb = (\<lambda>(m, e).
     case findClientSignal clientId i m of
       None \<Rightarrow> (Inr (), (m, e))
     | Some rs \<Rightarrow> (case cb (cs_signalStringId rs) subscribed e of (r, e1) \<Rightarrow> (r, (m, e1))))"

definition doClientSignalSubscription :: "string \<Rightarrow> (32 word \<Rightarrow> string \<Rightarrow> ('e, unit) act)
    \<Rightarrow> ('sig StreamingManager \<times> 'e, unit) act" where
  "doClientSignalSubscription sid cb = (\<lambda>(m, e).
     case map_of (registeredClientSignals m) sid of
       None \<Rightarrow> (Inr (), (m, e))
     | Some rs \<Rightarrow> (case cb (cs_signalNumericId rs) (cs_clientId rs) e of (r, e1) \<Rightarrow> (r, (m, e1))))"

text \<open>
  The packets that a received buffer completes; \<open>None\<close> as in \<open>addPacketBuffer\<close>. A buffer of
  unknown type is ignored by the packet streaming client.
\<close>

fun deliverPackets :: "string \<Rightarrow> (string \<Rightarrow> stream_packet \<Rightarrow> ('e, unit) act) \<Rightarrow> 'sig StreamingManager
    \<Rightarrow> (32 word \<times> stream_packet option) list \<Rightarrow> 'e \<Rightarrow> (native_exn + unit) \<times> (32 word \<times> stream_packet option) list \<times> 'e" where
  "deliverPackets clientId cb m [] e = (Inr (), [], e)"
| "deliverPackets clientId cb m ((i, None) # q) e = (Inr (), q, e)"
| "deliverPackets clientId cb m ((i, Some p) # q) e =
     (case findClientSignal clientId i m of
        None \<Rightarrow> deliverPackets clientId cb m q e
      | Some rs \<Rightarrow>
          (case cb (cs_signalStringId rs) p e of
             (Inl x, e1) \<Rightarrow> (Inl x, q, e1)
           | (Inr _, e1) \<Rightarrow> deliverPackets clientId cb m q e1))"

definition handleReceivedPacketBuffer :: "(string \<Rightarrow> event result) \<Rightarrow> wire_buffer \<Rightarrow> string
    \<Rightarrow> (string \<Rightarrow> stream_packet \<Rightarrow> ('e, unit) act) \<Rightarrow> 'sig StreamingManager \<times> 'e
    \<Rightarrow> ((native_exn + unit) \<times> 'sig StreamingManager \<times> 'e) option" where
  "handleReceivedPacketBuffer deser w clientId cb = (\<lambda>(m, e).
     let setClient = (\<lambda>c. m\<lparr>packetStreamingClients := om_assign clientId c (packetStreamingClients m)\<rparr>) in
     case map_of (packetStreamingClients m) clientId of
       None \<Rightarrow> Some (Inr (), (m, e))
     | Some c \<Rightarrow>
         (case (case received w of None \<Rightarrow> Some (Inr (), c) | Some b \<Rightarrow> addPacketBuffer deser b c) of
            None \<Rightarrow> None
          | Some (Inl x, c1) \<Rightarrow> Some (Inl (OtherException x), (setClient c1, e))
          | Some (Inr _, c1) \<Rightarrow>
              (case deliverPackets clientId cb m (cl_queue c1) e of
                 (r, q, e1) \<Rightarrow> Some (r, (setClient (c1\<lparr>cl_queue := q\<rparr>), e1)))))"

section \<open>Well-formed managers\<close>

definition signal_ok :: "('sig \<Rightarrow> string) \<Rightarrow> 32 word \<Rightarrow> string \<times> 'sig RegisteredServerSignal \<Rightarrow> bool" where
  "signal_ok globalId counter x \<longleftrightarrow> globalId (daqSignal (snd x)) = fst x \<and> distinct (subscribedClientsIds (snd x)) \<and>
     0 < numericId (snd x) \<and> numericId (snd x) \<le> counter"

text \<open>
  Every registered client has exactly one packet server and one packet client, and nobody else
  has; numeric ids are assigned once and never reused while the counter has not wrapped.
\<close>

definition mgr_ok :: "('sig \<Rightarrow> string) \<Rightarrow> 'sig StreamingManager \<Rightarrow> bool" where
  "mgr_ok globalId m \<longleftrightarrow>
     om_ok (registeredSignals m) \<and> om_ok (packetStreamingServers m) \<and> om_ok (packetStreamingClients m) \<and>
     om_ok (registeredClientSignals m) \<and> distinct (streamingClientsIds m) \<and>
     set (map fst (packetStreamingServers m)) = set (streamingClientsIds m) \<and>
     set (map fst (packetStreamingClients m)) = set (streamingClientsIds m) \<and>
     (\<forall>x \<in> set (registeredSignals m). signal_ok globalId (signalNumericIdCounter m) x) \<and>
     distinct (map (numericId \<circ> snd) (registeredSignals m))"

datatype 'sig mgr_op =
    MRegisterSignal 'sig
  | MRemoveSignal 'sig
  | MRegisterClient string bool SizeT SizeT
  | MUnregisterClient string
  | MSubscribe string string
  | MUnsubscribe string string
  | MSendPacket string stream_packet
  | MProcessPackets "(string \<times> int \<times> int) list" "stream_packet list"
  | MWriteTasks string nat
  | MPacketDestructed string Int64
  | MRegisterClientSignal "32 word" string string
  | MUnregisterClientSignal "32 word" string string
  | MUnregisterClientSignals string
  | MReceived wire_buffer string

text \<open>
  Everything that can happen to the manager. Besides its operations: the transport takes the
  write tasks of a client, and a packet that a server waits for dies. A callback may throw.
\<close>

fun mgr_exec :: "(event \<Rightarrow> string) \<Rightarrow> (string \<Rightarrow> event result) \<Rightarrow> (string \<Rightarrow> SizeT) \<Rightarrow> 'e send_cb \<Rightarrow> byte list
    \<Rightarrow> (string \<Rightarrow> ('e, unit) act) \<Rightarrow> (string \<Rightarrow> stream_packet \<Rightarrow> ('e, unit) act) \<Rightarrow> ('sig \<Rightarrow> string) \<Rightarrow> 'sig mgr_op
    \<Rightarrow> 'sig StreamingManager \<times> 'e \<Rightarrow> 'sig StreamingManager \<times> 'e" where
  "mgr_exec ser deser refs send pad gone deliver globalId (MRegisterSignal sg) (m, e) = (snd (registerSignal globalId sg m), e)"
| "mgr_exec ser deser refs send pad gone deliver globalId (MRemoveSignal sg) (m, e) = (snd (removeSignal globalId sg m), e)"
| "mgr_exec ser deser refs send pad gone deliver globalId (MRegisterClient c rec th cm) (m, e) = (snd (registerClient c rec th cm m), e)"
| "mgr_exec ser deser refs send pad gone deliver globalId (MUnregisterClient c) (m, e) = (snd (unregisterClient c m), e)"
| "mgr_exec ser deser refs send pad gone deliver globalId (MSubscribe sid c) (m, e) =
     snd (registerSignalSubscriber ser refs send sid c (m, e))"
| "mgr_exec ser deser refs send pad gone deliver globalId (MUnsubscribe sid c) (m, e) = (snd (removeSignalSubscriber sid c m), e)"
| "mgr_exec ser deser refs send pad gone deliver globalId (MSendPacket sid p) (m, e) =
     snd (sendPacketToSubscribers ser refs send sid p (m, e))"
| "mgr_exec ser deser refs send pad gone deliver globalId (MProcessPackets ds ps) (m, e) =
     (snd (processPackets ser refs ds ps m), e)"
| "mgr_exec ser deser refs send pad gone deliver globalId (MWriteTasks c fuel) (m, e) =
     ((case map_of (packetStreamingServers m) c of
         None \<Rightarrow> m
       | Some s \<Rightarrow> (case getStreamingWriteTasks fuel pad [] s of None \<Rightarrow> m | Some (r, s1) \<Rightarrow> setServer c s1 m)), e)"
| "mgr_exec ser deser refs send pad gone deliver globalId (MPacketDestructed c i) (m, e) =
     ((case map_of (packetStreamingServers m) c of None \<Rightarrow> m | Some s \<Rightarrow> setServer c (packetDestructed i s) m), e)"
| "mgr_exec ser deser refs send pad gone deliver globalId (MRegisterClientSignal i sid c) (m, e) = (registerClientSignal i sid c m, e)"
| "mgr_exec ser deser refs send pad gone deliver globalId (MUnregisterClientSignal i sid c) (m, e) = (unregisterClientSignal i sid c m, e)"
| "mgr_exec ser deser refs send pad gone deliver globalId (MUnregisterClientSignals c) (m, e) =
     snd (unregisterClientSignals c gone (m, e))"
| "mgr_exec ser deser refs send pad gone deliver globalId (MReceived w c) (m, e) =
     (case handleReceivedPacketBuffer deser w c deliver (m, e) of None \<Rightarrow> (m, e) | Some (r, s) \<Rightarrow> s)"

subsection \<open>Every operation keeps a manager well-formed\<close>

lemma keys_om_set [simp]:
  "set (map fst (om_insert k v l)) = insert k (set (map fst l))"
  "set (map fst (om_assign k v l)) = insert k (set (map fst l))"
  "set (map fst (om_erase k l)) = set (map fst l) - {k}"
  unfolding keys_om_insert keys_om_assign keys_om_erase om_has_iff by (auto split: if_splits)

lemma om_assign_map:
  "om_ok l \<Longrightarrow> map_of l k = Some v \<Longrightarrow> om_assign k w l = map (\<lambda>x. if fst x = k then (k, w) else x) l"
proof (induction l)
  case (Cons x l)
  then show ?case
    by (cases x) (auto simp: om_assign_def om_ok_def map_of_eq_None_iff[symmetric] intro!: map_idI[symmetric])
qed simp

lemma map_om_assign:
  assumes "om_ok l" and "map_of l k = Some v" and "f w = f v"
  shows "map (f \<circ> snd) (om_assign k w l) = map (f \<circ> snd) l"
  unfolding om_assign_map[OF assms(1,2)] map_map
proof (rule map_cong[OF refl])
  fix x assume "x \<in> set l"
  then have "map_of l (fst x) = Some (snd x)" using assms(1) by (simp add: om_ok_def)
  then show "((f \<circ> snd) \<circ> (\<lambda>x. if fst x = k then (k, w) else x)) x = (f \<circ> snd) x"
    using assms(2,3) by auto
qed

lemma in_om_assign: "om_ok l \<Longrightarrow> map_of l k = Some v \<Longrightarrow> x \<in> set (om_assign k w l) \<Longrightarrow> x = (k, w) \<or> x \<in> set l"
  by (auto simp: om_assign_map split: if_splits)

lemma mgr_ok_signal:
  assumes "mgr_ok globalId m" and "map_of (registeredSignals m) sid = Some rs"
    and "daqSignal rs' = daqSignal rs" and "numericId rs' = numericId rs" and "distinct (subscribedClientsIds rs')"
  shows "mgr_ok globalId (m\<lparr>registeredSignals := om_assign sid rs' (registeredSignals m)\<rparr>)"
proof -
  have ok: "om_ok (registeredSignals m)" using assms(1) by (simp add: mgr_ok_def)
  have "(sid, rs) \<in> set (registeredSignals m)" using assms(2) by (rule map_of_SomeD)
  then have "signal_ok globalId (signalNumericIdCounter m) (sid, rs')"
    using assms by (fastforce simp: mgr_ok_def signal_ok_def)
  then have "\<forall>x \<in> set (om_assign sid rs' (registeredSignals m)). signal_ok globalId (signalNumericIdCounter m) x"
    using in_om_assign[OF ok assms(2)] assms(1) unfolding mgr_ok_def by blast
  moreover have "map (numericId \<circ> snd) (om_assign sid rs' (registeredSignals m)) = map (numericId \<circ> snd) (registeredSignals m)"
    using map_om_assign[OF ok assms(2), of numericId] assms(4) by simp
  ultimately show ?thesis using assms(1) by (simp add: mgr_ok_def)
qed

lemma mgr_ok_server [simp]:
  "om_has (packetStreamingServers m) c \<Longrightarrow> mgr_ok globalId (setServer c s m) = mgr_ok globalId m"
  by (auto simp: mgr_ok_def setServer_def om_has_iff om_ok_def keys_om_assign)

text \<open>Sending a packet touches the packet servers only.\<close>

definition servers_only :: "'sig StreamingManager \<Rightarrow> 'sig StreamingManager \<Rightarrow> bool" where
  "servers_only m m' \<longleftrightarrow> m' = m\<lparr>packetStreamingServers := packetStreamingServers m'\<rparr> \<and>
     map fst (packetStreamingServers m') = map fst (packetStreamingServers m)"

lemma servers_only_refl [simp]: "servers_only m m"
  by (simp add: servers_only_def)

lemma servers_only_trans: "servers_only m m1 \<Longrightarrow> servers_only m1 m2 \<Longrightarrow> servers_only m m2"
  unfolding servers_only_def by (metis (no_types, lifting) StreamingManager.update_convs(3) StreamingManager.surjective)

lemma servers_only_setServer: "om_has (packetStreamingServers m) c \<Longrightarrow> servers_only m (setServer c s m)"
  by (simp add: servers_only_def setServer_def keys_om_assign)

lemma servers_only_ok: "servers_only m m' \<Longrightarrow> mgr_ok globalId m \<Longrightarrow> mgr_ok globalId m'"
  unfolding servers_only_def mgr_ok_def om_ok_def by (metis (no_types, lifting) StreamingManager.select_convs StreamingManager.update_convs(3) StreamingManager.surjective)


lemma servers_only_signals: "servers_only m m' \<Longrightarrow> registeredSignals m' = registeredSignals m"
  unfolding servers_only_def by (metis StreamingManager.select_convs(2) StreamingManager.surjective StreamingManager.update_convs(3))

lemma sendDaqPacket_servers:
  "sendDaqPacket ser rc send c p i (m, e) = (r, (m', e')) \<Longrightarrow> servers_only m m'"
  unfolding sendDaqPacket_def
  by (auto simp: om_has_def intro!: servers_only_setServer split: option.splits prod.splits sum.splits)

lemma sendToClients_servers:
  "sendToClients ser refs send p i cs (m, e) = (r, (m', e')) \<Longrightarrow> servers_only m m'"
proof (induction cs arbitrary: m e)
  case Nil
  then show ?case by (simp add: act_defs)
next
  case (Cons c cs)
  obtain r1 m1 e1 where s: "sendDaqPacket ser (refs c) send c p i (m, e) = (r1, (m1, e1))" by (metis prod_cases3)
  have "servers_only m1 m'"
    using Cons s by (cases r1) (auto simp: act_bind_def)
  then show ?case using sendDaqPacket_servers[OF s] servers_only_trans by blast
qed

lemma pushToClient_servers: "pushToClient ser refs isLast p i c m = (r, m') \<Longrightarrow> servers_only m m'"
  unfolding pushToClient_def
  by (auto simp: om_has_def intro!: servers_only_setServer split: option.splits prod.splits sum.splits if_splits)

lemma pushToClients_servers: "pushToClients ser refs p i cs m = (r, m') \<Longrightarrow> servers_only m m'"
proof (induction cs arbitrary: m)
  case Nil
  then show ?case by (simp add: act_defs)
next
  case (Cons c cs)
  obtain r1 m1 where s: "pushToClient ser refs (cs = []) p i c m = (r1, m1)" by fastforce
  have "servers_only m1 m'"
    using Cons s by (cases r1) (auto simp: act_bind_def)
  then show ?case using pushToClient_servers[OF s] servers_only_trans by blast
qed

lemma note_keeps [simp]:
  "daqSignal (noteDescriptorParams p rs) = daqSignal rs" "numericId (noteDescriptorParams p rs) = numericId rs"
  "subscribedClientsIds (noteDescriptorParams p rs) = subscribedClientsIds rs"
  by (auto simp: noteDescriptorParams_def split: stream_packet.splits)

lemma mgr_ok_subscribers:
  "mgr_ok globalId m \<Longrightarrow> map_of (registeredSignals m) sid = Some rs \<Longrightarrow> distinct (subscribedClientsIds rs)"
  by (auto simp: mgr_ok_def signal_ok_def dest!: map_of_SomeD)

lemma mgr_ok_note:
  "mgr_ok globalId m \<Longrightarrow> map_of (registeredSignals m) sid = Some rs \<Longrightarrow>
   mgr_ok globalId (m\<lparr>registeredSignals := om_assign sid (noteDescriptorParams p rs) (registeredSignals m)\<rparr>)"
  using mgr_ok_signal[of globalId m sid rs "noteDescriptorParams p rs"] mgr_ok_subscribers[of globalId m sid rs] by simp

lemma mgr_ok_sendPacketToSubscribers:
  assumes "mgr_ok globalId m" and "sendPacketToSubscribers ser refs send sid p (m, e) = (r, (m', e'))"
  shows "mgr_ok globalId m'"
proof (cases "map_of (registeredSignals m) sid")
  case None
  then show ?thesis using assms by (simp add: sendPacketToSubscribers_def)
next
  case (Some rs)
  let ?m1 = "m\<lparr>registeredSignals := om_assign sid (noteDescriptorParams p rs) (registeredSignals m)\<rparr>"
  have "servers_only ?m1 m'"
    using assms(2) Some by (intro sendToClients_servers) (simp add: sendPacketToSubscribers_def Let_def)
  then show ?thesis using servers_only_ok mgr_ok_note[OF assms(1) Some] by blast
qed

lemma mgr_ok_processSignalPackets:
  "mgr_ok globalId m \<Longrightarrow> processSignalPackets ser refs sid ps m = (r, m') \<Longrightarrow> mgr_ok globalId m'"
proof (induction ps arbitrary: m)
  case Nil
  then show ?case by (simp add: act_defs)
next
  case (Cons p ps)
  show ?case
  proof (cases "map_of (registeredSignals m) sid")
    case None
    then show ?thesis using Cons.prems by (simp add: act_bind_def)
  next
    case (Some rs)
    let ?m1 = "m\<lparr>registeredSignals := om_assign sid (noteDescriptorParams p rs) (registeredSignals m)\<rparr>"
    obtain r2 m2 where s: "pushToClients ser refs p (numericId rs) (subscribedClientsIds rs) ?m1 = (r2, m2)" by fastforce
    have ok: "mgr_ok globalId m2"
      using servers_only_ok[OF pushToClients_servers[OF s]] mgr_ok_note[OF Cons.prems(1) Some] by blast
    then show ?thesis using Cons.IH[OF ok] Cons.prems(2) Some s by (cases r2) (auto simp: act_bind_def)
  qed
qed

lemma mgr_ok_processPackets:
  "mgr_ok globalId m \<Longrightarrow> processPackets ser refs ds ps m = (r, m') \<Longrightarrow> mgr_ok globalId m'"
proof (induction ds arbitrary: m)
  case Nil
  then show ?case by (simp add: act_defs)
next
  case (Cons d ds)
  obtain sid idx cnt where d: "d = (sid, idx, cnt)" by (metis prod_cases3)
  show ?case
  proof (cases "om_has (registeredSignals m) sid")
    case True
    obtain r1 m1 where s: "processSignalPackets ser refs sid (map (\<lambda>i. ps ! nat i) [idx..idx + cnt - 1]) m = (r1, m1)" by fastforce
    have ok: "mgr_ok globalId m1" by (rule mgr_ok_processSignalPackets[OF Cons.prems(1) s])
    show ?thesis
      using Cons.IH[OF ok] Cons.prems(2) s True ok by (cases r1) (auto simp: act_bind_def d)
  next
    case False
    then show ?thesis using Cons.prems by (simp add: act_bind_def d)
  qed
qed

lemma mgr_ok_registerSignalSubscriber:
  assumes "mgr_ok globalId m" and "registerSignalSubscriber ser refs send sid c (m, e) = (r, (m', e'))"
  shows "mgr_ok globalId m'"
proof (cases "map_of (registeredSignals m) sid")
  case None
  then show ?thesis using assms by (simp add: registerSignalSubscriber_def)
next
  case (Some rs)
  let ?rs = "rs\<lparr>subscribedClientsIds := subscribedClientsIds rs @ [c]\<rparr>"
  have add: "mgr_ok globalId (m1\<lparr>registeredSignals := om_assign sid ?rs (registeredSignals m1)\<rparr>)"
    if "servers_only m m1" "c \<notin> set (subscribedClientsIds rs)" for m1
    using that servers_only_ok[OF that(1) assms(1)] servers_only_signals[OF that(1)] Some
      mgr_ok_signal[of globalId m1 sid rs ?rs] mgr_ok_subscribers[OF assms(1) Some] by simp
  show ?thesis
  proof (cases "c \<in> set (subscribedClientsIds rs)")
    case True
    then show ?thesis using assms Some by (simp add: registerSignalSubscriber_def)
  next
    case False
    show ?thesis
      using assms Some False add[OF servers_only_refl False] add[OF sendDaqPacket_servers False]
        servers_only_ok[OF sendDaqPacket_servers assms(1)]
      by (auto simp: registerSignalSubscriber_def Let_def split: if_splits prod.splits sum.splits)
  qed
qed

lemma mgr_ok_removeSignalSubscriber:
  "mgr_ok globalId m \<Longrightarrow> removeSignalSubscriberNoLock sid c m = (r, m') \<Longrightarrow> mgr_ok globalId m'"
  using mgr_ok_signal[of globalId m sid] mgr_ok_subscribers[of globalId m sid]
  by (auto simp: removeSignalSubscriberNoLock_def Let_def distinct_remove1 split: option.splits if_splits)

lemma mgr_ok_unsubscribeFromAll:
  "mgr_ok globalId m \<Longrightarrow> unsubscribeFromAll c sids m = (r, m') \<Longrightarrow> mgr_ok globalId m'"
proof (induction sids arbitrary: m r m')
  case (Cons sid sids)
  obtain r1 m1 where s: "removeSignalSubscriberNoLock sid c m = (r1, m1)" by fastforce
  obtain r2 m2 where u: "unsubscribeFromAll c sids m1 = (r2, m2)" by fastforce
  have ok: "mgr_ok globalId m1" by (rule mgr_ok_removeSignalSubscriber[OF Cons.prems(1) s])
  show ?case
    using Cons.IH[OF ok u] ok Cons.prems(2) s u by (auto split: sum.splits)
qed simp

lemma mgr_ok_registerSignal:
  assumes "mgr_ok globalId m" and "signalNumericIdCounter m \<noteq> - 1"
  shows "mgr_ok globalId (snd (registerSignal globalId sg m))"
proof (cases "om_has (registeredSignals m) (globalId sg)")
  case False
  let ?c = "signalNumericIdCounter m"
  have "unat ?c \<noteq> unat (- 1 :: 32 word)" using assms(2) by (simp add: word_unat_eq_iff)
  then have "unat ?c \<noteq> 2 ^ 32 - 1" by (simp add: unsigned_minus_1_eq_mask mask_eq_exp_minus_1)
  then have u: "unat (?c + 1) = unat ?c + 1"
    using unsigned_less[of ?c, where ?'a = nat] by (simp add: unat_word_ariths(1))
  then have lt: "?c < ?c + 1" "0 < ?c + 1" by (simp_all add: word_less_nat_alt)
  have "\<forall>x \<in> set (registeredSignals m). numericId (snd x) \<le> ?c" using assms(1) by (simp add: mgr_ok_def signal_ok_def)
  then have le: "\<forall>x \<in> set (registeredSignals m). numericId (snd x) < ?c + 1" using lt(1) by (auto intro: le_less_trans)
  show ?thesis
    using assms(1) False le lt
    by (fastforce simp: registerSignal_def Let_def mgr_ok_def om_insert_def signal_ok_def RegisteredServerSignal_init_def
        om_ok_def om_has_iff intro: less_imp_le)
qed (simp add: registerSignal_def assms(1))

lemma mgr_ok_removeSignal: "mgr_ok globalId m \<Longrightarrow> mgr_ok globalId (snd (removeSignal globalId sg m))"
proof -
  assume ok: "mgr_ok globalId m"
  have e: "om_erase k l = filter (\<lambda>x. fst x \<noteq> k) l" for k and l :: "(string, 'a RegisteredServerSignal) omap"
    by (simp add: om_erase_def AList.delete_eq case_prod_unfold eq_commute)
  show ?thesis
    using ok by (auto simp: removeSignal_def mgr_ok_def e om_ok_def distinct_map_filter)
qed

lemma mgr_ok_registerClient: "mgr_ok globalId m \<Longrightarrow> mgr_ok globalId (snd (registerClient c rec th cm m))"
  by (auto simp: registerClient_def Let_def mgr_ok_def simp del: set_map)

lemma mgr_ok_unregisterClient: "mgr_ok globalId m \<Longrightarrow> mgr_ok globalId (snd (unregisterClient c m))"
proof (cases "c \<in> set (streamingClientsIds m)")
  case True
  assume ok: "mgr_ok globalId m"
  let ?m = "m\<lparr>streamingClientsIds := remove1 c (streamingClientsIds m),
      packetStreamingServers := om_erase c (packetStreamingServers m),
      packetStreamingClients := om_erase c (packetStreamingClients m)\<rparr>"
  have "mgr_ok globalId ?m"
    using ok by (auto simp: mgr_ok_def set_remove1_eq simp del: set_map)
  then show ?thesis
    using True mgr_ok_unsubscribeFromAll[OF _ surjective_pairing] by (simp add: unregisterClient_def)
qed (simp add: unregisterClient_def)

lemma keys_eraseClientSignals:
  "eraseClientSignals c cb kept l e = (r, l', e') \<Longrightarrow> distinct (map fst (kept @ l)) \<Longrightarrow> om_ok l'"
proof (induction c cb kept l e rule: eraseClientSignals.induct)
  case (2 c cb kept sid rs l e)
  then show ?case by (auto simp: om_ok_def split: if_splits prod.splits sum.splits)
qed (auto simp: om_ok_def)

lemma mgr_ok_clients:
  "om_has (packetStreamingClients m) c \<Longrightarrow>
   mgr_ok globalId (m\<lparr>packetStreamingClients := om_assign c x (packetStreamingClients m)\<rparr>) = mgr_ok globalId m"
  by (auto simp: mgr_ok_def om_has_iff om_ok_def keys_om_assign)

lemma mgr_ok_handleReceived:
  "mgr_ok globalId m \<Longrightarrow> handleReceivedPacketBuffer deser w c cb (m, e) = Some (r, (m', e')) \<Longrightarrow> mgr_ok globalId m'"
  by (auto simp: handleReceivedPacketBuffer_def Let_def mgr_ok_clients om_has_def split: option.splits prod.splits sum.splits)

lemma triple_collapse: "x = (fst x, (fst (snd x), snd (snd x)))"
  by simp

lemma mgr_ok_exec:
  assumes "mgr_ok globalId m" and "signalNumericIdCounter m \<noteq> - 1"
  shows "mgr_ok globalId (fst (mgr_exec ser deser refs send pad gone deliver globalId op (m, e)))"
proof (cases op)
  case (MSubscribe sid c)
  then show ?thesis using mgr_ok_registerSignalSubscriber[OF assms(1) triple_collapse] by simp
next
  case (MSendPacket sid p)
  then show ?thesis using mgr_ok_sendPacketToSubscribers[OF assms(1) triple_collapse] by simp
next
  case (MProcessPackets ds ps)
  then show ?thesis using mgr_ok_processPackets[OF assms(1) surjective_pairing] by simp
next
  case (MUnsubscribe sid c)
  then show ?thesis using mgr_ok_removeSignalSubscriber[OF assms(1) surjective_pairing] by (simp add: removeSignalSubscriber_def)
next
  case (MUnregisterClientSignals c)
  obtain r l e' where "eraseClientSignals c gone [] (registeredClientSignals m) e = (r, l, e')" by (metis prod_cases3)
  then show ?thesis
    using keys_eraseClientSignals assms(1) by (fastforce simp: MUnregisterClientSignals unregisterClientSignals_def mgr_ok_def om_ok_def)
next
  case (MReceived w c)
  then show ?thesis using mgr_ok_handleReceived[OF assms(1)] assms(1) by (auto split: option.splits)
qed (use assms in \<open>auto simp: mgr_ok_registerSignal mgr_ok_removeSignal mgr_ok_registerClient mgr_ok_unregisterClient
      registerClientSignal_def unregisterClientSignal_def om_has_def mgr_ok_def[of _ "registeredClientSignals_update _ _"]
      mgr_ok_def[of _ m] split: option.splits prod.splits\<close>)


inductive mgr_reach :: "('sig \<Rightarrow> string) \<Rightarrow> 'sig StreamingManager \<times> 'e \<Rightarrow> bool" for globalId where
  mgr_start: "mgr_reach globalId (StreamingManager_init, e)"
| mgr_step: "mgr_reach globalId (m, e) \<Longrightarrow> signalNumericIdCounter m \<noteq> - 1 \<Longrightarrow>
     mgr_reach globalId (mgr_exec ser deser refs send pad gone deliver globalId op (m, e))"

lemma mgr_reach_ok: "mgr_reach globalId s \<Longrightarrow> mgr_ok globalId (fst s)"
proof (induction rule: mgr_reach.induct)
  case (mgr_start e)
  show ?case by (simp add: StreamingManager_init_def mgr_ok_def om_ok_def)
next
  case (mgr_step m e ser deser refs send pad gone deliver op)
  then show ?case using mgr_ok_exec by (metis fst_conv)
qed

text \<open>The table by numeric id holds exactly the registered signals.\<close>

lemma signals_by_id:
  "distinct (map (numericId \<circ> snd) l @ map fst acc) \<Longrightarrow>
   foldl (\<lambda>l (sid, rs). om_insert (numericId rs) (daqSignal rs) l) acc l =
     acc @ map (\<lambda>x. (numericId (snd x), daqSignal (snd x))) l"
proof (induction l arbitrary: acc)
  case (Cons x l)
  then show ?case by (cases x) (auto simp: om_insert_def om_has_iff)
qed simp

lemma getRegisteredSignals_set:
  assumes "mgr_ok globalId m"
  shows "set (getRegisteredSignals m) = (\<lambda>x. (numericId (snd x), daqSignal (snd x))) ` set (registeredSignals m)"
    and "sorted (map fst (getRegisteredSignals m))" and "distinct (map fst (getRegisteredSignals m))"
proof -
  let ?l = "map (\<lambda>x. (numericId (snd x), daqSignal (snd x))) (registeredSignals m)"
  have d: "distinct (map (numericId \<circ> snd) (registeredSignals m))" using assms by (simp add: mgr_ok_def)
  then have g: "getRegisteredSignals m = sort_key fst ?l"
    using signals_by_id[of "registeredSignals m" "[]"] by (simp add: getRegisteredSignals_def)
  have df: "distinct (map fst ?l)" using d by (simp add: comp_def)
  show "set (getRegisteredSignals m) = (\<lambda>x. (numericId (snd x), daqSignal (snd x))) ` set (registeredSignals m)"
    "sorted (map fst (getRegisteredSignals m))" by (simp_all add: g)
  have "inj_on fst (set ?l)" "distinct ?l" using df distinct_map[of fst ?l] by blast+
  then show "distinct (map fst (getRegisteredSignals m))" by (simp add: g distinct_map)
qed

lemma server_registered:
  "mgr_ok globalId m \<Longrightarrow> getPacketServerIfRegistered c m = Inr (map_of (packetStreamingServers m) c)"
  using map_of_eq_None_iff[of "packetStreamingServers m" c]
  by (auto simp: getPacketServerIfRegistered_def mgr_ok_def split: option.splits)

text \<open>C18: The registries of the streaming manager stay well-formed: after any sequence of its
  operations, also ones that throw, every registered client has its own packet server and packet
  client and nobody else has one, so looking up the server of a registered client never fails; no
  client is subscribed twice to a signal; and the signals have distinct numeric ids up to the
  counter, so that the list by numeric id holds every registered signal once.\<close>

theorem manager_registries_ok:
  assumes "mgr_reach globalId (m, e)"
  shows "mgr_ok globalId m \<and>
    getPacketServerIfRegistered c m = Inr (map_of (packetStreamingServers m) c) \<and>
    (map_of (packetStreamingServers m) c \<noteq> None \<longleftrightarrow> c \<in> set (streamingClientsIds m)) \<and>
    set (getRegisteredSignals m) = (\<lambda>x. (numericId (snd x), daqSignal (snd x))) ` set (registeredSignals m) \<and>
    sorted (map fst (getRegisteredSignals m)) \<and> distinct (map fst (getRegisteredSignals m))"
proof -
  have ok: "mgr_ok globalId m" using mgr_reach_ok[OF assms] by simp
  then have "map_of (packetStreamingServers m) c \<noteq> None \<longleftrightarrow> c \<in> set (streamingClientsIds m)"
    by (metis map_of_eq_None_iff mgr_ok_def set_map)
  then show ?thesis using ok getRegisteredSignals_set[OF ok] server_registered[OF ok] by blast
qed

section \<open>Who is sent a packet\<close>

abbreviation log_send :: "(string \<times> StreamBuffer) list send_cb" where
  "log_send c b e \<equiv> (Inr (), e @ [(c, b)])"

lemma drain_logs:
  "sv_ok s \<Longrightarrow> length (sv_queue s) < 2 ^ 31 \<Longrightarrow>
   \<exists>s'. drainBuffers (log_send c) s e = (Inr (), s', e @ map (Pair c) (sv_queue s)) \<and> sv_ok s' \<and> sv_queue s' = []"
proof (induction "sv_queue s" arbitrary: s e)
  case Nil
  then show ?case by (simp add: drainBuffers.simps[of _ s] getNextPacketBuffer_def)
next
  case (Cons b q)
  obtain s1 where s1: "getNextPacketBuffer s = (Inr (Some b), s1)" "sv_ok s1" "sv_queue s1 = q"
    using sv_ok_take[OF Cons.prems(1) Cons.hyps(2)[symmetric] Cons.prems(2)] by (metis prod.collapse)
  have "length (sv_queue s1) < 2 ^ 31" using Cons.prems(2) Cons.hyps(2) s1(3) by (metis Suc_lessD length_Cons)
  from Cons.hyps(1)[OF s1(3)[symmetric] s1(2) this, of "e @ [(c, b)]"]
  show ?case using s1 by (auto simp: drainBuffers.simps[of _ s] Cons.hyps(2)[symmetric])
qed

text \<open>What one subscriber is sent: what its own packet server makes of the packet.\<close>

definition subscriberBuffers :: "(event \<Rightarrow> string) \<Rightarrow> SizeT \<Rightarrow> 32 word \<Rightarrow> stream_packet \<Rightarrow> PacketStreamingServer option
    \<Rightarrow> StreamBuffer list" where
  "subscriberBuffers ser refCount i p srv =
     (case srv of None \<Rightarrow> [] | Some s \<Rightarrow> sv_queue (snd (addDaqPacketMove ser refCount i p s)))"

definition can_take :: "(event \<Rightarrow> string) \<Rightarrow> SizeT \<Rightarrow> 32 word \<Rightarrow> stream_packet \<Rightarrow> PacketStreamingServer option \<Rightarrow> bool" where
  "can_take ser refCount i p srv \<longleftrightarrow>
     (case srv of
        None \<Rightarrow> False
      | Some s \<Rightarrow> fst (addDaqPacketMove ser refCount i p s) = Inr () \<and> sv_ok (snd (addDaqPacketMove ser refCount i p s)) \<and>
          length (sv_queue (snd (addDaqPacketMove ser refCount i p s))) < 2 ^ 31)"

lemma map_of_setServer [simp]:
  "map_of (packetStreamingServers (setServer c s m)) c' = (if c' = c then Some s else map_of (packetStreamingServers m) c')"
  by (simp add: setServer_def map_of_om_assign)

lemma sendDaqPacket_delivers:
  assumes "can_take ser rc i p (map_of (packetStreamingServers m) c)"
  shows "\<exists>s'. sendDaqPacket ser rc log_send c p i (m, e) =
      (Inr (), (setServer c s' m, e @ map (Pair c) (subscriberBuffers ser rc i p (map_of (packetStreamingServers m) c)))) \<and>
      sv_ok s' \<and> sv_queue s' = []"
proof -
  obtain s where s: "map_of (packetStreamingServers m) c = Some s" using assms by (auto simp: can_take_def split: option.splits)
  obtain s1 where a: "addDaqPacketMove ser rc i p s = (Inr (), s1)" "sv_ok s1" "length (sv_queue s1) < 2 ^ 31"
    using assms s by (cases "addDaqPacketMove ser rc i p s") (auto simp: can_take_def)
  show ?thesis
    using drain_logs[OF a(2,3), of c e] s a(1)
    by (auto simp: sendDaqPacket_def pushToPacketStreamingServer_def subscriberBuffers_def)
qed

lemma sendToClients_delivers:
  assumes "distinct cs" and "\<forall>c \<in> set cs. can_take ser (refs c) i p (map_of (packetStreamingServers m) c)"
  shows "\<exists>m'. sendToClients ser refs log_send p i cs (m, e) =
      (Inr (), (m', e @ concat (map (\<lambda>c. map (Pair c) (subscriberBuffers ser (refs c) i p (map_of (packetStreamingServers m) c))) cs))) \<and>
      (\<forall>c. c \<notin> set cs \<longrightarrow> map_of (packetStreamingServers m') c = map_of (packetStreamingServers m) c) \<and>
      (\<forall>c \<in> set cs. \<exists>s'. map_of (packetStreamingServers m') c = Some s' \<and> sv_ok s' \<and> sv_queue s' = [])"
  using assms
proof (induction cs arbitrary: m e)
  case Nil
  then show ?case by (simp add: act_defs)
next
  case (Cons c cs)
  let ?b = "subscriberBuffers ser (refs c) i p (map_of (packetStreamingServers m) c)"
  obtain s' where s': "sendDaqPacket ser (refs c) log_send c p i (m, e) = (Inr (), (setServer c s' m, e @ map (Pair c) ?b))"
      "sv_ok s'" "sv_queue s' = []"
    using sendDaqPacket_delivers[of ser "refs c" i p m c e] Cons.prems(2) by auto
  have other: "map_of (packetStreamingServers (setServer c s' m)) d = map_of (packetStreamingServers m) d" if "d \<in> set cs" for d
    using that Cons.prems(1) by auto
  then have "\<forall>d \<in> set cs. can_take ser (refs d) i p (map_of (packetStreamingServers (setServer c s' m)) d)"
    using Cons.prems(2) by simp
  from Cons.IH[OF _ this, of "e @ map (Pair c) ?b"] Cons.prems(1) obtain m' where
    m': "sendToClients ser refs log_send p i cs (setServer c s' m, e @ map (Pair c) ?b) =
        (Inr (), (m', (e @ map (Pair c) ?b) @ concat (map (\<lambda>d. map (Pair d) (subscriberBuffers ser (refs d) i p
           (map_of (packetStreamingServers (setServer c s' m)) d))) cs)))"
      "\<forall>d. d \<notin> set cs \<longrightarrow> map_of (packetStreamingServers m') d = map_of (packetStreamingServers (setServer c s' m)) d"
      "\<forall>d \<in> set cs. \<exists>s'. map_of (packetStreamingServers m') d = Some s' \<and> sv_ok s' \<and> sv_queue s' = []" by auto
  have "map (\<lambda>d. map (Pair d) (subscriberBuffers ser (refs d) i p (map_of (packetStreamingServers (setServer c s' m)) d))) cs =
      map (\<lambda>d. map (Pair d) (subscriberBuffers ser (refs d) i p (map_of (packetStreamingServers m) d))) cs"
    by (rule map_cong) (simp_all only: other)
  note sent = m'(1)[unfolded this]
  have "sendToClients ser refs log_send p i (c # cs) (m, e) =
      (Inr (), (m', e @ concat (map (\<lambda>c. map (Pair c) (subscriberBuffers ser (refs c) i p (map_of (packetStreamingServers m) c))) (c # cs))))"
    using s'(1) sent by (simp add: act_bind_def)
  then show ?case using s' m' Cons.prems(1) by (intro exI[of _ m']) simp
qed


lemma srv_reach_can_take:
  assumes "srv_reach ser payloadMax threshold s" and "unat payloadMax + 48 < 2 ^ 32" and "srv_fits s"
    and "addDaqPacketMove ser rc i p s = (Inr (), s1)" and "srv_fits s1"
  shows "can_take ser rc i p (Some s)"
proof -
  have "srv_reach ser payloadMax threshold (snd (srv_exec ser (OpAddMove rc i p) s))" by (rule srv_step[OF assms(1,3)])
  then have "sv_inv s1" using srv_reach_inv[OF _ assms(2)] assms(4) by simp
  then show ?thesis using assms(4,5) by (simp add: can_take_def sv_inv_def srv_fits_def)
qed


text \<open>Subscribing does not ask whether the client is registered. Such a subscriber is not removed
  when the client goes, and from then on no packet of the signal can be sent.\<close>

theorem unregistered_subscriber_blocks:
  assumes "mgr_ok globalId m" and "map_of (registeredSignals m) sid = Some rs" and "subscribedClientsIds rs = []"
    and "c \<notin> set (streamingClientsIds m)"
  shows "\<exists>m'. registerSignalSubscriber ser refs send sid c (m, e) = (Inr True, (m', e)) \<and>
    unregisterClient c m' = (Inr [], m') \<and>
    fst (sendPacketToSubscribers ser refs send sid p (m', e')) = Inl OutOfRange"
proof -
  have "map_of (packetStreamingServers m) c = None"
    using assms(1,4) by (simp add: mgr_ok_def map_of_eq_None_iff)
  then show ?thesis
    using assms(2,3,4)
    by (auto simp: registerSignalSubscriber_def Let_def unregisterClient_def sendPacketToSubscribers_def
        map_of_om_assign act_bind_def sendDaqPacket_def)
qed


section \<open>A manager in use\<close>

text \<open>Signals named by themselves; two clients, of which one subscribes.\<close>

definition ex_exec :: "string mgr_op \<Rightarrow> string StreamingManager \<times> (string \<times> StreamBuffer) list
    \<Rightarrow> string StreamingManager \<times> (string \<times> StreamBuffer) list" where
  "ex_exec op s = mgr_exec ep_eventId (\<lambda>_. Inl OPENDAQ_ERR_NOTFOUND) (\<lambda>_. 1) log_send [] (\<lambda>_. act_return ()) (\<lambda>_ _. act_return ()) id op s"

definition ex_manager :: "string StreamingManager \<times> (string \<times> StreamBuffer) list" where
  "ex_manager = fold ex_exec [MRegisterSignal ''s'', MRegisterSignal ''t'', MRegisterClient ''a'' False 10 100,
     MRegisterClient ''b'' False 10 100, MSubscribe ''s'' ''a''] (StreamingManager_init, [])"

lemma ex_step:
  "mgr_reach id s \<Longrightarrow> signalNumericIdCounter (fst s) \<noteq> - 1 \<Longrightarrow> mgr_reach id (ex_exec op s)"
  unfolding ex_exec_def by (metis mgr_step prod.collapse)

lemma ex_counter:
  "signalNumericIdCounter (fst (fold ex_exec (take n [MRegisterSignal ''s'', MRegisterSignal ''t'',
     MRegisterClient ''a'' False 10 100, MRegisterClient ''b'' False 10 100, MSubscribe ''s'' ''a'']) (StreamingManager_init, []))) \<noteq> - 1"
  if "n \<in> {0, 1, 2, 3, 4}"
  using that by (elim insertE) (simp_all only: empty_iff, code_simp+)

lemma ex_reach: "mgr_reach id ex_manager"
  using ex_counter[of 0] ex_counter[of 1] ex_counter[of 2] ex_counter[of 3] ex_counter[of 4]
  unfolding ex_manager_def by (simp add: ex_step mgr_start)

theorem manager_registries_ok_witness:
  "mgr_ok id (fst ex_manager) \<and> getRegisteredClientsIds (fst ex_manager) = [''a'', ''b''] \<and>
   map fst (getRegisteredSignals (fst ex_manager)) = [1, 2] \<and> distinct (map fst (getRegisteredSignals (fst ex_manager)))"
proof -
  have "mgr_reach id (fst ex_manager, snd ex_manager)" using ex_reach by simp
  from manager_registries_ok[OF this] have "mgr_ok id (fst ex_manager)" "distinct (map fst (getRegisteredSignals (fst ex_manager)))" by blast+
  moreover have "getRegisteredClientsIds (fst ex_manager) = [''a'', ''b'']" "map fst (getRegisteredSignals (fst ex_manager)) = [1, 2]"
    by code_simp+
  ultimately show ?thesis by blast
qed

definition ex_packet :: stream_packet where
  "ex_packet = StreamEvent \<lparr>ep_eventId = ''e'', ep_dataDescriptor = None, ep_domainDataDescriptor = None, ep_gapDiff = None\<rparr>"


end
