(* ===== verification/NativeServer.thy ===== *)
theory NativeServer
  imports StreamingManager
begin

text \<open>
  The native streaming server (\<^verbatim>\<open>native_streaming_server_handler.cpp\<close>): the sessions of the
  connected clients, the connections of the configuration protocol with their limits, and how the
  messages of the clients act on the streaming manager.

  A call is an act on the server and its environment; the mutex makes it atomic. Session handlers
  are objects, addressed by numbers: the map from client ids owns them, every callback holds a
  weak pointer, so a handler that left the map receives nothing more. The environment is
  everything outside: the session of each handler, the reader, the device, the configuration
  server. Its callbacks may throw; those that run under the mutex cannot call the server.
  Releasing the configuration server of a released session may remove signals of the device, which
  is a later call of \<open>removeComponentSignals\<close>.
\<close>

section \<open>Sessions\<close>

datatype ClientType = Control | ExclusiveControl | ViewOnly

definition IntToClientType :: "int \<Rightarrow> ErrCode + ClientType" where
  "IntToClientType v =
     (if v = 0 then Inr Control else if v = 1 then Inr ExclusiveControl else if v = 2 then Inr ViewOnly
      else Inl OPENDAQ_ERR_INVALIDVALUE)"

text \<open>The two callbacks of a session handler that are exchanged while it lives.\<close>

datatype 'env config_cb = FirstConfigPacket | ConfigServerCb "(ConfigPacketBuffer \<Rightarrow> ('env, unit) act) option"

datatype 'env packet_cb = NoPacketCb | StreamingPacketCb string | ConfigPacketCb "(wire_buffer \<Rightarrow> ('env, unit) act) option"

record 'env ServerSession =
  ss_clientId :: string
  ss_clientHostName :: string
  ss_reconnected :: bool
  ss_useConfigProtocol :: bool
  ss_clientType :: ClientType
  ss_exclusiveControlDropOthers :: bool
  ss_configHandler :: "'env config_cb"
  ss_packetHandler :: "'env packet_cb"

definition ServerSession_init :: "string \<Rightarrow> 'env ServerSession" where
  "ServerSession_init i = \<lparr>ss_clientId = i, ss_clientHostName = [], ss_reconnected = False, ss_useConfigProtocol = False,
     ss_clientType = Control, ss_exclusiveControlDropOthers = False, ss_configHandler = FirstConfigPacket, ss_packetHandler = NoPacketCb\<rparr>"

text \<open>The callbacks for streaming to the device.\<close>

record 'env device_handlers =
  signalAvailableHandler :: "string \<Rightarrow> string option \<Rightarrow> ('env, unit) act"
  signalUnavailableHandler :: "string \<Rightarrow> ('env, unit) act"
  packetHandler :: "string \<Rightarrow> stream_packet \<Rightarrow> ('env, unit) act"
  signalSubscriptionAckCallback :: "string \<Rightarrow> bool \<Rightarrow> ('env, unit) act"

record ('sig, 'env) NativeServer =
  streamingManager :: "'sig StreamingManager"
  sessionObjects :: "nat \<Rightarrow> 'env ServerSession"
  sessionHandlers :: "(string, nat) omap"
  connectedClientIndex :: SizeT
  maxAllowedConfigConnections :: SizeT
  configConnectionsCount :: SizeT
  controlConnectionsCount :: SizeT
  exclusiveControlConnectionsCount :: SizeT
  packetStreamingReleaseThreshold :: SizeT
  serverPayloadSizeMax :: SizeT
  deviceHandlers :: "'env device_handlers option"

text \<open>Transport layer properties: the values of a property object that the server asks for.\<close>

datatype prop_value = PropBool bool | PropInt int | PropString string | PropOther

type_synonym props = "(string \<times> prop_value) list"

text \<open>What the server is given: attributes of signals, the sessions by address, its callbacks.\<close>

record ('sig, 'env) server_ext =
  globalIdOf :: "'sig \<Rightarrow> string"
  isPublic :: "'sig \<Rightarrow> bool"
  signalJson :: "'sig \<Rightarrow> string"
  eventJson :: "event \<Rightarrow> string"
  eventOfJson :: "string \<Rightarrow> event result"
  propsOfJson :: "string \<Rightarrow> props option"
  errorJson :: "32 word \<Rightarrow> string \<Rightarrow> string"
  unusedBytes :: "byte list"
  padBytes :: "byte list"
  mayRead :: "nat \<Rightarrow> 'sig \<Rightarrow> 'env \<Rightarrow> bool"
  endpointOf :: "nat \<Rightarrow> string"
  writeTo :: "nat \<Rightarrow> byte list list \<Rightarrow> ('env, unit) act"
  startMonitoring :: "nat \<Rightarrow> int \<Rightarrow> int \<Rightarrow> ('env, unit) act"
  closeIfOpen :: "nat \<Rightarrow> ('env, unit) act"
  signalSubscribedHandler :: "'sig \<Rightarrow> ('env, unit) act"
  signalUnsubscribedHandler :: "'sig \<Rightarrow> ('env, unit) act"
  setUpConfigProtocolServerCb :: "nat \<Rightarrow> ClientType \<Rightarrow>
    ('env, (ConfigPacketBuffer \<Rightarrow> ('env, unit) act) option \<times> (wire_buffer \<Rightarrow> ('env, unit) act) option) act"
  clientConnectedHandler :: "string \<Rightarrow> string \<Rightarrow> bool \<Rightarrow> ClientType \<Rightarrow> string \<Rightarrow> ('env, unit) act"
  clientDisconnectedHandler :: "string \<Rightarrow> ('env, unit) act"

type_synonym ('sig, 'env, 'a) server_act = "(('sig, 'env) NativeServer \<times> 'env, 'a) act"

section \<open>Acts on the parts of the state\<close>

definition on_env :: "('env, 'a) act \<Rightarrow> ('sig, 'env, 'a) server_act" where
  "on_env f = (\<lambda>(s, e). case f e of (r, e1) \<Rightarrow> (r, (s, e1)))"

definition on_manager :: "('sig StreamingManager, 'a) act \<Rightarrow> ('sig, 'env, 'a) server_act" where
  "on_manager f = (\<lambda>(s, e). case f (streamingManager s) of (r, m) \<Rightarrow> (r, (s\<lparr>streamingManager := m\<rparr>, e)))"

text \<open>A manager call whose callback reads the map of session handlers.\<close>

definition on_manager_env :: "(('sig, 'env) NativeServer \<Rightarrow> ('sig StreamingManager \<times> 'env, 'a) act) \<Rightarrow> ('sig, 'env, 'a) server_act" where
  "on_manager_env f = (\<lambda>(s, e). case f s (streamingManager s, e) of (r, (m, e1)) \<Rightarrow> (r, (s\<lparr>streamingManager := m\<rparr>, e1)))"

definition from_server :: "(('sig, 'env) NativeServer \<Rightarrow> native_exn + 'a) \<Rightarrow> ('sig, 'env, 'a) server_act" where
  "from_server f = (\<lambda>(s, e). (f s, (s, e)))"

definition change_server :: "(('sig, 'env) NativeServer \<Rightarrow> ('sig, 'env) NativeServer) \<Rightarrow> ('sig, 'env, unit) server_act" where
  "change_server f = (\<lambda>(s, e). (Inr (), (f s, e)))"

definition change_session :: "nat \<Rightarrow> ('env ServerSession \<Rightarrow> 'env ServerSession) \<Rightarrow> ('sig, 'env, unit) server_act" where
  "change_session a f = change_server (\<lambda>s. s\<lparr>sessionObjects := (sessionObjects s)(a := f (sessionObjects s a))\<rparr>)"

abbreviation act_seq :: "('e, unit) act \<Rightarrow> ('e, 'b) act \<Rightarrow> ('e, 'b) act" where
  "act_seq f g \<equiv> act_bind f (\<lambda>_. g)"

definition act_if :: "bool \<Rightarrow> ('e, unit) act \<Rightarrow> ('e, unit) act" where
  "act_if b f = (if b then f else act_return ())"

primrec act_each :: "('a \<Rightarrow> ('e, unit) act) \<Rightarrow> 'a list \<Rightarrow> ('e, unit) act" where
  "act_each f [] = act_return ()"
| "act_each f (x # xs) = act_seq (f x) (act_each f xs)"

text \<open>\<^verbatim>\<open>catch (const std::exception&)\<close> with a value to return.\<close>

definition act_catch :: "('e, 'a) act \<Rightarrow> 'a \<Rightarrow> ('e, 'a) act" where
  "act_catch f x e = (case f e of (Inl NoReturn, e1) \<Rightarrow> (Inl NoReturn, e1) | (Inl _, e1) \<Rightarrow> (Inr x, e1) | (Inr y, e1) \<Rightarrow> (Inr y, e1))"

text \<open>The session handler at an address, for sending: messages become writes to its session.\<close>

definition writerOf :: "('sig, 'env) server_ext \<Rightarrow> nat \<Rightarrow> ('env, 'sig, props) session_handler" where
  "writerOf X a = ServerSessionHandler_init (mayRead X a) (\<lambda>_. [])
     (BaseSessionHandler_init (writeTo X a) (globalIdOf X) (signalJson X) (propsOfJson X) (\<lambda>_. act_return ()) None None None None)"

definition sessionAt :: "string \<Rightarrow> ('sig, 'env) NativeServer \<Rightarrow> native_exn + nat" where
  "sessionAt c s = (case map_of (sessionHandlers s) c of None \<Rightarrow> Inl OutOfRange | Some a \<Rightarrow> Inr a)"

text \<open>The callback that hands packet buffers of the manager to the sessions.\<close>

definition sendTo :: "('sig, 'env) server_ext \<Rightarrow> ('sig, 'env) NativeServer \<Rightarrow> 'env send_cb" where
  "sendTo X s c b = (case sessionAt c s of Inl x \<Rightarrow> act_throw x | Inr a \<Rightarrow> sendPacketBuffer (writerOf X a) (padBytes X) b)"

definition deviceCall :: "('env device_handlers \<Rightarrow> ('env, unit) act) \<Rightarrow> ('sig, 'env) NativeServer \<Rightarrow> ('env, unit) act" where
  "deviceCall f s = (case deviceHandlers s of None \<Rightarrow> act_throw BadFunctionCall | Some h \<Rightarrow> f h)"

section \<open>Construction\<close>

record ServerConfig =
  cfg_NativeStreamingPort :: int
  cfg_Path :: string
  cfg_StreamingPacketSendTimeout :: SizeT
  cfg_MaxAllowedConfigConnections :: SizeT
  cfg_StreamingPacketReleaseThreshold :: SizeT
  cfg_StreamingCacheablePayloadSizeMax :: SizeT

definition createDefaultConfig :: ServerConfig where
  "createDefaultConfig = \<lparr>cfg_NativeStreamingPort = 7420, cfg_Path = ''/'', cfg_StreamingPacketSendTimeout = 0,
     cfg_MaxAllowedConfigConnections = 0, cfg_StreamingPacketReleaseThreshold = 10,
     cfg_StreamingCacheablePayloadSizeMax = 10\<rparr>"

definition NativeServer_init :: "('sig, 'env) server_ext \<Rightarrow> ServerConfig \<Rightarrow> 'sig list \<Rightarrow> native_exn + ('sig, 'env) NativeServer" where
  "NativeServer_init X config signals =
     (case act_each (\<lambda>sg. act_if (isPublic X sg) (act_bind (registerSignal (globalIdOf X) sg) (\<lambda>_. act_return ()))) signals
             StreamingManager_init of
        (Inl x, m) \<Rightarrow> Inl x
      | (Inr _, m) \<Rightarrow> Inr \<lparr>streamingManager = m, sessionObjects = (\<lambda>_. ServerSession_init []), sessionHandlers = [],
          connectedClientIndex = 0, maxAllowedConfigConnections = cfg_MaxAllowedConfigConnections config,
          configConnectionsCount = 0, controlConnectionsCount = 0, exclusiveControlConnectionsCount = 0,
          packetStreamingReleaseThreshold = cfg_StreamingPacketReleaseThreshold config,
          serverPayloadSizeMax = cfg_StreamingCacheablePayloadSizeMax config, deviceHandlers = None\<rparr>)"

section \<open>Signals\<close>

text \<open>A message to every streaming client.\<close>

definition toStreamingClients :: "(nat \<Rightarrow> ('env, unit) act) \<Rightarrow> ('sig, 'env, unit) server_act" where
  "toStreamingClients f =
     act_bind (from_server (\<lambda>s. Inr (getRegisteredClientsIds (streamingManager s))))
       (act_each (\<lambda>c. act_bind (from_server (sessionAt c)) (\<lambda>a. on_env (f a))))"

definition addSignal :: "('sig, 'env) server_ext \<Rightarrow> 'sig \<Rightarrow> ('sig, 'env, unit) server_act" where
  "addSignal X signal =
     act_if (isPublic X signal)
       (act_bind (on_manager (registerSignal (globalIdOf X) signal)) (\<lambda>i.
          toStreamingClients (\<lambda>a. sendSignalAvailable (writerOf X a) i signal)))"

definition isNestedComponentId :: "string \<Rightarrow> string \<Rightarrow> bool" where
  "isNestedComponentId ancestor descendant \<longleftrightarrow> take (length ancestor + 1) descendant = ancestor @ ''/''"

definition removeComponentSignal :: "('sig, 'env) server_ext \<Rightarrow> 32 word \<Rightarrow> 'sig \<Rightarrow> ('sig, 'env, unit) server_act" where
  "removeComponentSignal X i signal =
     act_bind (from_server (\<lambda>s. isSignalSubscribed (globalIdOf X) signal (streamingManager s))) (\<lambda>subscribed.
     act_seq (act_if subscribed (on_env (signalUnsubscribedHandler X signal)))
    (act_seq (on_manager (removeSignal (globalIdOf X) signal))
             (toStreamingClients (\<lambda>a. sendSignalUnavailable (writerOf X a) i signal))))"

definition removeComponentSignals :: "('sig, 'env) server_ext \<Rightarrow> string \<Rightarrow> ('sig, 'env, unit) server_act" where
  "removeComponentSignals X componentId =
     act_bind (from_server (\<lambda>s. Inr (getRegisteredSignals (streamingManager s))))
       (act_each (\<lambda>(i, signal).
          act_if (globalIdOf X signal = componentId \<or> isNestedComponentId componentId (globalIdOf X signal))
            (removeComponentSignal X i signal)))"

definition handleSignalSubscription :: "('sig, 'env) server_ext \<Rightarrow> (string \<Rightarrow> SizeT) \<Rightarrow> 32 word \<Rightarrow> 'sig \<Rightarrow> bool \<Rightarrow> string
    \<Rightarrow> ('sig, 'env, bool) server_act" where
  "handleSignalSubscription X refs i signal subscribe c =
     act_catch
       (if subscribe
        then act_bind (on_manager_env (\<lambda>s. registerSignalSubscriber (eventJson X) refs (sendTo X s) (globalIdOf X signal) c)) (\<lambda>first.
             act_seq (act_if first (on_env (signalSubscribedHandler X signal))) (act_return True))
        else act_bind (on_manager (removeSignalSubscriber (globalIdOf X signal) c)) (\<lambda>wasLast.
             act_seq (act_if wasLast (on_env (signalUnsubscribedHandler X signal))) (act_return True)))
       False"

text \<open>The user of an accepted connection.\<close>

datatype authentication = Anonymous | Basic string string

definition onAuthenticate :: "(ErrCode + 'user) \<Rightarrow> (string \<Rightarrow> string \<Rightarrow> ErrCode + 'user) \<Rightarrow> authentication \<Rightarrow> 'user option" where
  "onAuthenticate authenticateAnonymous authenticate a =
     (case (case a of Anonymous \<Rightarrow> authenticateAnonymous | Basic username password \<Rightarrow> authenticate username password) of
        Inl _ \<Rightarrow> None | Inr user \<Rightarrow> Some user)"

section \<open>Packets\<close>

definition sendPacket :: "('sig, 'env) server_ext \<Rightarrow> (string \<Rightarrow> SizeT) \<Rightarrow> string \<Rightarrow> stream_packet \<Rightarrow> ('sig, 'env, unit) server_act" where
  "sendPacket X refs sid packet = on_manager_env (\<lambda>s. sendPacketToSubscribers (eventJson X) refs (sendTo X s) sid packet)"

definition processStreamingPackets :: "('sig, 'env) server_ext \<Rightarrow> (string \<Rightarrow> SizeT) \<Rightarrow> (string \<times> int \<times> int) list \<Rightarrow> stream_packet list
    \<Rightarrow> ('sig, 'env, unit) server_act" where
  "processStreamingPackets X refs packetIndices packets = on_manager (processPackets (eventJson X) refs packetIndices packets)"

text \<open>The packet server of a client is emptied into write tasks; enough fuel for a queue that is accounted for.\<close>

definition takeWriteTasks :: "('sig, 'env) server_ext \<Rightarrow> string \<Rightarrow> PacketStreamingServer \<Rightarrow> ('sig, 'env, byte list list) server_act" where
  "takeWriteTasks X c p =
     (case getStreamingWriteTasks (Suc (length (sv_queue p))) (padBytes X) [] p of
        None \<Rightarrow> act_throw NoReturn
      | Some (r, p1) \<Rightarrow> on_manager (\<lambda>m. (r, setServer c p1 m)))"

definition sendAvailableStreamingPackets :: "('sig, 'env) server_ext \<Rightarrow> ('sig, 'env, unit) server_act" where
  "sendAvailableStreamingPackets X =
     act_bind (from_server (\<lambda>s. Inr (sessionHandlers s)))
       (act_each (\<lambda>(c, a).
          act_bind (from_server (\<lambda>s. getPacketServerIfRegistered c (streamingManager s))) (\<lambda>srv.
            case srv of
              None \<Rightarrow> act_return ()
            | Some p \<Rightarrow> act_bind (takeWriteTasks X c p) (\<lambda>tasks.
                act_if (tasks \<noteq> []) (on_env (schedulePacketBufferWriteTasks (writerOf X a) tasks))))))"

definition doSubscribeSignal :: "('sig, 'env) server_ext \<Rightarrow> string \<Rightarrow> bool \<Rightarrow> ('sig, 'env, unit) server_act" where
  "doSubscribeSignal X sid subscribe = on_manager_env (\<lambda>s. doClientSignalSubscription sid (\<lambda>i c.
     case map_of (sessionHandlers s) c of
       None \<Rightarrow> act_return ()
     | Some a \<Rightarrow> if subscribe then sendSignalSubscribe (writerOf X a) i sid else sendSignalUnsubscribe (writerOf X a) i sid))"

definition resetStreamingToDeviceHandlers :: "('sig, 'env, unit) server_act" where
  "resetStreamingToDeviceHandlers = change_server (\<lambda>s. s\<lparr>deviceHandlers :=
     Some \<lparr>signalAvailableHandler = (\<lambda>_ _. act_return ()), signalUnavailableHandler = (\<lambda>_. act_return ()),
           packetHandler = (\<lambda>_ _. act_return ()), signalSubscriptionAckCallback = (\<lambda>_ _. act_return ())\<rparr>\<rparr>)"

definition setStreamingToDeviceHandlers :: "'env device_handlers \<Rightarrow> ('sig, 'env, unit) server_act" where
  "setStreamingToDeviceHandlers h = change_server (\<lambda>s. s\<lparr>deviceHandlers := Some h\<rparr>)"

section \<open>Releasing sessions\<close>

definition incrementConfigConnectionCount :: "nat \<Rightarrow> ('sig, 'env) NativeServer \<Rightarrow> ('sig, 'env) NativeServer" where
  "incrementConfigConnectionCount a s =
     (let t = ss_clientType (sessionObjects s a) in
      s\<lparr>controlConnectionsCount := (if t = Control then controlConnectionsCount s + 1 else controlConnectionsCount s),
        exclusiveControlConnectionsCount :=
          (if t = ExclusiveControl then exclusiveControlConnectionsCount s + 1 else exclusiveControlConnectionsCount s),
        configConnectionsCount := configConnectionsCount s + 1\<rparr>)"

definition decrementConfigConnectionCount :: "nat \<Rightarrow> ('sig, 'env) NativeServer \<Rightarrow> ('sig, 'env) NativeServer" where
  "decrementConfigConnectionCount a s =
     (let t = ss_clientType (sessionObjects s a) in
      if ss_useConfigProtocol (sessionObjects s a)
      then s\<lparr>configConnectionsCount := configConnectionsCount s - 1,
             controlConnectionsCount := (if t = Control then controlConnectionsCount s - 1 else controlConnectionsCount s),
             exclusiveControlConnectionsCount :=
               (if t = ExclusiveControl then exclusiveControlConnectionsCount s - 1 else exclusiveControlConnectionsCount s)\<rparr>
      else s)"

text \<open>What is undone for a session that is found under a client id.\<close>

definition forgetClient :: "('sig, 'env) server_ext \<Rightarrow> string \<Rightarrow> nat \<Rightarrow> ('sig, 'env, unit) server_act" where
  "forgetClient X c a =
     act_bind (from_server (\<lambda>s. getPacketServerIfRegistered c (streamingManager s))) (\<lambda>srv.
     act_bind (from_server (\<lambda>s. Inr (ss_useConfigProtocol (sessionObjects s a)))) (\<lambda>used.
     act_seq (act_if (\<not> Option.is_none srv \<or> used) (on_env (clientDisconnectedHandler X c)))
    (act_seq (on_manager_env (\<lambda>s. unregisterClientSignals c (\<lambda>sid. deviceCall (\<lambda>h. signalUnavailableHandler h sid) s)))
    (act_bind (on_manager (unregisterClient c)) (\<lambda>signalsToUnsubscribe.
     act_seq (act_each (\<lambda>sg. on_env (signalUnsubscribedHandler X sg)) signalsToUnsubscribe)
             (change_server (\<lambda>s. (decrementConfigConnectionCount a s)\<lparr>sessionHandlers := om_erase c (sessionHandlers s)\<rparr>)))))))"

definition releaseSessionHandlerInternal :: "('sig, 'env) server_ext \<Rightarrow> nat \<Rightarrow> ('sig, 'env, unit) server_act" where
  "releaseSessionHandlerInternal X a =
     act_bind (from_server (\<lambda>s. Inr (find (\<lambda>x. snd x = a) (sessionHandlers s)))) (\<lambda>found.
     act_seq (case found of None \<Rightarrow> act_return () | Some (c, _) \<Rightarrow> forgetClient X c a)
             (on_env (closeIfOpen X a)))"

definition releaseSessionHandler :: "('sig, 'env) server_ext \<Rightarrow> nat \<Rightarrow> ('sig, 'env, unit) server_act" where
  "releaseSessionHandler X a = releaseSessionHandlerInternal X a"

definition onSessionError :: "('sig, 'env) server_ext \<Rightarrow> nat \<Rightarrow> ('sig, 'env, unit) server_act" where
  "onSessionError X a = releaseSessionHandler X a"

section \<open>Transport layer properties\<close>

definition parseClientTypeProp :: "props \<Rightarrow> ErrCode + ClientType" where
  "parseClientTypeProp p =
     (case map_of p ''ClientType'' of
        None \<Rightarrow> Inl OPENDAQ_ERR_NOTFOUND | Some (PropInt v) \<Rightarrow> IntToClientType v | _ \<Rightarrow> Inl OPENDAQ_ERR_INVALIDVALUE)"

definition parseExclusiveControlDropOthersProp :: "props \<Rightarrow> ErrCode + bool" where
  "parseExclusiveControlDropOthersProp p =
     (case map_of p ''ExclusiveControlDropOthers'' of
        None \<Rightarrow> Inl OPENDAQ_ERR_NOTFOUND | Some (PropBool b) \<Rightarrow> Inr b | _ \<Rightarrow> Inl OPENDAQ_ERR_INVALIDVALUE)"

text \<open>The session moves to the id of its client, which is taken from another session if the client reconnected.\<close>

definition takeClientId :: "string \<Rightarrow> nat \<Rightarrow> ('sig, 'env, unit) server_act" where
  "takeClientId c a =
     act_bind (from_server (\<lambda>s. Inr (ss_clientId (sessionObjects s a)))) (\<lambda>assigned.
     act_bind (from_server (\<lambda>s. Inr (map_of (sessionHandlers s) assigned))) (\<lambda>item.
       case item of
         None \<Rightarrow> act_throw (NativeStreamingProtocolException ''Client is not registered'')
       | Some b \<Rightarrow> act_seq (change_server (\<lambda>s. s\<lparr>sessionHandlers := om_insert c b (om_erase assigned (sessionHandlers s))\<rparr>))
                    (change_session a (\<lambda>x. x\<lparr>ss_clientId := c\<rparr>))))"

definition registerClientId :: "('sig, 'env) server_ext \<Rightarrow> string \<Rightarrow> bool \<Rightarrow> nat \<Rightarrow> ('sig, 'env, unit) server_act" where
  "registerClientId X c reconnected a =
     act_bind (from_server (\<lambda>s. Inr (map_of (sessionHandlers s) c))) (\<lambda>other.
     act_seq (case other of Some b \<Rightarrow> act_if reconnected (releaseSessionHandlerInternal X b) | None \<Rightarrow> act_return ())
    (act_seq (act_if (other = None \<or> reconnected) (takeClientId c a))
      (change_session a (\<lambda>x. x\<lparr>ss_reconnected := reconnected\<rparr>))))"

definition handleTransportLayerProps :: "('sig, 'env) server_ext \<Rightarrow> props \<Rightarrow> nat \<Rightarrow> ('sig, 'env, unit) server_act" where
  "handleTransportLayerProps X p a =
     act_seq
       (case (map_of p ''MonitoringEnabled'', map_of p ''HeartbeatPeriod'', map_of p ''InactivityTimeout'') of
          (Some (PropBool enabled), Some (PropInt period), Some (PropInt timeout)) \<Rightarrow>
            act_if enabled (on_env (startMonitoring X a period timeout))
        | _ \<Rightarrow> act_return ())
    (act_seq
       (case map_of p ''HostName'' of
          Some (PropString name) \<Rightarrow> change_session a (\<lambda>x. x\<lparr>ss_clientHostName := name\<rparr>) | _ \<Rightarrow> act_return ())
    (act_seq
       (case (map_of p ''Reconnected'', map_of p ''ClientId'') of
          (Some (PropBool reconnected), Some (PropString c)) \<Rightarrow> registerClientId X c reconnected a
        | _ \<Rightarrow> act_return ())
    (act_seq
       (change_session a (\<lambda>x. x\<lparr>ss_clientType := (case parseClientTypeProp p of Inr t \<Rightarrow> t | Inl _ \<Rightarrow> Control)\<rparr>))
       (change_session a (\<lambda>x. x\<lparr>ss_exclusiveControlDropOthers :=
          (case parseExclusiveControlDropOthersProp p of Inr b \<Rightarrow> b | Inl _ \<Rightarrow> False)\<rparr>)))))"

section \<open>Configuration connections\<close>

definition OPENDAQ_ERRTYPE_OPENDAQ :: "32 word" where
  "OPENDAQ_ERRTYPE_OPENDAQ = 1"

definition OPENDAQ_ERR_CONNECTION_LIMIT_REACHED :: "32 word" where
  "OPENDAQ_ERR_CONNECTION_LIMIT_REACHED = OPENDAQ_ERROR_CODE OPENDAQ_ERRTYPE_OPENDAQ 2"

definition OPENDAQ_ERR_CONTROL_CLIENT_REJECTED :: "32 word" where
  "OPENDAQ_ERR_CONTROL_CLIENT_REJECTED = OPENDAQ_ERROR_CODE OPENDAQ_ERRTYPE_OPENDAQ 4"

definition isConnectionLimitReached :: "('sig, 'env) NativeServer \<Rightarrow> bool" where
  "isConnectionLimitReached s \<longleftrightarrow> maxAllowedConfigConnections s \<noteq> 0 \<and> configConnectionsCount s = maxAllowedConfigConnections s"

definition isControlConnectionRejected :: "nat \<Rightarrow> ('sig, 'env) NativeServer \<Rightarrow> bool" where
  "isControlConnectionRejected a s \<longleftrightarrow> ss_clientType (sessionObjects s a) = Control \<and> exclusiveControlConnectionsCount s > 0"

definition isExclusiveControlConnectionRejected :: "nat \<Rightarrow> ('sig, 'env) NativeServer \<Rightarrow> bool" where
  "isExclusiveControlConnectionRejected a s \<longleftrightarrow> ss_clientType (sessionObjects s a) = ExclusiveControl \<and>
     (exclusiveControlConnectionsCount s > 0 \<or> controlConnectionsCount s > 0)"

definition generateConnectionRejectedReply :: "('sig, 'env) server_ext \<Rightarrow> 64 word \<Rightarrow> 32 word \<Rightarrow> string \<Rightarrow> config_error + ConfigPacketBuffer" where
  "generateConnectionRejectedReply X i code message = createConnectionRejectedReply (unusedBytes X) i (errorJson X code message)"

definition reportConnectError :: "('sig, 'env) server_ext \<Rightarrow> nat \<Rightarrow> ConfigPacketBuffer \<Rightarrow> 32 word \<Rightarrow> string \<Rightarrow> ('env, unit) act" where
  "reportConnectError X a firstPacketBuffer code message =
     (case generateConnectionRejectedReply X (getConfigPacketId firstPacketBuffer) code message of
        Inl (ConfigProtocolException t) \<Rightarrow> act_throw (ConfigFailure t)
      | Inl InvalidMemoryAccess \<Rightarrow> act_throw (ConfigFailure [])
      | Inr reply \<Rightarrow> sendConfigurationPacket (writerOf X a) reply)"

definition limitMessage :: "('sig, 'env) server_ext \<Rightarrow> ('sig, 'env) NativeServer \<Rightarrow> string" where
  "limitMessage X s =
     ''Native configuration connection rejected - connections limit reached on server; addresses of connected clients:'' @
     concat (map (\<lambda>(c, b). if ss_useConfigProtocol (sessionObjects s b) then '' '' @ endpointOf X b @ '';'' else []) (sessionHandlers s))"

definition otherControlConnections :: "nat \<Rightarrow> ('sig, 'env) NativeServer \<Rightarrow> nat list" where
  "otherControlConnections a s =
     filter (\<lambda>b. b \<noteq> a \<and> ss_useConfigProtocol (sessionObjects s b) \<and> ss_clientType (sessionObjects s b) \<in> {Control, ExclusiveControl})
       (map snd (sessionHandlers s))"

definition releaseOtherControlConnectionsInternal :: "('sig, 'env) server_ext \<Rightarrow> nat \<Rightarrow> ('sig, 'env, unit) server_act" where
  "releaseOtherControlConnectionsInternal X a =
     act_bind (from_server (\<lambda>s. Inr (otherControlConnections a s))) (act_each (releaseSessionHandlerInternal X))"

definition setUpConfigProtocolCallbacks :: "('sig, 'env) server_ext \<Rightarrow> nat \<Rightarrow> ConfigPacketBuffer \<Rightarrow> ('sig, 'env, unit) server_act" where
  "setUpConfigProtocolCallbacks X a firstPacketBuffer =
     act_bind (from_server (\<lambda>s. Inr (ss_clientType (sessionObjects s a)))) (\<lambda>connectionType.
     act_bind (on_env (setUpConfigProtocolServerCb X a connectionType)) (\<lambda>(receiveConfigPacketCb, clientToDeviceStreamingCb).
     act_seq (change_session a (\<lambda>x. x\<lparr>ss_configHandler := ConfigServerCb receiveConfigPacketCb,
                ss_packetHandler := ConfigPacketCb clientToDeviceStreamingCb\<rparr>))
             (case receiveConfigPacketCb of None \<Rightarrow> act_return () | Some cb \<Rightarrow> on_env (cb firstPacketBuffer))))"

text \<open>The connection is counted and announced.\<close>

definition acceptConfigConnection :: "('sig, 'env) server_ext \<Rightarrow> nat \<Rightarrow> ConfigPacketBuffer \<Rightarrow> ('sig, 'env, unit) server_act" where
  "acceptConfigConnection X a firstPacketBuffer =
     act_seq (change_session a (\<lambda>x. x\<lparr>ss_useConfigProtocol := True\<rparr>))
    (act_seq (change_server (incrementConfigConnectionCount a))
    (act_bind (from_server (\<lambda>s. Inr (sessionObjects s a))) (\<lambda>x.
     act_seq (on_env (clientConnectedHandler X (ss_clientId x) (endpointOf X a) False (ss_clientType x) (ss_clientHostName x)))
             (setUpConfigProtocolCallbacks X a firstPacketBuffer))))"

definition connectConfigProtocol :: "('sig, 'env) server_ext \<Rightarrow> nat \<Rightarrow> ConfigPacketBuffer \<Rightarrow> ('sig, 'env, unit) server_act" where
  "connectConfigProtocol X a firstPacketBuffer = (\<lambda>(s, e).
     (if isConnectionLimitReached s
      then on_env (reportConnectError X a firstPacketBuffer OPENDAQ_ERR_CONNECTION_LIMIT_REACHED (limitMessage X s))
      else if isControlConnectionRejected a s
      then on_env (reportConnectError X a firstPacketBuffer OPENDAQ_ERR_CONTROL_CLIENT_REJECTED
             ''Connection rejected, exclusive control client already connected'')
      else if isExclusiveControlConnectionRejected a s
      then if ss_exclusiveControlDropOthers (sessionObjects s a) \<and> \<not> ss_reconnected (sessionObjects s a)
           then act_seq (releaseOtherControlConnectionsInternal X a) (acceptConfigConnection X a firstPacketBuffer)
           else on_env (reportConnectError X a firstPacketBuffer OPENDAQ_ERR_CONTROL_CLIENT_REJECTED
                  ''Connection rejected, control or exclusive control client already connected'')
      else acceptConfigConnection X a firstPacketBuffer) (s, e))"

section \<open>Streaming connections\<close>

definition onPacketBufferReceived :: "('sig, 'env) server_ext \<Rightarrow> string \<Rightarrow> wire_buffer \<Rightarrow> ('sig, 'env, unit) server_act" where
  "onPacketBufferReceived X c w = on_manager_env (\<lambda>s x.
     case handleReceivedPacketBuffer (eventOfJson X) w c (\<lambda>sid p. deviceCall (\<lambda>h. packetHandler h sid p) s) x of
       None \<Rightarrow> (Inl NoReturn, x) | Some r \<Rightarrow> r)"

text \<open>The parameters of \<open>registerClient\<close> are the release threshold and the payload limit, in this order.\<close>

definition handleStreamingInit :: "('sig, 'env) server_ext \<Rightarrow> nat \<Rightarrow> ('sig, 'env, unit) server_act" where
  "handleStreamingInit X a =
     act_bind (from_server (\<lambda>s. Inr (sessionObjects s a, serverPayloadSizeMax s, packetStreamingReleaseThreshold s))) (\<lambda>(x, third, fourth).
     act_seq (on_manager (registerClient (ss_clientId x) (ss_reconnected x) third fourth))
    (act_seq (change_session a (\<lambda>y. y\<lparr>ss_packetHandler := StreamingPacketCb (ss_clientId x)\<rparr>))
    (act_bind (from_server (\<lambda>s. Inr (getRegisteredSignals (streamingManager s)))) (\<lambda>signals.
     act_seq (act_each (\<lambda>(i, sg). on_env (sendSignalAvailable (writerOf X a) i sg)) signals)
    (act_seq (on_env (sendStreamingInitDone (writerOf X a)))
             (on_env (clientConnectedHandler X (ss_clientId x) (endpointOf X a) True Control (ss_clientHostName x))))))))"

section \<open>Signals of clients\<close>

definition handleClientSignal :: "('sig, 'env) server_ext \<Rightarrow> 32 word \<Rightarrow> string \<Rightarrow> string option \<Rightarrow> bool \<Rightarrow> string
    \<Rightarrow> ('sig, 'env, unit) server_act" where
  "handleClientSignal X i sid serialized available c =
     (if available
      then act_seq (on_manager (\<lambda>m. (Inr (), registerClientSignal i sid c m)))
             (\<lambda>(s, e). on_env (deviceCall (\<lambda>h. signalAvailableHandler h sid serialized) s) (s, e))
      else act_seq (\<lambda>(s, e). on_env (deviceCall (\<lambda>h. signalUnavailableHandler h sid) s) (s, e))
             (on_manager (\<lambda>m. (Inr (), unregisterClientSignal i sid c m))))"

definition server_handleClientSignalSubscribeAck :: "32 word \<Rightarrow> bool \<Rightarrow> string \<Rightarrow> ('sig, 'env, unit) server_act" where
  "server_handleClientSignalSubscribeAck i subscribed c = on_manager_env (\<lambda>s.
     handleClientSignalSubscribeAck i subscribed c (\<lambda>sid b. deviceCall (\<lambda>h. signalSubscriptionAckCallback h sid b) s))"

section \<open>A session handler and its callbacks\<close>

fun dec_string :: "nat \<Rightarrow> string" where
  "dec_string n = (if n < 10 then [char_of (48 + n)] else dec_string (n div 10) @ [char_of (48 + n mod 10)])"

declare dec_string.simps [simp del]

definition initSessionHandler :: "nat \<Rightarrow> ('sig, 'env, unit) server_act" where
  "initSessionHandler a = change_server (\<lambda>s.
     let c = ''AssignedByServer/'' @ dec_string (unat (connectedClientIndex s)) in
     s\<lparr>connectedClientIndex := connectedClientIndex s + 1,
       sessionObjects := (sessionObjects s)(a := ServerSession_init c),
       sessionHandlers := om_insert c a (sessionHandlers s)\<rparr>)"

text \<open>The session handler with the callbacks it has at the moment.\<close>

definition sessionOf :: "('sig, 'env) server_ext \<Rightarrow> (string \<Rightarrow> SizeT) \<Rightarrow> nat \<Rightarrow> 'env ServerSession
    \<Rightarrow> (('sig, 'env) NativeServer \<times> 'env, 'sig, props) session_handler" where
  "sessionOf X refs a x =
     (ServerSessionHandler_init (\<lambda>sg (s, e). mayRead X a sg e) (\<lambda>(s, e). ss_clientId (sessionObjects s a))
        (BaseSessionHandler_init (\<lambda>ts. on_env (writeTo X a ts)) (globalIdOf X) (signalJson X) (propsOfJson X)
           (\<lambda>message. onSessionError X a)
           (Some (handleClientSignal X)) (Some server_handleClientSignalSubscribeAck)
           (Some (\<lambda>sid. from_server (\<lambda>s. findRegisteredSignal sid (streamingManager s))))
           (Some (handleSignalSubscription X refs))))
     \<lparr>transportLayerPropsHandler := Some (\<lambda>p. handleTransportLayerProps X p a),
      streamingInitHandler := Some (handleStreamingInit X a),
      configPacketReceivedHandler :=
        (case ss_configHandler x of
           FirstConfigPacket \<Rightarrow> Some (connectConfigProtocol X a)
         | ConfigServerCb cb \<Rightarrow> map_option (\<lambda>f p. on_env (f p)) cb),
      packetBufferReceivedHandler :=
        (case ss_packetHandler x of
           NoPacketCb \<Rightarrow> None
         | StreamingPacketCb c \<Rightarrow> Some (onPacketBufferReceived X c)
         | ConfigPacketCb cb \<Rightarrow> map_option (\<lambda>f w. on_env (f w)) cb)\<rparr>"

text \<open>A message that arrives on a session; by \<open>native_messages_arrive\<close> this is what its bytes do.\<close>

definition receiveMessage :: "('sig, 'env) server_ext \<Rightarrow> (string \<Rightarrow> SizeT) \<Rightarrow> nat \<Rightarrow> message \<Rightarrow> ('sig, 'env, unit) server_act" where
  "receiveMessage X refs a m = (\<lambda>(s, e). message_effect ServerSide (sessionOf X refs a (sessionObjects s a)) m (s, e))"

section \<open>Reasoning about acts\<close>

text \<open>From \<open>P\<close> the act ends in \<open>Q\<close> of its value, or with an exception in \<open>E\<close>.\<close>

definition triple :: "('e \<Rightarrow> bool) \<Rightarrow> ('e, 'a) act \<Rightarrow> ('a \<Rightarrow> 'e \<Rightarrow> bool) \<Rightarrow> ('e \<Rightarrow> bool) \<Rightarrow> bool" where
  "triple P f Q E \<longleftrightarrow> (\<forall>e. P e \<longrightarrow> (case f e of (Inr x, e1) \<Rightarrow> Q x e1 | (Inl _, e1) \<Rightarrow> E e1))"

abbreviation keeps :: "('e \<Rightarrow> bool) \<Rightarrow> ('e, 'a) act \<Rightarrow> bool" where
  "keeps I f \<equiv> triple I f (\<lambda>_. I) I"

named_theorems act_rules

lemma triple_bind:
  "triple P f R E \<Longrightarrow> (\<And>x. triple (R x) (g x) Q E) \<Longrightarrow> triple P (act_bind f g) Q E"
  unfolding triple_def act_bind_def by (fastforce split: sum.splits prod.splits)

lemma triple_conseq:
  "triple P f Q E \<Longrightarrow> (\<And>e. P' e \<Longrightarrow> P e) \<Longrightarrow> (\<And>x e. Q x e \<Longrightarrow> Q' x e) \<Longrightarrow> (\<And>e. E e \<Longrightarrow> E' e) \<Longrightarrow> triple P' f Q' E'"
  unfolding triple_def by (fastforce split: sum.splits prod.splits)

lemma triple_point: "(\<And>x. P x \<Longrightarrow> \<exists>P'. P' x \<and> triple P' f Q E) \<Longrightarrow> triple P f Q E"
  unfolding triple_def by meson

lemma triple_return: "(\<And>e. P e \<Longrightarrow> Q x e) \<Longrightarrow> triple P (act_return x) Q E"
  by (simp add: triple_def act_return_def)

lemma keeps_return [act_rules]: "keeps I (act_return x)"
  by (simp add: triple_def act_return_def)

lemma keeps_throw [act_rules]: "keeps I (act_throw x)"
  by (simp add: triple_def act_throw_def)

lemma keeps_bind [act_rules]: "keeps I f \<Longrightarrow> (\<And>x. keeps I (g x)) \<Longrightarrow> keeps I (act_bind f g)"
  by (rule triple_bind)

lemma keeps_if [act_rules]: "(b \<Longrightarrow> keeps I f) \<Longrightarrow> keeps I (act_if b f)"
  by (simp add: act_if_def keeps_return)

lemma keeps_each [act_rules]: "(\<And>x. x \<in> set xs \<Longrightarrow> keeps I (f x)) \<Longrightarrow> keeps I (act_each f xs)"
  by (induction xs) (auto intro!: act_rules)

lemma keeps_catch [act_rules]: "keeps I f \<Longrightarrow> keeps I (act_catch f x)"
  unfolding triple_def act_catch_def by (fastforce split: sum.splits prod.splits native_exn.splits)

lemma keeps_snd: "keeps I f \<Longrightarrow> I e \<Longrightarrow> I (snd (f e))"
  unfolding triple_def by (cases "f e") (auto split: sum.splits)

lemma bind_snd:
  assumes "I (snd (f e))" and "\<And>x. keeps I (g x)"
  shows "I (snd (act_bind f g e))"
proof -
  obtain r e1 where f: "f e = (r, e1)" by fastforce
  then show ?thesis using assms keeps_snd[OF assms(2)] by (cases r) (auto simp: act_bind_def)
qed

lemma triple_snd: "triple P f (\<lambda>_. I) I \<Longrightarrow> P e \<Longrightarrow> I (snd (f e))"
  unfolding triple_def by (cases "f e") (auto split: sum.splits)

lemma keepsI: "(\<And>e. P e \<Longrightarrow> I (snd (f e))) \<Longrightarrow> triple P f (\<lambda>_. I) I"
  unfolding triple_def by (fastforce split: sum.splits prod.splits)

text \<open>Reading the state passes on what it was.\<close>

lemma triple_from_server:
  "(\<And>v. triple (\<lambda>(s, e). P (s, e) \<and> f s = Inr v) (g v) Q E) \<Longrightarrow> (\<And>s e. P (s, e) \<Longrightarrow> E (s, e))
   \<Longrightarrow> triple P (act_bind (from_server f) g) Q E"
  unfolding triple_def act_bind_def from_server_def by (auto split: sum.splits)

lemma keeps_from_server [act_rules]: "keeps I (from_server f)"
  by (rule keepsI) (auto simp: from_server_def)

lemma keeps_on_env: "(\<And>s e e1. I (s, e) \<Longrightarrow> I (s, e1)) \<Longrightarrow> keeps I (on_env f)"
  by (rule keepsI) (auto simp: on_env_def split: prod.splits)

lemma keeps_on_manager:
  "(\<And>s e r m. I (s, e) \<Longrightarrow> f (streamingManager s) = (r, m) \<Longrightarrow> I (s\<lparr>streamingManager := m\<rparr>, e)) \<Longrightarrow> keeps I (on_manager f)"
  by (rule keepsI) (auto simp: on_manager_def split: prod.splits)

lemma keeps_on_manager_env:
  "(\<And>s e r m e1. I (s, e) \<Longrightarrow> f s (streamingManager s, e) = (r, (m, e1)) \<Longrightarrow> I (s\<lparr>streamingManager := m\<rparr>, e1))
   \<Longrightarrow> keeps I (on_manager_env f)"
  by (rule keepsI) (auto simp: on_manager_env_def split: prod.splits)

section \<open>Connections of the configuration protocol\<close>

definition sessions :: "('sig, 'env) NativeServer \<Rightarrow> nat set" where
  "sessions s = snd ` set (sessionHandlers s)"

definition connections :: "('sig, 'env) NativeServer \<Rightarrow> nat set" where
  "connections s = {a \<in> sessions s. ss_useConfigProtocol (sessionObjects s a)}"

definition connections_of :: "ClientType \<Rightarrow> ('sig, 'env) NativeServer \<Rightarrow> nat set" where
  "connections_of t s = {a \<in> connections s. ss_clientType (sessionObjects s a) = t}"

text \<open>
  The table of sessions is consistent and the counters are exact; a client with exclusive control
  is the only one that controls the device; the configured limit holds.
\<close>

definition conn_ok :: "('sig, 'env) NativeServer \<Rightarrow> bool" where
  "conn_ok s \<longleftrightarrow> om_ok (sessionHandlers s) \<and> inj_on snd (set (sessionHandlers s)) \<and>
     (\<forall>(c, a) \<in> set (sessionHandlers s). ss_clientId (sessionObjects s a) = c \<and>
        (ss_useConfigProtocol (sessionObjects s a) \<longrightarrow> ss_configHandler (sessionObjects s a) \<noteq> FirstConfigPacket)) \<and>
     configConnectionsCount s = of_nat (card (connections s)) \<and>
     controlConnectionsCount s = of_nat (card (connections_of Control s)) \<and>
     exclusiveControlConnectionsCount s = of_nat (card (connections_of ExclusiveControl s)) \<and>
     (maxAllowedConfigConnections s \<noteq> 0 \<longrightarrow> card (connections s) \<le> unat (maxAllowedConfigConnections s)) \<and>
     card (connections_of ExclusiveControl s) \<le> 1 \<and>
     (connections_of ExclusiveControl s = {} \<or> connections_of Control s = {})"

lemma finite_connections [simp]: "finite (sessions s)" "finite (connections s)" "finite (connections_of t s)"
  by (simp_all add: sessions_def connections_def connections_of_def)

lemma conn_ok_manager [simp]: "conn_ok (s\<lparr>streamingManager := m\<rparr>) = conn_ok s"
  by (simp add: conn_ok_def connections_of_def connections_def sessions_def)

lemma sessions_erase:
  assumes "om_ok h" and "inj_on snd (set h)" and "(c, a) \<in> set h"
  shows "snd ` set (om_erase c h) = snd ` set h - {a}" "set (om_erase c h) = set h - {(c, a)}"
proof -
  have e: "set (om_erase c h) = {x \<in> set h. fst x \<noteq> c}"
    by (auto simp: om_erase_def AList.delete_eq case_prod_unfold)
  have k: "x = (c, a)" if "x \<in> set h" "fst x = c" for x
    using that eq_key_imp_eq_value[of h c "snd x" a] assms(1,3) by (cases x) (auto simp: om_ok_def)
  have "fst x \<noteq> c \<longleftrightarrow> x \<noteq> (c, a)" if "x \<in> set h" for x using k[OF that] by auto
  then show s: "set (om_erase c h) = set h - {(c, a)}" unfolding e by blast
  show "snd ` set (om_erase c h) = snd ` set h - {a}"
    unfolding s using inj_on_image_set_diff[OF assms(2), of "set h" "{(c, a)}"] assms(3) by simp
qed

lemma of_nat_card_remove:
  assumes "finite A" and "a \<in> A"
  shows "(of_nat (card A) :: SizeT) - 1 = of_nat (card (A - {a}))"
proof -
  obtain n where "card A = Suc n" "card (A - {a}) = n" using card_Suc_Diff1[OF assms] by metis
  then show ?thesis by simp
qed

lemma conn_ok_forget:
  assumes "conn_ok s" and "(c, a) \<in> set (sessionHandlers s)"
  shows "conn_ok ((decrementConfigConnectionCount a s)\<lparr>sessionHandlers := om_erase c (sessionHandlers s)\<rparr>)"
    (is "conn_ok ?s")
proof -
  have h: "om_ok (sessionHandlers s)" "inj_on snd (set (sessionHandlers s))" using assms(1) by (simp_all add: conn_ok_def)
  note er = sessions_erase[OF h assms(2)]
  have o: "sessionObjects ?s = sessionObjects s" "sessionHandlers ?s = om_erase c (sessionHandlers s)"
    "maxAllowedConfigConnections ?s = maxAllowedConfigConnections s"
    by (simp_all add: decrementConfigConnectionCount_def Let_def)
  have s: "sessions ?s = sessions s - {a}" by (simp add: sessions_def er(1))
  then have cs: "connections ?s = connections s - {a}" "connections_of t ?s = connections_of t s - {a}" for t
    using o by (auto simp: connections_def connections_of_def)
  have ina: "a \<in> connections s \<longleftrightarrow> ss_useConfigProtocol (sessionObjects s a)"
    "a \<in> connections_of t s \<longleftrightarrow> ss_useConfigProtocol (sessionObjects s a) \<and> ss_clientType (sessionObjects s a) = t" for t
    using assms(2) by (force simp: connections_def connections_of_def sessions_def)+
  have le: "card (A - {a}) \<le> card A" if "finite A" for A :: "nat set" using that by (simp add: card_Diff1_le)
  have counts: "configConnectionsCount ?s = of_nat (card (connections ?s))"
    "controlConnectionsCount ?s = of_nat (card (connections_of Control ?s))"
    "exclusiveControlConnectionsCount ?s = of_nat (card (connections_of ExclusiveControl ?s))"
    using assms(1) ina of_nat_card_remove[of _ a] unfolding cs
    by (auto simp: decrementConfigConnectionCount_def Let_def conn_ok_def)
  have "om_ok (om_erase c (sessionHandlers s))" "inj_on snd (set (om_erase c (sessionHandlers s)))"
    using h er(2) by (auto intro: inj_on_subset)
  then show ?thesis
    using assms(1) counts le[of "connections s"] le[of "connections_of ExclusiveControl s"] er(2) o
    unfolding conn_ok_def cs by auto
qed


lemma forget_sessions [simp]:
  assumes "conn_ok s" and "(c, a) \<in> set (sessionHandlers s)"
  shows "sessions ((decrementConfigConnectionCount a s)\<lparr>sessionHandlers := om_erase c (sessionHandlers s)\<rparr>) = sessions s - {a}"
proof -
  have "om_ok (sessionHandlers s)" "inj_on snd (set (sessionHandlers s))" using assms(1) by (simp_all add: conn_ok_def)
  from sessions_erase(1)[OF this assms(2)] show ?thesis by (simp add: sessions_def)
qed

lemma decrement_objects [simp]:
  "sessionObjects (decrementConfigConnectionCount a s) = sessionObjects s"
  "maxAllowedConfigConnections (decrementConfigConnectionCount a s) = maxAllowedConfigConnections s"
  by (simp_all add: decrementConfigConnectionCount_def Let_def)

text \<open>
  Releasing a session keeps all of this, also when a callback throws on the way; when it
  succeeds the session is gone and nothing else changed in the table.
\<close>

definition table :: "(nat \<Rightarrow> 'env ServerSession) \<times> SizeT \<Rightarrow> nat set \<Rightarrow> ('sig, 'env) NativeServer \<times> 'env \<Rightarrow> bool" where
  "table ob A x \<longleftrightarrow> conn_ok (fst x) \<and> (sessionObjects (fst x), maxAllowedConfigConnections (fst x)) = ob \<and> sessions (fst x) = A"

abbreviation conns_fine :: "('sig, 'env) NativeServer \<times> 'env \<Rightarrow> bool" where
  "conns_fine x \<equiv> conn_ok (fst x)"

definition entry :: "string \<Rightarrow> nat \<Rightarrow> (nat \<Rightarrow> 'env ServerSession) \<times> SizeT \<Rightarrow> nat set \<Rightarrow> ('sig, 'env) NativeServer \<times> 'env \<Rightarrow> bool" where
  "entry c a ob A x \<longleftrightarrow> table ob A x \<and> (c, a) \<in> set (sessionHandlers (fst x))"

lemma keeps_entry [act_rules]:
  "keeps (entry c a ob A) (on_env f)" "keeps (entry c a ob A) (on_manager g)" "keeps (entry c a ob A) (on_manager_env k)"
  by (intro keeps_on_env keeps_on_manager keeps_on_manager_env; simp add: entry_def table_def sessions_def)+

lemma triple_keeps: "keeps P f \<Longrightarrow> (\<And>x. P x \<Longrightarrow> E x) \<Longrightarrow> triple P f (\<lambda>_. P) E"
  by (rule triple_conseq)

lemma triple_entry: "keeps (entry c a ob A) f \<Longrightarrow> triple (entry c a ob A) f (\<lambda>_. entry c a ob A) conns_fine"
  by (rule triple_keeps) (simp_all add: entry_def table_def)

lemma forget_table: "triple (entry c a ob A) (forgetClient X c a) (\<lambda>_. table ob (A - {a})) conns_fine"
proof -
  have last: "triple (entry c a ob A) (change_server (\<lambda>s. (decrementConfigConnectionCount a s)\<lparr>sessionHandlers := om_erase c (sessionHandlers s)\<rparr>))
      (\<lambda>_. table ob (A - {a})) conns_fine"
    unfolding triple_def change_server_def entry_def table_def by (simp add: conn_ok_forget)
  show ?thesis
    unfolding forgetClient_def
    by (intro triple_bind[OF triple_entry] last act_rules)
qed


lemma find_SomeD: "find P l = Some x \<Longrightarrow> x \<in> set l" "find P l = Some x \<Longrightarrow> P x"
  by (auto simp: find_Some_iff)

lemma find_entry: "find (\<lambda>x. snd x = a) l = Some (c, b) \<Longrightarrow> (c, a) \<in> set l"
  using find_SomeD[of "\<lambda>x. snd x = a" l "(c, b)"] by auto

lemma table_fine: "table ob A x \<Longrightarrow> conns_fine x"
  by (simp add: table_def)

lemma keeps_table_env: "keeps (table ob A) (on_env f)"
  by (rule keeps_on_env) (simp add: table_def)

lemma release_table: "triple (table ob A) (releaseSessionHandlerInternal X a) (\<lambda>_. table ob (A - {a})) conns_fine"
proof -
  have "triple (\<lambda>(s, e). table ob A (s, e) \<and> Inr (find (\<lambda>x. snd x = a) (sessionHandlers s)) = Inr v)
      (case v of None \<Rightarrow> act_return () | Some (c, _) \<Rightarrow> forgetClient X c a) (\<lambda>_. table ob (A - {a})) conns_fine" for v
  proof (cases v)
    case None
    then show ?thesis
      by (auto simp: find_None_iff table_def sessions_def split: prod.splits intro!: triple_return)
  next
    case (Some ca)
    obtain c b where ca: "ca = (c, b)" by (cases ca)
    show ?thesis
      unfolding Some ca option.case prod.case
      by (rule triple_conseq[OF forget_table[of c a ob A X]]) (auto simp: entry_def intro: find_entry)
  qed
  then show ?thesis
    unfolding releaseSessionHandlerInternal_def
    by (intro triple_from_server triple_bind[OF _ triple_keeps[OF keeps_table_env]]) (auto dest: table_fine)
qed

lemma keeps_release [act_rules]: "keeps conns_fine (releaseSessionHandlerInternal X a)"
proof (rule triple_point)
  fix x :: "('a, 'b) NativeServer \<times> 'b"
  let ?P = "table (sessionObjects (fst x), maxAllowedConfigConnections (fst x)) (sessions (fst x))"
  assume "conns_fine x"
  then have "?P x" by (simp add: table_def)
  moreover have "triple ?P (releaseSessionHandlerInternal X a) (\<lambda>_. conns_fine) conns_fine"
    by (rule triple_conseq[OF release_table]) (auto intro: table_fine)
  ultimately show "\<exists>P. P x \<and> triple P (releaseSessionHandlerInternal X a) (\<lambda>_. conns_fine) conns_fine" by blast
qed

lemma release_all_table: "triple (table ob A) (act_each (releaseSessionHandlerInternal X) bs) (\<lambda>_. table ob (A - set bs)) conns_fine"
proof (induction bs arbitrary: A)
  case (Cons b bs)
  have "A - set (b # bs) = A - {b} - set bs" by auto
  then show ?case using Cons.IH[of "A - {b}"] by (auto intro!: triple_bind[OF release_table])
qed (auto intro!: triple_return)


subsection \<open>Accepting a connection\<close>

definition may_accept :: "nat \<Rightarrow> ('sig, 'env) NativeServer \<Rightarrow> bool" where
  "may_accept a s \<longleftrightarrow> a \<in> sessions s \<and> \<not> ss_useConfigProtocol (sessionObjects s a) \<and>
     (maxAllowedConfigConnections s \<noteq> 0 \<longrightarrow> card (connections s) < unat (maxAllowedConfigConnections s)) \<and>
     (ss_clientType (sessionObjects s a) \<noteq> ViewOnly \<longrightarrow> connections_of ExclusiveControl s = {}) \<and>
     (ss_clientType (sessionObjects s a) = ExclusiveControl \<longrightarrow> connections_of Control s = {})"

lemma conn_ok_accept:
  assumes "conn_ok s" and "may_accept a s" and x: "ss_clientId x = ss_clientId (sessionObjects s a)"
    "ss_useConfigProtocol x" "ss_clientType x = ss_clientType (sessionObjects s a)" "ss_configHandler x \<noteq> FirstConfigPacket"
  shows "conn_ok (incrementConfigConnectionCount a (s\<lparr>sessionObjects := (sessionObjects s)(a := x)\<rparr>))" (is "conn_ok ?s")
proof -
  let ?t = "ss_clientType (sessionObjects s a)"
  have h: "sessionHandlers ?s = sessionHandlers s" "sessionObjects ?s = (sessionObjects s)(a := x)"
    "maxAllowedConfigConnections ?s = maxAllowedConfigConnections s"
    by (simp_all add: incrementConfigConnectionCount_def Let_def)
  have a: "a \<in> sessions s" "a \<notin> connections s" "a \<notin> connections_of t s" for t
    using assms(2) by (auto simp: may_accept_def connections_def connections_of_def)
  have cs: "connections ?s = insert a (connections s)"
    "connections_of t ?s = (if t = ?t then insert a (connections_of t s) else connections_of t s)" for t
    using a x h by (auto simp: connections_def connections_of_def sessions_def)
  then have card: "card (connections ?s) = Suc (card (connections s))"
    "card (connections_of t ?s) = (if t = ?t then Suc (card (connections_of t s)) else card (connections_of t s))" for t
    using a by (simp_all add: card_insert_disjoint)
  have counts: "configConnectionsCount ?s = of_nat (card (connections ?s))"
    "controlConnectionsCount ?s = of_nat (card (connections_of Control ?s))"
    "exclusiveControlConnectionsCount ?s = of_nat (card (connections_of ExclusiveControl ?s))"
    using assms(1) x(3) unfolding card by (auto simp: incrementConfigConnectionCount_def Let_def conn_ok_def)
  have "card (connections_of ExclusiveControl ?s) \<le> 1"
    "connections_of ExclusiveControl ?s = {} \<or> connections_of Control ?s = {}"
    using assms(1,2) unfolding card cs by (auto simp: may_accept_def conn_ok_def)
  moreover have "maxAllowedConfigConnections ?s \<noteq> 0 \<longrightarrow> card (connections ?s) \<le> unat (maxAllowedConfigConnections ?s)"
    using assms(2) h(3) card(1) by (auto simp: may_accept_def)
  moreover have "\<forall>(c, b) \<in> set (sessionHandlers ?s). ss_clientId (sessionObjects ?s b) = c \<and>
      (ss_useConfigProtocol (sessionObjects ?s b) \<longrightarrow> ss_configHandler (sessionObjects ?s b) \<noteq> FirstConfigPacket)"
    using assms(1) x unfolding h by (auto simp: conn_ok_def)
  ultimately show ?thesis using assms(1) counts h(1) unfolding conn_ok_def by auto
qed

text \<open>The callbacks that run between counting a connection and installing its handlers do not throw.\<close>

definition connect_callbacks_return :: "('sig, 'env) server_ext \<Rightarrow> bool" where
  "connect_callbacks_return X \<longleftrightarrow>
     (\<forall>c p b t h e. \<exists>e1. clientConnectedHandler X c p b t h e = (Inr (), e1)) \<and>
     (\<forall>a t e. \<exists>cbs e1. setUpConfigProtocolServerCb X a t e = (Inr cbs, e1))"

lemma accept_result:
  assumes "connect_callbacks_return X"
  shows "\<exists>r e1 cb pcb. acceptConfigConnection X a p (s, e) = (r, (incrementConfigConnectionCount a (s\<lparr>sessionObjects :=
    (sessionObjects s)(a := (sessionObjects s a)\<lparr>ss_useConfigProtocol := True, ss_configHandler := ConfigServerCb cb, ss_packetHandler := ConfigPacketCb pcb\<rparr>)\<rparr>), e1))"
proof -
  let ?x = "(sessionObjects s a)\<lparr>ss_useConfigProtocol := True\<rparr>"
  obtain e1 where e1: "clientConnectedHandler X (ss_clientId ?x) (endpointOf X a) False (ss_clientType ?x) (ss_clientHostName ?x) e = (Inr (), e1)"
    using assms by (metis connect_callbacks_return_def)
  obtain cb pcb e2 where e2: "setUpConfigProtocolServerCb X a (ss_clientType ?x) e1 = (Inr (cb, pcb), e2)"
    using assms by (metis connect_callbacks_return_def prod.collapse)
  note defs = acceptConfigConnection_def setUpConfigProtocolCallbacks_def act_defs change_session_def
    change_server_def from_server_def on_env_def incrementConfigConnectionCount_def Let_def
  show ?thesis
  proof (cases cb)
    case None
    then show ?thesis
      apply (intro exI[of _ "Inr ()"] exI[of _ e2] exI[of _ cb] exI[of _ pcb])
      using e1 e2 by (cases s) (simp add: defs)
  next
    case (Some f)
    obtain r e3 where "f p e2 = (r, e3)" by fastforce
    then show ?thesis
      apply (intro exI[of _ r] exI[of _ e3] exI[of _ cb] exI[of _ pcb])
      using e1 e2 Some by (cases s) (simp add: defs)
  qed
qed

text \<open>A counter is positive when there is such a connection.\<close>

lemma counter_positive:
  assumes "length (sessionHandlers s) < 2 ^ 64"
  shows "(of_nat (card (connections_of t s)) :: SizeT) > 0 \<longleftrightarrow> connections_of t s \<noteq> {}"
    and "(of_nat (card (connections s)) :: SizeT) = m \<longleftrightarrow> card (connections s) = unat m"
proof -
  have "card (connections_of t s) \<le> card (connections s)" by (rule card_mono) (auto simp: connections_of_def)
  moreover have "card (connections s) \<le> card (sessions s)" by (rule card_mono) (auto simp: connections_def)
  moreover have "card (sessions s) \<le> length (sessionHandlers s)"
    unfolding sessions_def by (metis card_image_le card_length finite_set le_trans)
  ultimately have lt: "card (connections_of t s) < 2 ^ 64" "card (connections s) < 2 ^ 64" using assms by linarith+
  show "(of_nat (card (connections_of t s)) :: SizeT) > 0 \<longleftrightarrow> connections_of t s \<noteq> {}"
    using lt(1) by (simp add: word_less_nat_alt unsigned_of_nat take_bit_nat_eq_self card_gt_0_iff)
  show "(of_nat (card (connections s)) :: SizeT) = m \<longleftrightarrow> card (connections s) = unat m"
    using lt(2) by (auto simp: word_unat_eq_iff unsigned_of_nat take_bit_nat_eq_self)
qed

lemma connect_ok:
  assumes "connect_callbacks_return X" and ok: "conn_ok s" and len: "length (sessionHandlers s) < 2 ^ 64"
    and a: "a \<in> sessions s" "\<not> ss_useConfigProtocol (sessionObjects s a)"
  shows "conn_ok (fst (snd (connectConfigProtocol X a p (s, e))))"
proof -
  have accept: "conn_ok (fst (snd (acceptConfigConnection X a p (s1, e1))))" if s1: "conn_ok s1" "may_accept a s1" for s1 e1
    using accept_result[OF assms(1), of a p s1 e1] conn_ok_accept[OF s1] by fastforce
  have env: "conn_ok (fst (snd (on_env f (s, e))))" for f :: "('b, unit) act"
    using ok by (simp add: on_env_def split: prod.splits)
  note pos = counter_positive[OF len]
  have counts: "configConnectionsCount s = of_nat (card (connections s))"
    "controlConnectionsCount s = of_nat (card (connections_of Control s))"
    "exclusiveControlConnectionsCount s = of_nat (card (connections_of ExclusiveControl s))"
    using ok by (simp_all add: conn_ok_def)
  let ?t = "ss_clientType (sessionObjects s a)"
  show ?thesis
  proof (cases "isConnectionLimitReached s \<or> isControlConnectionRejected a s")
    case True
    then show ?thesis using env by (auto simp: connectConfigProtocol_def)
  next
    case False
    then have lim: "maxAllowedConfigConnections s \<noteq> 0 \<longrightarrow> card (connections s) < unat (maxAllowedConfigConnections s)"
      using ok pos(2) counts(1) by (auto simp: isConnectionLimitReached_def conn_ok_def le_less)
    have ctl: "?t = Control \<Longrightarrow> connections_of ExclusiveControl s = {}"
      using False pos(1) counts(3) by (auto simp: isControlConnectionRejected_def)
    show ?thesis
    proof (cases "isExclusiveControlConnectionRejected a s")
      case free: False
      have "?t = ExclusiveControl \<Longrightarrow> connections_of ExclusiveControl s = {} \<and> connections_of Control s = {}"
        using free pos(1) counts by (auto simp: isExclusiveControlConnectionRejected_def)
      then have "may_accept a s" using a lim ctl by (cases ?t) (auto simp: may_accept_def)
      then show ?thesis using False free accept[OF ok] by (auto simp: connectConfigProtocol_def)
    next
      case taken: True
      let ?bs = "otherControlConnections a s"
      have bs: "set ?bs = connections_of Control s \<union> connections_of ExclusiveControl s"
        using a by (auto simp: otherControlConnections_def connections_of_def connections_def sessions_def)
      have ms: "may_accept a s1" if "table (sessionObjects s, maxAllowedConfigConnections s) (sessions s - set ?bs) (s1, e1)"
        for s1 :: "('a, 'b) NativeServer" and e1
      proof -
        have "connections s1 \<subseteq> connections s" "connections_of Control s1 = {}" "connections_of ExclusiveControl s1 = {}" "a \<in> sessions s1"
          using that a bs by (auto simp: table_def connections_def connections_of_def)
        moreover have "card (connections s1) \<le> card (connections s)" using calculation by (simp add: card_mono)
        ultimately show ?thesis using that a lim by (auto simp: may_accept_def table_def)
      qed
      have "triple (table (sessionObjects s, maxAllowedConfigConnections s) (sessions s))
          (act_seq (act_each (releaseSessionHandlerInternal X) ?bs) (acceptConfigConnection X a p)) (\<lambda>_. conns_fine) conns_fine"
      proof (intro triple_bind[OF release_all_table] keepsI)
        fix x :: "('a, 'b) NativeServer \<times> 'b"
        assume "table (sessionObjects s, maxAllowedConfigConnections s) (sessions s - set ?bs) x"
        then show "conns_fine (snd (acceptConfigConnection X a p x))"
          using accept[of "fst x" "snd x"] ms[of "fst x" "snd x"] table_fine[of _ _ x] by (cases x) simp
      qed
      from this[unfolded triple_def, rule_format, of "(s, e)"]
      have "conn_ok (fst (snd (act_seq (releaseOtherControlConnectionsInternal X a) (acceptConfigConnection X a p) (s, e))))"
        using ok by (auto simp: table_def releaseOtherControlConnectionsInternal_def act_bind_def from_server_def split: sum.splits prod.splits)
      then show ?thesis using False taken env by (auto simp: connectConfigProtocol_def)
    qed
  qed
qed


subsection \<open>The other operations on sessions\<close>

lemma key_iff:
  assumes "conn_ok s"
  shows "map_of (sessionHandlers s) c = Some a \<longleftrightarrow> a \<in> sessions s \<and> ss_clientId (sessionObjects s a) = c"
proof -
  have "om_ok (sessionHandlers s)" and k: "\<forall>(c, a) \<in> set (sessionHandlers s). ss_clientId (sessionObjects s a) = c"
    using assms by (auto simp: conn_ok_def)
  then have "map_of (sessionHandlers s) c = Some a \<longleftrightarrow> (c, a) \<in> set (sessionHandlers s)" by (simp add: om_ok_def)
  then show ?thesis using k by (force simp: sessions_def)
qed

lemma key_None: "conn_ok s \<Longrightarrow> map_of (sessionHandlers s) c = None \<longleftrightarrow> (\<forall>a \<in> sessions s. ss_clientId (sessionObjects s a) \<noteq> c)"
  using key_iff[of s c] by (cases "map_of (sessionHandlers s) c") auto

lemma connections_change:
  assumes "ss_useConfigProtocol x = ss_useConfigProtocol (sessionObjects s a)"
    and "ss_useConfigProtocol x \<Longrightarrow> ss_clientType x = ss_clientType (sessionObjects s a)"
    and "sessions s1 = sessions s" and "sessionObjects s1 = (sessionObjects s)(a := x)"
  shows "connections s1 = connections s" "connections_of t s1 = connections_of t s"
  using assms by (auto simp: connections_def connections_of_def)

lemma conn_ok_change:
  assumes "conn_ok s" and "ss_clientId x = ss_clientId (sessionObjects s a)"
    and "ss_useConfigProtocol x = ss_useConfigProtocol (sessionObjects s a)"
    and "ss_useConfigProtocol x \<Longrightarrow> ss_clientType x = ss_clientType (sessionObjects s a) \<and> ss_configHandler x = ss_configHandler (sessionObjects s a)"
  shows "conn_ok (s\<lparr>sessionObjects := (sessionObjects s)(a := x)\<rparr>)" (is "conn_ok ?s")
proof -
  have "connections ?s = connections s" "connections_of t ?s = connections_of t s" for t
    using assms by (intro connections_change[of x s a]; simp add: sessions_def)+
  then show ?thesis using assms unfolding conn_ok_def by (auto split: prod.splits)
qed

lemma conn_ok_take:
  assumes ok: "conn_ok s" and use: "\<not> ss_useConfigProtocol (sessionObjects s a)"
    and free: "map_of (sessionHandlers s) c = None" and live: "a \<in> sessions s \<or> ss_clientId (sessionObjects s a) = c"
  shows "conn_ok (fst (snd (takeClientId c a (s, e))))"
proof (cases "map_of (sessionHandlers s) (ss_clientId (sessionObjects s a))")
  case None
  then show ?thesis using ok by (simp add: takeClientId_def act_defs from_server_def)
next
  case (Some b)
  let ?i = "ss_clientId (sessionObjects s a)" and ?h = "sessionHandlers s"
  have h: "om_ok ?h" "inj_on snd (set ?h)" using ok by (simp_all add: conn_ok_def)
  have "a \<in> sessions s" using live Some free by auto
  then have "map_of ?h ?i = Some a" using key_iff[OF ok, of ?i a] by simp
  then have b: "b = a" using Some by simp
  have ia: "(?i, a) \<in> set ?h" using Some b by (simp add: map_of_SomeD)
  note er = sessions_erase[OF h ia]
  let ?h1 = "om_insert c a (om_erase ?i ?h)" and ?x = "(sessionObjects s a)\<lparr>ss_clientId := c\<rparr>"
  let ?s = "s\<lparr>sessionHandlers := ?h1, sessionObjects := (sessionObjects s)(a := ?x)\<rparr>"
  have "\<not> om_has (om_erase ?i ?h) c" using free by (simp add: om_has_def map_of_om_erase)
  then have h1: "?h1 = om_erase ?i ?h @ [(c, a)]" by (simp add: om_insert_def)
  have ss: "sessions ?s = sessions s" using er(1) ia unfolding sessions_def by (force simp: h1)
  have "connections ?s = connections s" "connections_of t ?s = connections_of t s" for t
    using use ss by (intro connections_change[of ?x s a]; simp)+
  moreover have "om_ok ?h1" using h by simp
  moreover have "inj_on snd (set ?h1)"
    using h(2) er by (auto simp: h1 inj_on_def)
  moreover have "\<forall>(k, b) \<in> set ?h1. ss_clientId (sessionObjects ?s b) = k \<and>
      (ss_useConfigProtocol (sessionObjects ?s b) \<longrightarrow> ss_configHandler (sessionObjects ?s b) \<noteq> FirstConfigPacket)"
    using ok er(1) use by (force simp: h1 conn_ok_def er(2))
  ultimately have "conn_ok ?s" using ok unfolding conn_ok_def by simp
  then show ?thesis
    using Some b by (simp add: takeClientId_def act_defs from_server_def change_server_def change_session_def)
qed


lemma change_session_fine:
  assumes "conns_fine x" and "\<And>y. ss_clientId (f y) = ss_clientId y" and "\<And>y. ss_useConfigProtocol (f y) = ss_useConfigProtocol y"
    and "\<And>y. ss_useConfigProtocol y \<Longrightarrow> y = sessionObjects (fst x) a \<Longrightarrow> ss_clientType (f y) = ss_clientType y"
    and "\<And>y. ss_configHandler (f y) = ss_configHandler y"
  shows "conns_fine (snd (change_session a f x))"
  using assms conn_ok_change[of "fst x" "f (sessionObjects (fst x) a)" a]
  by (cases x) (auto simp: change_session_def change_server_def)

text \<open>A client names itself before it uses the configuration protocol.\<close>

definition unused :: "nat \<Rightarrow> ('sig, 'env) NativeServer \<times> 'env \<Rightarrow> bool" where
  "unused a x \<longleftrightarrow> conns_fine x \<and> \<not> ss_useConfigProtocol (sessionObjects (fst x) a)"

lemma unused_fine: "unused a x \<Longrightarrow> conns_fine x"
  by (simp add: unused_def)

lemma set_unused:
  assumes "\<And>y. ss_clientId (f y) = ss_clientId y" and "\<And>y. ss_useConfigProtocol (f y) = ss_useConfigProtocol y"
    and "\<And>y. ss_configHandler (f y) = ss_configHandler y"
  shows "triple (unused a) (change_session a f) (\<lambda>_. unused a) E"
proof -
  have "unused a (snd (change_session a f x))" if "unused a x" for x
    using that assms change_session_fine[of x f a] by (cases x) (auto simp: unused_def change_session_def change_server_def)
  then show ?thesis
    unfolding triple_def by (auto simp: change_session_def change_server_def)
qed

lemma take_unused:
  "triple (\<lambda>x. unused a x \<and> map_of (sessionHandlers (fst x)) c = None \<and> (a \<in> sessions (fst x) \<or> ss_clientId (sessionObjects (fst x) a) = c))
     (takeClientId c a) (\<lambda>_. unused a) conns_fine"
proof (rule triple_conseq[OF keepsI])
  fix x
  assume x: "unused a x \<and> map_of (sessionHandlers (fst x)) c = None \<and> (a \<in> sessions (fst x) \<or> ss_clientId (sessionObjects (fst x) a) = c)"
  then have "conns_fine (snd (takeClientId c a x))" using conn_ok_take[of "fst x" a c "snd x"] by (simp add: unused_def)
  moreover have "\<not> ss_useConfigProtocol (sessionObjects (fst (snd (takeClientId c a x))) a)"
    using x by (cases x) (auto simp: unused_def takeClientId_def act_defs from_server_def change_session_def change_server_def split: option.splits)
  ultimately show "unused a (snd (takeClientId c a x))" by (simp add: unused_def)
qed (auto simp: unused_fine)

lemma take_then_unused:
  "triple (\<lambda>x. unused a x \<and> map_of (sessionHandlers (fst x)) c = None \<and> (a \<in> sessions (fst x) \<or> ss_clientId (sessionObjects (fst x) a) = c))
     (act_seq (takeClientId c a) (change_session a (\<lambda>x. x\<lparr>ss_reconnected := rec\<rparr>))) (\<lambda>_. unused a) conns_fine"
  by (rule triple_bind[OF take_unused set_unused]) simp_all

lemma registerClientId_ok:
  "triple (\<lambda>x. unused a x \<and> a \<in> sessions (fst x)) (registerClientId X c rec a) (\<lambda>_. unused a) conns_fine"
proof -
  let ?take = "act_seq (takeClientId c a) (change_session a (\<lambda>x. x\<lparr>ss_reconnected := rec\<rparr>))"
  have rel: "triple (\<lambda>x. unused a x \<and> a \<in> sessions (fst x) \<and> map_of (sessionHandlers (fst x)) c = Some b)
      (act_seq (releaseSessionHandlerInternal X b) ?take) (\<lambda>_. unused a) conns_fine" for b
  proof (rule triple_point)
    fix x :: "('a, 'b) NativeServer \<times> 'b"
    assume x: "unused a x \<and> a \<in> sessions (fst x) \<and> map_of (sessionHandlers (fst x)) c = Some b"
    then have ok: "conn_ok (fst x)" by (simp add: unused_def)
    let ?T = "table (sessionObjects (fst x), maxAllowedConfigConnections (fst x)) :: nat set \<Rightarrow> ('a, 'b) NativeServer \<times> 'b \<Rightarrow> bool"
    have "unused a y \<and> map_of (sessionHandlers (fst y)) c = None \<and> (a \<in> sessions (fst y) \<or> ss_clientId (sessionObjects (fst y) a) = c)"
      if y: "?T (sessions (fst x) - {b}) y" for y :: "('a, 'b) NativeServer \<times> 'b"
    proof -
      have o: "sessionObjects (fst y) = sessionObjects (fst x)" "sessions (fst y) = sessions (fst x) - {b}" "conn_ok (fst y)"
        using y by (auto simp: table_def)
      have b: "b \<in> sessions (fst x)" "ss_clientId (sessionObjects (fst x) b) = c" using x key_iff[OF ok] by blast+
      have "map_of (sessionHandlers (fst x)) c = Some d \<Longrightarrow> d = b" for d using x by simp
      then have "ss_clientId (sessionObjects (fst y) d) \<noteq> c" if "d \<in> sessions (fst y)" for d
        using that o key_iff[OF ok, of c d] by auto
      then have "map_of (sessionHandlers (fst y)) c = None" using key_None[OF o(3)] by blast
      then show ?thesis using x o b by (auto simp: unused_def)
    qed
    note here = this
    have "triple (?T (sessions (fst x) - {b})) ?take (\<lambda>_. unused a) conns_fine" by (rule triple_conseq[OF take_then_unused]) (use here in auto)
    then have "triple (?T (sessions (fst x))) (act_seq (releaseSessionHandlerInternal X b) ?take) (\<lambda>_. unused a) conns_fine"
      by (rule triple_bind[OF release_table])
    moreover have "?T (sessions (fst x)) x" using ok by (simp add: table_def)
    ultimately show "\<exists>P. P x \<and> triple P (act_seq (releaseSessionHandlerInternal X b) ?take) (\<lambda>_. unused a) conns_fine" by blast
  qed
  have "triple (\<lambda>(s, e). (unused a (s, e) \<and> a \<in> sessions (fst (s, e))) \<and> Inr (map_of (sessionHandlers s) c) = Inr v)
      (act_seq (case v of None \<Rightarrow> act_return () | Some b \<Rightarrow> act_if rec (releaseSessionHandlerInternal X b))
        (act_seq (act_if (v = None \<or> rec) (takeClientId c a)) (change_session a (\<lambda>x. x\<lparr>ss_reconnected := rec\<rparr>))))
      (\<lambda>_. unused a) conns_fine" for v
  proof (cases v)
    case None
    show ?thesis
      unfolding None by (simp add: act_if_def act_bind_return(1)) (rule triple_conseq[OF take_then_unused]; auto)
  next
    case (Some b)
    show ?thesis
    proof (cases rec)
      case True
      then have t: "rec = True" by simp
      show ?thesis
        unfolding Some t by (simp add: act_if_def) (rule triple_conseq[OF rel[of b, unfolded t]]; auto)
    next
      case False
      show ?thesis
        unfolding Some by (simp add: act_if_def False) (rule triple_conseq[OF set_unused]; auto)
    qed
  qed
  then show ?thesis
    unfolding registerClientId_def by (intro triple_from_server) (auto dest: unused_fine)
qed


abbreviation unused_live :: "nat \<Rightarrow> ('sig, 'env) NativeServer \<times> 'env \<Rightarrow> bool" where
  "unused_live a x \<equiv> unused a x \<and> a \<in> sessions (fst x)"

lemma unused_live_env: "triple (unused_live a) (on_env f) (\<lambda>_. unused_live a) conns_fine"
  by (rule triple_conseq[OF keeps_on_env[of "unused_live a"]]) (auto simp: unused_def)

lemma set_unused_live:
  assumes "\<And>y. ss_clientId (f y) = ss_clientId y" and "\<And>y. ss_useConfigProtocol (f y) = ss_useConfigProtocol y"
    and "\<And>y. ss_configHandler (f y) = ss_configHandler y"
  shows "triple (unused_live a) (change_session a f) (\<lambda>_. unused_live a) E"
  using set_unused[of f a E, OF assms] unfolding triple_def
  by (auto simp: change_session_def change_server_def sessions_def)

lemma props_ok: "triple (unused_live a) (handleTransportLayerProps X p a) (\<lambda>_. unused a) conns_fine"
proof -
  have m: "triple (unused_live a)
      (case (map_of p ''MonitoringEnabled'', map_of p ''HeartbeatPeriod'', map_of p ''InactivityTimeout'') of
          (Some (PropBool enabled), Some (PropInt period), Some (PropInt timeout)) \<Rightarrow>
            act_if enabled (on_env (startMonitoring X a period timeout))
        | _ \<Rightarrow> act_return ()) (\<lambda>_. unused_live a) conns_fine"
    by (auto simp: act_if_def split: option.splits prop_value.splits intro!: triple_return unused_live_env)
  have h: "triple (unused_live a)
      (case map_of p ''HostName'' of
          Some (PropString name) \<Rightarrow> change_session a (\<lambda>x. x\<lparr>ss_clientHostName := name\<rparr>) | _ \<Rightarrow> act_return ())
      (\<lambda>_. unused_live a) conns_fine"
    by (auto split: option.splits prop_value.splits intro!: triple_return set_unused_live)
  have i: "triple (unused_live a)
      (case (map_of p ''Reconnected'', map_of p ''ClientId'') of
          (Some (PropBool reconnected), Some (PropString c)) \<Rightarrow> registerClientId X c reconnected a
        | _ \<Rightarrow> act_return ()) (\<lambda>_. unused a) conns_fine"
    by (auto split: option.splits prop_value.splits intro!: triple_return registerClientId_ok)
  show ?thesis
    unfolding handleTransportLayerProps_def
    by (intro triple_bind[OF m] triple_bind[OF h] triple_bind[OF i] triple_bind[OF set_unused] set_unused) simp_all
qed

lemma keeps_fine_manager [act_rules]: "keeps conns_fine (on_manager f)" "keeps conns_fine (on_manager_env g)" "keeps conns_fine (on_env k)"
  by (intro keeps_on_manager keeps_on_manager_env keeps_on_env; simp)+

lemma keeps_fine_packet_handler [act_rules]:
  "keeps conns_fine (change_session a (\<lambda>y. y\<lparr>ss_packetHandler := h\<rparr>))"
  by (intro keepsI change_session_fine) simp_all

lemma init_ok:
  assumes "conn_ok s" and "a \<notin> sessions s"
  shows "conn_ok (fst (snd (initSessionHandler a (s, e))))"
proof -
  define c where "c = ''AssignedByServer/'' @ dec_string (unat (connectedClientIndex s))"
  let ?s = "fst (snd (initSessionHandler a (s, e)))"
  have h: "sessionHandlers ?s = om_insert c a (sessionHandlers s)" "sessionObjects ?s = (sessionObjects s)(a := ServerSession_init c)"
    "configConnectionsCount ?s = configConnectionsCount s" "controlConnectionsCount ?s = controlConnectionsCount s"
    "exclusiveControlConnectionsCount ?s = exclusiveControlConnectionsCount s" "maxAllowedConfigConnections ?s = maxAllowedConfigConnections s"
    by (simp_all add: initSessionHandler_def change_server_def Let_def c_def)
  have hs: "set (sessionHandlers ?s) \<subseteq> insert (c, a) (set (sessionHandlers s))" "sessions ?s \<subseteq> insert a (sessions s)" "sessions s \<subseteq> sessions ?s"
    unfolding sessions_def h(1) by (auto simp: om_insert_def)
  have cs: "connections ?s = connections s" "connections_of t ?s = connections_of t s" for t
    using assms(2) hs(2,3) unfolding connections_of_def connections_def h(2) by (auto simp: ServerSession_init_def)
  have "snd (c, a) \<notin> snd ` (set (sessionHandlers s) - {(c, a)})" using assms(2) by (auto simp: sessions_def)
  then have "inj_on snd (insert (c, a) (set (sessionHandlers s)))"
    using assms(1) unfolding inj_on_insert conn_ok_def by blast
  then have "inj_on snd (set (sessionHandlers ?s))" using hs(1) by (rule inj_on_subset)
  moreover have "\<forall>(k, b) \<in> set (sessionHandlers ?s). ss_clientId (sessionObjects ?s b) = k \<and>
      (ss_useConfigProtocol (sessionObjects ?s b) \<longrightarrow> ss_configHandler (sessionObjects ?s b) \<noteq> FirstConfigPacket)"
  proof -
    have "b \<noteq> a" if "(k, b) \<in> set (sessionHandlers s)" for k b using that assms(2) by (force simp: sessions_def)
    then show ?thesis using assms(1) hs(1) unfolding h(2) conn_ok_def by (auto simp: ServerSession_init_def)
  qed
  moreover have "om_ok (sessionHandlers ?s)" using assms(1) unfolding h(1) by (simp add: conn_ok_def)
  ultimately show ?thesis using assms(1) cs h(3-6) unfolding conn_ok_def by simp
qed


section \<open>Runs of the server\<close>

datatype ('sig, 'env) server_op =
    SNewSession nat
  | SMessage nat message
  | SSessionError nat
  | SAddSignal 'sig
  | SRemoveSignals string
  | SSendPacket string stream_packet
  | SProcessPackets "(string \<times> int \<times> int) list" "stream_packet list"
  | SSendAvailable
  | SDoSubscribe string bool
  | SResetDevice
  | SSetDevice "'env device_handlers"

fun server_exec :: "('sig, 'env) server_ext \<Rightarrow> (string \<Rightarrow> SizeT) \<Rightarrow> ('sig, 'env) server_op \<Rightarrow> ('sig, 'env, unit) server_act" where
  "server_exec X refs (SNewSession a) = initSessionHandler a"
| "server_exec X refs (SMessage a m) = receiveMessage X refs a m"
| "server_exec X refs (SSessionError a) = onSessionError X a"
| "server_exec X refs (SAddSignal sg) = addSignal X sg"
| "server_exec X refs (SRemoveSignals c) = removeComponentSignals X c"
| "server_exec X refs (SSendPacket sid p) = sendPacket X refs sid p"
| "server_exec X refs (SProcessPackets ds ps) = processStreamingPackets X refs ds ps"
| "server_exec X refs SSendAvailable = sendAvailableStreamingPackets X"
| "server_exec X refs (SDoSubscribe sid b) = doSubscribeSignal X sid b"
| "server_exec X refs SResetDevice = resetStreamingToDeviceHandlers"
| "server_exec X refs (SSetDevice h) = setStreamingToDeviceHandlers h"

text \<open>
  What can happen: messages arrive on sessions of the table, a new session is a new object, the
  numeric ids have not run out. Clients keep the order of the protocol: they send their
  properties before they use the configuration protocol or streaming, and subscribe after
  streaming was initialised.
\<close>

definition in_order :: "('sig, 'env) NativeServer \<Rightarrow> nat \<Rightarrow> message \<Rightarrow> bool" where
  "in_order s a m \<longleftrightarrow>
     (let streaming = ss_clientId (sessionObjects s a) \<in> set (streamingClientsIds (streamingManager s)) in
      case m of
        MsgProperties _ \<Rightarrow> \<not> ss_useConfigProtocol (sessionObjects s a) \<and> \<not> streaming
      | MsgSubscribe _ _ \<Rightarrow> streaming
      | _ \<Rightarrow> True)"

definition can_happen :: "('sig, 'env) server_op \<Rightarrow> ('sig, 'env) NativeServer \<Rightarrow> bool" where
  "can_happen op s \<longleftrightarrow> length (sessionHandlers s) < 2 ^ 64 \<and>
     (case op of
        SNewSession a \<Rightarrow> a \<notin> sessions s
      | SMessage a m \<Rightarrow> a \<in> sessions s \<and> in_order s a m
      | SAddSignal sg \<Rightarrow> signalNumericIdCounter (streamingManager s) \<noteq> - 1
      | _ \<Rightarrow> True)"

text \<open>Reachable from an environment \<open>e0\<close> by operations that satisfy \<open>G\<close>.\<close>

inductive server_reach :: "('sig, 'env) server_ext \<Rightarrow> (('sig, 'env) server_op \<Rightarrow> bool) \<Rightarrow> 'env \<Rightarrow> ('sig, 'env) NativeServer \<times> 'env \<Rightarrow> bool"
  for X G e0 where
  server_start: "NativeServer_init X config signals = Inr s \<Longrightarrow> length signals < 2 ^ 32 \<Longrightarrow> server_reach X G e0 (s, e0)"
| server_step: "server_reach X G e0 (s, e) \<Longrightarrow> can_happen op s \<Longrightarrow> G op \<Longrightarrow> server_reach X G e0 (snd (server_exec X refs op (s, e)))"

subsection \<open>Connections\<close>

lemma snd_caught:
  "snd (case y of (Inl (NativeStreamingProtocolException m), e') \<Rightarrow> act_return t e'
    | (Inl x, e') \<Rightarrow> act_throw x e' | (Inr _, e') \<Rightarrow> act_return t e') = snd y"
  by (auto simp: act_return_def act_throw_def split: prod.splits sum.splits native_exn.splits)

lemma changeSubscription_keeps:
  assumes "keeps I (lookup sid)" and "\<And>sg e. I e \<Longrightarrow> I (snd (change i sg sub (getClientId H e) e))" and "\<And>ts. keeps I (scheduleWrite H ts)"
  shows "keeps I (changeSubscription H lookup change i sid sub)"
proof -
  have m: "keeps I (scheduleMessage H t ts)" for t ts
    by (auto simp: scheduleMessage_def intro: act_rules assms(3) split: sum.splits)
  let ?k = "\<lambda>sg e1. if \<not> hasUserAccessToSignal H sg e1 then act_return () e1
      else act_bind (change i sg sub (getClientId H e1)) (\<lambda>done. if \<not> done then act_return ()
         else if sub then sendSubscribingDone H i else sendUnsubscribingDone H i) e1"
  have k1: "I (snd (act_bind (change i sg sub (getClientId H e)) (\<lambda>done. if \<not> done then act_return ()
         else if sub then sendSubscribingDone H i else sendUnsubscribingDone H i) e))" if "I e" for sg e
  proof -
    have "keeps I (if \<not> b then act_return () else if sub then sendSubscribingDone H i else sendUnsubscribingDone H i)" for b
      by (auto simp: sendSubscribingDone_def sendUnsubscribingDone_def intro!: act_rules m)
    note rest = this
    show ?thesis by (rule bind_snd, rule assms(2)[OF that], rule rest)
  qed
  have "keeps I (?k sg)" for sg
    using k1 by (intro keepsI) (auto simp: act_return_def)
  then have k: "keeps I (act_bind (lookup sid) ?k)" by (intro act_rules assms(1))
  have eq: "snd (changeSubscription H lookup change i sid sub e) = snd (act_bind (lookup sid) ?k e)" for e
    unfolding changeSubscription_def by (rule snd_caught)
  show ?thesis by (rule keepsI) (simp only: eq, rule keeps_snd[OF k])
qed


lemma session_write: "scheduleWrite (sessionOf X refs a x) ts = on_env (writeTo X a ts)"
  by (simp add: sessionOf_def ServerSessionHandler_init_def BaseSessionHandler_init_def)

lemma session_client: "getClientId (sessionOf X refs a x) y = ss_clientId (sessionObjects (fst y) a)"
  by (simp add: sessionOf_def ServerSessionHandler_init_def BaseSessionHandler_init_def split: prod.splits)

text \<open>Messages, for an invariant of the server and its environment.\<close>

lemma message_keeps:
  assumes "\<And>cb p. ss_configHandler (sessionObjects s a) = ConfigServerCb (Some cb) \<Longrightarrow> I (snd (on_env (cb p) (s, e)))"
    and "\<And>cb w. ss_packetHandler (sessionObjects s a) = ConfigPacketCb (Some cb) \<Longrightarrow> I (snd (on_env (cb w) (s, e)))"
    and "\<And>i sid j b c. keeps I (handleClientSignal X i sid j b c)"
    and "\<And>i b c. keeps I (server_handleClientSignalSubscribeAck i b c)"
    and "\<And>i sid b. m = (if b then MsgSubscribe i sid else MsgUnsubscribe i sid) \<Longrightarrow>
      I (snd (changeSubscription (sessionOf X refs a (sessionObjects s a)) (\<lambda>sid. from_server (\<lambda>s. findRegisteredSignal sid (streamingManager s)))
        (handleSignalSubscription X refs) i sid b (s, e)))"
    and "\<And>c w. keeps I (onPacketBufferReceived X c w)"
    and "m = MsgInitRequest \<Longrightarrow> I (snd (handleStreamingInit X a (s, e)))"
    and "\<And>p. m = MsgConfig p \<Longrightarrow> ss_configHandler (sessionObjects s a) = FirstConfigPacket \<Longrightarrow> I (snd (connectConfigProtocol X a p (s, e)))"
    and "\<And>j p. m = MsgProperties j \<Longrightarrow> propsOfJson X j = Some p \<Longrightarrow> I (snd (handleTransportLayerProps X p a (s, e)))"
    and "I (s, e)"
  shows "I (snd (receiveMessage X refs a m (s, e)))"
proof -
  let ?H = "sessionOf X refs a (sessionObjects s a)"
  note H = sessionOf_def ServerSessionHandler_init_def BaseSessionHandler_init_def
  have fields: "findSignalHandler ?H = Some (\<lambda>sid. from_server (\<lambda>s. findRegisteredSignal sid (streamingManager s)))"
    "signalSubscriptionHandler ?H = Some (handleSignalSubscription X refs)" by (simp_all add: H)
  have ext: "snd (act_bind f (\<lambda>_. act_return ()) x) = snd (f x)" for f :: "('sig, 'env, ReadTask) server_act" and x
    by (simp add: act_defs split: prod.splits sum.splits)
  show ?thesis
  proof (cases m)
    case (MsgPacket w)
    then show ?thesis
      using keeps_snd[OF assms(6) assms(10)] assms(2,10)
      by (auto simp: receiveMessage_def H act_return_def split: packet_cb.splits option.splits)
  next
    case (MsgConfig p)
    then show ?thesis
      using assms(8)[OF MsgConfig] assms(1,10)
      by (auto simp: receiveMessage_def H act_return_def split: config_cb.splits option.splits)
  next
    case (MsgProperties j)
    then show ?thesis
      using assms(9)[OF MsgProperties] assms(10) by (auto simp: receiveMessage_def H act_return_def split: option.splits)
  next
    case (MsgSubscribe i sid)
    then show ?thesis using assms(5)[of True i sid] by (simp add: receiveMessage_def fields ext)
  next
    case (MsgUnsubscribe i sid)
    then show ?thesis using assms(5)[of False i sid] by (simp add: receiveMessage_def fields ext)
  next
    case MsgInitRequest
    then show ?thesis using assms(7) by (simp add: receiveMessage_def H)
  next
    case MsgInitDone
    then show ?thesis using assms(10) by (simp add: receiveMessage_def H act_return_def)
  next
    case (MsgAvailable i sid j)
    then show ?thesis using keeps_snd[OF assms(3) assms(10)] by (simp add: receiveMessage_def H)
  next
    case (MsgUnavailable i sid)
    then show ?thesis using keeps_snd[OF assms(3) assms(10)] by (simp add: receiveMessage_def H)
  next
    case (MsgSubscribeAck i)
    then show ?thesis using keeps_snd[OF assms(4) assms(10)] by (simp add: receiveMessage_def H)
  next
    case (MsgUnsubscribeAck i)
    then show ?thesis using keeps_snd[OF assms(4) assms(10)] by (simp add: receiveMessage_def H)
  qed
qed


lemma fine_operations [act_rules]:
  "keeps conns_fine (addSignal X sg)" "keeps conns_fine (removeComponentSignals X c)"
  "keeps conns_fine (sendPacket X refs sid p)" "keeps conns_fine (processStreamingPackets X refs ds ps)"
  "keeps conns_fine (sendAvailableStreamingPackets X)" "keeps conns_fine (doSubscribeSignal X sid b)"
  "keeps conns_fine (handleSignalSubscription X refs i sg b c)" "keeps conns_fine (onPacketBufferReceived X c w)"
  "keeps conns_fine (handleStreamingInit X a)" "keeps conns_fine (server_handleClientSignalSubscribeAck i b c)"
  unfolding addSignal_def removeComponentSignals_def removeComponentSignal_def toStreamingClients_def sendPacket_def
    processStreamingPackets_def sendAvailableStreamingPackets_def takeWriteTasks_def doSubscribeSignal_def
    handleSignalSubscription_def onPacketBufferReceived_def handleStreamingInit_def server_handleClientSignalSubscribeAck_def
  by (auto intro!: act_rules split: option.splits prod.splits)

lemma fine_client_signal [act_rules]: "keeps conns_fine (handleClientSignal X i sid j b c)"
proof -
  have "keeps conns_fine (\<lambda>(s, e). on_env (f s) (s, e))" for f
    by (rule keepsI) (auto simp: on_env_def split: prod.splits)
  then show ?thesis unfolding handleClientSignal_def by (auto intro!: act_rules)
qed

lemma conn_exec:
  assumes "connect_callbacks_return X" and "conn_ok s" and "can_happen op s"
  shows "conn_ok (fst (snd (server_exec X refs op (s, e))))"
proof -
  have k: "conn_ok (fst (snd (f (s, e))))" if "keeps conns_fine f" for f :: "('a, 'b, unit) server_act"
    using keeps_snd[OF that, of "(s, e)"] assms(2) by simp
  show ?thesis
  proof (cases op)
    case (SNewSession a)
    then show ?thesis using assms(2,3) by (simp add: can_happen_def init_ok)
  next
    case (SMessage a m)
    then have a: "a \<in> sessions s" "in_order s a m" "length (sessionHandlers s) < 2 ^ 64"
      using assms(3) by (auto simp: can_happen_def)
    have free: "\<not> ss_useConfigProtocol (sessionObjects s a)" if "ss_configHandler (sessionObjects s a) = FirstConfigPacket"
      using that assms(2) a(1) by (auto simp: conn_ok_def sessions_def)
    have props: "conns_fine (snd (handleTransportLayerProps X p a (s, e)))" if "m = MsgProperties j" for p j
    proof -
      have "triple (unused_live a) (handleTransportLayerProps X p a) (\<lambda>_. conns_fine) conns_fine"
        by (rule triple_conseq[OF props_ok]) (auto dest: unused_fine)
      moreover have "unused_live a (s, e)" using a assms(2) that by (simp add: unused_def in_order_def)
      ultimately show ?thesis by (rule triple_snd)
    qed
    have "conns_fine (snd (receiveMessage X refs a m (s, e)))"
    proof (rule message_keeps)
      show "conns_fine (snd (changeSubscription (sessionOf X refs a (sessionObjects s a))
          (\<lambda>sid. from_server (\<lambda>s. findRegisteredSignal sid (streamingManager s))) (handleSignalSubscription X refs) i sid b (s, e)))" for i sid b
        by (rule keeps_snd[OF changeSubscription_keeps]) (auto simp: session_write assms(2) intro: act_rules keeps_snd[OF fine_operations(7)])
      show "conns_fine (snd (connectConfigProtocol X a p (s, e)))"
        if "ss_configHandler (sessionObjects s a) = FirstConfigPacket" for p
        using connect_ok[OF assms(1,2) a(3,1) free[OF that]] by simp
      show "conns_fine (snd (handleStreamingInit X a (s, e)))" by (rule keeps_snd[OF fine_operations(9)]) (simp add: assms(2))
      show "conns_fine (snd (on_env f (s, e)))" "conns_fine (snd (on_env f (s, e)))" for f :: "('b, unit) act"
        using assms(2) by (simp_all add: on_env_def split: prod.splits)
    qed (auto intro: act_rules props simp: assms(2))
    then show ?thesis using SMessage by simp
  next
    case SResetDevice
    then show ?thesis using assms(2) by (simp add: resetStreamingToDeviceHandlers_def change_server_def conn_ok_def
      connections_of_def connections_def sessions_def)
  next
    case (SSetDevice h)
    then show ?thesis using assms(2) by (simp add: setStreamingToDeviceHandlers_def change_server_def conn_ok_def
      connections_of_def connections_def sessions_def)
  qed (auto simp: onSessionError_def releaseSessionHandler_def intro!: k act_rules)
qed

lemma conn_start: "NativeServer_init X config signals = Inr s \<Longrightarrow> conn_ok s"
  by (auto simp: NativeServer_init_def conn_ok_def connections_of_def connections_def sessions_def split: prod.splits sum.splits)

lemma reach_conn: "server_reach X G e0 x \<Longrightarrow> connect_callbacks_return X \<Longrightarrow> conn_ok (fst x)"
proof (induction rule: server_reach.induct)
  case (server_start config signals s)
  then show ?case using conn_start[of X config signals s] by simp
next
  case (server_step s e op refs)
  then show ?case using conn_exec by fastforce
qed



section \<open>A server in use\<close>

primrec server_run :: "('sig, 'env) server_ext \<Rightarrow> ('sig, 'env) server_op list \<Rightarrow> ('sig, 'env) NativeServer \<times> 'env
    \<Rightarrow> ('sig, 'env) NativeServer \<times> 'env" where
  "server_run X [] x = x"
| "server_run X (op # ops) x = server_run X ops (snd (server_exec X (\<lambda>_. 1) op x))"

primrec can_run :: "('sig, 'env) server_ext \<Rightarrow> ('sig, 'env) server_op list \<Rightarrow> ('sig, 'env) NativeServer \<times> 'env \<Rightarrow> bool" where
  "can_run X [] x = True"
| "can_run X (op # ops) x = (can_happen op (fst x) \<and> can_run X ops (snd (server_exec X (\<lambda>_. 1) op x)))"

lemma run_reach: "server_reach X G e0 x \<Longrightarrow> can_run X ops x \<Longrightarrow> list_all G ops \<Longrightarrow> server_reach X G e0 (server_run X ops x)"
proof (induction ops arbitrary: x)
  case (Cons op ops)
  then show ?case using server_step[of X G e0 "fst x" "snd x" op "\<lambda>_. 1"] by simp
qed simp

text \<open>Signals named by themselves, one configuration connection; the environment collects what is written and the calls to the reader.\<close>

type_synonym ex_env = "(nat \<times> byte list list) list \<times> (string \<times> bool) list"

definition ex_ext :: "(string, ex_env) server_ext" where
  "ex_ext = \<lparr>globalIdOf = id, isPublic = (\<lambda>_. True), signalJson = id, eventJson = ep_eventId,
     eventOfJson = (\<lambda>_. Inl OPENDAQ_ERR_NOTFOUND),
     propsOfJson = (\<lambda>_. Some [(''ClientType'', PropInt 1)]),
     errorJson = (\<lambda>_ m. m), unusedBytes = [0, 0], padBytes = [0, 0, 0, 0], mayRead = (\<lambda>_ _ _. True), endpointOf = (\<lambda>_. []),
     writeTo = (\<lambda>a ts e. (Inr (), (fst e @ [(a, ts)], snd e))), startMonitoring = (\<lambda>_ _ _. act_return ()),
     closeIfOpen = (\<lambda>_. act_return ()),
     signalSubscribedHandler = (\<lambda>sg e. (Inr (), (fst e, snd e @ [(sg, True)]))),
     signalUnsubscribedHandler = (\<lambda>sg e. (Inr (), (fst e, snd e @ [(sg, False)]))),
     setUpConfigProtocolServerCb = (\<lambda>_ _. act_return (None, None)),
     clientConnectedHandler = (\<lambda>_ _ _ _ _. act_return ()), clientDisconnectedHandler = (\<lambda>_. act_return ())\<rparr>"

definition ex_config_packet :: ConfigPacketBuffer where
  "ex_config_packet = \<lparr>cp_header = \<lparr>ch_headerSize = 16, ch_type = 0, ch_unused = [0, 0], ch_payloadSize = 0, ch_id = 5\<rparr>, cp_payload = []\<rparr>"

definition ex_start :: "(string, ex_env) NativeServer \<times> ex_env" where
  "ex_start = (case NativeServer_init ex_ext (createDefaultConfig\<lparr>cfg_MaxAllowedConfigConnections := 1\<rparr>) [''s''] of Inr s \<Rightarrow> (s, ([], []))
     | Inl _ \<Rightarrow> (\<lparr>streamingManager = StreamingManager_init, sessionObjects = (\<lambda>_. ServerSession_init []), sessionHandlers = [],
          connectedClientIndex = 0, maxAllowedConfigConnections = 0,
          configConnectionsCount = 0, controlConnectionsCount = 0, exclusiveControlConnectionsCount = 0,
          packetStreamingReleaseThreshold = 0, serverPayloadSizeMax = 0, deviceHandlers = None\<rparr>, ([], [])))"

lemma ex_start_reach: "server_reach ex_ext G ([], []) ex_start"
proof -
  have "\<not> isl (NativeServer_init ex_ext (createDefaultConfig\<lparr>cfg_MaxAllowedConfigConnections := 1\<rparr>) [''s''])" by code_simp
  then obtain s where "NativeServer_init ex_ext (createDefaultConfig\<lparr>cfg_MaxAllowedConfigConnections := 1\<rparr>) [''s''] = Inr s"
    by (cases "NativeServer_init ex_ext (createDefaultConfig\<lparr>cfg_MaxAllowedConfigConnections := 1\<rparr>) [''s'']") auto
  then show ?thesis using server_start[of ex_ext "createDefaultConfig\<lparr>cfg_MaxAllowedConfigConnections := 1\<rparr>" "[''s'']" s G "([], [])"] by (simp add: ex_start_def)
qed

lemma ex_callbacks: "connect_callbacks_return ex_ext"
  by (simp add: connect_callbacks_return_def ex_ext_def act_return_def)

text \<open>A client connects and takes exclusive control.\<close>

definition ex_connects :: "(string, ex_env) server_op list" where
  "ex_connects = [SNewSession 0, SMessage 0 (MsgProperties ''exclusive''), SMessage 0 (MsgConfig ex_config_packet)]"

lemma ex_start_eq:
  "ex_start = (\<lparr>streamingManager = StreamingManager_init\<lparr>signalNumericIdCounter := 1, registeredSignals := [(''s'', RegisteredServerSignal_init ''s'' 1)]\<rparr>,
     sessionObjects = (\<lambda>_. ServerSession_init []), sessionHandlers = [], connectedClientIndex = 0, maxAllowedConfigConnections = 1,
     configConnectionsCount = 0, controlConnectionsCount = 0, exclusiveControlConnectionsCount = 0,
     packetStreamingReleaseThreshold = 10, serverPayloadSizeMax = 10, deviceHandlers = None\<rparr>, ([], []))"
  by (simp add: ex_start_def NativeServer_init_def ex_ext_def act_if_def act_defs registerSignal_def Let_def om_has_def
      om_insert_def StreamingManager_init_def createDefaultConfig_def)

lemmas ex_simps = ex_start_eq ex_connects_def initSessionHandler_def change_server_def om_insert_def om_has_def Let_def
  receiveMessage_def sessionOf_def ServerSessionHandler_init_def BaseSessionHandler_init_def ServerSession_init_def
  connectConfigProtocol_def isConnectionLimitReached_def isControlConnectionRejected_def isExclusiveControlConnectionRejected_def
  acceptConfigConnection_def setUpConfigProtocolCallbacks_def change_session_def from_server_def on_env_def act_defs
  incrementConfigConnectionCount_def ex_ext_def handleTransportLayerProps_def parseClientTypeProp_def IntToClientType_def
  parseExclusiveControlDropOthersProp_def StreamingManager_init_def


end
