(* ===== verification/NativeServerStreaming.thy ===== *)
theory NativeServerStreaming
  imports NativeServer
begin

text \<open>
  Streaming by the native server: who is subscribed to a signal after each operation of the
  streaming manager, that every streaming client has a session and every subscriber is a
  streaming client, and that the reader of a signal runs exactly while it has subscribers.
\<close>

section \<open>Subscribers\<close>

definition subscribers :: "'sig StreamingManager \<Rightarrow> string \<Rightarrow> string list" where
  "subscribers m sid = (case map_of (registeredSignals m) sid of None \<Rightarrow> [] | Some rs \<Rightarrow> subscribedClientsIds rs)"

text \<open>Two managers with the same subscribers and streaming clients.\<close>

definition same_subs :: "'sig StreamingManager \<Rightarrow> 'sig StreamingManager \<Rightarrow> bool" where
  "same_subs m m' \<longleftrightarrow> subscribers m' = subscribers m \<and> streamingClientsIds m' = streamingClientsIds m"

lemma same_subs_refl [simp]: "same_subs m m"
  by (simp add: same_subs_def)

lemma same_subs_trans: "same_subs m m1 \<Longrightarrow> same_subs m1 m2 \<Longrightarrow> same_subs m m2"
  by (simp add: same_subs_def)

lemma servers_only_same: "servers_only m m' \<Longrightarrow> same_subs m m'"
proof -
  assume s: "servers_only m m'"
  then have "registeredSignals m' = registeredSignals m" by (rule servers_only_signals)
  moreover have "streamingClientsIds m' = streamingClientsIds m"
    using s unfolding servers_only_def by (metis StreamingManager.select_convs(4) StreamingManager.surjective StreamingManager.update_convs(3))
  ultimately show ?thesis by (simp add: same_subs_def subscribers_def fun_eq_iff)
qed

lemma subscribers_assign [simp]:
  "subscribers (m\<lparr>registeredSignals := om_assign sid rs l\<rparr>) sid' =
   (if sid' = sid then subscribedClientsIds rs else subscribers (m\<lparr>registeredSignals := l\<rparr>) sid')"
  by (simp add: subscribers_def map_of_om_assign)

lemma note_same:
  "map_of (registeredSignals m) sid = Some rs \<Longrightarrow>
   same_subs m (m\<lparr>registeredSignals := om_assign sid (noteDescriptorParams p rs) (registeredSignals m)\<rparr>)"
  by (auto simp: same_subs_def fun_eq_iff subscribers_def map_of_om_assign)

lemma setServer_same [simp]: "same_subs m (setServer c s m)"
  by (simp add: same_subs_def subscribers_def setServer_def fun_eq_iff)

lemma send_same:
  assumes "sendPacketToSubscribers ser refs send sid p (m, e) = (r, (m', e'))"
  shows "same_subs m m'"
proof (cases "map_of (registeredSignals m) sid")
  case None
  then show ?thesis using assms by (simp add: sendPacketToSubscribers_def)
next
  case (Some rs)
  then have "servers_only (m\<lparr>registeredSignals := om_assign sid (noteDescriptorParams p rs) (registeredSignals m)\<rparr>) m'"
    using assms by (intro sendToClients_servers) (simp add: sendPacketToSubscribers_def Let_def)
  then show ?thesis using servers_only_same same_subs_trans note_same[OF Some] by blast
qed

lemma processSignal_same: "processSignalPackets ser refs sid ps m = (r, m') \<Longrightarrow> same_subs m m'"
proof (induction ps arbitrary: m)
  case (Cons p ps)
  show ?case
  proof (cases "map_of (registeredSignals m) sid")
    case None
    then show ?thesis using Cons.prems by (simp add: act_bind_def)
  next
    case (Some rs)
    obtain r2 m2 where s: "pushToClients ser refs p (numericId rs) (subscribedClientsIds rs)
        (m\<lparr>registeredSignals := om_assign sid (noteDescriptorParams p rs) (registeredSignals m)\<rparr>) = (r2, m2)" by fastforce
    have ok: "same_subs m m2"
      using servers_only_same[OF pushToClients_servers[OF s]] note_same[OF Some] same_subs_trans by blast
    then show ?thesis
      using Cons.IH[of m2] Cons.prems Some s same_subs_trans by (cases r2) (auto simp: act_bind_def)
  qed
qed (simp add: act_defs)

lemma process_same: "processPackets ser refs ds ps m = (r, m') \<Longrightarrow> same_subs m m'"
proof (induction ds arbitrary: m)
  case (Cons d ds)
  obtain sid idx cnt where d: "d = (sid, idx, cnt)" by (metis prod_cases3)
  obtain r1 m1 where s: "processSignalPackets ser refs sid (map (\<lambda>i. ps ! nat i) [idx..idx + cnt - 1]) m = (r1, m1)" by fastforce
  show ?case
    using Cons.IH[of m1] Cons.prems s processSignal_same[OF s] same_subs_trans
    by (cases r1; cases "om_has (registeredSignals m) sid") (auto simp: act_bind_def d)
qed (simp add: act_defs)

lemma sendDaq_same:
  "sendDaqPacket ser rc send c p i (m, e) = (r, (m', e')) \<Longrightarrow>
   subscribers m' = subscribers m \<and> streamingClientsIds m' = streamingClientsIds m"
  using servers_only_same[OF sendDaqPacket_servers] by (simp add: same_subs_def)

lemma subscribe_subs:
  assumes "registerSignalSubscriber ser refs send sid c (m, e) = (r, (m', e'))"
  shows "streamingClientsIds m' = streamingClientsIds m" and
    "case r of Inl _ \<Rightarrow> subscribers m' = subscribers m
     | Inr first \<Rightarrow> subscribers m' = (subscribers m)(sid := (if c \<in> set (subscribers m sid) then subscribers m sid else subscribers m sid @ [c])) \<and>
         (first \<longleftrightarrow> subscribers m sid = [])"
proof -
  show "streamingClientsIds m' = streamingClientsIds m"
    using assms by (auto simp: registerSignalSubscriber_def Let_def dest!: sendDaq_same split: option.splits if_splits prod.splits sum.splits)
  show "case r of Inl _ \<Rightarrow> subscribers m' = subscribers m
     | Inr first \<Rightarrow> subscribers m' = (subscribers m)(sid := (if c \<in> set (subscribers m sid) then subscribers m sid else subscribers m sid @ [c])) \<and>
         (first \<longleftrightarrow> subscribers m sid = [])"
  proof (cases "map_of (registeredSignals m) sid")
    case None
    then show ?thesis using assms by (auto simp: registerSignalSubscriber_def)
  next
    case (Some rs)
    then have sid: "subscribers m sid = subscribedClientsIds rs" by (simp add: subscribers_def)
    have add: "same_subs m m1 \<Longrightarrow> subscribers (m1\<lparr>registeredSignals := om_assign sid (rs\<lparr>subscribedClientsIds := subscribedClientsIds rs @ [c]\<rparr>) (registeredSignals m1)\<rparr>) =
        (subscribers m)(sid := subscribedClientsIds rs @ [c])" for m1
      by (auto simp: fun_eq_iff same_subs_def)
    show ?thesis
      using assms Some sid add
      by (auto simp: registerSignalSubscriber_def Let_def same_subs_def dest!: sendDaq_same split: if_splits prod.splits sum.splits)
  qed
qed


lemma registerSignal_same: "same_subs m (snd (registerSignal globalId sg m))"
  by (auto simp: registerSignal_def same_subs_def Let_def subscribers_def fun_eq_iff om_insert_def om_has_def map_add_def
      RegisteredServerSignal_init_def split: option.splits)

lemma removeSignal_subs:
  "removeSignal globalId sg m = (r, m') \<Longrightarrow> streamingClientsIds m' = streamingClientsIds m \<and>
   subscribers m' = (if r = Inr () then (subscribers m)(globalId sg := []) else subscribers m)"
  by (auto simp: removeSignal_def subscribers_def fun_eq_iff map_of_om_erase split: if_splits)

lemma registerClient_subs:
  "registerClient c rec th cm m = (r, m') \<Longrightarrow> subscribers m' = subscribers m \<and>
   set (streamingClientsIds m) \<subseteq> set (streamingClientsIds m') \<and> set (streamingClientsIds m') \<subseteq> insert c (set (streamingClientsIds m))"
  by (auto simp: registerClient_def Let_def subscribers_def fun_eq_iff split: if_splits)

lemma unsubscribe_subs:
  "removeSignalSubscriberNoLock sid c m = (r, m') \<Longrightarrow> streamingClientsIds m' = streamingClientsIds m \<and>
   (case r of Inl _ \<Rightarrow> subscribers m' = subscribers m
    | Inr wasLast \<Rightarrow> subscribers m' = (subscribers m)(sid := remove1 c (subscribers m sid)) \<and>
        (wasLast \<longleftrightarrow> c \<in> set (subscribers m sid) \<and> remove1 c (subscribers m sid) = []))"
  by (auto simp: removeSignalSubscriberNoLock_def Let_def subscribers_def fun_eq_iff map_of_om_assign remove1_idem split: option.splits if_splits)

text \<open>A signal whose last subscriber goes.\<close>

definition leaves :: "string \<Rightarrow> string list \<Rightarrow> bool" where
  "leaves c l \<longleftrightarrow> c \<in> set l \<and> remove1 c l = []"

lemma unsubscribe_signal:
  assumes "map_of (registeredSignals m) sid = Some rs"
  shows "\<exists>m' rs'. removeSignalSubscriberNoLock sid c m = (Inr (leaves c (subscribers m sid)), m') \<and>
    (\<forall>k. (map_of (registeredSignals m') k = None) = (map_of (registeredSignals m) k = None)) \<and>
    map_of (registeredSignals m') sid = Some rs' \<and> daqSignal rs' = daqSignal rs"
  using assms by (auto simp: removeSignalSubscriberNoLock_def Let_def subscribers_def leaves_def map_of_om_assign)

lemma unsubscribeFromAll_subs:
  assumes "mgr_ok globalId m" and "distinct sids" and "\<forall>sid \<in> set sids. map_of (registeredSignals m) sid \<noteq> None"
  shows "\<exists>signals m'. unsubscribeFromAll c sids m = (Inr signals, m') \<and> streamingClientsIds m' = streamingClientsIds m \<and>
    map globalId signals = filter (\<lambda>sid. leaves c (subscribers m sid)) sids \<and>
    subscribers m' = (\<lambda>sid. if sid \<in> set sids then remove1 c (subscribers m sid) else subscribers m sid)"
  using assms
proof (induction sids arbitrary: m)
  case (Cons sid sids)
  obtain rs where rs: "map_of (registeredSignals m) sid = Some rs" using Cons.prems(3) by auto
  obtain m1 rs1 where m1: "removeSignalSubscriberNoLock sid c m = (Inr (leaves c (subscribers m sid)), m1)"
      "\<forall>k. (map_of (registeredSignals m1) k = None) = (map_of (registeredSignals m) k = None)"
      "map_of (registeredSignals m1) sid = Some rs1" "daqSignal rs1 = daqSignal rs"
    using unsubscribe_signal[OF rs] by blast
  have s1: "streamingClientsIds m1 = streamingClientsIds m" "subscribers m1 = (subscribers m)(sid := remove1 c (subscribers m sid))"
    using unsubscribe_subs[OF m1(1)] by simp_all
  have ok: "mgr_ok globalId m1" by (rule mgr_ok_removeSignalSubscriber[OF Cons.prems(1) m1(1)])
  have sid: "globalId (daqSignal rs1) = sid"
    using ok map_of_SomeD[OF m1(3)] by (auto simp: mgr_ok_def signal_ok_def)
  obtain signals m2 where m2: "unsubscribeFromAll c sids m1 = (Inr signals, m2)" "streamingClientsIds m2 = streamingClientsIds m1"
      "map globalId signals = filter (\<lambda>sid. leaves c (subscribers m1 sid)) sids"
      "subscribers m2 = (\<lambda>sid. if sid \<in> set sids then remove1 c (subscribers m1 sid) else subscribers m1 sid)"
    using Cons.IH[OF ok] Cons.prems(2,3) m1(2) by auto
  have "filter (\<lambda>k. leaves c (subscribers m1 k)) sids = filter (\<lambda>k. leaves c (subscribers m k)) sids"
    using Cons.prems(2) by (intro filter_cong) (auto simp: s1)
  then show ?case
    using m1 m2 s1 sid Cons.prems(2) by (auto simp: fun_eq_iff)
qed simp

lemma unregister_subs:
  assumes "mgr_ok globalId m"
  shows "\<exists>signals m'. unregisterClient c m = (Inr signals, m') \<and> distinct (map globalId signals) \<and>
    (if c \<in> set (streamingClientsIds m)
     then streamingClientsIds m' = remove1 c (streamingClientsIds m) \<and>
       set (map globalId signals) = {sid. leaves c (subscribers m sid)} \<and> subscribers m' = (\<lambda>sid. remove1 c (subscribers m sid))
     else signals = [] \<and> m' = m)"
proof (cases "c \<in> set (streamingClientsIds m)")
  case True
  let ?m = "m\<lparr>streamingClientsIds := remove1 c (streamingClientsIds m),
      packetStreamingServers := om_erase c (packetStreamingServers m),
      packetStreamingClients := om_erase c (packetStreamingClients m)\<rparr>"
  let ?sids = "map fst (registeredSignals m)"
  have ok: "mgr_ok globalId ?m"
    using assms by (auto simp: mgr_ok_def set_remove1_eq simp del: set_map)
  have d: "distinct ?sids" using assms by (simp add: mgr_ok_def om_ok_def)
  have none: "sid \<notin> set ?sids \<Longrightarrow> subscribers m sid = []" for sid
    by (simp add: subscribers_def map_of_eq_None_iff[THEN iffD2])
  have subs: "subscribers ?m = subscribers m" by (simp add: subscribers_def fun_eq_iff)
  have all: "\<forall>sid \<in> set ?sids. map_of (registeredSignals ?m) sid \<noteq> None" by (auto simp: map_of_eq_None_iff image_iff)
  obtain signals m' where u: "unsubscribeFromAll c ?sids ?m = (Inr signals, m')" "streamingClientsIds m' = streamingClientsIds ?m"
      "map globalId signals = filter (\<lambda>sid. leaves c (subscribers m sid)) ?sids"
      "subscribers m' = (\<lambda>sid. if sid \<in> set ?sids then remove1 c (subscribers m sid) else subscribers m sid)"
    using unsubscribeFromAll_subs[OF ok d all, of c] unfolding subs by blast
  have "set (map globalId signals) = {sid. leaves c (subscribers m sid)}"
    unfolding u(3) using none by (fastforce simp: leaves_def)
  moreover have "subscribers m' = (\<lambda>sid. remove1 c (subscribers m sid))" unfolding u(4) using none by (force simp: fun_eq_iff)
  moreover have "distinct (map globalId signals)" unfolding u(3) using d by simp
  ultimately show ?thesis using True u(1,2) by (simp add: unregisterClient_def)
qed (simp add: unregisterClient_def)

lemma client_signal_same [simp]:
  "same_subs m (registerClientSignal i sid c m)" "same_subs m (unregisterClientSignal i sid c m)"
  by (simp_all add: same_subs_def subscribers_def fun_eq_iff registerClientSignal_def unregisterClientSignal_def)

lemma received_same: "handleReceivedPacketBuffer deser w c cb (m, e) = Some (r, (m', e')) \<Longrightarrow> same_subs m m'"
  by (auto simp: handleReceivedPacketBuffer_def Let_def same_subs_def subscribers_def fun_eq_iff split: option.splits prod.splits sum.splits)

lemma clientSignals_same: "unregisterClientSignals c cb (m, e) = (r, (m', e')) \<Longrightarrow> same_subs m m'"
  by (auto simp: unregisterClientSignals_def same_subs_def subscribers_def fun_eq_iff split: prod.splits)

section \<open>What calls do to the environment\<close>

text \<open>The manager touches the environment through its callbacks only.\<close>

lemma keeps_at: "f e = (r, e') \<Longrightarrow> keeps P f \<Longrightarrow> P e \<Longrightarrow> P e'"
  using keeps_snd[of P f e] by simp

lemma drain_env:
  "drainBuffers send sv e = (r, sv', e') \<Longrightarrow> (\<And>b. keeps P (send b)) \<Longrightarrow> P e \<Longrightarrow> P e'"
proof (induction send sv e arbitrary: r sv' e' rule: drainBuffers.induct)
  case (1 send sv e)
  obtain r1 sv1 where g: "getNextPacketBuffer sv = (r1, sv1)" by fastforce
  show ?case
  proof (cases "\<exists>b. r1 = Inr (Some b)")
    case True
    then obtain b where b: "r1 = Inr (Some b)" by blast
    obtain r2 e2 where s: "send b e = (r2, e2)" by fastforce
    have "P e2" using keeps_snd[OF "1.prems"(2) "1.prems"(3), of b] s by simp
    then show ?thesis
      using "1.IH"[OF g[symmetric] b refl s[symmetric], of "()"] "1.prems" g b s by (cases r2) (auto simp: drainBuffers.simps[of send sv e])
  next
    case False
    then show ?thesis using "1.prems" g by (auto simp: drainBuffers.simps[of send sv e] split: sum.splits option.splits)
  qed
qed

lemma sendDaq_env:
  "sendDaqPacket ser rc send c p i (m, e) = (r, (m', e')) \<Longrightarrow> (\<And>b. keeps P (send c b)) \<Longrightarrow> P e \<Longrightarrow> P e'"
  by (auto simp: sendDaqPacket_def split: option.splits prod.splits sum.splits dest: drain_env[where P = P])

lemma sendToClients_env:
  "sendToClients ser refs send p i cs (m, e) = (r, (m', e')) \<Longrightarrow> (\<And>c b. keeps P (send c b)) \<Longrightarrow> P e \<Longrightarrow> P e'"
proof (induction cs arbitrary: m e)
  case (Cons c cs)
  obtain r1 m1 e1 where s: "sendDaqPacket ser (refs c) send c p i (m, e) = (r1, (m1, e1))" by (metis prod.collapse)
  have "P e1" using sendDaq_env[OF s Cons.prems(2,3)] by blast
  then show ?case using Cons s by (cases r1) (auto simp: act_bind_def)
qed (simp add: act_return_def)

lemma sendPacket_env:
  "sendPacketToSubscribers ser refs send sid p (m, e) = (r, (m', e')) \<Longrightarrow> (\<And>c b. keeps P (send c b)) \<Longrightarrow> P e \<Longrightarrow> P e'"
  by (auto simp: sendPacketToSubscribers_def Let_def split: option.splits dest: sendToClients_env[where P = P])

lemma subscribe_env:
  "registerSignalSubscriber ser refs send sid c (m, e) = (r, (m', e')) \<Longrightarrow> (\<And>c b. keeps P (send c b)) \<Longrightarrow> P e \<Longrightarrow> P e'"
  by (auto simp: registerSignalSubscriber_def Let_def split: option.splits if_splits prod.splits sum.splits dest: sendDaq_env[where P = P])

lemma eraseClientSignals_env:
  "eraseClientSignals c cb kept l e = (r, l', e') \<Longrightarrow> (\<And>sid. keeps P (cb sid)) \<Longrightarrow> P e \<Longrightarrow> P e'"
proof (induction l arbitrary: kept e)
  case (Cons x l)
  obtain sid rs where x: "x = (sid, rs)" by (cases x)
  obtain r1 e1 where s: "cb (cs_signalStringId rs) e = (r1, e1)" by fastforce
  have "P e1" using keeps_snd[OF Cons.prems(2,3), of "cs_signalStringId rs"] s by simp
  then show ?case using Cons.IH[of _ e] Cons.IH[of _ e1] Cons.prems x s by (cases r1) (auto split: if_splits)
qed simp

lemma clientSignals_env:
  "unregisterClientSignals c cb (m, e) = (r, (m', e')) \<Longrightarrow> (\<And>sid. keeps P (cb sid)) \<Longrightarrow> P e \<Longrightarrow> P e'"
  by (auto simp: unregisterClientSignals_def split: prod.splits dest: eraseClientSignals_env[where P = P])

lemma deliver_env:
  "deliverPackets c cb m q e = (r, q', e') \<Longrightarrow> (\<And>sid p. keeps P (cb sid p)) \<Longrightarrow> P e \<Longrightarrow> P e'"
proof (induction q arbitrary: e)
  case (Cons x q)
  show ?case
  proof (cases "\<exists>i p. x = (i, Some p) \<and> findClientSignal c i m \<noteq> None")
    case True
    then obtain i p rs where x: "x = (i, Some p)" "findClientSignal c i m = Some rs" by blast
    obtain r1 e1 where s: "cb (cs_signalStringId rs) p e = (r1, e1)" by fastforce
    have "P e1" using keeps_snd[OF Cons.prems(2,3), of "cs_signalStringId rs" p] s by simp
    then show ?thesis using Cons.IH[of e1] Cons.prems x s by (cases r1) auto
  next
    case False
    then show ?thesis using Cons.IH[of e] Cons.prems by (cases x; cases "snd x") auto
  qed
qed simp

lemma received_env:
  "handleReceivedPacketBuffer deser w c cb (m, e) = Some (r, (m', e')) \<Longrightarrow> (\<And>sid p. keeps P (cb sid p)) \<Longrightarrow> P e \<Longrightarrow> P e'"
  by (auto simp: handleReceivedPacketBuffer_def Let_def split: option.splits prod.splits sum.splits dest: deliver_env[where P = P])

lemma ack_env:
  "handleClientSignalSubscribeAck i b c cb (m, e) = (r, (m', e')) \<Longrightarrow> (\<And>sid b. keeps P (cb sid b)) \<Longrightarrow> P e \<Longrightarrow> P e'"
  by (auto simp: handleClientSignalSubscribeAck_def split: option.splits prod.splits dest: keeps_at[where P = P])

lemma doSubscription_env:
  "doClientSignalSubscription sid cb (m, e) = (r, (m', e')) \<Longrightarrow> (\<And>i c. keeps P (cb i c)) \<Longrightarrow> P e \<Longrightarrow> P e'"
  by (auto simp: doClientSignalSubscription_def split: option.splits prod.splits dest: keeps_at[where P = P])

lemma ack_manager: "handleClientSignalSubscribeAck i b c cb (m, e) = (r, (m', e')) \<Longrightarrow> m' = m"
  by (auto simp: handleClientSignalSubscribeAck_def split: option.splits prod.splits)

lemma doSubscription_manager: "doClientSignalSubscription sid cb (m, e) = (r, (m', e')) \<Longrightarrow> m' = m"
  by (auto simp: doClientSignalSubscription_def split: option.splits prod.splits)

text \<open>The messages of a session are writes to it.\<close>

lemma writer_write [simp]: "scheduleWrite (writerOf X a) ts = writeTo X a ts"
  by (simp add: writerOf_def ServerSessionHandler_init_def BaseSessionHandler_init_def)

lemma writer_keeps:
  assumes "\<And>ts. keeps P (writeTo X a ts)"
  shows "keeps P (sendSignalAvailable (writerOf X a) i sg)" "keeps P (sendSignalUnavailable (writerOf X a) i sg)"
    "keeps P (sendStreamingInitDone (writerOf X a))" "keeps P (sendPacketBuffer (writerOf X a) pad b)"
    "keeps P (schedulePacketBufferWriteTasks (writerOf X a) ts)" "keeps P (sendSignalSubscribe (writerOf X a) i sid)"
    "keeps P (sendSignalUnsubscribe (writerOf X a) i sid)" "keeps P (sendConfigurationPacket (writerOf X a) p)"
proof -
  have m: "keeps P (scheduleMessage (writerOf X a) t ts)" for t ts
    by (auto simp: scheduleMessage_def intro: act_rules assms split: sum.splits)
  have pt: "keeps P f" if "\<And>e. f e = act_return () e \<or> (\<exists>x. f e = act_throw x e) \<or> (\<exists>t ts. f e = scheduleMessage (writerOf X a) t ts e)" for f
    using that keeps_snd[OF m] by (intro keepsI) (metis act_return_def act_throw_def snd_conv)
  show "keeps P (sendSignalAvailable (writerOf X a) i sg)" "keeps P (sendSignalUnavailable (writerOf X a) i sg)"
    by (rule pt; auto simp: sendSignalAvailable_def sendSignalUnavailable_def Let_def)+
  show "keeps P (sendStreamingInitDone (writerOf X a))" "keeps P (sendPacketBuffer (writerOf X a) pad b)"
    "keeps P (schedulePacketBufferWriteTasks (writerOf X a) ts)" "keeps P (sendSignalSubscribe (writerOf X a) i sid)"
    "keeps P (sendSignalUnsubscribe (writerOf X a) i sid)" "keeps P (sendConfigurationPacket (writerOf X a) p)"
    by (auto simp: sendStreamingInitDone_def sendPacketBuffer_def schedulePacketBufferWriteTasks_def sendSignalSubscribe_def
        sendSignalUnsubscribe_def sendConfigurationPacket_def intro!: assms m act_rules split: sum.splits)
qed

lemma sendTo_keeps: "(\<And>a ts. keeps P (writeTo X a ts)) \<Longrightarrow> keeps P (sendTo X s c b)"
  by (auto simp: sendTo_def intro!: act_rules writer_keeps split: sum.splits)

section \<open>Streaming clients and readers\<close>

definition sub_ok :: "('sig \<Rightarrow> string) \<Rightarrow> 'sig StreamingManager \<Rightarrow> bool" where
  "sub_ok globalId m \<longleftrightarrow> mgr_ok globalId m \<and> (\<forall>sid. set (subscribers m sid) \<subseteq> set (streamingClientsIds m))"

text \<open>The signals that have subscribers.\<close>

definition live :: "'sig StreamingManager \<Rightarrow> string \<Rightarrow> bool" where
  "live m sid \<longleftrightarrow> subscribers m sid \<noteq> []"

definition calm :: "('sig \<Rightarrow> string) \<Rightarrow> 'sig StreamingManager \<Rightarrow> 'sig StreamingManager \<Rightarrow> bool" where
  "calm globalId m m' \<longleftrightarrow> (sub_ok globalId m \<longrightarrow> sub_ok globalId m' \<and>
     set (streamingClientsIds m') \<subseteq> set (streamingClientsIds m) \<and> live m' = live m)"

lemma calmI: "same_subs m m' \<Longrightarrow> (mgr_ok g m \<Longrightarrow> mgr_ok g m') \<Longrightarrow> calm g m m'"
  by (auto simp: calm_def sub_ok_def same_subs_def live_def fun_eq_iff)

lemma calm_refl [simp]: "calm g m m"
  by (simp add: calm_def)

lemma calm_send: "sendPacketToSubscribers ser refs send sid p (m, e) = (r, (m', e')) \<Longrightarrow> calm g m m'"
  by (intro calmI) (auto dest: send_same mgr_ok_sendPacketToSubscribers)

lemma calm_process: "processPackets ser refs ds ps m = (r, m') \<Longrightarrow> calm g m m'"
  by (intro calmI) (auto dest: process_same mgr_ok_processPackets)

lemma calm_received: "handleReceivedPacketBuffer deser w c cb (m, e) = Some (r, (m', e')) \<Longrightarrow> calm g m m'"
  by (intro calmI) (auto dest: received_same mgr_ok_handleReceived)

lemma calm_clientSignals:
  assumes "unregisterClientSignals c cb (m, e) = (r, (m', e'))"
  shows "calm g m m'"
proof (rule calmI)
  show "mgr_ok g m'" if ok: "mgr_ok g m"
  proof -
    obtain r1 l e1 where l: "eraseClientSignals c cb [] (registeredClientSignals m) e = (r1, l, e1)" by (metis prod_cases3)
    have "distinct (map fst ([] @ registeredClientSignals m))" using ok by (simp add: mgr_ok_def om_ok_def)
    then have "om_ok l" by (rule keys_eraseClientSignals[OF l])
    moreover have "m' = m\<lparr>registeredClientSignals := l\<rparr>" using assms l by (simp add: unregisterClientSignals_def)
    ultimately show ?thesis using ok by (simp add: mgr_ok_def)
  qed
qed (rule clientSignals_same[OF assms])

lemma calm_client_signal [simp]: "calm g m (registerClientSignal i sid c m)" "calm g m (unregisterClientSignal i sid c m)"
  by (rule calmI, rule client_signal_same, simp add: registerClientSignal_def unregisterClientSignal_def mgr_ok_def)+

lemma calm_setServer: "om_has (packetStreamingServers m) c \<Longrightarrow> calm g m (setServer c sv m)"
  by (intro calmI) simp_all

lemma calm_registerSignal: "signalNumericIdCounter m \<noteq> - 1 \<Longrightarrow> calm g m (snd (registerSignal g sg m))"
  by (intro calmI) (simp_all add: registerSignal_same mgr_ok_registerSignal)

text \<open>Callbacks that leave every property \<open>Q L\<close> of the environment alone.\<close>

definition quiet_device :: "((string \<Rightarrow> bool) \<Rightarrow> 'env \<Rightarrow> bool) \<Rightarrow> 'env device_handlers \<Rightarrow> bool" where
  "quiet_device Q h \<longleftrightarrow> (\<forall>L sid j. keeps (Q L) (signalAvailableHandler h sid j)) \<and> (\<forall>L sid. keeps (Q L) (signalUnavailableHandler h sid)) \<and>
     (\<forall>L sid p. keeps (Q L) (packetHandler h sid p)) \<and> (\<forall>L sid b. keeps (Q L) (signalSubscriptionAckCallback h sid b))"

definition quiet_session :: "((string \<Rightarrow> bool) \<Rightarrow> 'env \<Rightarrow> bool) \<Rightarrow> 'env ServerSession \<Rightarrow> bool" where
  "quiet_session Q x \<longleftrightarrow> (\<forall>L cb p. ss_configHandler x = ConfigServerCb (Some cb) \<longrightarrow> keeps (Q L) (cb p)) \<and>
     (\<forall>L cb w. ss_packetHandler x = ConfigPacketCb (Some cb) \<longrightarrow> keeps (Q L) (cb w))"

text \<open>
  The state while \<open>L\<close> are the signals whose readers have been started: every subscriber is a
  streaming client, every streaming client has a session, the callbacks that were handed to the
  server are quiet.
\<close>

definition strm_at :: "('sig, 'env) server_ext \<Rightarrow> ((string \<Rightarrow> bool) \<Rightarrow> 'env \<Rightarrow> bool) \<Rightarrow> (string \<Rightarrow> bool) \<Rightarrow> ('sig, 'env) NativeServer \<times> 'env \<Rightarrow> bool" where
  "strm_at X Q L x \<longleftrightarrow> sub_ok (globalIdOf X) (streamingManager (fst x)) \<and>
     set (streamingClientsIds (streamingManager (fst x))) \<subseteq> fst ` set (sessionHandlers (fst x)) \<and>
     (\<forall>a. quiet_session Q (sessionObjects (fst x) a)) \<and> (\<forall>h. deviceHandlers (fst x) = Some h \<longrightarrow> quiet_device Q h) \<and> Q L (snd x)"

definition strm :: "('sig, 'env) server_ext \<Rightarrow> ((string \<Rightarrow> bool) \<Rightarrow> 'env \<Rightarrow> bool) \<Rightarrow> ('sig, 'env) NativeServer \<times> 'env \<Rightarrow> bool" where
  "strm X Q x \<longleftrightarrow> strm_at X Q (live (streamingManager (fst x))) x"

text \<open>
  What is asked of an environment: \<open>Q L\<close> says that exactly the readers of \<open>L\<close> run. The two handlers
  start and stop a reader, or fail and leave nothing to say; every other callback is quiet.
\<close>

locale reader_env =
  fixes X :: "('sig, 'env) server_ext" and Q :: "(string \<Rightarrow> bool) \<Rightarrow> 'env \<Rightarrow> bool"
  assumes writes: "keeps (Q L) (writeTo X a ts)"
    and monitors: "keeps (Q L) (startMonitoring X a p t)"
    and closes: "keeps (Q L) (closeIfOpen X a)"
    and connected: "keeps (Q L) (clientConnectedHandler X c ep b ct h)"
    and disconnected: "keeps (Q L) (clientDisconnectedHandler X c)"
    and configures: "keeps (Q L) (setUpConfigProtocolServerCb X a ct)"
    and configured: "setUpConfigProtocolServerCb X a ct e = (Inr (cb, pcb), e1) \<Longrightarrow>
      quiet_session Q (x\<lparr>ss_configHandler := ConfigServerCb cb, ss_packetHandler := ConfigPacketCb pcb\<rparr>)"
    and starts: "Q L e \<Longrightarrow> \<not> L (globalIdOf X sg) \<Longrightarrow> signalSubscribedHandler X sg e = (r, e1) \<Longrightarrow>
      (case r of Inr _ \<Rightarrow> Q (L(globalIdOf X sg := True)) e1 | Inl _ \<Rightarrow> \<forall>L'. Q L' e1)"
    and stops: "Q L e \<Longrightarrow> L (globalIdOf X sg) \<Longrightarrow> signalUnsubscribedHandler X sg e = (r, e1) \<Longrightarrow>
      (case r of Inr _ \<Rightarrow> Q (L(globalIdOf X sg := False)) e1 | Inl _ \<Rightarrow> \<forall>L'. Q L' e1)"
begin

lemma strm_env: "(\<And>L. keeps (Q L) f) \<Longrightarrow> keeps (strm X Q) (on_env f)"
  by (rule keepsI) (auto simp: on_env_def strm_def strm_at_def split: prod.splits dest: keeps_at[where P = "Q _"])

lemma strm_at_env: "(\<And>L. keeps (Q L) f) \<Longrightarrow> keeps (strm_at X Q L) (on_env f)"
  by (rule keepsI) (auto simp: on_env_def strm_at_def split: prod.splits dest: keeps_at[where P = "Q _"])

lemma strm_calm:
  "strm X Q (s, e) \<Longrightarrow> calm (globalIdOf X) (streamingManager s) m \<Longrightarrow> (\<And>L. Q L e \<Longrightarrow> Q L e1) \<Longrightarrow> strm X Q (s\<lparr>streamingManager := m\<rparr>, e1)"
  by (auto simp: strm_def strm_at_def calm_def)

lemma strm_manager: "(\<And>m r m'. f m = (r, m') \<Longrightarrow> calm (globalIdOf X) m m') \<Longrightarrow> keeps (strm X Q) (on_manager f)"
  by (rule keeps_on_manager) (auto intro: strm_calm)

lemma strm_manager_env:
  assumes "\<And>s m e r m' e' L. f s (m, e) = (r, (m', e')) \<Longrightarrow> (\<And>h. deviceHandlers s = Some h \<Longrightarrow> quiet_device Q h) \<Longrightarrow>
      calm (globalIdOf X) m m' \<and> (Q L e \<longrightarrow> Q L e')"
  shows "keeps (strm X Q) (on_manager_env f)"
proof (rule keeps_on_manager_env)
  fix s e r m e1
  assume st: "strm X Q (s, e)" and f: "f s (streamingManager s, e) = (r, (m, e1))"
  have "\<And>h. deviceHandlers s = Some h \<Longrightarrow> quiet_device Q h" using st by (simp add: strm_def strm_at_def)
  from assms[OF f this] show "strm X Q (s\<lparr>streamingManager := m\<rparr>, e1)" by (intro strm_calm[OF st]) auto
qed

lemma strm_session:
  assumes "\<And>x. quiet_session Q x \<Longrightarrow> quiet_session Q (f x)"
  shows "keeps (strm X Q) (change_session a f)"
  using assms by (intro keepsI) (auto simp: change_session_def change_server_def strm_def strm_at_def)

lemmas writer_quiet = writer_keeps[of "Q L" for L, OF writes]

lemma send_quiet: "keeps (Q L) (sendTo X s c b)"
  by (rule sendTo_keeps) (rule writes)

lemma device_quiet:
  assumes "\<And>h. deviceHandlers s = Some h \<Longrightarrow> quiet_device Q h" and "\<And>h. quiet_device Q h \<Longrightarrow> keeps (Q L) (f h)"
  shows "keeps (Q L) (deviceCall f s)"
  using assms by (auto simp: deviceCall_def intro: act_rules split: option.splits)

end

subsection \<open>Operations\<close>

context reader_env
begin

lemma strm_to_clients: "(\<And>a L. keeps (Q L) (f a)) \<Longrightarrow> keeps (strm X Q) (toStreamingClients f)"
  unfolding toStreamingClients_def by (intro act_rules strm_env)

lemma strm_add:
  "triple (\<lambda>x. strm X Q x \<and> signalNumericIdCounter (streamingManager (fst x)) \<noteq> - 1) (addSignal X sg) (\<lambda>_. strm X Q) (strm X Q)"
proof -
  have r: "triple (\<lambda>x. strm X Q x \<and> signalNumericIdCounter (streamingManager (fst x)) \<noteq> - 1)
      (on_manager (registerSignal (globalIdOf X) sg)) (\<lambda>_. strm X Q) (strm X Q)"
  proof (rule keepsI)
    fix x
    assume x: "strm X Q x \<and> signalNumericIdCounter (streamingManager (fst x)) \<noteq> - 1"
    then have "calm (globalIdOf X) (streamingManager (fst x)) (snd (registerSignal (globalIdOf X) sg (streamingManager (fst x))))"
      by (simp add: calm_registerSignal)
    then show "strm X Q (snd (on_manager (registerSignal (globalIdOf X) sg) x))"
      using x strm_calm[of "fst x" "snd x"] by (cases x) (auto simp: on_manager_def split: prod.splits)
  qed
  show ?thesis
    unfolding addSignal_def act_if_def
    by (auto intro!: triple_return triple_bind[OF r] strm_to_clients writer_quiet)
qed

lemma strm_send: "keeps (strm X Q) (sendPacket X refs sid p)"
  unfolding sendPacket_def by (intro strm_manager_env conjI) (auto intro: calm_send dest: sendPacket_env[OF _ send_quiet])

lemma strm_process: "keeps (strm X Q) (processStreamingPackets X refs ds ps)"
  unfolding processStreamingPackets_def by (intro strm_manager calm_process)

lemma strm_tasks:
  "triple (\<lambda>x. strm X Q x \<and> om_has (packetStreamingServers (streamingManager (fst x))) c) (takeWriteTasks X c p) (\<lambda>_. strm X Q) (strm X Q)"
proof (rule keepsI)
  fix x
  assume x: "strm X Q x \<and> om_has (packetStreamingServers (streamingManager (fst x))) c"
  then show "strm X Q (snd (takeWriteTasks X c p x))"
    using strm_calm[of "fst x" "snd x" "setServer c _ (streamingManager (fst x))" "snd x"] calm_setServer[of "streamingManager (fst x)" c]
    by (cases x) (auto simp: takeWriteTasks_def act_throw_def on_manager_def split: option.splits prod.splits)
qed

lemma strm_available: "keeps (strm X Q) (sendAvailableStreamingPackets X)"
proof -
  have one: "keeps (strm X Q) (act_bind (from_server (\<lambda>s. getPacketServerIfRegistered c (streamingManager s))) (\<lambda>srv.
            case srv of
              None \<Rightarrow> act_return ()
            | Some p \<Rightarrow> act_bind (takeWriteTasks X c p) (\<lambda>tasks.
                act_if (tasks \<noteq> []) (on_env (schedulePacketBufferWriteTasks (writerOf X a) tasks)))))" for c a
  proof (rule triple_from_server)
    fix v
    show "triple (\<lambda>(s, e). strm X Q (s, e) \<and> getPacketServerIfRegistered c (streamingManager s) = Inr v)
        (case v of None \<Rightarrow> act_return () | Some p \<Rightarrow> act_bind (takeWriteTasks X c p) (\<lambda>tasks.
                act_if (tasks \<noteq> []) (on_env (schedulePacketBufferWriteTasks (writerOf X a) tasks))))
        (\<lambda>_. strm X Q) (strm X Q)"
    proof (cases v)
      case None
      then show ?thesis by (auto intro!: triple_return)
    next
      case (Some p)
      have "triple (\<lambda>(s, e). strm X Q (s, e) \<and> getPacketServerIfRegistered c (streamingManager s) = Inr v)
          (takeWriteTasks X c p) (\<lambda>_. strm X Q) (strm X Q)"
        by (rule triple_conseq[OF strm_tasks]) (auto simp: Some getPacketServerIfRegistered_def om_has_def split: if_splits option.splits)
      then show ?thesis
        unfolding Some option.case by (rule triple_bind) (intro act_rules strm_env writer_quiet)
    qed
  qed
  show ?thesis unfolding sendAvailableStreamingPackets_def by (auto intro!: act_rules one)
qed

lemma strm_do_subscribe: "keeps (strm X Q) (doSubscribeSignal X sid b)"
proof -
  have "keeps (Q L) (case map_of (sessionHandlers s) c of None \<Rightarrow> act_return ()
     | Some a \<Rightarrow> if b then sendSignalSubscribe (writerOf X a) i sid else sendSignalUnsubscribe (writerOf X a) i sid)" for L s c i
    by (auto intro!: act_rules writer_quiet split: option.splits)
  note quiet = this
  show ?thesis
    unfolding doSubscribeSignal_def
    by (intro strm_manager_env) (auto dest: doSubscription_manager doSubscription_env[OF _ quiet])
qed

lemma strm_received: "keeps (strm X Q) (onPacketBufferReceived X c w)"
  unfolding onPacketBufferReceived_def
proof (rule strm_manager_env)
  fix s :: "('sig, 'env) NativeServer" and m m' :: "'sig StreamingManager" and e r e' L
  assume f: "(case handleReceivedPacketBuffer (eventOfJson X) w c (\<lambda>sid p. deviceCall (\<lambda>h. packetHandler h sid p) s) (m, e) of
       None \<Rightarrow> (Inl NoReturn, (m, e)) | Some r \<Rightarrow> r) = (r, (m', e'))" and q: "\<And>h. deviceHandlers s = Some h \<Longrightarrow> quiet_device Q h"
  have "keeps (Q L) (deviceCall (\<lambda>h. packetHandler h sid p) s)" for sid p
    by (rule device_quiet[OF q]) (auto simp: quiet_device_def)
  then show "calm (globalIdOf X) m m' \<and> (Q L e \<longrightarrow> Q L e')"
    using f by (auto split: option.splits intro: calm_received dest: received_env[where P = "Q L"])
qed

lemma strm_ack: "keeps (strm X Q) (server_handleClientSignalSubscribeAck i b c)"
  unfolding server_handleClientSignalSubscribeAck_def
proof (rule strm_manager_env)
  fix s :: "('sig, 'env) NativeServer" and m m' :: "'sig StreamingManager" and e r e' L
  assume f: "handleClientSignalSubscribeAck i b c (\<lambda>sid b. deviceCall (\<lambda>h. signalSubscriptionAckCallback h sid b) s) (m, e) = (r, (m', e'))"
    and q: "\<And>h. deviceHandlers s = Some h \<Longrightarrow> quiet_device Q h"
  have "keeps (Q L) (deviceCall (\<lambda>h. signalSubscriptionAckCallback h sid b) s)" for sid b
    by (rule device_quiet[OF q]) (auto simp: quiet_device_def)
  then have "Q L e \<Longrightarrow> Q L e'" using ack_env[OF f, of "Q L"] by blast
  then show "calm (globalIdOf X) m m' \<and> (Q L e \<longrightarrow> Q L e')" using ack_manager[OF f] by simp
qed

lemma strm_device:
  assumes "\<And>h L. quiet_device Q h \<Longrightarrow> keeps (Q L) (f h)"
  shows "keeps (strm X Q) (\<lambda>(s, e). on_env (deviceCall f s) (s, e))"
proof (rule keepsI)
  fix x
  assume x: "strm X Q x"
  then have "\<And>h. deviceHandlers (fst x) = Some h \<Longrightarrow> quiet_device Q h" by (simp add: strm_def strm_at_def)
  then have "keeps (strm X Q) (on_env (deviceCall f (fst x)))" using assms by (intro strm_env device_quiet)
  from keeps_snd[OF this x] show "strm X Q (snd ((\<lambda>(s, e). on_env (deviceCall f s) (s, e)) x))" by (cases x) simp
qed

lemma strm_client_signal: "keeps (strm X Q) (handleClientSignal X i sid j b c)"
proof -
  have m: "keeps (strm X Q) (on_manager (\<lambda>m. (Inr (), registerClientSignal i sid c m)))"
    "keeps (strm X Q) (on_manager (\<lambda>m. (Inr (), unregisterClientSignal i sid c m)))"
    by (intro strm_manager; auto)+
  show ?thesis
    unfolding handleClientSignal_def by (auto simp: quiet_device_def intro!: keeps_bind m strm_device)
qed

end

lemma triple_conj:
  "triple P f R E \<Longrightarrow> triple P' f R' E' \<Longrightarrow> triple (\<lambda>x. P x \<and> P' x) f (\<lambda>v x. R v x \<and> R' v x) (\<lambda>x. E x \<and> E' x)"
  unfolding triple_def by (fastforce split: prod.splits sum.splits)

lemma catch_snd: "snd (act_catch f v x) = snd (f x)"
  by (auto simp: act_catch_def split: prod.splits sum.splits native_exn.splits)

text \<open>A signal has gained its first or lost its last subscriber, and its reader has not been told yet.\<close>

definition strm_to :: "('sig, 'env) server_ext \<Rightarrow> ((string \<Rightarrow> bool) \<Rightarrow> 'env \<Rightarrow> bool) \<Rightarrow> bool \<Rightarrow> string \<Rightarrow> bool \<Rightarrow> ('sig, 'env) NativeServer \<times> 'env \<Rightarrow> bool" where
  "strm_to X Q v sid flag x \<longleftrightarrow> (\<exists>L. strm_at X Q L x \<and> (flag \<longrightarrow> L sid = (\<not> v)) \<and>
     live (streamingManager (fst x)) = (if flag then L(sid := v) else L))"

lemma subscribe_live:
  assumes "registerSignalSubscriber ser refs send sid c (m, e) = (r, (m', e'))" and "sub_ok g m" and "c \<in> set (streamingClientsIds m)"
  shows "sub_ok g m'" and "streamingClientsIds m' = streamingClientsIds m"
    and "case r of Inl _ \<Rightarrow> live m' = live m | Inr first \<Rightarrow> first = (\<not> live m sid) \<and> live m' = (live m)(sid := True)"
proof -
  note s = subscribe_subs[OF assms(1)]
  show st: "streamingClientsIds m' = streamingClientsIds m" by (rule s(1))
  show "sub_ok g m'"
    using s(2) st assms(2,3) mgr_ok_registerSignalSubscriber[OF _ assms(1)] by (cases r) (auto simp: sub_ok_def)
  show "case r of Inl _ \<Rightarrow> live m' = live m | Inr first \<Rightarrow> first = (\<not> live m sid) \<and> live m' = (live m)(sid := True)"
    using s(2) by (cases r) (auto simp: live_def fun_eq_iff)
qed

lemma unsubscribe_live:
  assumes "removeSignalSubscriber sid c m = (r, m')" and "sub_ok g m"
  shows "sub_ok g m'" and "streamingClientsIds m' = streamingClientsIds m"
    and "case r of Inl _ \<Rightarrow> live m' = live m | Inr wasLast \<Rightarrow> (wasLast \<longrightarrow> live m sid) \<and> live m' = (if wasLast then (live m)(sid := False) else live m)"
proof -
  note r = assms(1)[unfolded removeSignalSubscriber_def]
  note s = unsubscribe_subs[OF r]
  show st: "streamingClientsIds m' = streamingClientsIds m" using s by simp
  show "sub_ok g m'"
    using s assms(2) mgr_ok_removeSignalSubscriber[OF _ r] set_remove1_subset[of c] by (cases r) (fastforce simp: sub_ok_def)+
  show "case r of Inl _ \<Rightarrow> live m' = live m | Inr wasLast \<Rightarrow> (wasLast \<longrightarrow> live m sid) \<and> live m' = (if wasLast then (live m)(sid := False) else live m)"
    using s by (cases r) (auto simp: live_def fun_eq_iff remove1_idem)
qed

lemma subscription_kept:
  "keeps (\<lambda>x. sessionObjects (fst x) = ob \<and> streamingClientsIds (streamingManager (fst x)) = cl) (handleSignalSubscription X refs i sg b c)"
  unfolding handleSignalSubscription_def
  by (auto intro!: act_rules keeps_on_env keeps_on_manager keeps_on_manager_env
      dest: subscribe_subs(1) unsubscribe_subs simp: removeSignalSubscriber_def)

context reader_env
begin

lemma strm_start_reader: "triple (strm_to X Q True (globalIdOf X sg) True) (on_env (signalSubscribedHandler X sg)) (\<lambda>_. strm X Q) (strm X Q)"
proof (rule keepsI)
  fix x
  assume x: "strm_to X Q True (globalIdOf X sg) True x"
  then obtain L where L: "strm_at X Q L x" "\<not> L (globalIdOf X sg)" "live (streamingManager (fst x)) = L(globalIdOf X sg := True)"
    by (auto simp: strm_to_def)
  obtain r e1 where h: "signalSubscribedHandler X sg (snd x) = (r, e1)" by fastforce
  have "Q (L(globalIdOf X sg := True)) e1" using starts[of L, OF _ L(2) h] L(1) by (cases r) (auto simp: strm_at_def)
  then show "strm X Q (snd (on_env (signalSubscribedHandler X sg) x))" using L h by (cases x) (auto simp: on_env_def strm_def strm_at_def)
qed

lemma strm_stop_reader: "triple (strm_to X Q False (globalIdOf X sg) True) (on_env (signalUnsubscribedHandler X sg)) (\<lambda>_. strm X Q) (strm X Q)"
proof (rule keepsI)
  fix x
  assume x: "strm_to X Q False (globalIdOf X sg) True x"
  then obtain L where L: "strm_at X Q L x" "L (globalIdOf X sg)" "live (streamingManager (fst x)) = L(globalIdOf X sg := False)"
    by (auto simp: strm_to_def)
  obtain r e1 where h: "signalUnsubscribedHandler X sg (snd x) = (r, e1)" by fastforce
  have "Q (L(globalIdOf X sg := False)) e1" using stops[of L, OF _ L(2) h] L(1) by (cases r) (auto simp: strm_at_def)
  then show "strm X Q (snd (on_env (signalUnsubscribedHandler X sg) x))" using L h by (cases x) (auto simp: on_env_def strm_def strm_at_def)
qed

lemma strm_to_nothing: "strm_to X Q v sid False x \<Longrightarrow> strm X Q x"
  by (auto simp: strm_to_def strm_def)

lemma strm_register:
  "triple (\<lambda>x. strm X Q x \<and> c \<in> set (streamingClientsIds (streamingManager (fst x))))
     (on_manager_env (\<lambda>s. registerSignalSubscriber (eventJson X) refs (sendTo X s) sid c)) (\<lambda>flag. strm_to X Q True sid flag) (strm X Q)"
  unfolding triple_def
proof (intro allI impI)
  fix x
  assume x: "strm X Q x \<and> c \<in> set (streamingClientsIds (streamingManager (fst x)))"
  let ?m = "streamingManager (fst x)" and ?f = "registerSignalSubscriber (eventJson X) refs (sendTo X (fst x)) sid c"
  obtain r m' e' where f: "?f (?m, snd x) = (r, (m', e'))" by (metis prod.collapse)
  have ok: "sub_ok (globalIdOf X) ?m" using x by (simp add: strm_def strm_at_def)
  note l = subscribe_live[OF f ok] 
  have q: "Q L (snd x) \<Longrightarrow> Q L e'" for L by (rule subscribe_env[OF f send_quiet])
  have at: "strm_at X Q (live ?m) ((fst x)\<lparr>streamingManager := m'\<rparr>, e')" using x l(1,2) q by (simp add: strm_def strm_at_def)
  have eq: "on_manager_env (\<lambda>s. registerSignalSubscriber (eventJson X) refs (sendTo X s) sid c) x = (r, ((fst x)\<lparr>streamingManager := m'\<rparr>, e'))"
    using f by (cases x) (simp add: on_manager_env_def)
  show "case on_manager_env (\<lambda>s. registerSignalSubscriber (eventJson X) refs (sendTo X s) sid c) x of
      (Inl _, e1) \<Rightarrow> strm X Q e1 | (Inr v, e1) \<Rightarrow> strm_to X Q True sid v e1"
  proof (cases r)
    case (Inl y)
    then show ?thesis using at l(3) x by (simp add: eq strm_def)
  next
    case (Inr v)
    have "(live ?m)(sid := True) = live ?m" if "live ?m sid" using that by (simp add: fun_upd_idem)
    then show ?thesis using at l(3) x by (auto simp: eq Inr strm_to_def intro!: exI[of _ "live ?m"])
  qed
qed

lemma strm_unregister:
  "triple (strm X Q) (on_manager (removeSignalSubscriber sid c)) (\<lambda>flag. strm_to X Q False sid flag) (strm X Q)"
  unfolding triple_def
proof (intro allI impI)
  fix x
  assume x: "strm X Q x"
  let ?m = "streamingManager (fst x)"
  obtain r m' where f: "removeSignalSubscriber sid c ?m = (r, m')" by fastforce
  have ok: "sub_ok (globalIdOf X) ?m" using x by (simp add: strm_def strm_at_def)
  note l = unsubscribe_live[OF f ok]
  have at: "strm_at X Q (live ?m) ((fst x)\<lparr>streamingManager := m'\<rparr>, snd x)" using x l(1,2) by (simp add: strm_def strm_at_def)
  have eq: "on_manager (removeSignalSubscriber sid c) x = (r, ((fst x)\<lparr>streamingManager := m'\<rparr>, snd x))"
    using f by (cases x) (simp add: on_manager_def)
  show "case on_manager (removeSignalSubscriber sid c) x of (Inl _, e1) \<Rightarrow> strm X Q e1 | (Inr v, e1) \<Rightarrow> strm_to X Q False sid v e1"
    using at l(3) by (cases r) (auto simp: eq strm_to_def strm_def intro!: exI[of _ "live ?m"])
qed

lemma strm_subscription:
  "triple (\<lambda>x. strm X Q x \<and> (b \<longrightarrow> c \<in> set (streamingClientsIds (streamingManager (fst x))))) (handleSignalSubscription X refs i sg b c)
     (\<lambda>_. strm X Q) (strm X Q)"
proof -
  have on: "triple (strm_to X Q True (globalIdOf X sg) v) (act_seq (act_if v (on_env (signalSubscribedHandler X sg))) (act_return True)) (\<lambda>_. strm X Q) (strm X Q)" for v
    by (cases v) (auto simp: act_if_def act_bind_return intro!: triple_bind[OF strm_start_reader] triple_return dest: strm_to_nothing)
  have off: "triple (strm_to X Q False (globalIdOf X sg) v) (act_seq (act_if v (on_env (signalUnsubscribedHandler X sg))) (act_return True)) (\<lambda>_. strm X Q) (strm X Q)" for v
    by (cases v) (auto simp: act_if_def act_bind_return intro!: triple_bind[OF strm_stop_reader] triple_return dest: strm_to_nothing)
  have "triple (\<lambda>x. strm X Q x \<and> (b \<longrightarrow> c \<in> set (streamingClientsIds (streamingManager (fst x)))))
     (if b
        then act_bind (on_manager_env (\<lambda>s. registerSignalSubscriber (eventJson X) refs (sendTo X s) (globalIdOf X sg) c)) (\<lambda>first.
             act_seq (act_if first (on_env (signalSubscribedHandler X sg))) (act_return True))
        else act_bind (on_manager (removeSignalSubscriber (globalIdOf X sg) c)) (\<lambda>wasLast.
             act_seq (act_if wasLast (on_env (signalUnsubscribedHandler X sg))) (act_return True))) (\<lambda>_. strm X Q) (strm X Q)"
    by (cases b) (auto intro!: triple_bind[OF strm_register on] triple_bind[OF strm_unregister off])
  then show ?thesis unfolding handleSignalSubscription_def by (intro keepsI) (simp add: catch_snd triple_snd)
qed

end

lemma remove1_Nil: "remove1 c l = [] \<longleftrightarrow> l = [] \<or> l = [c]"
  by (cases l) auto

lemma decrement_streaming [simp]:
  "streamingManager (decrementConfigConnectionCount a s) = streamingManager s"
  "deviceHandlers (decrementConfigConnectionCount a s) = deviceHandlers s"
  "sessionHandlers (decrementConfigConnectionCount a s) = sessionHandlers s"
  by (simp_all add: decrementConfigConnectionCount_def Let_def)

lemma unregister_shrinks: "unregisterClient c m = (r, m') \<Longrightarrow> set (streamingClientsIds m') \<subseteq> set (streamingClientsIds m)"
proof -
  have u: "unsubscribeFromAll c sids m1 = (r, m2) \<Longrightarrow> streamingClientsIds m2 = streamingClientsIds m1" for sids m1 r and m2 :: "'a StreamingManager"
  proof (induction sids arbitrary: m1 r)
    case (Cons sid sids)
    obtain r1 m3 where s: "removeSignalSubscriberNoLock sid c m1 = (r1, m3)" by fastforce
    obtain r2 m4 where t: "unsubscribeFromAll c sids m3 = (r2, m4)" by fastforce
    show ?case using Cons.IH[of m3 r2] Cons.prems s t unsubscribe_subs[OF s] by (auto split: sum.splits)
  qed simp
  assume "unregisterClient c m = (r, m')"
  then show ?thesis by (auto simp: unregisterClient_def dest!: u split: if_splits dest: subsetD[OF set_remove1_subset])
qed

text \<open>Releasing a session leaves the session objects and registers no streaming client.\<close>

lemma release_kept:
  "keeps (\<lambda>x. sessionObjects (fst x) = ob \<and> set (streamingClientsIds (streamingManager (fst x))) \<subseteq> S) (releaseSessionHandlerInternal X a)"
proof -
  let ?I = "\<lambda>x. sessionObjects (fst x) = ob \<and> set (streamingClientsIds (streamingManager (fst x))) \<subseteq> S"
  have c: "keeps ?I (change_server (\<lambda>s. (decrementConfigConnectionCount a s)\<lparr>sessionHandlers := om_erase c (sessionHandlers s)\<rparr>))" for c
    by (rule keepsI) (auto simp: change_server_def)
  have u: "keeps ?I (on_manager (unregisterClient c))" for c
    by (rule keeps_on_manager) (auto dest: unregister_shrinks)
  have k: "keeps ?I (on_manager_env (\<lambda>s. unregisterClientSignals c (f s)))" for c and f
    by (rule keeps_on_manager_env) (auto dest!: clientSignals_same simp: same_subs_def)
  have "keeps ?I (forgetClient X c a)" for c
    unfolding forgetClient_def by (auto intro!: act_rules u k c keeps_on_env)
  then show ?thesis
    unfolding releaseSessionHandlerInternal_def by (auto intro!: act_rules keeps_on_env split: option.splits)
qed

text \<open>The readers of \<open>sigs\<close> still have to be stopped for a client that has left.\<close>

definition strm_left :: "('sig, 'env) server_ext \<Rightarrow> ((string \<Rightarrow> bool) \<Rightarrow> 'env \<Rightarrow> bool) \<Rightarrow> string \<Rightarrow> 'sig list \<Rightarrow> ('sig, 'env) NativeServer \<times> 'env \<Rightarrow> bool" where
  "strm_left X Q c sigs x \<longleftrightarrow>
     strm_at X Q (\<lambda>sid. live (streamingManager (fst x)) sid \<or> sid \<in> globalIdOf X ` set sigs) x \<and> distinct (map (globalIdOf X) sigs) \<and>
     (\<forall>sg \<in> set sigs. \<not> live (streamingManager (fst x)) (globalIdOf X sg)) \<and> c \<notin> set (streamingClientsIds (streamingManager (fst x)))"

lemma strm_left_Nil: "strm_left X Q c [] x \<Longrightarrow> strm X Q x"
  by (simp add: strm_left_def strm_def)

context reader_env
begin

lemma strm_leaves: "triple (strm X Q) (on_manager (unregisterClient c)) (\<lambda>sigs. strm_left X Q c sigs) (strm X Q)"
  unfolding triple_def
proof (intro allI impI)
  fix x
  assume x: "strm X Q x"
  let ?m = "streamingManager (fst x)" and ?g = "globalIdOf X"
  have ok: "sub_ok ?g ?m" and mok: "mgr_ok ?g ?m" using x by (auto simp: strm_def strm_at_def sub_ok_def)
  obtain sigs m' where u: "unregisterClient c ?m = (Inr sigs, m')" "distinct (map ?g sigs)"
      "if c \<in> set (streamingClientsIds ?m)
       then streamingClientsIds m' = remove1 c (streamingClientsIds ?m) \<and>
         set (map ?g sigs) = {sid. leaves c (subscribers ?m sid)} \<and> subscribers m' = (\<lambda>sid. remove1 c (subscribers ?m sid))
       else sigs = [] \<and> m' = ?m"
    using unregister_subs[OF mok, of c] by blast
  have mok': "mgr_ok ?g m'" using mgr_ok_unregisterClient[OF mok, of c] u(1) by simp
  have eq: "on_manager (unregisterClient c) x = (Inr sigs, ((fst x)\<lparr>streamingManager := m'\<rparr>, snd x))"
    using u(1) by (cases x) (simp add: on_manager_def)
  have "strm_left X Q c sigs ((fst x)\<lparr>streamingManager := m'\<rparr>, snd x)"
  proof (cases "c \<in> set (streamingClientsIds ?m)")
    case True
    then have st: "streamingClientsIds m' = remove1 c (streamingClientsIds ?m)" and sg: "?g ` set sigs = {sid. leaves c (subscribers ?m sid)}"
      and sub: "subscribers m' = (\<lambda>sid. remove1 c (subscribers ?m sid))" using u(3) by auto
    have d: "distinct (streamingClientsIds ?m)" "distinct (subscribers ?m sid)" for sid
      using mok mgr_ok_subscribers[OF mok, of sid] by (auto simp: mgr_ok_def subscribers_def split: option.splits)
    have L: "(\<lambda>sid. live m' sid \<or> sid \<in> ?g ` set sigs) = live ?m"
      unfolding sg by (auto simp: live_def sub leaves_def fun_eq_iff remove1_Nil)
    have "sub_ok ?g m'" using mok' ok d by (auto simp: sub_ok_def st sub)
    moreover have "set (streamingClientsIds m') \<subseteq> set (streamingClientsIds ?m)" unfolding st by (rule set_remove1_subset)
    moreover have "\<not> live m' (?g s)" if "s \<in> set sigs" for s using that sg by (auto simp: live_def sub leaves_def)
    moreover have "c \<notin> set (streamingClientsIds m')" unfolding st using d(1) by simp
    ultimately show ?thesis using x u(2) L by (auto simp: strm_left_def strm_def strm_at_def)
  next
    case False
    then show ?thesis using u(3) x by (auto simp: strm_left_def strm_def)
  qed
  then show "case on_manager (unregisterClient c) x of (Inl _, e1) \<Rightarrow> strm X Q e1 | (Inr sigs, e1) \<Rightarrow> strm_left X Q c sigs e1" by (simp add: eq)
qed

lemma strm_stop_all:
  "triple (strm_left X Q c sigs) (act_each (\<lambda>sg. on_env (signalUnsubscribedHandler X sg)) sigs) (\<lambda>_. strm_left X Q c []) (strm X Q)"
proof (induction sigs)
  case Nil
  show ?case by (auto intro: triple_return)
next
  case (Cons sg sigs)
  have "triple (strm_left X Q c (sg # sigs)) (on_env (signalUnsubscribedHandler X sg)) (\<lambda>_. strm_left X Q c sigs) (strm X Q)"
    unfolding triple_def
  proof (intro allI impI)
    fix x
    assume x: "strm_left X Q c (sg # sigs) x"
    let ?g = "globalIdOf X sg" and ?m = "streamingManager (fst x)"
    let ?L = "\<lambda>sid. live ?m sid \<or> sid \<in> globalIdOf X ` set (sg # sigs)" and ?L' = "\<lambda>sid. live ?m sid \<or> sid \<in> globalIdOf X ` set sigs"
    obtain r e1 where h: "signalUnsubscribedHandler X sg (snd x) = (r, e1)" by fastforce
    have q: "Q ?L (snd x)" and at: "strm_at X Q ?L x" using x by (auto simp: strm_left_def strm_at_def)
    have s: "case r of Inr _ \<Rightarrow> Q (?L(?g := False)) e1 | Inl _ \<Rightarrow> \<forall>L'. Q L' e1" by (rule stops[of ?L, OF q _ h]) simp
    have "?L(?g := False) = ?L'" using x by (auto simp: strm_left_def fun_eq_iff)
    then show "case on_env (signalUnsubscribedHandler X sg) x of (Inl _, e1) \<Rightarrow> strm X Q e1 | (Inr _, e1) \<Rightarrow> strm_left X Q c sigs e1"
      using s x h by (cases x; cases r) (auto simp: on_env_def strm_left_def strm_def strm_at_def)
  qed
  then show ?case using Cons.IH by (auto intro: triple_bind)
qed

lemma strm_forget: "keeps (strm X Q) (forgetClient X c a)"
proof -
  let ?gone = "\<lambda>s. unregisterClientSignals c (\<lambda>sid. deviceCall (\<lambda>h. signalUnavailableHandler h sid) s)"
  have k: "keeps (strm X Q) (on_manager_env ?gone)"
  proof (rule strm_manager_env)
    fix s :: "('sig, 'env) NativeServer" and m m' :: "'sig StreamingManager" and e r e' L
    assume f: "?gone s (m, e) = (r, (m', e'))" and q: "\<And>h. deviceHandlers s = Some h \<Longrightarrow> quiet_device Q h"
    have d: "keeps (Q L) (deviceCall (\<lambda>h. signalUnavailableHandler h sid) s)" for sid
      by (rule device_quiet[OF q]) (auto simp: quiet_device_def)
    show "calm (globalIdOf X) m m' \<and> (Q L e \<longrightarrow> Q L e')"
      using calm_clientSignals[OF f] clientSignals_env[OF f d] by blast
  qed
  have c: "triple (strm_left X Q c []) (change_server (\<lambda>s. (decrementConfigConnectionCount a s)\<lparr>sessionHandlers := om_erase c (sessionHandlers s)\<rparr>))
      (\<lambda>_. strm X Q) (strm X Q)"
  proof (rule keepsI)
    fix x
    assume x: "strm_left X Q c [] x"
    let ?h = "sessionHandlers (fst x)"
    have "fst ` set (om_erase c ?h) = fst ` set ?h - {c}" by (force simp: om_erase_def AList.delete_eq)
    then show "strm X Q (snd (change_server (\<lambda>s. (decrementConfigConnectionCount a s)\<lparr>sessionHandlers := om_erase c (sessionHandlers s)\<rparr>) x))"
      using x by (cases x) (auto simp: change_server_def strm_left_def strm_def strm_at_def)
  qed
  show ?thesis
    unfolding forgetClient_def
    by (intro keeps_bind act_rules k strm_env disconnected triple_bind[OF strm_leaves] triple_bind[OF strm_stop_all] c)
qed

lemma strm_release: "keeps (strm X Q) (releaseSessionHandlerInternal X a)"
  unfolding releaseSessionHandlerInternal_def
  by (auto intro!: act_rules strm_forget strm_env closes split: option.splits)

end

lemma quiet_session_update [simp]:
  "quiet_session Q (x\<lparr>ss_clientId := c\<rparr>) = quiet_session Q x" "quiet_session Q (x\<lparr>ss_clientHostName := c\<rparr>) = quiet_session Q x"
  "quiet_session Q (x\<lparr>ss_reconnected := b\<rparr>) = quiet_session Q x" "quiet_session Q (x\<lparr>ss_clientType := t\<rparr>) = quiet_session Q x"
  "quiet_session Q (x\<lparr>ss_exclusiveControlDropOthers := b\<rparr>) = quiet_session Q x" "quiet_session Q (x\<lparr>ss_useConfigProtocol := b\<rparr>) = quiet_session Q x"
  by (simp_all add: quiet_session_def)

text \<open>A client names itself before it streams.\<close>

definition unnamed :: "nat \<Rightarrow> ('sig, 'env) NativeServer \<times> 'env \<Rightarrow> bool" where
  "unnamed a x \<longleftrightarrow> ss_clientId (sessionObjects (fst x) a) \<notin> set (streamingClientsIds (streamingManager (fst x)))"

context reader_env
begin

lemma strm_remove_signal: "keeps (strm X Q) (removeComponentSignal X i sg)"
proof -
  let ?g = "globalIdOf X sg"
  let ?told = "\<lambda>x. strm_at X Q ((live (streamingManager (fst x)))(?g := False)) x \<and> om_has (registeredSignals (streamingManager (fst x))) ?g"
  have tell: "triple (\<lambda>(s, e). strm X Q (s, e) \<and> isSignalSubscribed (globalIdOf X) sg (streamingManager s) = Inr v)
      (act_if v (on_env (signalUnsubscribedHandler X sg))) (\<lambda>_. ?told) (strm X Q)" for v
    unfolding triple_def
  proof (intro allI impI)
    fix x
    assume x: "case x of (s, e) \<Rightarrow> strm X Q (s, e) \<and> isSignalSubscribed (globalIdOf X) sg (streamingManager s) = Inr v"
    let ?m = "streamingManager (fst x)"
    have st: "strm X Q x" and v: "v = live ?m ?g" and has: "om_has (registeredSignals ?m) ?g"
      using x by (cases x; auto simp: isSignalSubscribed_def live_def subscribers_def om_has_def split: option.splits)+
    obtain r e1 where h: "signalUnsubscribedHandler X sg (snd x) = (r, e1)" by fastforce
    show "case act_if v (on_env (signalUnsubscribedHandler X sg)) x of (Inl _, e1) \<Rightarrow> strm X Q e1 | (Inr _, e1) \<Rightarrow> ?told e1"
    proof (cases v)
      case True
      have "Q (live ?m) (snd x)" using st by (simp add: strm_def strm_at_def)
      from stops[of "live ?m", OF this _ h] True v
      show ?thesis using st has h by (cases x; cases r) (auto simp: act_if_def on_env_def strm_def strm_at_def)
    next
      case False
      then have "(live ?m)(?g := False) = live ?m" using v by (simp add: fun_upd_idem)
      then show ?thesis using False st has by (simp add: act_if_def act_return_def strm_def)
    qed
  qed
  have rm: "triple ?told (on_manager (removeSignal (globalIdOf X) sg)) (\<lambda>_. strm X Q) (strm X Q)"
  proof (rule keepsI)
    fix x
    assume x: "?told x"
    let ?m = "streamingManager (fst x)"
    obtain r m' where f: "removeSignal (globalIdOf X) sg ?m = (r, m')" by fastforce
    have r: "r = Inr ()" using f x by (simp add: removeSignal_def)
    have s: "streamingClientsIds m' = streamingClientsIds ?m" "subscribers m' = (subscribers ?m)(?g := [])"
      using removeSignal_subs[OF f] r by simp_all
    have "mgr_ok (globalIdOf X) ?m" using x by (simp add: strm_at_def sub_ok_def)
    from mgr_ok_removeSignal[OF this, of sg] have "mgr_ok (globalIdOf X) m'" using f by simp
    then have "sub_ok (globalIdOf X) m'" using x s by (simp add: strm_at_def sub_ok_def)
    moreover have "live m' = (live ?m)(?g := False)" using s by (auto simp: live_def fun_eq_iff)
    ultimately show "strm X Q (snd (on_manager (removeSignal (globalIdOf X) sg) x))"
      using x s f by (cases x) (simp add: on_manager_def strm_def strm_at_def)
  qed
  show ?thesis
    unfolding removeComponentSignal_def
    by (intro triple_from_server triple_bind[OF tell] triple_bind[OF rm] strm_to_clients writer_quiet)
qed

lemma strm_remove_signals: "keeps (strm X Q) (removeComponentSignals X c)"
  unfolding removeComponentSignals_def by (auto intro!: act_rules strm_remove_signal)

lemma strm_take: "triple (\<lambda>x. strm X Q x \<and> unnamed a x) (takeClientId c a) (\<lambda>_. strm X Q) (strm X Q)"
proof (rule keepsI)
  fix x
  assume x: "strm X Q x \<and> unnamed a x"
  let ?i = "ss_clientId (sessionObjects (fst x) a)" and ?h = "sessionHandlers (fst x)"
  have "fst ` set ?h - {?i} \<subseteq> fst ` set (om_insert c b (om_erase ?i ?h))" for b
    by (force simp: om_insert_def om_erase_def AList.delete_eq)
  moreover have "set (streamingClientsIds (streamingManager (fst x))) \<subseteq> fst ` set ?h - {?i}"
    using x by (auto simp: strm_def strm_at_def unnamed_def)
  ultimately have "set (streamingClientsIds (streamingManager (fst x))) \<subseteq> fst ` set (om_insert c b (om_erase ?i ?h))" for b by blast
  then show "strm X Q (snd (takeClientId c a x))"
    using x by (cases x) (auto simp: takeClientId_def act_defs from_server_def change_server_def change_session_def strm_def strm_at_def split: option.splits)
qed

lemma strm_release_unnamed: "triple (\<lambda>x. strm X Q x \<and> unnamed a x) (releaseSessionHandlerInternal X b) (\<lambda>_ x. strm X Q x \<and> unnamed a x) (strm X Q)"
proof (rule triple_point)
  fix x
  assume x: "strm X Q x \<and> unnamed a x"
  let ?S = "set (streamingClientsIds (streamingManager (fst x)))"
  let ?K = "\<lambda>y. sessionObjects (fst y) = sessionObjects (fst x) \<and> set (streamingClientsIds (streamingManager (fst y))) \<subseteq> ?S"
  have K: "unnamed a y" if "?K y" for y :: "('sig, 'env) NativeServer \<times> 'env" using that x unfolding unnamed_def by auto
  have "triple (\<lambda>y. strm X Q y \<and> ?K y) (releaseSessionHandlerInternal X b) (\<lambda>_ y. strm X Q y \<and> unnamed a y) (strm X Q)"
  proof (rule triple_conseq[OF triple_conj[OF strm_release release_kept[of "sessionObjects (fst x)" ?S]]])
    show "strm X Q y \<and> unnamed a y" if "strm X Q y \<and> ?K y" for y using that K[of y] by simp
  qed simp_all
  moreover have "strm X Q x \<and> ?K x" using x by simp
  ultimately show "\<exists>P. P x \<and> triple P (releaseSessionHandlerInternal X b) (\<lambda>_ y. strm X Q y \<and> unnamed a y) (strm X Q)"
    by (intro exI[of _ "\<lambda>y. strm X Q y \<and> ?K y"] conjI; simp)
qed

lemma strm_register_id: "triple (\<lambda>x. strm X Q x \<and> unnamed a x) (registerClientId X c rec a) (\<lambda>_. strm X Q) (strm X Q)"
proof -
  have last: "keeps (strm X Q) (change_session a (\<lambda>x. x\<lparr>ss_reconnected := rec\<rparr>))" by (rule strm_session) simp
  have take: "triple (\<lambda>x. strm X Q x \<and> unnamed a x) (act_seq (act_if b (takeClientId c a)) (change_session a (\<lambda>x. x\<lparr>ss_reconnected := rec\<rparr>)))
      (\<lambda>_. strm X Q) (strm X Q)" for b
    using triple_conseq[OF last, of "\<lambda>x. strm X Q x \<and> unnamed a x"]
    by (cases b) (auto simp: act_if_def act_bind_return intro!: triple_bind[OF strm_take] last)
  have rel: "triple (\<lambda>x. strm X Q x \<and> unnamed a x) (case v of None \<Rightarrow> act_return () | Some b \<Rightarrow> act_if rec (releaseSessionHandlerInternal X b))
      (\<lambda>_ x. strm X Q x \<and> unnamed a x) (strm X Q)" for v
    by (cases v; cases rec) (auto simp: act_if_def intro: triple_return strm_release_unnamed)
  have all: "triple (\<lambda>(s, e). (strm X Q (s, e) \<and> unnamed a (s, e)) \<and> Inr (map_of (sessionHandlers s) c) = Inr v)
      (act_seq (case v of None \<Rightarrow> act_return () | Some b \<Rightarrow> act_if rec (releaseSessionHandlerInternal X b))
        (act_seq (act_if (v = None \<or> rec) (takeClientId c a)) (change_session a (\<lambda>x. x\<lparr>ss_reconnected := rec\<rparr>)))) (\<lambda>_. strm X Q) (strm X Q)" for v
    by (rule triple_conseq[OF triple_bind[OF rel take]]) auto
  show ?thesis unfolding registerClientId_def by (rule triple_from_server[OF all]) simp
qed

lemma strm_props: "triple (\<lambda>x. strm X Q x \<and> unnamed a x) (handleTransportLayerProps X p a) (\<lambda>_. strm X Q) (strm X Q)"
proof -
  let ?P = "\<lambda>x. strm X Q x \<and> unnamed a x"
  have env: "triple ?P (on_env f) (\<lambda>_. ?P) (strm X Q)" if "\<And>L. keeps (Q L) f" for f :: "('env, unit) act"
    using triple_conj[OF strm_env[OF that] keeps_on_env[of "unnamed a" f]] by (rule triple_conseq) (auto simp: unnamed_def)
  have host: "triple ?P (change_session a (\<lambda>x. x\<lparr>ss_clientHostName := name\<rparr>)) (\<lambda>_. ?P) (strm X Q)" for name
    unfolding triple_def by (auto simp: change_session_def change_server_def strm_def strm_at_def unnamed_def)
  have m: "triple ?P
      (case (map_of p ''MonitoringEnabled'', map_of p ''HeartbeatPeriod'', map_of p ''InactivityTimeout'') of
          (Some (PropBool enabled), Some (PropInt period), Some (PropInt timeout)) \<Rightarrow>
            act_if enabled (on_env (startMonitoring X a period timeout))
        | _ \<Rightarrow> act_return ()) (\<lambda>_. ?P) (strm X Q)"
    by (auto simp: act_if_def split: option.splits prop_value.splits intro!: triple_return env monitors)
  have h: "triple ?P
      (case map_of p ''HostName'' of
          Some (PropString name) \<Rightarrow> change_session a (\<lambda>x. x\<lparr>ss_clientHostName := name\<rparr>) | _ \<Rightarrow> act_return ()) (\<lambda>_. ?P) (strm X Q)"
    by (auto split: option.splits prop_value.splits intro!: triple_return host)
  have i: "triple ?P
      (case (map_of p ''Reconnected'', map_of p ''ClientId'') of
          (Some (PropBool reconnected), Some (PropString c)) \<Rightarrow> registerClientId X c reconnected a
        | _ \<Rightarrow> act_return ()) (\<lambda>_. strm X Q) (strm X Q)"
    by (auto split: option.splits prop_value.splits intro!: triple_return strm_register_id)
  show ?thesis
    unfolding handleTransportLayerProps_def
    by (intro triple_bind[OF m] triple_bind[OF h] triple_bind[OF i] keeps_bind strm_session) simp_all
qed

end

lemma quiet_session_streaming [simp]: "quiet_session Q x \<Longrightarrow> quiet_session Q (x\<lparr>ss_packetHandler := StreamingPacketCb c\<rparr>)"
  by (simp add: quiet_session_def)

lemma quiet_session_init [simp]: "quiet_session Q (ServerSession_init c)"
  by (simp add: quiet_session_def ServerSession_init_def)

context reader_env
begin

lemma strm_server:
  assumes "\<And>s. streamingManager (f s) = streamingManager s" "\<And>s. fst ` set (sessionHandlers s) \<subseteq> fst ` set (sessionHandlers (f s))"
    "\<And>s. sessionObjects (f s) = sessionObjects s" "\<And>s h. deviceHandlers (f s) = Some h \<Longrightarrow> deviceHandlers s = Some h \<or> quiet_device Q h"
  shows "keeps (strm X Q) (change_server f)"
  using assms(2,4) by (intro keepsI) (fastforce simp: change_server_def strm_def strm_at_def assms(1,3))

lemma strm_configure: "keeps (strm X Q) (setUpConfigProtocolCallbacks X a p)"
proof -
  let ?new = "\<lambda>cb pcb x. x\<lparr>ss_configHandler := ConfigServerCb cb, ss_packetHandler := ConfigPacketCb pcb\<rparr>"
  have set_up: "triple (strm X Q) (on_env (setUpConfigProtocolServerCb X a t)) (\<lambda>(cb, pcb) x. strm X Q x \<and> (\<forall>y. quiet_session Q (?new cb pcb y))) (strm X Q)" for t
    unfolding triple_def
  proof (intro allI impI)
    fix x
    assume x: "strm X Q x"
    obtain r e1 where h: "setUpConfigProtocolServerCb X a t (snd x) = (r, e1)" by fastforce
    have "strm X Q (snd (on_env (setUpConfigProtocolServerCb X a t) x))" by (rule keeps_snd[OF strm_env[OF configures] x])
    then show "case on_env (setUpConfigProtocolServerCb X a t) x of (Inl _, e1) \<Rightarrow> strm X Q e1
        | (Inr v, e1) \<Rightarrow> (case v of (cb, pcb) \<Rightarrow> \<lambda>x. strm X Q x \<and> (\<forall>y. quiet_session Q (?new cb pcb y))) e1"
      using h configured[of a t "snd x" _ _ e1] by (cases x; cases r) (auto simp: on_env_def)
  qed
  have rest: "triple (\<lambda>x. strm X Q x \<and> (\<forall>y. quiet_session Q (?new cb pcb y)))
      (act_seq (change_session a (?new cb pcb)) (case cb of None \<Rightarrow> act_return () | Some f \<Rightarrow> on_env (f p))) (\<lambda>_. strm X Q) (strm X Q)" for cb pcb
  proof (rule triple_point)
    fix x
    assume x: "strm X Q x \<and> (\<forall>y. quiet_session Q (?new cb pcb y))"
    then have q: "\<And>y. quiet_session Q (?new cb pcb y)" by blast
    have "keeps (Q L) (f p)" if "cb = Some f" for L f using q[of "ServerSession_init []"] that by (simp add: quiet_session_def)
    then have "keeps (strm X Q) (act_seq (change_session a (?new cb pcb)) (case cb of None \<Rightarrow> act_return () | Some f \<Rightarrow> on_env (f p)))"
      using q by (auto intro!: keeps_bind keeps_return strm_session strm_env split: option.splits)
    then show "\<exists>P. P x \<and> triple P (act_seq (change_session a (?new cb pcb)) (case cb of None \<Rightarrow> act_return () | Some f \<Rightarrow> on_env (f p))) (\<lambda>_. strm X Q) (strm X Q)"
      using x by blast
  qed
  show ?thesis
    unfolding setUpConfigProtocolCallbacks_def
    by (intro keeps_bind[OF keeps_from_server] triple_bind[OF set_up]) (auto intro: rest split: prod.splits)
qed

lemma strm_accept: "keeps (strm X Q) (acceptConfigConnection X a p)"
  unfolding acceptConfigConnection_def
  by (intro keeps_bind keeps_from_server strm_session strm_server strm_env connected strm_configure)
    (auto simp: incrementConfigConnectionCount_def Let_def)

lemma strm_report: "keeps (strm X Q) (on_env (reportConnectError X a p code msg))"
  by (intro strm_env) (auto simp: reportConnectError_def intro!: act_rules writer_quiet split: sum.splits config_error.splits)

lemma strm_connect: "strm X Q x \<Longrightarrow> strm X Q (snd (connectConfigProtocol X a p x))"
proof -
  have "keeps (strm X Q) (act_seq (releaseOtherControlConnectionsInternal X a) (acceptConfigConnection X a p))"
    unfolding releaseOtherControlConnectionsInternal_def by (intro act_rules strm_release strm_accept)
  then show "strm X Q x \<Longrightarrow> strm X Q (snd (connectConfigProtocol X a p x))"
    using keeps_snd[OF strm_report] keeps_snd[OF strm_accept] keeps_snd by (cases x) (auto simp: connectConfigProtocol_def)
qed

lemma strm_streaming_init:
  "triple (\<lambda>x. strm X Q x \<and> ss_clientId (sessionObjects (fst x) a) \<in> fst ` set (sessionHandlers (fst x))) (handleStreamingInit X a) (\<lambda>_. strm X Q) (strm X Q)"
proof -
  have r: "triple (\<lambda>x. strm X Q x \<and> c \<in> fst ` set (sessionHandlers (fst x))) (on_manager (registerClient c rec th cm)) (\<lambda>_. strm X Q) (strm X Q)" for c rec th cm
  proof (rule keepsI)
    fix x
    assume x: "strm X Q x \<and> c \<in> fst ` set (sessionHandlers (fst x))"
    obtain v m' where f: "registerClient c rec th cm (streamingManager (fst x)) = (v, m')" by fastforce
    have "mgr_ok (globalIdOf X) m'"
      using mgr_ok_registerClient[of "globalIdOf X" "streamingManager (fst x)" c rec th cm] x f by (simp add: strm_def strm_at_def sub_ok_def)
    moreover have "live m' = live (streamingManager (fst x))" using registerClient_subs[OF f] by (simp add: live_def fun_eq_iff)
    ultimately show "strm X Q (snd (on_manager (registerClient c rec th cm) x))"
      using x f registerClient_subs[OF f] by (cases x) (auto simp: on_manager_def strm_def strm_at_def sub_ok_def)
  qed
  have each: "keeps (strm X Q) (act_each (\<lambda>(i, sg). on_env (sendSignalAvailable (writerOf X a) i sg)) l)" for l
    by (auto intro!: keeps_each strm_env writer_quiet)
  have rest: "triple (\<lambda>x. strm X Q x \<and> ss_clientId y \<in> fst ` set (sessionHandlers (fst x)))
      (act_seq (on_manager (registerClient (ss_clientId y) (ss_reconnected y) third fourth))
        (act_seq (change_session a (\<lambda>z. z\<lparr>ss_packetHandler := StreamingPacketCb (ss_clientId y)\<rparr>))
        (act_bind (from_server (\<lambda>s. Inr (getRegisteredSignals (streamingManager s)))) (\<lambda>signals.
         act_seq (act_each (\<lambda>(i, sg). on_env (sendSignalAvailable (writerOf X a) i sg)) signals)
        (act_seq (on_env (sendStreamingInitDone (writerOf X a)))
                 (on_env (clientConnectedHandler X (ss_clientId y) (endpointOf X a) True Control (ss_clientHostName y)))))))) (\<lambda>_. strm X Q) (strm X Q)" for y third fourth
    by (intro triple_bind[OF r] keeps_bind keeps_from_server each strm_session strm_env writer_quiet connected) simp
  show ?thesis
    unfolding handleStreamingInit_def
  proof (rule triple_from_server)
    fix v :: "'env ServerSession \<times> SizeT \<times> SizeT"
    obtain y third fourth where v: "v = (y, third, fourth)" by (cases v)
    show "triple (\<lambda>(s, e). (strm X Q (s, e) \<and> ss_clientId (sessionObjects (fst (s, e)) a) \<in> fst ` set (sessionHandlers (fst (s, e)))) \<and>
          Inr (sessionObjects s a, serverPayloadSizeMax s, packetStreamingReleaseThreshold s) = Inr v)
        (case v of (x, third, fourth) \<Rightarrow>
     act_seq (on_manager (registerClient (ss_clientId x) (ss_reconnected x) third fourth))
    (act_seq (change_session a (\<lambda>y. y\<lparr>ss_packetHandler := StreamingPacketCb (ss_clientId x)\<rparr>))
    (act_bind (from_server (\<lambda>s. Inr (getRegisteredSignals (streamingManager s)))) (\<lambda>signals.
     act_seq (act_each (\<lambda>(i, sg). on_env (sendSignalAvailable (writerOf X a) i sg)) signals)
    (act_seq (on_env (sendStreamingInitDone (writerOf X a)))
             (on_env (clientConnectedHandler X (ss_clientId x) (endpointOf X a) True Control (ss_clientHostName x))))))))
        (\<lambda>_. strm X Q) (strm X Q)"
      unfolding v prod.case by (rule triple_conseq[OF rest]) auto
  qed auto
qed

lemma strm_new_session: "keeps (strm X Q) (initSessionHandler a)"
  by (rule keepsI) (fastforce simp: initSessionHandler_def change_server_def Let_def strm_def strm_at_def om_insert_def)

end

section \<open>A server in use\<close>

text \<open>The manager of a new server.\<close>

lemma each_step: "act_each f (y # l) m = (Inr u, m') \<Longrightarrow> f y m = (Inr v, m1) \<Longrightarrow> act_each f l m1 = (Inr u, m')"
  by (simp add: act_bind_def)

lemma registered_start:
  "act_each (\<lambda>sg. act_if (isPublic X sg) (act_bind (registerSignal g sg) (\<lambda>_. act_return ()))) sigs m = (Inr u, m') \<Longrightarrow>
   mgr_ok g m \<Longrightarrow> unat (signalNumericIdCounter m) + length sigs < 2 ^ 32 \<Longrightarrow> mgr_ok g m' \<and> same_subs m m'"
proof (induction sigs arbitrary: m)
  case (Cons sg sigs)
  show ?case
  proof (cases "isPublic X sg")
    case False
    then show ?thesis using Cons by (simp add: act_if_def act_bind_return)
  next
    case True
    let ?c = "signalNumericIdCounter m"
    obtain r m1 where r: "registerSignal g sg m = (r, m1)" by fastforce
    have "r \<noteq> Inl x" for x using Cons.prems(1) True r by (auto simp: act_if_def act_bind_def)
    then obtain i where i: "r = Inr i" by (cases r) auto
    then have c: "signalNumericIdCounter m1 = ?c + 1" using r by (auto simp: registerSignal_def Let_def split: if_splits)
    have "?c \<noteq> - 1"
    proof
      assume "?c = - 1"
      then show False using Cons.prems(3) by (simp add: unsigned_minus_1_eq_mask mask_eq_exp_minus_1)
    qed
    then have ok: "mgr_ok g m1" "same_subs m m1"
      using mgr_ok_registerSignal[OF Cons.prems(2), of sg] registerSignal_same[of m g sg] r by simp_all
    have "unat (?c + 1) \<le> unat ?c + 1" by (simp add: unat_word_ariths(1))
    then have "unat (signalNumericIdCounter m1) + length sigs < 2 ^ 32" using c Cons.prems(3) by simp
    moreover have "act_each (\<lambda>sg. act_if (isPublic X sg) (act_bind (registerSignal g sg) (\<lambda>_. act_return ()))) sigs m1 = (Inr u, m')"
      by (rule each_step[OF Cons.prems(1)]) (use True r i in \<open>simp add: act_if_def act_bind_def act_return_def\<close>)
    ultimately show ?thesis using Cons.IH[of m1] ok same_subs_trans by blast
  qed
qed (simp add: act_return_def)

lemma strm_start:
  assumes "NativeServer_init X config signals = Inr s" and "length signals < 2 ^ 32" and "Q (\<lambda>_. False) e"
  shows "strm X Q (s, e)"
proof -
  let ?reg = "act_each (\<lambda>sg. act_if (isPublic X sg) (act_bind (registerSignal (globalIdOf X) sg) (\<lambda>_. act_return ()))) signals"
  obtain m where m: "?reg StreamingManager_init = (Inr (), m)" and s: "streamingManager s = m" "deviceHandlers s = None"
      "sessionObjects s = (\<lambda>_. ServerSession_init [])"
    using assms(1) by (auto simp: NativeServer_init_def split: prod.splits sum.splits)
  have "mgr_ok (globalIdOf X) StreamingManager_init" by (simp add: StreamingManager_init_def mgr_ok_def om_ok_def)
  moreover have "unat (signalNumericIdCounter StreamingManager_init) + length signals < 2 ^ 32" using assms(2) by (simp add: StreamingManager_init_def)
  ultimately have "mgr_ok (globalIdOf X) m" "same_subs StreamingManager_init m" using registered_start[OF m] by blast+
  then have "sub_ok (globalIdOf X) m" "live m = (\<lambda>_. False)" "streamingClientsIds m = []"
    by (auto simp: sub_ok_def same_subs_def live_def subscribers_def StreamingManager_init_def)
  then show ?thesis using assms(3) s by (simp add: strm_def strm_at_def)
qed

lemma session_key: "conn_ok s \<Longrightarrow> a \<in> sessions s \<Longrightarrow> ss_clientId (sessionObjects s a) \<in> fst ` set (sessionHandlers s)"
  by (force simp: conn_ok_def sessions_def)

context reader_env
begin

lemma strm_message:
  assumes "strm X Q (s, e)" and "conn_ok s" and "a \<in> sessions s" and "in_order s a m"
  shows "strm X Q (snd (receiveMessage X refs a m (s, e)))"
proof (rule message_keeps)
  have q: "quiet_session Q (sessionObjects s a)" using assms(1) by (simp add: strm_def strm_at_def)
  show "strm X Q (snd (on_env (cb p) (s, e)))" if "ss_configHandler (sessionObjects s a) = ConfigServerCb (Some cb)" for cb p
    using q that by (intro keeps_snd[OF strm_env] assms(1)) (simp add: quiet_session_def)
  show "strm X Q (snd (on_env (cb w) (s, e)))" if "ss_packetHandler (sessionObjects s a) = ConfigPacketCb (Some cb)" for cb w
    using q that by (intro keeps_snd[OF strm_env] assms(1)) (simp add: quiet_session_def)
  show "strm X Q (snd (changeSubscription (sessionOf X refs a (sessionObjects s a)) (\<lambda>sid. from_server (\<lambda>s. findRegisteredSignal sid (streamingManager s)))
      (handleSignalSubscription X refs) i sid b (s, e)))" if m: "m = (if b then MsgSubscribe i sid else MsgUnsubscribe i sid)" for i sid b
  proof -
    let ?I = "\<lambda>x. strm X Q x \<and> (b \<longrightarrow> ss_clientId (sessionObjects (fst x) a) \<in> set (streamingClientsIds (streamingManager (fst x))))"
    let ?c = "\<lambda>x. ss_clientId (sessionObjects (fst x) a)"
    have ch: "?I (snd (handleSignalSubscription X refs i sg b (?c x) x))" if x: "?I x" for sg x
    proof -
      let ?y = "snd (handleSignalSubscription X refs i sg b (?c x) x)"
      have "strm X Q ?y" by (rule triple_snd[OF strm_subscription]) (use x in simp)
      moreover have "sessionObjects (fst ?y) = sessionObjects (fst x) \<and>
          streamingClientsIds (streamingManager (fst ?y)) = streamingClientsIds (streamingManager (fst x))"
        by (rule keeps_snd[OF subscription_kept]) simp
      ultimately show ?thesis using x by metis
    qed
    have "keeps ?I (changeSubscription (sessionOf X refs a (sessionObjects s a)) (\<lambda>sid. from_server (\<lambda>s. findRegisteredSignal sid (streamingManager s)))
        (handleSignalSubscription X refs) i sid b)"
    proof (rule changeSubscription_keeps)
      show "keeps ?I (from_server (\<lambda>s. findRegisteredSignal sid (streamingManager s)))" by (rule keeps_from_server)
      show "?I (snd (handleSignalSubscription X refs i sg b (getClientId (sessionOf X refs a (sessionObjects s a)) x) x))" if "?I x" for sg x
        using ch[OF that, of sg] by (simp add: session_client)
      show "keeps ?I (scheduleWrite (sessionOf X refs a (sessionObjects s a)) ts)" for ts
        unfolding session_write by (rule triple_conj[OF strm_env[OF writes] keeps_on_env]) simp
    qed
    from keeps_snd[OF this, of "(s, e)"] show ?thesis using assms(1,4) m by (auto simp: in_order_def Let_def split: if_splits)
  qed
  show "strm X Q (snd (handleStreamingInit X a (s, e)))"
    by (rule triple_snd[OF strm_streaming_init]) (simp add: assms(1) session_key[OF assms(2,3)])
  show "strm X Q (snd (handleTransportLayerProps X p a (s, e)))" if "m = MsgProperties j" for j p
    by (rule triple_snd[OF strm_props]) (use assms(1,4) that in \<open>simp add: in_order_def unnamed_def Let_def\<close>)
qed (auto intro: strm_client_signal strm_ack strm_received strm_connect assms(1))

lemma strm_exec:
  assumes "strm X Q (s, e)" and "conn_ok s" and "can_happen op s" and "\<And>h. op = SSetDevice h \<Longrightarrow> quiet_device Q h"
  shows "strm X Q (snd (server_exec X refs op (s, e)))"
proof -
  have k: "strm X Q (snd (f (s, e)))" if "keeps (strm X Q) f" for f :: "('sig, 'env, unit) server_act"
    using keeps_snd[OF that assms(1)] .
  show ?thesis
  proof (cases op)
    case (SMessage a m)
    then show ?thesis using assms(1-3) by (simp add: can_happen_def strm_message)
  next
    case (SAddSignal sg)
    have "strm X Q (snd (addSignal X sg (s, e)))"
      by (rule triple_snd[OF strm_add]) (use assms(1,3) SAddSignal in \<open>simp add: can_happen_def\<close>)
    then show ?thesis using SAddSignal by simp
  next
    case SResetDevice
    have "keeps (strm X Q) resetStreamingToDeviceHandlers"
      unfolding resetStreamingToDeviceHandlers_def by (rule strm_server) (auto simp: quiet_device_def intro: keeps_return)
    then show ?thesis using k SResetDevice by simp
  next
    case (SSetDevice h)
    have "keeps (strm X Q) (setStreamingToDeviceHandlers h)"
      unfolding setStreamingToDeviceHandlers_def by (rule strm_server) (use assms(4) SSetDevice in auto)
    then show ?thesis using k SSetDevice by simp
  qed (auto simp: onSessionError_def releaseSessionHandler_def intro!: k strm_new_session strm_release strm_remove_signals strm_send
      strm_process strm_available strm_do_subscribe)
qed

lemma strm_reach:
  assumes "server_reach X G e0 x" and "connect_callbacks_return X" and "\<And>h. G (SSetDevice h) \<Longrightarrow> quiet_device Q h" and "Q (\<lambda>_. False) e0"
  shows "strm X Q x"
  using assms(1)
proof (induction rule: server_reach.induct)
  case (server_start config signals s)
  then show ?case using strm_start[of X config signals s Q e0] assms(4) by simp
next
  case (server_step s e op refs)
  have "conn_ok s" using reach_conn[OF server_step.hyps(1) assms(2)] by simp
  then show ?case using strm_exec[OF server_step.IH] server_step.hyps(2,3) assms(3) by blast
qed

end

section \<open>Streaming clients have sessions\<close>

text \<open>Nothing is asked of the environment.\<close>

abbreviation any_env :: "(string \<Rightarrow> bool) \<Rightarrow> 'env \<Rightarrow> bool" where
  "any_env \<equiv> \<lambda>_ _. True"

lemma keeps_any: "keeps (\<lambda>_. True) f"
  by (simp add: triple_def split: prod.splits sum.splits)

interpretation any: reader_env X any_env for X :: "('sig, 'env) server_ext"
  by unfold_locales (auto simp: keeps_any quiet_session_def split: sum.splits)


section \<open>Readers follow subscribers\<close>

text \<open>
  \<open>A e sid\<close> is how often the reader of a signal has been started less how often it has been
  stopped. The two handlers start and stop it and do not throw; the other callbacks leave it alone.
\<close>

definition leaves_readers :: "('env \<Rightarrow> string \<Rightarrow> int) \<Rightarrow> ('env, 'a) act \<Rightarrow> bool" where
  "leaves_readers A f \<longleftrightarrow> (\<forall>e. A (snd (f e)) = A e)"

definition readers_counted :: "('sig, 'env) server_ext \<Rightarrow> ('env \<Rightarrow> string \<Rightarrow> int) \<Rightarrow> bool" where
  "readers_counted X A \<longleftrightarrow>
     (\<forall>a ts. leaves_readers A (writeTo X a ts)) \<and> (\<forall>a p t. leaves_readers A (startMonitoring X a p t)) \<and>
     (\<forall>a. leaves_readers A (closeIfOpen X a)) \<and> (\<forall>c p b t h. leaves_readers A (clientConnectedHandler X c p b t h)) \<and>
     (\<forall>c. leaves_readers A (clientDisconnectedHandler X c)) \<and> (\<forall>a t. leaves_readers A (setUpConfigProtocolServerCb X a t)) \<and>
     (\<forall>a t e cb pcb e1. setUpConfigProtocolServerCb X a t e = (Inr (cb, pcb), e1) \<longrightarrow>
        (\<forall>f p. cb = Some f \<longrightarrow> leaves_readers A (f p)) \<and> (\<forall>f w. pcb = Some f \<longrightarrow> leaves_readers A (f w))) \<and>
     (\<forall>sg e. \<exists>e1. signalSubscribedHandler X sg e = (Inr (), e1) \<and> A e1 = (A e)(globalIdOf X sg := A e (globalIdOf X sg) + 1)) \<and>
     (\<forall>sg e. \<exists>e1. signalUnsubscribedHandler X sg e = (Inr (), e1) \<and> A e1 = (A e)(globalIdOf X sg := A e (globalIdOf X sg) - 1))"

definition device_leaves_readers :: "('env \<Rightarrow> string \<Rightarrow> int) \<Rightarrow> 'env device_handlers \<Rightarrow> bool" where
  "device_leaves_readers A h \<longleftrightarrow> (\<forall>sid j. leaves_readers A (signalAvailableHandler h sid j)) \<and> (\<forall>sid. leaves_readers A (signalUnavailableHandler h sid)) \<and>
     (\<forall>sid p. leaves_readers A (packetHandler h sid p)) \<and> (\<forall>sid b. leaves_readers A (signalSubscriptionAckCallback h sid b))"

text \<open>Exactly the readers of \<open>L\<close> run, on top of what ran before.\<close>

definition running :: "('sig, 'env) server_ext \<Rightarrow> ('env \<Rightarrow> string \<Rightarrow> int) \<Rightarrow> (string \<Rightarrow> int) \<Rightarrow> (string \<Rightarrow> bool) \<Rightarrow> 'env \<Rightarrow> bool" where
  "running X A B L e \<longleftrightarrow> (readers_counted X A \<longrightarrow> (\<forall>sid. A e sid = B sid + (if L sid then 1 else 0)))"

lemma running_keeps: "(readers_counted X A \<Longrightarrow> leaves_readers A f) \<Longrightarrow> keeps (running X A B L) f"
  by (rule keepsI) (auto simp: running_def leaves_readers_def)

lemma counted_callbacks:
  "readers_counted X A \<Longrightarrow> setUpConfigProtocolServerCb X a t e = (Inr (Some f, pcb), e1) \<Longrightarrow> leaves_readers A (f p)"
  "readers_counted X A \<Longrightarrow> setUpConfigProtocolServerCb X a t e = (Inr (cb, Some g), e1) \<Longrightarrow> leaves_readers A (g w)"
  unfolding readers_counted_def by blast+

lemma counted_handlers:
  "readers_counted X A \<Longrightarrow> \<exists>e1. signalSubscribedHandler X sg e = (Inr (), e1) \<and> A e1 = (A e)(globalIdOf X sg := A e (globalIdOf X sg) + 1)"
  "readers_counted X A \<Longrightarrow> \<exists>e1. signalUnsubscribedHandler X sg e = (Inr (), e1) \<and> A e1 = (A e)(globalIdOf X sg := A e (globalIdOf X sg) - 1)"
  unfolding readers_counted_def by (elim conjE, erule allE, erule allE, assumption)+

interpretation counted: reader_env X "running X A B" for X :: "('sig, 'env) server_ext" and A B
proof
  show "keeps (running X A B L) (writeTo X a ts)" "keeps (running X A B L) (startMonitoring X a p t)" "keeps (running X A B L) (closeIfOpen X a)"
    "keeps (running X A B L) (clientConnectedHandler X c ep b ct h)" "keeps (running X A B L) (clientDisconnectedHandler X c)"
    "keeps (running X A B L) (setUpConfigProtocolServerCb X a ct)" for L a ts p t c ep b ct h
    by (rule running_keeps; simp add: readers_counted_def)+
  show "quiet_session (running X A B) (x\<lparr>ss_configHandler := ConfigServerCb cb, ss_packetHandler := ConfigPacketCb pcb\<rparr>)"
    if "setUpConfigProtocolServerCb X a ct e = (Inr (cb, pcb), e1)" for a ct e cb pcb e1 x
    using that unfolding quiet_session_def by (auto intro!: running_keeps dest: counted_callbacks)
  show "case r of Inr _ \<Rightarrow> running X A B (L(globalIdOf X sg := True)) e1 | Inl _ \<Rightarrow> \<forall>L'. running X A B L' e1"
    if "running X A B L e" "\<not> L (globalIdOf X sg)" "signalSubscribedHandler X sg e = (r, e1)" for L e sg r e1
  proof (cases "readers_counted X A")
    case True
    then obtain e2 where e2: "signalSubscribedHandler X sg e = (Inr (), e2)" "A e2 = (A e)(globalIdOf X sg := A e (globalIdOf X sg) + 1)"
      using counted_handlers by meson
    then show ?thesis using that True by (auto simp: running_def)
  qed (auto simp: running_def split: sum.splits)
  show "case r of Inr _ \<Rightarrow> running X A B (L(globalIdOf X sg := False)) e1 | Inl _ \<Rightarrow> \<forall>L'. running X A B L' e1"
    if "running X A B L e" "L (globalIdOf X sg)" "signalUnsubscribedHandler X sg e = (r, e1)" for L e sg r e1
  proof (cases "readers_counted X A")
    case True
    then obtain e2 where e2: "signalUnsubscribedHandler X sg e = (Inr (), e2)" "A e2 = (A e)(globalIdOf X sg := A e (globalIdOf X sg) - 1)"
      using counted_handlers by meson
    then show ?thesis using that True by (auto simp: running_def)
  qed (auto simp: running_def split: sum.splits)
qed

text \<open>C14: The reader of a signal runs exactly while the signal has subscribers: whatever subscriptions,
  disconnections, dropped sessions, removed signals and exceptions of other callbacks occur, the
  reader has been started once more than it has been stopped if the signal has a subscriber, and
  as often as it has been stopped if it has none.\<close>

theorem readers_follow_subscribers:
  assumes "server_reach X G e0 (s, e)" and "connect_callbacks_return X" and "readers_counted X A"
    and "\<And>h. G (SSetDevice h) \<Longrightarrow> device_leaves_readers A h"
  shows "A e sid = A e0 sid + (if subscribers (streamingManager s) sid = [] then 0 else 1)"
proof -
  have "strm X (running X A (A e0)) (s, e)"
  proof (rule counted.strm_reach[OF assms(1,2)])
    show "quiet_device (running X A (A e0)) h" if "G (SSetDevice h)" for h
      using assms(4)[OF that] by (auto simp: quiet_device_def device_leaves_readers_def intro!: running_keeps)
  qed (simp add: running_def)
  then show ?thesis using assms(3) by (simp add: strm_def strm_at_def running_def live_def)
qed

text \<open>A client that streams and subscribes, for the server of \<open>exclusive_control_holds_witness\<close>.\<close>

definition ex_streams :: "(string, ex_env) server_op list" where
  "ex_streams = [SNewSession 0, SMessage 0 MsgInitRequest, SMessage 0 (MsgSubscribe 1 ''s'')]"

definition ex_count :: "ex_env \<Rightarrow> string \<Rightarrow> int" where
  "ex_count e sid = int (length (filter (\<lambda>x. x = (sid, True)) (snd e))) - int (length (filter (\<lambda>x. x = (sid, False)) (snd e)))"

lemma ex_counted: "readers_counted ex_ext ex_count"
  by (auto simp: readers_counted_def leaves_readers_def ex_ext_def ex_count_def act_return_def fun_eq_iff)

lemmas ex_stream_simps = ex_simps ex_streams_def handleStreamingInit_def on_manager_def registerClient_def getRegisteredSignals_def
  sendSignalAvailable_def scheduleMessage_def sendStreamingInitDone_def writerOf_def calculatePayloadSize_def RegisteredServerSignal_init_def
  changeSubscription_def findRegisteredSignal_def handleSignalSubscription_def act_catch_def on_manager_env_def registerSignalSubscriber_def
  act_if_def sendSubscribingDone_def

lemma digit_0: "char_of (48 :: nat) = CHR ''0''"
  by code_simp

lemma ex_streams_run:
  "can_run ex_ext ex_streams ex_start \<and> ex_count (snd (server_run ex_ext ex_streams ex_start)) ''s'' = 1 \<and>
   ''AssignedByServer/0'' \<in> set (getRegisteredClientsIds (streamingManager (fst (server_run ex_ext ex_streams ex_start))))"
  by (simp add: ex_stream_simps can_happen_def sessions_def in_order_def ex_count_def getRegisteredClientsIds_def dec_string.simps digit_0)


theorem readers_follow_subscribers_witness:
  "subscribers (streamingManager (fst (server_run ex_ext ex_streams ex_start))) ''s'' \<noteq> [] \<and>
   ex_count (snd (server_run ex_ext ex_streams ex_start)) ''s'' = 1"
proof -
  let ?x = "server_run ex_ext ex_streams ex_start" and ?G = "\<lambda>op. \<forall>h. op \<noteq> SSetDevice h"
  have "list_all ?G ex_streams" by (simp add: ex_streams_def)
  then have "server_reach ex_ext ?G ([], []) (fst ?x, snd ?x)"
    using run_reach[OF ex_start_reach] ex_streams_run by simp
  from readers_follow_subscribers[OF this ex_callbacks ex_counted, of "''s''"]
  show ?thesis using ex_streams_run by (simp add: ex_count_def split: if_splits)
qed

section \<open>Limits of the packet server of a client\<close>

lemma bind_from_server: "act_bind (from_server (\<lambda>s. Inr (g s))) k (s, e) = k (g s) (s, e)"
  by (simp add: act_bind_def from_server_def)

lemma bind_on_manager: "f (streamingManager s) = (Inr v, m) \<Longrightarrow> act_bind (on_manager f) k (s, e) = k v (s\<lparr>streamingManager := m\<rparr>, e)"
  by (simp add: act_bind_def on_manager_def)

text \<open>
  The packet server of a new streaming client has the configured release threshold as its limit
  for cacheable payloads and the configured payload limit as its release threshold.
\<close>

theorem streaming_init_swaps_limits:
  assumes "mgr_ok g (streamingManager s)" and "ss_clientId (sessionObjects s a) \<notin> set (streamingClientsIds (streamingManager s))"
  shows "map_of (packetStreamingServers (streamingManager (fst (snd (handleStreamingInit X a (s, e)))))) (ss_clientId (sessionObjects s a)) =
    Some (PacketStreamingServer_init (packetStreamingReleaseThreshold s) (serverPayloadSizeMax s))"
proof -
  let ?x = "sessionObjects s a" and ?srv = "PacketStreamingServer_init (packetStreamingReleaseThreshold s) (serverPayloadSizeMax s)"
  let ?I = "\<lambda>y :: ('a, 'b) NativeServer \<times> 'b. map_of (packetStreamingServers (streamingManager (fst y))) (ss_clientId ?x) = Some ?srv"
  obtain m' where m: "registerClient (ss_clientId ?x) (ss_reconnected ?x) (serverPayloadSizeMax s) (packetStreamingReleaseThreshold s) (streamingManager s) = (Inr (), m')"
    using assms(2) by (simp add: registerClient_def)
  have "ss_clientId ?x \<notin> fst ` set (packetStreamingServers (streamingManager s))" using assms by (simp add: mgr_ok_def)
  then have "map_of (packetStreamingServers (streamingManager s)) (ss_clientId ?x) = None" by (simp add: map_of_eq_None_iff)
  then have "map_of (packetStreamingServers m') (ss_clientId ?x) = Some ?srv"
    using m assms(2) by (auto simp: registerClient_def Let_def om_insert_def om_has_def map_of_om_erase map_add_def split: if_splits option.splits)
  then have start: "?I (s\<lparr>streamingManager := m'\<rparr>, e)" by simp
  have pkt: "keeps ?I (change_session a (\<lambda>y. y\<lparr>ss_packetHandler := h\<rparr>))" for h
    by (rule keepsI) (auto simp: change_session_def change_server_def)
  have env: "keeps ?I (on_env f)" for f :: "('b, unit) act" by (rule keeps_on_env) simp
  have "keeps ?I (act_seq (change_session a (\<lambda>y. y\<lparr>ss_packetHandler := StreamingPacketCb (ss_clientId ?x)\<rparr>))
    (act_bind (from_server (\<lambda>s. Inr (getRegisteredSignals (streamingManager s)))) (\<lambda>signals.
     act_seq (act_each (\<lambda>(i, sg). on_env (sendSignalAvailable (writerOf X a) i sg)) signals)
    (act_seq (on_env (sendStreamingInitDone (writerOf X a)))
             (on_env (clientConnectedHandler X (ss_clientId ?x) (endpointOf X a) True Control (ss_clientHostName ?x)))))))"
    by (auto intro!: keeps_bind keeps_from_server keeps_each pkt env)
  from keeps_snd[OF this start] show ?thesis
    unfolding handleStreamingInit_def by (simp only: bind_from_server prod.case bind_on_manager m)
qed

end
