(* ===== verification/Spec2Isabelle.thy ===== *)
theory Spec2Isabelle
  imports Prelude Packet Connection SignalPath SignalWiring TailReader PacketBuffer Property PropertyObject Permissions Tags Component PacketStreaming PacketStreamingClient PacketStreamingLink NativeTransport ConfigPacket NativeSession WriteTasks StreamingManager NativeServer NativeServerStreaming
begin

text \<open>
  \<^bold>\<open>openDAQ: the object model, the data path and native streaming\<close>

  openDAQ is a C++ SDK for data acquisition. Devices are trees of components, each of which is a
  property object with permissions and tags. Signals of the tree send packets through connections
  to input ports; the memory of packets comes from packet buffers. A device is made available over
  the network by a server: packet streaming turns packets into buffers with a header, native
  streaming frames them and the commands about signals as messages of a session, and the
  configuration protocol exchanges requests and replies on the same session. This library models
  these parts from their sources under \<^verbatim>\<open>src/\<close> and proves what makes them correct. Paths below
  are relative to \<^verbatim>\<open>src/\<close>.

  \<^bold>\<open>Theories\<close>

  \<^item> \<open>Prelude\<close>: the error codes of \<^verbatim>\<open>core/coretypes/include/coretypes/errors.h\<close> with their 32-bit
    values; results and exceptions as sums; insertion-ordered maps for \<^verbatim>\<open>tsl::ordered_map\<close> and the
    standard maps, with the contract \<open>keyed_store\<close> of such a member; the contract \<open>fifo\<close> of a queue.

  \<^item> \<open>Packet\<close>: sample types, data rules, descriptors, event packets (\<^verbatim>\<open>core/opendaq/signal\<close>).

  \<^item> \<open>Connection\<close>: \<^verbatim>\<open>connection_impl.cpp\<close>. The record \<open>connection\<close> has the members of the class;
    every method is a definition. The queue interprets \<open>fifo\<close>: packets leave in order with the gap
    events the connection inserts; the counters behind the queries equal a scan of the queue in
    every reachable state; gaps are detected exactly.

  \<^item> \<open>SignalPath\<close>, \<open>SignalWiring\<close>: \<^verbatim>\<open>signal_impl.h\<close>, \<^verbatim>\<open>input_port_impl.h\<close>. A world of signals, ports and
    connections with their queues, and every call on them as \<open>path_exec\<close>; listeners of ports are
    arbitrary functions of the world. \<open>path_view\<close> is the contract of a view that listeners may keep;
    its interpretations are the wiring, the queues and the descriptors that were told. The wiring
    abstracts the world, each call is an abstract operation on it (\<open>plug\<close>, \<open>unplug\<close>, \<open>dropSignal\<close>,
    \<open>setWrDomain\<close>). Signals and ports agree after any calls and errors, packets reach exactly the
    signal's connections, and connections know the current descriptors while calls succeed.

  \<^item> \<open>TailReader\<close>: \<^verbatim>\<open>reader_impl.h\<close>, \<^verbatim>\<open>tail_reader_impl.cpp\<close>. The reader that empties its connection and keeps
    as many packets as its history needs; the typed readers that convert memory are a parameter
    (\<open>reader_ops\<close>, with \<open>reads_samples\<close> and \<open>reads_domain\<close> saying that they read samples). A read returns
    exactly the last samples that arrived. Gap events, which make every later read throw, and a
    second event in the cache, which corrupts the count, are theorems too.

  \<^item> \<open>PacketBuffer\<close>: \<^verbatim>\<open>packet_buffer_impl.cpp\<close>, the ring buffer whose packets may be released out of
    order. The transition system \<open>pb_step\<close> creates, releases and resizes; live packets never
    overlap, the reported free space is exact, in-order release drains the buffer. The cases in
    which this fails (out of order release after a wrap, empty packets) are theorems too.

  \<^item> \<open>Property\<close>, \<open>PropertyObject\<close>: \<^verbatim>\<open>property_impl.h\<close>, \<^verbatim>\<open>property_object_impl.h\<close>. Objects live in a
    store; handlers of read and write events are lists of actions that may call objects again.
    Shown: a written value is read back converted and clamped, refused writes change nothing, of
    nested writes the innermost wins and no call leaves an update in progress, batched writes equal
    single ones, the property list has its order.

  \<^item> \<open>Permissions\<close>: \<^verbatim>\<open>permission_manager_impl.cpp\<close> and the builders. The tree of managers as a store
    with weak parents; \<open>perm_step\<close> are its operations. Authorization is decided by the nearest
    manager that decides (\<open>decided\<close> is the specification), and recursive updates end.

  \<^item> \<open>Tags\<close>: \<^verbatim>\<open>tags_impl.h\<close>, refining a set of strings.

  \<^item> \<open>Component\<close>: \<^verbatim>\<open>component_impl.h\<close>, \<^verbatim>\<open>folder_impl.h\<close>, \<^verbatim>\<open>ids_parser.h\<close>. Components in a store, with
    attributes and locks, activation, removal, items and lookup by id. The three recursive marks
    (muting, activation, removal) interpret \<open>idempotent_mark\<close>. Removal takes the whole subtree,
    activation reaches exactly the unlocked components, global ids find their components, saved
    values are restored.

  \<^item> \<open>PacketStreaming\<close>, \<open>PacketStreamingClient\<close>, \<open>PacketStreamingLink\<close>:
    \<^verbatim>\<open>shared/libraries/packet_streaming\<close>. The server with its queue, groups of cacheable buffers,
    sent packets and releases; the client with buffers that wait for their domain packet; both at
    the ends of a first-in first-out transport (\<open>link_reach\<close>). The accounting of the server equals
    its queue; the client accepts every buffer and delivers or still holds exactly the packets
    added; with domain packets first the order is kept and nothing is kept after release.

  \<^item> \<open>NativeTransport\<close>, \<open>NativeSession\<close>: \<^verbatim>\<open>shared/libraries/native_streaming_protocol\<close>
    (\<^verbatim>\<open>native_streaming_protocol_types\<close>, \<^verbatim>\<open>base_session_handler.cpp\<close>, \<^verbatim>\<open>client_session_handler.cpp\<close>,
    \<^verbatim>\<open>server_session_handler.cpp\<close>). The transport header, the bytes of every message and the read
    tasks of both sides. \<open>session_writer\<close> is the contract of a session that writes; any sequence of
    messages makes exactly the corresponding callbacks on the other side.

  \<^item> \<open>ConfigPacket\<close>: \<^verbatim>\<open>config_protocol.cpp\<close>, with the round trip of all requests and replies.

  \<^item> \<open>WriteTasks\<close>, \<open>StreamingManager\<close>: \<^verbatim>\<open>streaming_manager.cpp\<close>. The queue of a packet server as
    write tasks, and the registries of signals, clients and subscribers. The tasks carry exactly the
    queued buffers to the client; every operation keeps the registries well-formed, also one that
    throws; a packet goes to exactly the subscribers of its signal.

  \<^item> \<open>NativeServer\<close>, \<open>NativeServerStreaming\<close>: \<^verbatim>\<open>native_streaming_server_handler.cpp\<close>. Sessions by
    client id, configuration connections with their limits and exclusive control, streaming clients,
    signals of clients, composed of the streaming manager and the session handlers. A small Hoare
    logic (\<open>triple\<close>, \<open>keeps\<close>) carries the proofs. \<open>server_reach\<close> are the states of a server in use:
    exclusive control is exclusive, the limit holds and the counters are exact; streaming clients
    have sessions and subscribers are streaming clients.

  \<^bold>\<open>Conventions\<close>

  A class is a record of its members, a call takes the state and returns it with the result. An
  exception is \<open>Inl\<close>, with the state it leaves behind where the code does not restore it. Objects
  that are shared are in a store and referred to by number. Null pointers and empty
  \<^verbatim>\<open>std::function\<close>s are \<open>None\<close>. \<open>SizeT\<close> and \<open>Int64\<close> are 64-bit words. A mutex makes a call atomic:
  concurrency is the interleaving of calls in the step relations. Hash maps iterate in the order of
  insertion. What lies outside (values and their conversion, JSON, floating point arithmetic, the
  network session, callbacks) is a parameter, with what is needed of it as hypotheses, which the
  witnesses discharge for concrete instances.

  \<^bold>\<open>Bounds and fuel\<close>

  \<^item> Reference properties are followed with the number of properties as fuel: a longer chain is a
    cycle, on which the code does not end. Calls of handlers take fuel for their nesting; the
    theorems hold for every amount that gives a result.

  \<^item> Recursion over trees (permissions, removal, activation, events) takes the depth; the theorems
    show that enough fuel gives the result, with the result.

  \<^item> The packet streaming client recurses over waiting packets: their number plus one is shown to be
    enough. \<open>getStreamingWriteTasks\<close> gets the length of the queue plus one, likewise.

  \<^item> \<open>srv_fits\<close> and \<open>link_fits\<close> bound counters and sizes of packet streaming below their wrap-around;
    messages are below \<open>2 ^ 28\<close> bytes, which the transport header can hold; the counter of numeric
    signal ids has not wrapped and a server has fewer than \<open>2 ^ 64\<close> sessions.

  \<^bold>\<open>Not modelled\<close>

  Core types other than as parameters (their lists, dictionaries and numbers are reference-counted
  wrappers of standard ones), JSON, the expression evaluator (generated parser), sockets and timers,
  logging, module loading and discovery, the OPC UA and websocket transports (third-party stacks),
  the remote procedure calls of the configuration protocol, the client side of native streaming
  above its session handler, devices, function blocks, readers other than the tail reader, scheduler and bindings. Of property
  objects cloning and serialization are left out, of components operation modes, search filters and
  status.
\<close>

end
